(* ===== verification/Prelude.thy ===== *)
theory Prelude
  imports Main "HOL-Library.Word" "HOL-Library.Sublist" "HOL-Library.Log_Nat"
begin

text \<open>
  Shared vocabulary of the development: byte strings and the \<open>std::string\<close> operations the
  program uses, IEEE rounding written out on rational numbers, "the most recent n elements" of a
  stream, and the two interfaces several components implement: a consumer of a stream that
  arrives in pieces (\<open>chunked\<close>) and a buffer of the most recent elements (\<open>recent\<close>).
\<close>

unbundle bit_operations_syntax

named_theorems str_simps \<open>evaluation rules of the string operations\<close>
named_theorems wf_intros \<open>every operation keeps its component's invariant\<close>

section \<open>Byte strings\<close>

text \<open>
  A \<open>std::string\<close> is a sequence of bytes, which is what HOL's \<^typ>\<open>string\<close> is: a list of
  8 bit characters. A position in a string is a \<^typ>\<open>nat\<close> and \<open>npos\<close> is \<^const>\<open>None\<close>.
\<close>

abbreviation byte_of :: "char \<Rightarrow> nat" where
  "byte_of c \<equiv> of_char c"

abbreviation LF :: char where "LF \<equiv> CHR 0x0A"
abbreviation CR :: char where "CR \<equiv> CHR 0x0D"
abbreviation TAB :: char where "TAB \<equiv> CHR 0x09"
abbreviation SPC :: char where "SPC \<equiv> CHR 0x20"
abbreviation DQUOTE :: char where "DQUOTE \<equiv> CHR 0x22"
abbreviation SQUOTE :: char where "SQUOTE \<equiv> CHR 0x27"

text \<open>\<open>find\<close> of a pattern, from the start: the least position where it stands. It serves
  \<open>std::string::find\<close> and \<open>std::search\<close> alike.\<close>

fun find_sub :: "'a list \<Rightarrow> 'a list \<Rightarrow> nat option" where
  "find_sub pat [] = (if pat = [] then Some 0 else None)"
| "find_sub pat (x # xs) = (if prefix pat (x # xs) then Some 0 else map_option Suc (find_sub pat xs))"

text \<open>\<open>find\<close> from a position on.\<close>

definition find_from :: "'a list \<Rightarrow> 'a list \<Rightarrow> nat \<Rightarrow> nat option" where
  "find_from pat xs i = (if i \<le> length xs then map_option ((+) i) (find_sub pat (drop i xs)) else None)"

definition ends_with :: "'a list \<Rightarrow> 'a list \<Rightarrow> bool" where
  "ends_with suf xs \<longleftrightarrow> length suf \<le> length xs \<and> drop (length xs - length suf) xs = suf"

text \<open>Removes from the end while the last element satisfies the predicate.\<close>

definition pop_back_while :: "('a \<Rightarrow> bool) \<Rightarrow> 'a list \<Rightarrow> 'a list" where
  "pop_back_while p xs = rev (dropWhile p (rev xs))"

text \<open>\<open>isalnum\<close>, \<open>isspace\<close> and \<open>tolower\<close> of the C locale, the one a program starts in.\<close>

definition is_digit :: "char \<Rightarrow> bool" where
  "is_digit c \<longleftrightarrow> 48 \<le> byte_of c \<and> byte_of c \<le> 57"

definition is_upper :: "char \<Rightarrow> bool" where
  "is_upper c \<longleftrightarrow> 65 \<le> byte_of c \<and> byte_of c \<le> 90"

definition is_lower :: "char \<Rightarrow> bool" where
  "is_lower c \<longleftrightarrow> 97 \<le> byte_of c \<and> byte_of c \<le> 122"

definition is_alnum :: "char \<Rightarrow> bool" where
  "is_alnum c \<longleftrightarrow> is_digit c \<or> is_upper c \<or> is_lower c"

definition is_space :: "char \<Rightarrow> bool" where
  "is_space c \<longleftrightarrow> byte_of c = 32 \<or> (9 \<le> byte_of c \<and> byte_of c \<le> 13)"

definition to_lower :: "char \<Rightarrow> char" where
  "to_lower c = (if is_upper c then char_of (byte_of c + 32) else c)"

text \<open>\<open>std::to_string\<close> of a natural number and of a signed integer.\<close>

fun nat_str :: "nat \<Rightarrow> string" where
  "nat_str n = (if n < 10 then [char_of (48 + n)] else nat_str (n div 10) @ [char_of (48 + n mod 10)])"

declare nat_str.simps [simp del]

definition int_str :: "int \<Rightarrow> string" where
  "int_str i = (if i < 0 then CHR ''-'' # nat_str (nat (- i)) else nat_str (nat i))"

text \<open>A byte as the unsigned value the program computes with, the UTF-8 continuation bytes,
  \<open>(c & 0xC0) == 0x80\<close>, and the characters of a text: every byte but those.\<close>

definition uchar :: "char \<Rightarrow> 32 word" where
  "uchar c = word_of_nat (byte_of c)"

definition utf8_cont :: "char \<Rightarrow> bool" where
  "utf8_cont c \<longleftrightarrow> uchar c AND 0xC0 = 0x80"

definition utf8_chars :: "string \<Rightarrow> nat" where
  "utf8_chars s = length (filter (\<lambda>c. \<not> utf8_cont c) s)"

lemma unat_uchar [simp]: "unat (uchar c) = byte_of c"
proof -
  have "byte_of c < 256" by simp
  then have "byte_of c < 2 ^ 32" by (rule less_le_trans) simp
  then show ?thesis by (simp add: uchar_def unat_of_nat)
qed

lemma utf8_cont_high:
  assumes "utf8_cont c"
  shows "0x80 \<le> byte_of c"
proof (rule ccontr)
  assume "\<not> 0x80 \<le> byte_of c"
  then have "unat (uchar c) < 2 ^ 7" by simp
  then have "take_bit 7 (uchar c) = uchar c"
    by (simp add: word_unat_eq_iff unsigned_take_bit_eq take_bit_nat_eq_self)
  then have "\<not> bit (uchar c) 7"
    by (metis bit_take_bit_iff less_irrefl)
  moreover have "bit (uchar c AND 0xC0) 7"
    using assms by (simp add: utf8_cont_def)
  ultimately show False by (simp add: bit_and_iff)
qed

lemma find_sub_Some:
  "find_sub pat xs = Some i \<Longrightarrow> i + length pat \<le> length xs \<and> prefix pat (drop i xs)"
proof (induction xs arbitrary: i)
  case (Cons x xs)
  then show ?case
    by (cases "prefix pat (x # xs)") (auto dest: prefix_length_le)
qed (auto split: if_splits)

lemma find_sub_None_iff: "find_sub pat xs = None \<longleftrightarrow> \<not> sublist pat xs"
proof (induction xs)
  case (Cons x xs)
  then show ?case by (auto simp: sublist_Cons_right)
qed auto

lemma find_sub_first:
  "find_sub pat xs = Some i \<Longrightarrow> j < i \<Longrightarrow> \<not> prefix pat (drop j xs)"
proof (induction xs arbitrary: i j)
  case (Cons x xs)
  show ?case
  proof (cases "prefix pat (x # xs)")
    case False
    with Cons.prems obtain i' where i': "find_sub pat xs = Some i'" "i = Suc i'"
      by auto
    show ?thesis
    proof (cases j)
      case 0
      with False show ?thesis by simp
    next
      case (Suc j')
      with Cons.IH [OF i'(1), of j'] i' Cons.prems show ?thesis by simp
    qed
  qed (use Cons.prems in simp)
qed (auto split: if_splits)

lemma prefix_singleton_Cons: "prefix [c] (y # ys) \<longleftrightarrow> c = y"
  by auto

lemma find_char_Some:
  "find_sub [c] xs = Some i \<Longrightarrow> i < length xs \<and> xs ! i = c \<and> c \<notin> set (take i xs)"
proof (induction xs arbitrary: i)
  case (Cons x xs)
  show ?case
  proof (cases "c = x")
    case True
    with Cons.prems show ?thesis by auto
  next
    case False
    with Cons.prems obtain i' where "find_sub [c] xs = Some i'" "i = Suc i'"
      by (auto simp: prefix_singleton_Cons)
    with Cons.IH [of i'] False show ?thesis by simp
  qed
qed simp

lemma find_char_None: "find_sub [c] xs = None \<longleftrightarrow> c \<notin> set xs"
  by (induction xs) (auto simp: prefix_singleton_Cons)

lemma find_char_append:
  "find_sub [c] (xs @ ys) =
     (case find_sub [c] xs of Some i \<Rightarrow> Some i | None \<Rightarrow> map_option ((+) (length xs)) (find_sub [c] ys))"
proof (induction xs)
  case Nil
  then show ?case by (cases "find_sub [c] ys") simp_all
next
  case (Cons x xs)
  then show ?case
    by (cases "c = x"; cases "find_sub [c] xs"; cases "find_sub [c] ys") (simp_all add: prefix_singleton_Cons)
qed

lemma pop_back_while_Nil [simp]: "pop_back_while p [] = []"
  by (simp add: pop_back_while_def)

lemma pop_back_while_snoc [simp]:
  "pop_back_while p (xs @ [x]) = (if p x then pop_back_while p xs else xs @ [x])"
  by (simp add: pop_back_while_def)

lemma pop_back_while_last: "pop_back_while p xs \<noteq> [] \<Longrightarrow> \<not> p (last (pop_back_while p xs))"
  by (induction xs rule: rev_induct) auto

lemma pop_back_while_eq_Nil: "pop_back_while p xs = [] \<longleftrightarrow> list_all p xs"
  by (induction xs rule: rev_induct) auto

lemma pop_back_while_prefix: "prefix (pop_back_while p xs) xs"
  by (induction xs rule: rev_induct) (auto intro: prefix_order.trans [OF _ prefixI])

lemma nat_str_nonempty [simp]: "nat_str n \<noteq> []"
  by (subst nat_str.simps) simp

section \<open>IEEE rounding\<close>

text \<open>
  A \<open>float\<close> or \<open>double\<close> value is a rational number. The arithmetic of the program computes the
  exact result and rounds it to the nearest representable number, ties to even:
  \<open>fl p emin x\<close> is that rounding for a significand of \<open>p\<close> bits and a least exponent \<open>emin\<close>.
  Infinities and NaN are not values of the model: the code it follows stays in range.
\<close>

type_synonym f32 = rat
type_synonym f64 = rat

text \<open>The floor of the binary logarithm of a positive rational.\<close>

definition rat_log2 :: "rat \<Rightarrow> int" where
  "rat_log2 x = (let (n, d) = quotient_of x; k = int (floorlog 2 (nat n)) - int (floorlog 2 (nat d))
                 in if 2 powi k \<le> x then k else k - 1)"

text \<open>To the nearest integer, ties to even.\<close>

definition rne :: "rat \<Rightarrow> int" where
  "rne q = (let f = \<lfloor>q\<rfloor>; r = q - of_int f
            in if r < 1 / 2 then f else if 1 / 2 < r then f + 1 else if even f then f else f + 1)"

definition fl :: "int \<Rightarrow> int \<Rightarrow> rat \<Rightarrow> rat" where
  "fl p emin x = (if x = 0 then 0 else
     let e = max (rat_log2 \<bar>x\<bar> - (p - 1)) emin in of_int (rne (x / 2 powi e)) * 2 powi e)"

definition to_f32 :: "rat \<Rightarrow> f32" where
  "to_f32 = fl 24 (- 149)"

definition to_f64 :: "rat \<Rightarrow> f64" where
  "to_f64 = fl 53 (- 1074)"

text \<open>The conversion of a floating point value to an integer type: towards zero.\<close>

definition trunc :: "rat \<Rightarrow> int" where
  "trunc q = (if 0 \<le> q then \<lfloor>q\<rfloor> else \<lceil>q\<rceil>)"

lemma rne_of_int [simp]: "rne (of_int n) = n"
  by (simp add: rne_def)

lemma rne_ge: "of_int n \<le> q \<Longrightarrow> n \<le> rne q"
  by (auto simp: rne_def Let_def le_floor_iff intro: order_trans [of n "\<lfloor>q\<rfloor>"])

lemma rne_le:
  assumes "q \<le> of_int n"
  shows "rne q \<le> n"
proof (cases "q = of_int n")
  case False
  with assms have "\<lfloor>q\<rfloor> < n" by (simp add: floor_less_iff)
  then show ?thesis by (auto simp: rne_def Let_def)
qed simp

lemma rne_near: "\<bar>of_int (rne q) - q\<bar> \<le> 1 / 2"
proof -
  have "of_int \<lfloor>q\<rfloor> \<le> q" "q < of_int \<lfloor>q\<rfloor> + 1"
    by (simp, linarith)
  then show ?thesis by (auto simp: rne_def Let_def abs_le_iff)
qed

lemma rat_log2_bounds:
  assumes "0 < x"
  shows "2 powi rat_log2 x \<le> x \<and> x < 2 powi (rat_log2 x + 1)"
proof -
  obtain n d where q: "quotient_of x = (n, d)" by force
  then have d: "0 < d" and x: "x = of_int n / of_int d"
    by (auto simp: quotient_of_div quotient_of_denom_pos)
  with assms have n: "0 < n" by (simp add: zero_less_divide_iff)
  define a b where "a = floorlog 2 (nat n)" and "b = floorlog 2 (nat d)"
  define k where "k = int a - int b"
  have n_nat: "2 ^ (a - 1) \<le> nat n" "nat n < 2 ^ a"
    using floorlog_bounds [of "nat n" 2] n by (simp_all add: a_def)
  have d_nat: "2 ^ (b - 1) \<le> nat d" "nat d < 2 ^ b"
    using floorlog_bounds [of "nat d" 2] d by (simp_all add: b_def)
  have of_n: "(of_nat (nat n) :: rat) = of_int n" and of_d: "(of_nat (nat d) :: rat) = of_int d"
    using n d by simp_all
  have n_bounds: "2 ^ (a - 1) \<le> (of_int n :: rat)" "(of_int n :: rat) < 2 ^ a"
    using n_nat [folded of_nat_le_iff [where 'a = rat] of_nat_less_iff [where 'a = rat], unfolded of_n]
    by simp_all
  have d_bounds: "2 ^ (b - 1) \<le> (of_int d :: rat)" "(of_int d :: rat) < 2 ^ b"
    using d_nat [folded of_nat_le_iff [where 'a = rat] of_nat_less_iff [where 'a = rat], unfolded of_d]
    by simp_all
  have a0: "0 < a" and b0: "0 < b"
    using n d floorlog_eq_zero_iff [of 2 "nat n"] floorlog_eq_zero_iff [of 2 "nat d"]
    by (simp_all add: a_def b_def)
  have "(2 :: rat) powi (k - 1) = 2 ^ (a - 1) / 2 ^ b"
  proof -
    have "k - 1 = int (a - 1) - int b" using a0 by (simp add: k_def)
    then show ?thesis by (simp add: power_int_diff)
  qed
  also have "\<dots> < of_int n / of_int d"
    using n_bounds d_bounds d by (intro frac_less2) auto
  finally have lo: "2 powi (k - 1) < x" by (simp add: x)
  have "x < 2 ^ a / 2 ^ (b - 1)"
    using n_bounds d_bounds n unfolding x by (intro frac_less) auto
  also have "\<dots> = (2 :: rat) powi (k + 1)"
  proof -
    have "k + 1 = int a - int (b - 1)" using b0 by (simp add: k_def)
    then show ?thesis by (simp add: power_int_diff)
  qed
  finally have hi: "x < 2 powi (k + 1)" .
  show ?thesis
    using lo hi by (auto simp: rat_log2_def q Let_def simp flip: a_def b_def k_def)
qed

lemma fl_exact:
  assumes x: "x = of_int k * 2 powi e0" and k: "\<bar>k\<bar> < 2 ^ p" and e0: "emin \<le> e0" and p: "0 < p"
  shows "fl (int p) emin x = x"
proof (cases "k = 0")
  case True
  with x show ?thesis by (simp add: fl_def)
next
  case False
  define l where "l = rat_log2 \<bar>x\<bar>"
  define e where "e = max (l - (int p - 1)) emin"
  have pos: "0 < \<bar>x\<bar>" using False x by (simp add: abs_mult)
  have "\<bar>x\<bar> < 2 ^ p * 2 powi e0"
    using k unfolding x abs_mult
    by (simp add: power_int_abs mult_strict_right_mono flip: of_int_abs)
  also have "\<dots> = (2 :: rat) powi (int p + e0)"
    by (simp add: power_int_add)
  finally have "\<bar>x\<bar> < 2 powi (int p + e0)" .
  with rat_log2_bounds [OF pos] have "(2 :: rat) powi l < 2 powi (int p + e0)"
    by (simp add: l_def)
  then have "l < int p + e0"
    using power_int_increasing [of "int p + e0" l "2 :: rat"] by (cases "l < int p + e0") auto
  with e0 have ee0: "e \<le> e0" by (simp add: e_def)
  define m where "m = k * 2 ^ nat (e0 - e)"
  have "x / 2 powi e = of_int k * 2 powi (e0 - e)"
    by (simp add: x power_int_diff)
  also have "\<dots> = of_int m"
    using ee0 by (simp add: m_def power_int_nonneg_exp)
  finally have m: "x / 2 powi e = of_int m" .
  then have "fl (int p) emin x = of_int m * 2 powi e"
    using pos by (simp add: fl_def Let_def flip: l_def e_def)
  also have "\<dots> = x" by (simp flip: m)
  finally show ?thesis .
qed

lemma fl_zero [simp]: "fl p emin 0 = 0"
  by (simp add: fl_def)

lemma to_f32_of_int: "\<bar>k\<bar> < 2 ^ 24 \<Longrightarrow> to_f32 (of_int k) = of_int k"
  using fl_exact [of "of_int k" k 0 24 "- 149"] by (simp add: to_f32_def)

lemma to_f64_of_int: "\<bar>k\<bar> < 2 ^ 53 \<Longrightarrow> to_f64 (of_int k) = of_int k"
  using fl_exact [of "of_int k" k 0 53 "- 1074"] by (simp add: to_f64_def)

lemma trunc_of_int [simp]: "trunc (of_int n) = n"
  by (simp add: trunc_def)

text \<open>The exponent the rounding works at, and what it can move.\<close>

definition fl_exp :: "int \<Rightarrow> int \<Rightarrow> rat \<Rightarrow> int" where
  "fl_exp p emin x = max (rat_log2 \<bar>x\<bar> - (p - 1)) emin"

lemma fl_exp_eq: "fl p emin x = of_int (rne (x / 2 powi fl_exp p emin x)) * 2 powi fl_exp p emin x"
  by (auto simp: fl_def fl_exp_def Let_def rne_def)

lemma rat_log2_less:
  assumes "0 < x" "x < 2 powi n"
  shows "rat_log2 x < n"
proof (rule ccontr)
  assume "\<not> rat_log2 x < n"
  then have "(2 :: rat) powi n \<le> 2 powi rat_log2 x" by (intro power_int_increasing) auto
  with rat_log2_bounds [OF assms(1)] assms(2) show False by linarith
qed

lemma fl_exp_le: "x \<noteq> 0 \<Longrightarrow> \<bar>x\<bar> < 2 powi n \<Longrightarrow> emin \<le> n - p \<Longrightarrow> fl_exp p emin x \<le> n - p"
  using rat_log2_less [of "\<bar>x\<bar>" n] by (simp add: fl_exp_def)

lemma fl_near: "\<bar>fl p emin x - x\<bar> \<le> 2 powi (fl_exp p emin x) / 2"
proof -
  let ?u = "(2 :: rat) powi fl_exp p emin x"
  have u: "0 < ?u" by simp
  have "fl p emin x - x = (of_int (rne (x / ?u)) - x / ?u) * ?u"
    using u by (subst fl_exp_eq) (simp add: field_simps)
  then have "\<bar>fl p emin x - x\<bar> = \<bar>of_int (rne (x / ?u)) - x / ?u\<bar> * ?u"
    using u by (simp add: abs_mult)
  also have "\<dots> \<le> (1 / 2) * ?u"
    using rne_near u by (intro mult_right_mono) auto
  finally show ?thesis by simp
qed

text \<open>Below \<open>2 ^ p\<close> every integer is representable, so the rounding never crosses one.\<close>

lemma fl_int_bounds:
  assumes "\<bar>x\<bar> < 2 ^ p" "emin \<le> 0"
  shows "of_int n \<le> x \<Longrightarrow> of_int n \<le> fl (int p) emin x"
    and "x \<le> of_int n \<Longrightarrow> fl (int p) emin x \<le> of_int n"
proof -
  define e where "e = fl_exp (int p) emin x"
  have e: "e \<le> 0" if "x \<noteq> 0"
    using fl_exp_le [OF that, of "int p" emin "int p"] assms by (simp add: e_def)
  have u: "0 < (2 :: rat) powi e" by simp
  have scale: "of_int n = (of_int (n * 2 ^ nat (- e)) :: rat) * 2 powi e" if "x \<noteq> 0"
  proof -
    have "(2 :: rat) ^ nat (- e) * 2 powi e = 2 powi (- e) * 2 powi e"
      using e [OF that] by (simp add: power_int_nonneg_exp)
    also have "\<dots> = 1" by (simp flip: power_int_add)
    finally show ?thesis by (simp add: mult.assoc)
  qed
  have quot: "of_int n / 2 powi e = (of_int (n * 2 ^ nat (- e)) :: rat)" if "x \<noteq> 0"
    using scale [OF that] u by (simp add: field_simps)
  show "of_int n \<le> fl (int p) emin x" if "of_int n \<le> x"
  proof (cases "x = 0")
    case False
    have "of_int (n * 2 ^ nat (- e)) \<le> x / 2 powi e"
      using that u unfolding quot [OF False, symmetric] by (intro divide_right_mono) auto
    then have "n * 2 ^ nat (- e) \<le> rne (x / 2 powi e)" by (rule rne_ge)
    then have "(of_int (n * 2 ^ nat (- e)) :: rat) * 2 powi e \<le> of_int (rne (x / 2 powi e)) * 2 powi e"
      using u by (intro mult_right_mono) (simp_all only: of_int_le_iff less_imp_le)
    then show ?thesis
      unfolding scale [OF False, symmetric] fl_exp_eq [of "int p" emin x, folded e_def, symmetric] .
  qed (use that in simp)
  show "fl (int p) emin x \<le> of_int n" if "x \<le> of_int n"
  proof (cases "x = 0")
    case False
    have "x / 2 powi e \<le> of_int (n * 2 ^ nat (- e))"
      using that u unfolding quot [OF False, symmetric] by (intro divide_right_mono) auto
    then have "rne (x / 2 powi e) \<le> n * 2 ^ nat (- e)" by (rule rne_le)
    then have "of_int (rne (x / 2 powi e)) * 2 powi e \<le> (of_int (n * 2 ^ nat (- e)) :: rat) * 2 powi e"
      using u by (intro mult_right_mono) (simp_all only: of_int_le_iff less_imp_le)
    then show ?thesis
      unfolding scale [OF False, symmetric] fl_exp_eq [of "int p" emin x, folded e_def, symmetric] .
  qed (use that in simp)
qed

lemma to_f32_int_bounds:
  assumes "\<bar>x\<bar> < 2 ^ 24"
  shows "of_int n \<le> x \<Longrightarrow> of_int n \<le> to_f32 x" and "x \<le> of_int n \<Longrightarrow> to_f32 x \<le> of_int n"
  using fl_int_bounds [OF assms, of "- 149"] by (simp_all add: to_f32_def)

lemma to_f32_near_abs:
  assumes "\<bar>x\<bar> < 2 powi n" "- 125 \<le> n"
  shows "\<bar>to_f32 x - x\<bar> \<le> 2 powi (n - 24) / 2"
proof (cases "x = 0")
  case False
  have "fl_exp 24 (- 149) x \<le> n - 24" using fl_exp_le [OF False assms(1), of "- 149" 24] assms(2) by simp
  then have "(2 :: rat) powi fl_exp 24 (- 149) x \<le> 2 powi (n - 24)" by (intro power_int_increasing) auto
  with fl_near [of 24 "- 149" x] show ?thesis by (simp add: to_f32_def)
qed (simp add: to_f32_def)

lemma to_f32_near_rel:
  assumes "2 powi (- 126) \<le> x"
  shows "\<bar>to_f32 x - x\<bar> \<le> x / 2 ^ 24"
proof -
  have x: "0 < x" using assms by (rule less_le_trans [rotated]) simp
  have "- 126 \<le> rat_log2 x"
  proof (rule ccontr)
    assume "\<not> - 126 \<le> rat_log2 x"
    then have "(2 :: rat) powi (rat_log2 x + 1) \<le> 2 powi (- 126)" by (intro power_int_increasing) auto
    with rat_log2_bounds [OF x] assms show False by linarith
  qed
  then have "fl_exp 24 (- 149) x = rat_log2 x - 23" using x by (simp add: fl_exp_def)
  then have "(2 :: rat) powi fl_exp 24 (- 149) x = 2 powi rat_log2 x / 2 ^ 23"
    by (simp add: power_int_diff)
  with fl_near [of 24 "- 149" x] rat_log2_bounds [OF x] show ?thesis by (simp add: to_f32_def)
qed

section \<open>The most recent elements of a stream\<close>

definition lastn :: "nat \<Rightarrow> 'a list \<Rightarrow> 'a list" where
  "lastn n xs = drop (length xs - n) xs"

lemma length_lastn [simp]: "length (lastn n xs) = min n (length xs)"
  by (simp add: lastn_def)

lemma lastn_0 [simp]: "lastn 0 xs = []"
  by (simp add: lastn_def)

lemma lastn_all [simp]: "length xs \<le> n \<Longrightarrow> lastn n xs = xs"
  by (simp add: lastn_def)

lemma suffix_lastn: "suffix (lastn n xs) xs"
  by (simp add: lastn_def suffix_drop)

lemma lastn_append: "lastn n (xs @ ys) = lastn (n - length ys) xs @ lastn n ys"
proof (cases "n \<le> length ys")
  case True
  then show ?thesis by (simp add: lastn_def)
next
  case False
  then have "length xs + length ys - n = length xs - (n - length ys)" by linarith
  with False show ?thesis by (simp add: lastn_def)
qed

lemma lastn_lastn: "m \<le> n \<Longrightarrow> lastn m (lastn n xs) = lastn m xs"
proof (cases "length xs \<le> n")
  case False
  assume "m \<le> n"
  with False have "length xs - (length xs - n) - m + (length xs - n) = length xs - m" by linarith
  then show ?thesis by (simp add: lastn_def)
qed simp

lemma lastn_lastn_append: "lastn n (lastn n xs @ ys) = lastn n (xs @ ys)"
  by (simp add: lastn_append lastn_lastn)

text \<open>
  The interface of a buffer of the most recent elements: a push keeps the last \<open>cap\<close> of what
  the buffer held followed by the new element. Whatever is pushed, the content is then the last
  \<open>cap\<close> elements of everything that went in.
\<close>

locale recent =
  fixes push :: "'r \<Rightarrow> 'a \<Rightarrow> 'r"
    and content :: "'r \<Rightarrow> 'a list"
    and cap :: "'r \<Rightarrow> nat"
    and ok :: "'r \<Rightarrow> bool"
  assumes push_content: "ok r \<Longrightarrow> content (push r x) = lastn (cap r) (content r @ [x])"
    and push_cap: "ok r \<Longrightarrow> cap (push r x) = cap r"
    and push_ok: "ok r \<Longrightarrow> ok (push r x)"
    and content_cap: "ok r \<Longrightarrow> length (content r) \<le> cap r"
begin

lemma pushes_ok: "ok r \<Longrightarrow> ok (foldl push r xs) \<and> cap (foldl push r xs) = cap r"
  by (induction xs arbitrary: r) (simp_all add: push_ok push_cap)

lemma pushes_content: "ok r \<Longrightarrow> content (foldl push r xs) = lastn (cap r) (content r @ xs)"
proof (induction xs arbitrary: r)
  case Nil
  then show ?case by (simp add: content_cap)
next
  case (Cons x xs)
  then have "content (foldl push (push r x) xs) = lastn (cap r) (lastn (cap r) (content r @ [x]) @ xs)"
    by (simp add: push_ok push_cap push_content)
  then show ?case by (simp add: lastn_lastn_append)
qed

lemma pushes_length: "ok r \<Longrightarrow> length (content (foldl push r xs)) = min (cap r) (length (content r) + length xs)"
  by (simp add: pushes_content)

end

section \<open>Streams that arrive in pieces\<close>

text \<open>
  Audio, text and network bytes arrive cut anywhere. A consumer takes a piece and gives a new
  state and what the piece completed; \<open>feed_all\<close> hands it the pieces in order.
\<close>

fun feed_all :: "('s \<Rightarrow> 'a list \<Rightarrow> 's \<times> 'o list) \<Rightarrow> 's \<Rightarrow> 'a list list \<Rightarrow> 's \<times> 'o list" where
  "feed_all feed s [] = (s, [])"
| "feed_all feed s (p # ps) =
     (let (s1, o1) = feed s p; (s2, o2) = feed_all feed s1 ps in (s2, o1 @ o2))"

text \<open>
  The contract of such a consumer: an empty piece does nothing, and a piece counts as its two
  halves. The cuts then never show: any way of cutting the same stream gives the same state and
  the same output.
\<close>

locale chunked =
  fixes feed :: "'s \<Rightarrow> 'a list \<Rightarrow> 's \<times> 'o list"
    and inv :: "'s \<Rightarrow> bool"
  assumes feed_nil: "inv s \<Longrightarrow> feed s [] = (s, [])"
    and feed_inv: "inv s \<Longrightarrow> inv (fst (feed s xs))"
    and feed_append: "inv s \<Longrightarrow> feed s (xs @ ys) =
          (fst (feed (fst (feed s xs)) ys), snd (feed s xs) @ snd (feed (fst (feed s xs)) ys))"
begin

lemma feed_all_concat: "inv s \<Longrightarrow> feed_all feed s ps = feed s (concat ps)"
proof (induction ps arbitrary: s)
  case Nil
  then show ?case by (simp add: feed_nil)
next
  case (Cons p ps)
  then show ?case
    by (simp add: feed_append feed_inv case_prod_beta Let_def)
qed

lemma feed_all_inv: "inv s \<Longrightarrow> inv (fst (feed_all feed s ps))"
  by (simp add: feed_all_concat feed_inv)

lemma feed_cuts: "inv s \<Longrightarrow> concat ps = concat qs \<Longrightarrow> feed_all feed s ps = feed_all feed s qs"
  by (simp add: feed_all_concat)

end

end
