(* ===== verification/Ring.thy ===== *)
theory Ring
  imports Prelude
begin

text \<open>
  \<open>SampleRing\<close> of \<open>src/s2s-session.cpp\<close>: the most recent samples of a stream in a fixed array. The
  session keeps two of them, and both are a \<open>recent\<close> buffer.
\<close>

record SampleRing =
  ring_data :: "f32 list"
  ring_head :: nat
  ring_size :: nat

definition SampleRing_new :: SampleRing where
  "SampleRing_new = \<lparr>ring_data = [], ring_head = 0, ring_size = 0\<rparr>"

text \<open>One sample of the loop of \<open>push\<close>.\<close>

definition ring_store :: "SampleRing \<Rightarrow> f32 \<Rightarrow> SampleRing" where
  "ring_store r x =
     r\<lparr>ring_data := (ring_data r)[ring_head r := x],
       ring_head := (if ring_head r + 1 = length (ring_data r) then 0 else ring_head r + 1)\<rparr>"

definition SampleRing_push :: "SampleRing \<Rightarrow> f32 list \<Rightarrow> SampleRing" where
  "SampleRing_push r samples =
     (let capacity = length (ring_data r);
          r' = (if 0 < capacity then foldl ring_store r samples else r)
      in r'\<lparr>ring_size := min (ring_size r' + length samples) capacity\<rparr>)"

fun ring_read_loop :: "f32 list \<Rightarrow> nat \<Rightarrow> nat \<Rightarrow> f32 list" where
  "ring_read_loop data pos 0 = []"
| "ring_read_loop data pos (Suc n) =
     data ! pos # ring_read_loop data (if pos + 1 = length data then 0 else pos + 1) n"

definition SampleRing_read :: "SampleRing \<Rightarrow> f32 list" where
  "SampleRing_read r =
     (let capacity = length (ring_data r) in
      ring_read_loop (ring_data r)
        ((ring_head r + capacity - ring_size r) mod (if capacity \<noteq> 0 then capacity else 1)) (ring_size r))"

definition SampleRing_resize :: "SampleRing \<Rightarrow> nat \<Rightarrow> SampleRing" where
  "SampleRing_resize r capacity =
     (let held = SampleRing_read r;
          r' = r\<lparr>ring_data := replicate capacity 0, ring_head := 0, ring_size := 0\<rparr>;
          keep = min (length held) capacity
      in SampleRing_push r' (drop (length held - keep) held))"

section \<open>What a ring holds\<close>

definition ring_cap :: "SampleRing \<Rightarrow> nat" where
  "ring_cap r = length (ring_data r)"

definition ring_ok :: "SampleRing \<Rightarrow> bool" where
  "ring_ok r \<longleftrightarrow> ring_size r \<le> ring_cap r \<and> (ring_cap r = 0 \<or> ring_head r < ring_cap r)"

lemma length_ring_read_loop [simp]: "length (ring_read_loop data pos n) = n"
  by (induction n arbitrary: pos) simp_all

lemma nth_ring_read_loop:
  "pos < length data \<Longrightarrow> i < n \<Longrightarrow> ring_read_loop data pos n ! i = data ! ((pos + i) mod length data)"
proof (induction n arbitrary: pos i)
  case (Suc n)
  show ?case
  proof (cases i)
    case 0
    then show ?thesis using Suc.prems by simp
  next
    case (Suc j)
    have "(if pos + 1 = length data then 0 else pos + 1) = (pos + 1) mod length data"
      using Suc.prems by auto
    moreover have "((pos + 1) mod length data + j) mod length data = (pos + i) mod length data"
      using Suc by (simp add: mod_simps)
    moreover have "ring_read_loop data ((pos + 1) mod length data) n ! j =
        data ! (((pos + 1) mod length data + j) mod length data)"
      by (rule Suc.IH [OF mod_less_divisor]) (use Suc.prems Suc in auto)
    ultimately show ?thesis using Suc by simp
  qed
qed simp

lemma length_SampleRing_read [simp]: "length (SampleRing_read r) = ring_size r"
  by (simp add: SampleRing_read_def Let_def)

lemma nth_SampleRing_read:
  assumes "ring_ok r" "i < ring_size r"
  shows "SampleRing_read r ! i = ring_data r ! ((ring_head r + ring_cap r - ring_size r + i) mod ring_cap r)"
proof -
  have "0 < ring_cap r" using assms by (auto simp: ring_ok_def)
  then show ?thesis
    using assms by (simp add: SampleRing_read_def Let_def nth_ring_read_loop ring_cap_def mod_simps)
qed

lemma ring_cap_push [simp]: "ring_cap (SampleRing_push r xs) = ring_cap r"
proof -
  have "length (ring_data (foldl ring_store r xs)) = length (ring_data r)"
    by (induction xs arbitrary: r) (simp_all add: ring_store_def)
  then show ?thesis by (simp add: SampleRing_push_def Let_def ring_cap_def)
qed

lemma ring_push1:
  "SampleRing_push r [x] = (if ring_cap r = 0 then r\<lparr>ring_size := 0\<rparr>
     else (ring_store r x)\<lparr>ring_size := min (ring_size r + 1) (ring_cap r)\<rparr>)"
  by (simp add: SampleRing_push_def Let_def ring_cap_def ring_store_def)

lemma ring_size_push1 [simp]: "ring_size (SampleRing_push r [x]) = min (ring_size r + 1) (ring_cap r)"
  by (simp add: ring_push1)

lemma ring_ok_push1: "ring_ok r \<Longrightarrow> ring_ok (SampleRing_push r [x])"
  unfolding ring_ok_def ring_cap_push by (auto simp: ring_push1 ring_store_def ring_cap_def)

text \<open>Where the \<open>j\<close>-th of the held samples followed by a new one stands in the array.\<close>

definition ring_pos :: "SampleRing \<Rightarrow> nat \<Rightarrow> nat" where
  "ring_pos r j = (ring_head r + ring_cap r - ring_size r + j) mod ring_cap r"

lemma ring_pos_head: "ring_ok r \<Longrightarrow> 0 < ring_cap r \<Longrightarrow> ring_pos r (ring_size r) = ring_head r"
  by (auto simp: ring_ok_def ring_pos_def)

lemma ring_pos_other:
  assumes "ring_ok r" "0 < ring_cap r" "j < ring_size r" "ring_size r < ring_cap r + j"
  shows "ring_pos r j \<noteq> ring_head r"
proof
  assume "ring_pos r j = ring_head r"
  then have 1: "(ring_head r + ring_cap r) mod ring_cap r = (ring_head r + ring_cap r - ring_size r + j) mod ring_cap r"
    using assms by (simp add: ring_pos_def ring_ok_def)
  have 2: "ring_head r + ring_cap r - ring_size r + j \<le> ring_head r + ring_cap r"
    using assms by (simp add: ring_ok_def)
  have "ring_cap r dvd ring_head r + ring_cap r - (ring_head r + ring_cap r - ring_size r + j)"
    using 1 by (simp only: mod_eq_dvd_iff_nat [OF 2])
  moreover have "ring_head r + ring_cap r - (ring_head r + ring_cap r - ring_size r + j) = ring_size r - j"
    using assms by (simp add: ring_ok_def)
  ultimately have "ring_cap r dvd ring_size r - j" by simp
  with assms show False by (auto dest: dvd_imp_le)
qed

lemma ring_pos_push:
  assumes "ring_ok r" "0 < ring_cap r" "i < min (ring_size r + 1) (ring_cap r)"
  shows "ring_pos (SampleRing_push r [x]) i = ring_pos r (i + (ring_size r + 1 - min (ring_size r + 1) (ring_cap r)))"
proof -
  have n: "ring_size r \<le> ring_cap r" "ring_head r < ring_cap r" using assms by (auto simp: ring_ok_def)
  have push: "ring_head (SampleRing_push r [x]) = (ring_head r + 1) mod ring_cap r"
    "ring_size (SampleRing_push r [x]) = min (ring_size r + 1) (ring_cap r)"
    using assms(2) n by (auto simp: ring_push1 ring_store_def ring_cap_def)
  show ?thesis
  proof (cases "ring_size r < ring_cap r")
    case True
    then have "(ring_head r + 1) mod ring_cap r + ring_cap r - (ring_size r + 1) + i =
        (ring_head r + 1) mod ring_cap r + (ring_cap r - (ring_size r + 1) + i)" by simp
    moreover have "ring_head r + 1 + (ring_cap r - (ring_size r + 1) + i) = ring_head r + ring_cap r - ring_size r + i"
      using True by simp
    moreover have "((ring_head r + 1) mod ring_cap r + (ring_cap r - (ring_size r + 1) + i)) mod ring_cap r =
        (ring_head r + 1 + (ring_cap r - (ring_size r + 1) + i)) mod ring_cap r"
      by (rule mod_add_left_eq)
    ultimately show ?thesis using True by (simp only: ring_pos_def push ring_cap_push) simp
  next
    case False
    with n have "ring_size r = ring_cap r" by simp
    then show ?thesis by (simp add: ring_pos_def push mod_simps add.commute)
  qed
qed

lemma ring_push1_content:
  assumes "ring_ok r"
  shows "SampleRing_read (SampleRing_push r [x]) = lastn (ring_cap r) (SampleRing_read r @ [x])"
proof (cases "ring_cap r = 0")
  case True
  then show ?thesis by (simp add: ring_push1 SampleRing_read_def)
next
  case False
  define r' where "r' = SampleRing_push r [x]"
  have size: "ring_size r' = min (ring_size r + 1) (ring_cap r)" and data: "ring_data r' = (ring_data r)[ring_head r := x]"
    using False by (simp_all add: r'_def ring_push1 ring_store_def)
  have head: "ring_head r < length (ring_data r)" and le: "ring_size r \<le> ring_cap r"
    using assms False by (auto simp: ring_ok_def ring_cap_def)
  have "SampleRing_read r' ! i = lastn (ring_cap r) (SampleRing_read r @ [x]) ! i" if i: "i < ring_size r'" for i
  proof -
    define j where "j = i + (ring_size r + 1 - ring_size r')"
    have "SampleRing_read r' ! i = (ring_data r)[ring_head r := x] ! ring_pos r' i"
      using nth_SampleRing_read [OF ring_ok_push1 [OF assms, of x], folded r'_def, OF i]
      by (simp add: ring_pos_def data)
    also have "ring_pos r' i = ring_pos r j"
      using ring_pos_push [OF assms, of i x] False i by (simp add: r'_def [symmetric] size j_def)
    also have "(ring_data r)[ring_head r := x] ! ring_pos r j = (SampleRing_read r @ [x]) ! j"
    proof (cases "j = ring_size r")
      case True
      then show ?thesis using ring_pos_head [OF assms] False head by (simp add: nth_append)
    next
      case jn: False
      then have j: "j < ring_size r" "ring_size r < ring_cap r + j"
        using i le by (auto simp: j_def size)
      then show ?thesis
        using ring_pos_other [OF assms _ j] False nth_SampleRing_read [OF assms j(1)]
        by (simp add: nth_append ring_pos_def)
    qed
    also have "\<dots> = lastn (ring_cap r) (SampleRing_read r @ [x]) ! i"
    proof -
      have "ring_size r + 1 - ring_size r' = Suc (ring_size r) - ring_cap r" using le by (auto simp: size)
      then show ?thesis
        using i by (simp add: lastn_def j_def size add.commute del: drop_append)
    qed
    finally show ?thesis .
  qed
  moreover have "length (SampleRing_read r') = length (lastn (ring_cap r) (SampleRing_read r @ [x]))"
    by (simp add: size)
  ultimately show ?thesis unfolding r'_def [symmetric] by (intro nth_equalityI) simp_all
qed

interpretation ring: recent "\<lambda>r x. SampleRing_push r [x]" SampleRing_read ring_cap ring_ok
  by unfold_locales (simp_all add: ring_push1_content ring_ok_push1, simp add: ring_ok_def)

lemma push_as_singles:
  assumes "ring_ok r"
  shows "SampleRing_push r xs = foldl (\<lambda>r x. SampleRing_push r [x]) r xs"
proof (cases "ring_cap r = 0")
  case True
  have "foldl (\<lambda>r x. SampleRing_push r [x]) r xs = r" if "ring_size r = 0" "ring_cap r = 0" for r :: SampleRing
    using that
  proof (induction xs)
    case (Cons x xs)
    have "SampleRing_push r [x] = r" using Cons.prems by (simp add: ring_push1)
    with Cons show ?case by simp
  qed simp
  then show ?thesis using True assms by (simp add: SampleRing_push_def ring_cap_def ring_ok_def)
next
  case False
  have *: "(foldl ring_store r xs)\<lparr>ring_size := min (m + length xs) (ring_cap r)\<rparr> =
      foldl (\<lambda>r x. SampleRing_push r [x]) (r\<lparr>ring_size := m\<rparr>) xs" if "0 < ring_cap r" "m \<le> ring_cap r" for m
    using that
  proof (induction xs arbitrary: r m)
    case (Cons x xs)
    have cap: "ring_cap (ring_store r x) = ring_cap r" by (simp add: ring_store_def ring_cap_def)
    have "SampleRing_push (r\<lparr>ring_size := m\<rparr>) [x] = (ring_store r x)\<lparr>ring_size := min (m + 1) (ring_cap r)\<rparr>"
      using Cons.prems by (simp add: ring_push1 ring_store_def ring_cap_def)
    moreover have "min (m + length (x # xs)) (ring_cap r) = min (min (m + 1) (ring_cap r) + length xs) (ring_cap r)"
      by simp
    ultimately show ?case using Cons.IH [of "ring_store r x" "min (m + 1) (ring_cap r)"] Cons.prems by (simp add: cap)
  qed (simp add: min_absorb1)
  have "ring_size (foldl ring_store r xs) = ring_size r" for xs
    by (induction xs arbitrary: r) (simp_all add: ring_store_def)
  then show ?thesis
    using * [of "ring_size r"] False assms by (simp add: SampleRing_push_def ring_cap_def ring_ok_def Let_def)
qed

lemma ring_push_content:
  "ring_ok r \<Longrightarrow> SampleRing_read (SampleRing_push r xs) = lastn (ring_cap r) (SampleRing_read r @ xs)"
  by (simp add: push_as_singles ring.pushes_content)

lemma ring_push_ok: "ring_ok r \<Longrightarrow> ring_ok (SampleRing_push r xs)"
  by (simp add: push_as_singles ring.pushes_ok)

lemma ring_empty: "ring_ok \<lparr>ring_data = replicate n 0, ring_head = 0, ring_size = 0\<rparr>"
  by (cases n) (simp_all add: ring_ok_def ring_cap_def)

lemma ring_resize:
  "ring_ok (SampleRing_resize r n)" "ring_cap (SampleRing_resize r n) = n"
  "SampleRing_read (SampleRing_resize r n) = lastn n (SampleRing_read r)"
proof -
  define e where "e = r\<lparr>ring_data := replicate n 0, ring_head := 0, ring_size := 0\<rparr>"
  have e: "ring_ok e" "ring_cap e = n" "SampleRing_read e = []"
    using ring_empty [of n] by (simp_all add: e_def ring_ok_def ring_cap_def SampleRing_read_def)
  have r: "SampleRing_resize r n = SampleRing_push e (lastn n (SampleRing_read r))"
    by (simp add: SampleRing_resize_def Let_def e_def lastn_def min_def)
  show "ring_ok (SampleRing_resize r n)" by (simp add: r ring_push_ok e)
  show "ring_cap (SampleRing_resize r n) = n" by (simp add: r e)
  show "SampleRing_read (SampleRing_resize r n) = lastn n (SampleRing_read r)"
    by (simp add: r ring_push_content e lastn_lastn)
qed

definition ring_history :: "nat \<Rightarrow> f32 list list \<Rightarrow> nat \<Rightarrow> SampleRing" where
  "ring_history n pieces m =
     SampleRing_resize (foldl SampleRing_push (SampleRing_resize SampleRing_new n) pieces) m"

text \<open>A ring that is given any pieces of a stream and resized at any moment holds, oldest first,
  the most recent samples, up to its capacity, and a new capacity keeps the most recent of them that
  fit.\<close>

theorem ring_keeps_the_recent:
  "SampleRing_read (ring_history n pieces m) = lastn (min m n) (concat pieces)"
proof -
  have *: "ring_ok r \<Longrightarrow> SampleRing_read (foldl SampleRing_push r ps) = lastn (ring_cap r) (SampleRing_read r @ concat ps)"
    for r ps
  proof (induction ps arbitrary: r)
    case Nil
    then show ?case by (simp add: ring_ok_def)
  qed (simp add: ring_push_ok ring_push_content lastn_lastn_append)
  have "SampleRing_read (SampleRing_resize SampleRing_new n) = []"
    by (simp add: ring_resize) (simp add: SampleRing_new_def SampleRing_read_def)
  then have "SampleRing_read (ring_history n pieces m) = lastn m (lastn n (concat pieces))"
    by (simp add: ring_history_def ring_resize *)
  then show ?thesis by (cases "m \<le> n") (simp_all add: lastn_lastn min_def)
qed

end
