(* ===== verification/Json.thy ===== *)
theory Json
  imports Prelude
begin

text \<open>
  The JSON documents the program reads and writes through yyjson (\<open>src/vendor/yyjson\<close>). A value
  is a tree; a pointer to one, which may be NULL, is an option. Reading a text and writing a tree
  are yyjson's own: they appear as parameters of the definitions that use them. The accessors are
  translated from \<open>yyjson.h\<close>.
\<close>

datatype json =
    JNull
  | JBool bool
  | JInt int
  | JReal f64
  | JStr string
  | JArr "json list"
  | JObj "(string \<times> json) list"
  | JRaw string

text \<open>\<open>yyjson_read\<close> gives the root of a document, or NULL on a text that is not JSON.
  \<open>yyjson_mut_write\<close> gives the text of a tree, or NULL when it cannot be written.\<close>

type_synonym json_reader = "string \<Rightarrow> json option"
type_synonym json_writer = "json \<Rightarrow> string option"

text \<open>\<open>c_str\<close> handed to a function that measures it with \<open>strlen\<close>: the text up to its first NUL.\<close>

definition c_str :: "string \<Rightarrow> string" where
  "c_str s = takeWhile (\<lambda>c. byte_of c \<noteq> 0) s"

text \<open>The value of the first field of that name; NULL on NULL and on what is not an object.\<close>

definition yyjson_obj_get :: "json option \<Rightarrow> string \<Rightarrow> json option" where
  "yyjson_obj_get v key = (case v of Some (JObj fs) \<Rightarrow> map_of fs key | _ \<Rightarrow> None)"

text \<open>What \<open>yyjson_arr_foreach\<close> runs over: nothing on NULL and on what is not an array.\<close>

definition arr_items :: "json option \<Rightarrow> json list" where
  "arr_items v = (case v of Some (JArr xs) \<Rightarrow> xs | _ \<Rightarrow> [])"

definition yyjson_arr_get_first :: "json option \<Rightarrow> json option" where
  "yyjson_arr_get_first v = (case arr_items v of [] \<Rightarrow> None | x # _ \<Rightarrow> Some x)"

definition yyjson_is_arr :: "json option \<Rightarrow> bool" where
  "yyjson_is_arr v = (case v of Some (JArr _) \<Rightarrow> True | _ \<Rightarrow> False)"

definition yyjson_is_obj :: "json option \<Rightarrow> bool" where
  "yyjson_is_obj v = (case v of Some (JObj _) \<Rightarrow> True | _ \<Rightarrow> False)"

definition yyjson_is_str :: "json option \<Rightarrow> bool" where
  "yyjson_is_str v = (case v of Some (JStr _) \<Rightarrow> True | _ \<Rightarrow> False)"

definition yyjson_is_int :: "json option \<Rightarrow> bool" where
  "yyjson_is_int v = (case v of Some (JInt _) \<Rightarrow> True | _ \<Rightarrow> False)"

definition yyjson_is_null :: "json option \<Rightarrow> bool" where
  "yyjson_is_null v = (case v of Some JNull \<Rightarrow> True | _ \<Rightarrow> False)"

definition yyjson_is_true :: "json option \<Rightarrow> bool" where
  "yyjson_is_true v = (case v of Some (JBool b) \<Rightarrow> b | _ \<Rightarrow> False)"

text \<open>The 64 bits of an integer, read as signed whatever it was.\<close>

definition yyjson_get_sint :: "json option \<Rightarrow> int" where
  "yyjson_get_sint v = (case v of Some (JInt n) \<Rightarrow> sint (word_of_int n :: 64 word) | _ \<Rightarrow> 0)"

text \<open>A number as a double; \<^const>\<open>None\<close> on what is not a number, where the code reads NAN.\<close>

definition yyjson_num :: "json option \<Rightarrow> f64 option" where
  "yyjson_num v = (case v of Some (JReal r) \<Rightarrow> Some r | Some (JInt n) \<Rightarrow> Some (to_f64 (of_int n)) | _ \<Rightarrow> None)"

text \<open>The lambda the clients share: the text of a string value, empty on anything else.\<close>

definition json_text :: "json option \<Rightarrow> string" where
  "json_text v = (case v of Some (JStr s) \<Rightarrow> s | _ \<Rightarrow> [])"

text \<open>\<open>yyjson_mut_obj_add\<close>: a field at the end of an object under construction.\<close>

definition add_field :: "(string \<times> json) list \<Rightarrow> string \<Rightarrow> json \<Rightarrow> (string \<times> json) list" where
  "add_field fs key v = fs @ [(key, v)]"

lemma yyjson_obj_get_None [simp]: "yyjson_obj_get None key = None"
  by (simp add: yyjson_obj_get_def)

lemma yyjson_obj_get_JObj [simp]: "yyjson_obj_get (Some (JObj fs)) key = map_of fs key"
  by (simp add: yyjson_obj_get_def)

lemma arr_items_simps [simp]:
  "arr_items None = []" "arr_items (Some (JArr xs)) = xs" "arr_items (Some (JObj fs)) = []"
  "arr_items (Some (JStr s)) = []"
  by (simp_all add: arr_items_def)

lemma json_text_simps [simp]:
  "json_text None = []" "json_text (Some (JStr s)) = s" "json_text (Some (JObj fs)) = []"
  "json_text (Some (JArr xs)) = []" "json_text (Some JNull) = []"
  by (simp_all add: json_text_def)

lemma c_str_no_nul: "c_str s = s \<longleftrightarrow> list_all (\<lambda>c. byte_of c \<noteq> 0) s"
  by (simp add: c_str_def list_all_iff takeWhile_eq_all_conv)

lemma c_str_Nil [simp]: "c_str [] = []"
  by (simp add: c_str_def)

end
