(* ===== verification/Settings.thy ===== *)
theory Settings
  imports Json
begin

text \<open>
  The settings records the components pass around: \<open>src/llm-client.h\<close>, \<open>src/mcp-client.h\<close>,
  \<open>src/tts-bridge.h\<close>, \<open>src/s2s-session.h\<close>, \<open>src/s2s-conversation.h\<close>. A C \<open>int\<close> that holds a setting is
  an \<^typ>\<open>int\<close>: the ranges of a session update keep it far from its limits. The constant written
  \<open>0.45f\<close> in the source is the float nearest to it, \<open>to_f32 0.45\<close>.
\<close>

record llm_message =
  msg_role :: string
  msg_content :: string
  msg_tool_calls :: string
  msg_tool_call_id :: string

definition plain_message :: "string \<Rightarrow> string \<Rightarrow> llm_message" where
  "plain_message role content =
     \<lparr>msg_role = role, msg_content = content, msg_tool_calls = [], msg_tool_call_id = []\<rparr>"

record llm_tool =
  tool_name :: string
  tool_definition :: string

record llm_sampling =
  ls_temperature :: f32
  ls_top_p :: f32
  ls_top_k :: int
  ls_min_p :: f32
  ls_max_tokens :: int
  ls_presence_penalty :: f32
  ls_frequency_penalty :: f32
  ls_seed :: int
  ls_reasoning_effort :: string

definition llm_sampling_default :: llm_sampling where
  "llm_sampling_default =
     \<lparr>ls_temperature = - 1, ls_top_p = - 1, ls_top_k = - 1, ls_min_p = - 1, ls_max_tokens = - 1,
      ls_presence_penalty = - 100, ls_frequency_penalty = - 100, ls_seed = - 1,
      ls_reasoning_effort = ''none''\<rparr>"

record llm_client_params =
  lp_base_url :: string
  lp_model :: string
  lp_api_key :: string
  lp_sampling :: llm_sampling
  lp_timeout_sec :: int
  lp_tool_timeout_sec :: int
  lp_tools :: string

definition llm_client_params_default :: llm_client_params where
  "llm_client_params_default =
     \<lparr>lp_base_url = [], lp_model = [], lp_api_key = [], lp_sampling = llm_sampling_default,
      lp_timeout_sec = 10, lp_tool_timeout_sec = 10, lp_tools = []\<rparr>"

record mcp_server_params =
  mcp_url :: string
  mcp_api_key :: string
  mcp_timeout_sec :: int

definition mcp_server_params_default :: mcp_server_params where
  "mcp_server_params_default = \<lparr>mcp_url = [], mcp_api_key = [], mcp_timeout_sec = 10\<rparr>"

record tts_sampling =
  ts_temperature :: f32
  ts_top_k :: int
  ts_top_p :: f32
  ts_repetition_penalty :: f32
  ts_subtalker_temperature :: f32
  ts_subtalker_top_k :: int
  ts_subtalker_top_p :: f32
  ts_max_new_tokens :: int
  ts_seed :: int

definition tts_sampling_default :: tts_sampling where
  "tts_sampling_default =
     \<lparr>ts_temperature = - 1, ts_top_k = - 1, ts_top_p = - 1, ts_repetition_penalty = - 1,
      ts_subtalker_temperature = - 1, ts_subtalker_top_k = - 1, ts_subtalker_top_p = - 1,
      ts_max_new_tokens = - 1, ts_seed = - 1\<rparr>"

record tts_guards =
  tg_min_chars :: int
  tg_chars_per_second :: f32
  tg_margin_seconds :: f32

definition tts_guards_default :: tts_guards where
  "tts_guards_default = \<lparr>tg_min_chars = 3, tg_chars_per_second = 15, tg_margin_seconds = 2\<rparr>"

record tts_request =
  tr_voice :: string
  tr_language :: string
  tr_effect :: string
  tr_browser_languages :: "string list"
  tr_sampling :: tts_sampling
  tr_guards :: tts_guards

definition tts_request_default :: tts_request where
  "tts_request_default =
     \<lparr>tr_voice = [], tr_language = [], tr_effect = ''off'', tr_browser_languages = [],
      tr_sampling = tts_sampling_default, tr_guards = tts_guards_default\<rparr>"

record s2s_session_params =
  sp_vad_neg_threshold :: f32
  sp_vad_threshold :: f32
  sp_min_speech_ms :: int
  sp_barge_in_ms :: int
  sp_min_silence_ms :: int
  sp_min_speech_continuation_ms :: int
  sp_speech_pad_ms :: int
  sp_turn_threshold :: f32
  sp_incomplete_delay_ms :: int
  sp_turn_max_wait_ms :: int
  sp_reopen_grace_ms :: int

definition s2s_session_params_default :: s2s_session_params where
  "s2s_session_params_default =
     \<lparr>sp_vad_neg_threshold = to_f32 0.45, sp_vad_threshold = to_f32 0.6, sp_min_speech_ms = 192,
      sp_barge_in_ms = 384, sp_min_silence_ms = 64, sp_min_speech_continuation_ms = 192,
      sp_speech_pad_ms = 500, sp_turn_threshold = to_f32 0.5, sp_incomplete_delay_ms = 600,
      sp_turn_max_wait_ms = 2000, sp_reopen_grace_ms = 800\<rparr>"

record rt_message =
  rt_role :: string
  rt_content :: string
  rt_item :: string

record WakeSettings =
  wake_mode :: string
  wake_phrases :: "string list"
  wake_sleep_phrases :: "string list"

definition WakeSettings_default :: WakeSettings where
  "WakeSettings_default =
     \<lparr>wake_mode = ''off'', wake_phrases = [''jarvis''], wake_sleep_phrases = [''shut up'']\<rparr>"

definition LLM_AGENT_MAX_ROUNDS :: int where
  "LLM_AGENT_MAX_ROUNDS = 10"

record ClientSettings =
  cl_mode :: string
  cl_tts :: tts_request
  cl_llm :: llm_client_params
  cl_system_prompt :: string
  cl_history :: "rt_message list"
  cl_wake :: WakeSettings
  cl_tools :: "string list"
  cl_mcp :: "mcp_server_params list"
  cl_max_rounds :: int

definition ClientSettings_default :: ClientSettings where
  "ClientSettings_default =
     \<lparr>cl_mode = ''loopback'', cl_tts = tts_request_default, cl_llm = llm_client_params_default,
      cl_system_prompt = ''You are a voice assistant. Answer in one or two short spoken sentences.'',
      cl_history = [], cl_wake = WakeSettings_default, cl_tools = [], cl_mcp = [],
      cl_max_rounds = LLM_AGENT_MAX_ROUNDS\<rparr>"

text \<open>\<open>mcp_server_params::operator==\<close>, the comparison that tells a changed list of servers.\<close>

definition mcp_server_params_eq :: "mcp_server_params \<Rightarrow> mcp_server_params \<Rightarrow> bool" where
  "mcp_server_params_eq a b \<longleftrightarrow>
     mcp_url a = mcp_url b \<and> mcp_api_key a = mcp_api_key b \<and> mcp_timeout_sec a = mcp_timeout_sec b"

lemma mcp_server_params_eq_iff: "mcp_server_params_eq a b \<longleftrightarrow> a = b"
  by (auto simp: mcp_server_params_eq_def)

end
