(* ===== verification/Session.thy ===== *)
theory Session
  imports Ring Settings
begin

text \<open>
  \<open>src/s2s-session.h\<close> and \<open>src/s2s-session.cpp\<close>: the turn state machine. The two models that run on
  every window are arguments: the voice detector with its state, the turn classifier. A callback is
  the list of the reports a call emits, in their order.
\<close>

section \<open>Data\<close>

text \<open>The two models: \<open>sv_window\<close>, \<open>sv_sample_rate\<close>, \<open>sv_prob\<close> on a state, \<open>st_window\<close>, \<open>st_predict\<close>.\<close>

record 'v session_models =
  m_window :: nat
  m_sample_rate :: nat
  m_sv_state_new :: 'v
  m_sv_prob :: "'v \<Rightarrow> f32 list \<Rightarrow> f32 \<times> 'v"
  m_st_window :: nat
  m_st_predict :: "f32 list \<Rightarrow> f32"

datatype s2s_session_event =
    S2S_EVENT_SPEECH_STARTED | S2S_EVENT_SPEECH_STOPPED | S2S_EVENT_TURN_REOPENED
  | S2S_EVENT_TURN_COMMITTED | S2S_EVENT_TURN_FINAL | S2S_EVENT_TURN_RESUMED | S2S_EVENT_BARGE_IN

record s2s_session_report =
  rep_event :: s2s_session_event
  rep_turn_id :: int
  rep_revision :: int
  rep_time_sec :: f64
  rep_turn_score :: f32
  rep_pcm :: "f32 list"
  rep_n_samples :: nat
  rep_n_held :: nat
  rep_grace_sec :: f64

datatype s2s_session_state = S2S_SESSION_IDLE | S2S_SESSION_USER_SPEAKING | S2S_SESSION_PENDING_END

record 'v s2s_session =
  ss_state :: 'v
  ss_params :: s2s_session_params
  ss_cb :: bool
  ss_window :: nat
  ss_sample_rate :: nat
  ss_open_windows :: int
  ss_barge_windows :: int
  ss_reopen_windows :: int
  ss_close_windows :: int
  ss_pad_windows :: int
  ss_delay_windows :: int
  ss_wait_windows :: int
  ss_grace_windows :: int
  ss_phase :: s2s_session_state
  ss_partial :: "f32 list"
  ss_turn_pcm :: "f32 list"
  ss_speech_end :: nat
  ss_lookback :: SampleRing
  ss_stream :: SampleRing
  ss_speech_run :: int
  ss_silence_run :: int
  ss_pending_run :: int
  ss_grace_left :: int
  ss_grace_given :: int
  ss_committed :: bool
  ss_released :: bool
  ss_turn_id :: int
  ss_revision :: int
  ss_speaking :: bool
  ss_in_speech :: bool
  ss_n_windows :: nat

section \<open>Settings\<close>

text \<open>A duration in windows: computed in double precision, at least one.\<close>

definition s2s_session_windows :: "int \<Rightarrow> nat \<Rightarrow> nat \<Rightarrow> int" where
  "s2s_session_windows ms window sample_rate =
     (let window_ms = to_f64 (to_f64 (1000 * to_f64 (of_nat window)) / to_f64 (of_nat sample_rate));
          n = trunc (to_f64 (to_f64 (to_f64 (of_int ms) / window_ms) + 1 / 2))
      in if 0 < n then n else 1)"

definition s2s_session_set_params :: "'v s2s_session \<Rightarrow> s2s_session_params \<Rightarrow> 'v s2s_session" where
  "s2s_session_set_params s params =
     (let windows = (\<lambda>ms. s2s_session_windows ms (ss_window s) (ss_sample_rate s));
          s = s\<lparr>ss_params := params,
                ss_open_windows := windows (sp_min_speech_ms params),
                ss_barge_windows := windows (sp_barge_in_ms params),
                ss_reopen_windows := windows (sp_min_speech_continuation_ms params),
                ss_close_windows := windows (sp_min_silence_ms params),
                ss_pad_windows := windows (sp_speech_pad_ms params),
                ss_wait_windows := windows (sp_turn_max_wait_ms params)\<rparr>;
          s = s\<lparr>ss_delay_windows := min (ss_wait_windows s) (windows (sp_incomplete_delay_ms params)),
                ss_grace_windows :=
                  (if 0 < sp_reopen_grace_ms params then windows (sp_reopen_grace_ms params) else 0)\<rparr>
      in s\<lparr>ss_lookback := SampleRing_resize (ss_lookback s)
              (nat (max (ss_open_windows s) (ss_barge_windows s) + ss_pad_windows s) * ss_window s)\<rparr>)"

text \<open>\<open>new s2s_session()\<close>: the member initializers.\<close>

definition session_members :: "'v \<Rightarrow> 'v s2s_session" where
  "session_members state =
     \<lparr>ss_state = state, ss_params = s2s_session_params_default, ss_cb = False, ss_window = 0, ss_sample_rate = 0,
      ss_open_windows = 0, ss_barge_windows = 0, ss_reopen_windows = 0, ss_close_windows = 0, ss_pad_windows = 0,
      ss_delay_windows = 0, ss_wait_windows = 0, ss_grace_windows = 0, ss_phase = S2S_SESSION_IDLE,
      ss_partial = [], ss_turn_pcm = [], ss_speech_end = 0, ss_lookback = SampleRing_new,
      ss_stream = SampleRing_new, ss_speech_run = 0, ss_silence_run = 0, ss_pending_run = 0, ss_grace_left = 0,
      ss_grace_given = 0, ss_committed = False, ss_released = False, ss_turn_id = 0, ss_revision = 0,
      ss_speaking = False, ss_in_speech = False, ss_n_windows = 0\<rparr>"

definition s2s_session_new :: "'v session_models \<Rightarrow> s2s_session_params \<Rightarrow> bool \<Rightarrow> 'v s2s_session" where
  "s2s_session_new m params cb =
     (let s = (session_members (m_sv_state_new m))\<lparr>ss_params := params, ss_cb := cb,
                ss_window := m_window m, ss_sample_rate := m_sample_rate m\<rparr>;
          s = s\<lparr>ss_stream := SampleRing_resize (ss_stream s) (m_st_window m)\<rparr>
      in s2s_session_set_params s params)"

definition s2s_session_set_speaking :: "'v s2s_session \<Rightarrow> bool \<Rightarrow> 'v s2s_session" where
  "s2s_session_set_speaking s speaking = s\<lparr>ss_speaking := speaking\<rparr>"

section \<open>Events\<close>

definition seconds :: "'v s2s_session \<Rightarrow> nat \<Rightarrow> f64" where
  "seconds s n_windows =
     to_f64 (to_f64 (of_nat (n_windows * ss_window s)) / to_f64 (of_nat (ss_sample_rate s)))"

definition s2s_session_emit :: "'v s2s_session \<Rightarrow> s2s_session_event \<Rightarrow> f32 \<Rightarrow> s2s_session_report list" where
  "s2s_session_emit s event score =
     (if \<not> ss_cb s then [] else
      let report = \<lparr>rep_event = event, rep_turn_id = ss_turn_id s, rep_revision = ss_revision s,
                    rep_time_sec = seconds s (ss_n_windows s), rep_turn_score = score,
                    rep_pcm = [], rep_n_samples = 0, rep_n_held = 0, rep_grace_sec = 0\<rparr>;
          report =
            (if event = S2S_EVENT_TURN_COMMITTED then
               let pad = nat (ss_pad_windows s) * ss_window s in
               report\<lparr>rep_pcm := ss_turn_pcm s,
                      rep_n_samples := min (length (ss_turn_pcm s)) (ss_speech_end s + pad),
                      rep_n_held := length (ss_turn_pcm s),
                      rep_grace_sec := seconds s (nat (ss_grace_given s))\<rparr>
             else report)
      in [report])"

definition s2s_session_try_final :: "'v s2s_session \<Rightarrow> 'v s2s_session \<times> s2s_session_report list" where
  "s2s_session_try_final s =
     (if ss_committed s \<and> ss_released s \<and> ss_grace_left s = 0 then
        let s = s\<lparr>ss_committed := False, ss_turn_pcm := []\<rparr>
        in (s, s2s_session_emit s S2S_EVENT_TURN_FINAL 0)
      else (s, []))"

definition s2s_session_release ::
  "'v s2s_session \<Rightarrow> int \<Rightarrow> int \<Rightarrow> 'v s2s_session \<times> s2s_session_report list" where
  "s2s_session_release s turn_id revision =
     (if \<not> ss_committed s \<or> turn_id \<noteq> ss_turn_id s \<or> revision \<noteq> ss_revision s then (s, [])
      else s2s_session_try_final (s\<lparr>ss_released := True\<rparr>))"

definition s2s_session_open_turn :: "'v s2s_session \<Rightarrow> 'v s2s_session \<times> s2s_session_report list" where
  "s2s_session_open_turn s =
     (let pcm = SampleRing_read (ss_lookback s);
          s = s\<lparr>ss_turn_id := ss_turn_id s + 1, ss_revision := 0, ss_grace_left := 0, ss_committed := False,
                ss_turn_pcm := pcm, ss_speech_end := length pcm, ss_phase := S2S_SESSION_USER_SPEAKING\<rparr>
      in (s, s2s_session_emit s S2S_EVENT_SPEECH_STARTED 0))"

definition s2s_session_commit ::
  "'v s2s_session \<Rightarrow> f32 \<Rightarrow> int \<Rightarrow> 'v s2s_session \<times> s2s_session_report list" where
  "s2s_session_commit s score grace =
     (let s = s\<lparr>ss_phase := S2S_SESSION_IDLE, ss_pending_run := 0, ss_speech_run := 0, ss_committed := True,
                ss_released := False, ss_grace_left := grace, ss_grace_given := grace\<rparr>
      in (s, s2s_session_emit s S2S_EVENT_TURN_COMMITTED score))"

section \<open>One window\<close>

text \<open>The grace: \<open>if (s->grace_left > 0 && --s->grace_left == 0)\<close>.\<close>

definition window_grace :: "'v s2s_session \<Rightarrow> 'v s2s_session \<times> s2s_session_report list" where
  "window_grace s =
     (if 0 < ss_grace_left s then
        let s = s\<lparr>ss_grace_left := ss_grace_left s - 1\<rparr>
        in if ss_grace_left s = 0 then s2s_session_try_final s else (s, [])
      else (s, []))"

text \<open>The probability, the two runs, the two rings and the audio of the turn.\<close>

definition window_hear :: "'v session_models \<Rightarrow> 'v s2s_session \<Rightarrow> f32 list \<Rightarrow> 'v s2s_session" where
  "window_hear m s window =
     (let (prob, state) = m_sv_prob m (ss_state s) window;
          stay = min (sp_vad_neg_threshold (ss_params s)) (sp_vad_threshold (ss_params s));
          is_speech = (if ss_in_speech s then stay else sp_vad_threshold (ss_params s)) \<le> prob;
          s = s\<lparr>ss_state := state, ss_in_speech := is_speech,
                ss_speech_run := (if is_speech then ss_speech_run s + 1 else 0),
                ss_silence_run := (if is_speech then 0 else ss_silence_run s + 1),
                ss_lookback := SampleRing_push (ss_lookback s) window,
                ss_stream := SampleRing_push (ss_stream s) window\<rparr>
      in if ss_phase s \<noteq> S2S_SESSION_IDLE \<or> ss_committed s then
           let s = s\<lparr>ss_turn_pcm := ss_turn_pcm s @ window\<rparr>
           in if is_speech then s\<lparr>ss_speech_end := length (ss_turn_pcm s)\<rparr> else s
         else s)"

definition window_idle :: "'v s2s_session \<Rightarrow> 'v s2s_session \<times> s2s_session_report list" where
  "window_idle s =
     (if ss_committed s \<and> ss_reopen_windows s \<le> ss_speech_run s then
        let s = s\<lparr>ss_grace_left := 0, ss_committed := False, ss_revision := ss_revision s + 1,
                  ss_phase := S2S_SESSION_USER_SPEAKING\<rparr>
        in (s, s2s_session_emit s S2S_EVENT_TURN_RESUMED 0)
      else if (if ss_speaking s then ss_barge_windows s else ss_open_windows s) \<le> ss_speech_run s then
        let barge = (if ss_speaking s then s2s_session_emit s S2S_EVENT_BARGE_IN 0 else []);
            (s, started) = s2s_session_open_turn s
        in (s, barge @ started)
      else (s, []))"

definition window_speaking ::
  "'v session_models \<Rightarrow> 'v s2s_session \<Rightarrow> 'v s2s_session \<times> s2s_session_report list" where
  "window_speaking m s =
     (if ss_close_windows s \<le> ss_silence_run s then
        let s = s\<lparr>ss_phase := S2S_SESSION_PENDING_END, ss_pending_run := 0\<rparr>;
            stopped = s2s_session_emit s S2S_EVENT_SPEECH_STOPPED 0;
            score = m_st_predict m (SampleRing_read (ss_stream s))
        in if sp_turn_threshold (ss_params s) \<le> score then
             let (s, committed) = s2s_session_commit s score (ss_grace_windows s)
             in (s, stopped @ committed)
           else (s, stopped @ s2s_session_emit s S2S_EVENT_TURN_REOPENED score)
      else (s, []))"

definition window_pending :: "'v s2s_session \<Rightarrow> 'v s2s_session \<times> s2s_session_report list" where
  "window_pending s =
     (let s = s\<lparr>ss_pending_run := ss_pending_run s + 1\<rparr> in
      if ss_reopen_windows s \<le> ss_speech_run s then
        let s = s\<lparr>ss_revision := ss_revision s + 1, ss_phase := S2S_SESSION_USER_SPEAKING\<rparr>
        in (s, s2s_session_emit s S2S_EVENT_SPEECH_STARTED 0)
      else if ss_delay_windows s \<le> ss_pending_run s then
        s2s_session_commit s 0 (ss_wait_windows s - ss_delay_windows s)
      else (s, []))"

definition window_phase ::
  "'v session_models \<Rightarrow> 'v s2s_session \<Rightarrow> 'v s2s_session \<times> s2s_session_report list" where
  "window_phase m s =
     (case ss_phase s of
        S2S_SESSION_IDLE \<Rightarrow> window_idle s
      | S2S_SESSION_USER_SPEAKING \<Rightarrow> window_speaking m s
      | S2S_SESSION_PENDING_END \<Rightarrow> window_pending s)"

definition s2s_session_window ::
  "'v session_models \<Rightarrow> 'v s2s_session \<Rightarrow> f32 list \<Rightarrow> 'v s2s_session \<times> s2s_session_report list" where
  "s2s_session_window m s window =
     (let (s, final) = window_grace s;
          s = window_hear m s window;
          (s, decided) = window_phase m s
      in (s\<lparr>ss_n_windows := ss_n_windows s + 1\<rparr>, final @ decided))"

section \<open>The stream\<close>

text \<open>The loop over the windows a push completes, then what is left over. The models' window is never
  empty; on an empty one the source would not return.\<close>

function session_loop ::
  "'v session_models \<Rightarrow> 'v s2s_session \<Rightarrow> f32 list \<Rightarrow> 'v s2s_session \<times> s2s_session_report list" where
  "session_loop m s pcm =
     (if 0 < ss_window s \<and> ss_window s \<le> length pcm then
        let (s1, o1) = s2s_session_window m s (take (ss_window s) pcm);
            (s2, o2) = session_loop m s1 (drop (ss_window s) pcm)
        in (s2, o1 @ o2)
      else (s\<lparr>ss_partial := pcm\<rparr>, []))"
  by pat_completeness auto
termination
  by (relation "measure (\<lambda>(m, s, pcm). length pcm)") auto

declare session_loop.simps [simp del]

definition s2s_session_push ::
  "'v session_models \<Rightarrow> 'v s2s_session \<Rightarrow> f32 list \<Rightarrow> 'v s2s_session \<times> s2s_session_report list" where
  "s2s_session_push m s pcm =
     (if ss_partial s \<noteq> [] then
        let missing = ss_window s - length (ss_partial s); n = min missing (length pcm);
            s = s\<lparr>ss_partial := ss_partial s @ take n pcm\<rparr>
        in if length (ss_partial s) < ss_window s then (s, [])
           else
             let (s1, o1) = s2s_session_window m s (ss_partial s);
                 s1 = s1\<lparr>ss_partial := []\<rparr>;
                 (s2, o2) = session_loop m s1 (drop n pcm)
             in (s2, o1 @ o2)
      else session_loop m s pcm)"

section \<open>What a window leaves alone\<close>

lemmas session_stage_defs =
  s2s_session_try_final_def s2s_session_release_def s2s_session_open_turn_def s2s_session_commit_def
  window_grace_def window_hear_def window_idle_def window_speaking_def window_pending_def window_phase_def

text \<open>The settings and the samples that wait for a window.\<close>

definition session_static :: "'v s2s_session \<Rightarrow> 'v s2s_session \<Rightarrow> bool" where
  "session_static s t \<longleftrightarrow>
     ss_cb t = ss_cb s \<and> ss_window t = ss_window s \<and> ss_sample_rate t = ss_sample_rate s \<and>
     ss_params t = ss_params s \<and> ss_partial t = ss_partial s \<and> ss_open_windows t = ss_open_windows s \<and>
     ss_barge_windows t = ss_barge_windows s \<and> ss_reopen_windows t = ss_reopen_windows s \<and>
     ss_close_windows t = ss_close_windows s \<and> ss_pad_windows t = ss_pad_windows s \<and>
     ss_delay_windows t = ss_delay_windows s \<and> ss_wait_windows t = ss_wait_windows s \<and>
     ss_grace_windows t = ss_grace_windows s \<and> ss_speaking t = ss_speaking s"

lemma session_static_trans: "session_static s t \<Longrightarrow> session_static t u \<Longrightarrow> session_static s u"
  by (simp add: session_static_def)

lemma static_stages:
  "session_static s (fst (window_grace s))" "session_static s (window_hear m s w)"
  "session_static s (fst (window_phase m s))" "session_static s (fst (s2s_session_release s i r))"
  by (auto simp: session_static_def session_stage_defs Let_def split_beta split: s2s_session_state.splits)

lemma window_static: "session_static s (fst (s2s_session_window m s w))"
proof -
  define s1 where "s1 = fst (window_grace s)"
  define s2 where "s2 = window_hear m s1 w"
  have "session_static s (fst (window_phase m s2))"
    unfolding s1_def s2_def by (blast intro: session_static_trans static_stages)
  then show ?thesis
    by (simp add: s2s_session_window_def split_beta Let_def s1_def s2_def session_static_def)
qed

lemma window_static_simps [simp]:
  "ss_window (fst (s2s_session_window m s w)) = ss_window s"
  "ss_cb (fst (s2s_session_window m s w)) = ss_cb s"
  "ss_partial (fst (s2s_session_window m s w)) = ss_partial s"
  "ss_sample_rate (fst (s2s_session_window m s w)) = ss_sample_rate s"
  using window_static [of s m w] by (simp_all add: session_static_def)

text \<open>The samples that wait do not change what a window does.\<close>

lemma emit_partial [simp]: "s2s_session_emit (s\<lparr>ss_partial := p\<rparr>) e x = s2s_session_emit s e x"
  by (simp add: s2s_session_emit_def seconds_def Let_def)

lemma decision_partial:
  "window_idle (s\<lparr>ss_partial := p\<rparr>) = (let (t, out) = window_idle s in (t\<lparr>ss_partial := p\<rparr>, out))"
  "window_speaking m (s\<lparr>ss_partial := p\<rparr>) = (let (t, out) = window_speaking m s in (t\<lparr>ss_partial := p\<rparr>, out))"
  "window_pending (s\<lparr>ss_partial := p\<rparr>) = (let (t, out) = window_pending s in (t\<lparr>ss_partial := p\<rparr>, out))"
proof -
  note emits = s2s_session_emit_def seconds_def Let_def split_beta
  show "window_idle (s\<lparr>ss_partial := p\<rparr>) = (let (t, out) = window_idle s in (t\<lparr>ss_partial := p\<rparr>, out))"
    by (simp add: window_idle_def s2s_session_open_turn_def emits)
  show "window_speaking m (s\<lparr>ss_partial := p\<rparr>) = (let (t, out) = window_speaking m s in (t\<lparr>ss_partial := p\<rparr>, out))"
    by (simp add: window_speaking_def s2s_session_commit_def emits)
  show "window_pending (s\<lparr>ss_partial := p\<rparr>) = (let (t, out) = window_pending s in (t\<lparr>ss_partial := p\<rparr>, out))"
    by (simp add: window_pending_def s2s_session_commit_def emits)
qed

lemma stage_partial:
  "window_grace (s\<lparr>ss_partial := p\<rparr>) = (let (t, out) = window_grace s in (t\<lparr>ss_partial := p\<rparr>, out))"
  "window_hear m (s\<lparr>ss_partial := p\<rparr>) w = (window_hear m s w)\<lparr>ss_partial := p\<rparr>"
  "window_phase m (s\<lparr>ss_partial := p\<rparr>) = (let (t, out) = window_phase m s in (t\<lparr>ss_partial := p\<rparr>, out))"
proof -
  show "window_grace (s\<lparr>ss_partial := p\<rparr>) = (let (t, out) = window_grace s in (t\<lparr>ss_partial := p\<rparr>, out))"
    by (simp add: window_grace_def s2s_session_try_final_def s2s_session_emit_def seconds_def Let_def)
  show "window_hear m (s\<lparr>ss_partial := p\<rparr>) w = (window_hear m s w)\<lparr>ss_partial := p\<rparr>"
    by (simp add: window_hear_def Let_def split_beta)
  show "window_phase m (s\<lparr>ss_partial := p\<rparr>) = (let (t, out) = window_phase m s in (t\<lparr>ss_partial := p\<rparr>, out))"
    by (cases "ss_phase s") (simp_all add: window_phase_def decision_partial)
qed

lemma window_partial:
  "s2s_session_window m (s\<lparr>ss_partial := p\<rparr>) w =
     ((fst (s2s_session_window m s w))\<lparr>ss_partial := p\<rparr>, snd (s2s_session_window m s w))"
  by (simp add: s2s_session_window_def stage_partial Let_def split_beta)

section \<open>The stream is cut anywhere\<close>

lemma session_loop_partial: "session_loop m (s\<lparr>ss_partial := p\<rparr>) pcm = session_loop m s pcm"
proof (induction m s pcm arbitrary: p rule: session_loop.induct)
  case (1 m s pcm)
  show ?case
  proof (cases "0 < ss_window s \<and> ss_window s \<le> length pcm")
    case True
    then show ?thesis
      using "1.IH" [OF True, of "s2s_session_window m s (take (ss_window s) pcm)"]
      by (subst (1 2) session_loop.simps) (simp add: window_partial split_beta Let_def prod_eq_iff)
  next
    case False
    then show ?thesis by (subst (1 2) session_loop.simps) auto
  qed
qed

definition stream_ok :: "'v s2s_session \<Rightarrow> bool" where
  "stream_ok s \<longleftrightarrow> length (ss_partial s) < ss_window s"

lemma push_loop:
  assumes "stream_ok s"
  shows "s2s_session_push m s pcm = session_loop m s (ss_partial s @ pcm)"
proof (cases "ss_partial s = []")
  case True
  then show ?thesis by (simp add: s2s_session_push_def)
next
  case False
  define n where "n = min (ss_window s - length (ss_partial s)) (length pcm)"
  have window: "0 < ss_window s" using assms by (simp add: stream_ok_def)
  show ?thesis
  proof (cases "length (ss_partial s @ pcm) < ss_window s")
    case True
    then have "take n pcm = pcm" "n = length pcm" by (simp_all add: n_def)
    then show ?thesis
      using True False by (subst session_loop.simps) (simp add: s2s_session_push_def n_def [symmetric] Let_def)
  next
    case full: False
    then have n: "n = ss_window s - length (ss_partial s)" "length (ss_partial s) \<le> ss_window s"
      using assms by (auto simp: n_def stream_ok_def)
    have "take (ss_window s) (ss_partial s @ pcm) = ss_partial s @ take n pcm"
      "drop (ss_window s) (ss_partial s @ pcm) = drop n pcm"
      using n by simp_all
    moreover have "length (ss_partial s @ take n pcm) = ss_window s" using n full by simp
    moreover have "s\<lparr>ss_partial := ss_partial s @ take n pcm\<rparr> = s\<lparr>ss_partial := ss_partial s @ take n pcm\<rparr>" ..
    ultimately show ?thesis
      using False full window
      by (subst session_loop.simps)
        (simp add: s2s_session_push_def n_def [symmetric] Let_def split_beta window_partial session_loop_partial)
  qed
qed

lemma loop_stream_ok: "0 < ss_window s \<Longrightarrow> stream_ok (fst (session_loop m s pcm)) \<and>
    ss_window (fst (session_loop m s pcm)) = ss_window s"
proof (induction m s pcm rule: session_loop.induct)
  case (1 m s pcm)
  show ?case
  proof (cases "ss_window s \<le> length pcm")
    case True
    with "1.prems" have c: "0 < ss_window s \<and> ss_window s \<le> length pcm" by simp
    show ?thesis
      using "1.IH" [OF c, of "s2s_session_window m s (take (ss_window s) pcm)"] "1.prems" c
      by (subst (1 2) session_loop.simps) (simp add: split_beta Let_def prod_eq_iff)
  next
    case False
    then show ?thesis using "1.prems" by (subst (1 2) session_loop.simps) (simp add: stream_ok_def)
  qed
qed

lemma loop_append:
  "0 < ss_window s \<Longrightarrow> session_loop m s (xs @ ys) =
     (fst (session_loop m (fst (session_loop m s xs)) (ss_partial (fst (session_loop m s xs)) @ ys)),
      snd (session_loop m s xs) @ snd (session_loop m (fst (session_loop m s xs)) (ss_partial (fst (session_loop m s xs)) @ ys)))"
proof (induction m s xs rule: session_loop.induct)
  case (1 m s xs)
  show ?case
  proof (cases "ss_window s \<le> length xs")
    case True
    with "1.prems" have c: "0 < ss_window s \<and> ss_window s \<le> length xs" by simp
    define t where "t = s2s_session_window m s (take (ss_window s) xs)"
    have step: "session_loop m s (xs @ zs) =
        (fst (session_loop m (fst t) (drop (ss_window s) xs @ zs)),
         snd t @ snd (session_loop m (fst t) (drop (ss_window s) xs @ zs)))" for zs
      using c by (subst session_loop.simps) (simp add: t_def split_beta Let_def)
    from step [of "[]"] step [of ys] "1.IH" [OF c, of t] "1.prems" show ?thesis
      by (simp add: t_def [symmetric] prod_eq_iff) (simp add: t_def)
  next
    case False
    have "session_loop m s xs = (s\<lparr>ss_partial := xs\<rparr>, [])"
      using False by (subst session_loop.simps) simp
    then show ?thesis by (simp add: session_loop_partial)
  qed
qed

interpretation stream: chunked "s2s_session_push m" stream_ok
proof unfold_locales
  fix s :: "'a s2s_session" and xs ys
  assume ok: "stream_ok s"
  then have w: "0 < ss_window s" by (simp add: stream_ok_def)
  show "s2s_session_push m s [] = (s, [])"
    using ok by (simp add: push_loop) (subst session_loop.simps, simp add: stream_ok_def)
  show ok': "stream_ok (fst (s2s_session_push m s xs))"
    using ok by (simp add: push_loop loop_stream_ok w)
  show "s2s_session_push m s (xs @ ys) =
      (fst (s2s_session_push m (fst (s2s_session_push m s xs)) ys),
       snd (s2s_session_push m s xs) @ snd (s2s_session_push m (fst (s2s_session_push m s xs)) ys))"
    using ok ok' loop_append [OF w, of m "ss_partial s @ xs" ys] by (simp add: push_loop)
qed

end
