(* ===== verification/Turn_Life.thy ===== *)
theory Turn_Life
  imports Session
begin

text \<open>
  What the session promises of a turn. The abstract machine has the life of one turn, its number and
  its revision; the reports of \<open>src/s2s-session.cpp\<close> are its steps, and every run of the session is a
  run of the machine.
\<close>

section \<open>Runs\<close>

text \<open>What the callers of a session do to it, each under the session mutex.\<close>

datatype session_input =
    Push "f32 list"
  | Release int int
  | Set_Speaking bool
  | Set_Params s2s_session_params

fun session_do ::
  "'v session_models \<Rightarrow> 'v s2s_session \<Rightarrow> session_input \<Rightarrow> 'v s2s_session \<times> s2s_session_report list" where
  "session_do m s (Push pcm) = s2s_session_push m s pcm"
| "session_do m s (Release i r) = s2s_session_release s i r"
| "session_do m s (Set_Speaking b) = (s2s_session_set_speaking s b, [])"
| "session_do m s (Set_Params p) = (s2s_session_set_params s p, [])"

fun session_run ::
  "'v session_models \<Rightarrow> 'v s2s_session \<Rightarrow> session_input list \<Rightarrow> 'v s2s_session \<times> s2s_session_report list" where
  "session_run m s [] = (s, [])"
| "session_run m s (i # is) =
     (let (s1, o1) = session_do m s i; (s2, o2) = session_run m s1 is in (s2, o1 @ o2))"

text \<open>
  A relation between a session and what a call makes of it, with the reports it emits, that holds of
  every window, of every other call, and along their sequence: it then holds of every run.
\<close>

locale session_rel =
  fixes m :: "'v session_models"
    and I :: "'v s2s_session \<Rightarrow> bool"
    and R :: "'v s2s_session \<Rightarrow> 'v s2s_session \<times> s2s_session_report list \<Rightarrow> bool"
  assumes R_inv: "I s \<Longrightarrow> R s res \<Longrightarrow> I (fst res)"
    and R_trans: "R s (t, xs) \<Longrightarrow> R t (u, ys) \<Longrightarrow> R s (u, xs @ ys)"
    and R_partial: "I s \<Longrightarrow> R s (s\<lparr>ss_partial := p\<rparr>, [])"
    and R_window: "I s \<Longrightarrow> R s (s2s_session_window m s w)"
    and R_release: "I s \<Longrightarrow> R s (s2s_session_release s i r)"
    and R_speaking: "I s \<Longrightarrow> R s (s2s_session_set_speaking s b, [])"
    and R_params: "I s \<Longrightarrow> R s (s2s_session_set_params s p', [])"
begin

lemma R_comp:
  assumes "I s" "R s res" "\<And>t. t = fst res \<Longrightarrow> I t \<Longrightarrow> R t res'"
  shows "R s (fst res', snd res @ snd res')"
proof (rule R_trans)
  show "R s (fst res, snd res)" using assms(2) by simp
  show "R (fst res) (fst res', snd res')" using assms(3) R_inv [OF assms(1,2)] by simp
qed

lemma R_loop: "I s \<Longrightarrow> R s (session_loop m s pcm)"
proof (induction "length pcm" arbitrary: s pcm rule: less_induct)
  case less
  show ?case
  proof (cases "0 < ss_window s \<and> ss_window s \<le> length pcm")
    case False
    then show ?thesis using R_partial less.prems by (subst session_loop.simps) auto
  next
    case True
    have "R s (fst (session_loop m (fst (s2s_session_window m s (take (ss_window s) pcm))) (drop (ss_window s) pcm)),
        snd (s2s_session_window m s (take (ss_window s) pcm)) @
        snd (session_loop m (fst (s2s_session_window m s (take (ss_window s) pcm))) (drop (ss_window s) pcm)))"
      using less.hyps True by (intro R_comp less.prems R_window) auto
    then show ?thesis using True by (subst session_loop.simps) (simp add: split_beta Let_def)
  qed
qed

lemma R_push: "I s \<Longrightarrow> R s (s2s_session_push m s pcm)"
proof -
  assume I: "I s"
  define n where "n = min (ss_window s - length (ss_partial s)) (length pcm)"
  define u where "u = s\<lparr>ss_partial := ss_partial s @ take n pcm\<rparr>"
  define t where "t = s2s_session_window m u (ss_partial u)"
  define v where "v = (fst t)\<lparr>ss_partial := []\<rparr>"
  have su: "R s (u, [])" using R_partial [OF I] by (simp add: u_def)
  then have u: "I u" using R_inv [OF I] by fastforce
  have "R u (fst t, snd t)" using R_window [OF u] by (simp add: t_def)
  moreover have "R (fst t) (v, [])"
    unfolding v_def t_def by (rule R_partial [OF R_inv [OF u R_window [OF u]]])
  ultimately have uv: "R u (v, snd t)" using R_trans by fastforce
  then have "I v" using R_inv [OF u] by fastforce
  then have "R v (fst (session_loop m v (drop n pcm)), snd (session_loop m v (drop n pcm)))"
    using R_loop by simp
  from R_trans [OF su R_trans [OF uv this]]
  have "R s (fst (session_loop m v (drop n pcm)), snd t @ snd (session_loop m v (drop n pcm)))" by simp
  then show ?thesis
    using R_loop [OF I] su
    by (simp add: s2s_session_push_def n_def [symmetric] u_def [symmetric] t_def [symmetric] v_def [symmetric]
        Let_def split_beta)
qed

lemma R_do: "I s \<Longrightarrow> R s (session_do m s i)"
  by (cases i) (simp_all add: R_push R_release R_speaking R_params)

lemma R_run: "I s \<Longrightarrow> R s (session_run m s is)"
proof (induction "is" arbitrary: s)
  case Nil
  have "R s (s\<lparr>ss_partial := ss_partial s\<rparr>, [])" by (rule R_partial [OF Nil])
  then show ?case by simp
next
  case (Cons i "is")
  have "R s (fst (session_run m (fst (session_do m s i)) is),
      snd (session_do m s i) @ snd (session_run m (fst (session_do m s i)) is))"
    using Cons by (intro R_comp R_do) auto
  then show ?case by (simp add: split_beta Let_def)
qed

lemma run_keeps: "I s \<Longrightarrow> I (fst (session_run m s is))"
  using R_run R_inv by blast

end

section \<open>The abstract machine\<close>

datatype turn_life = Closed | Speaking | Pending | Held

type_synonym life = "turn_life \<times> int \<times> int"

fun life_step :: "life \<Rightarrow> s2s_session_event \<times> int \<times> int \<Rightarrow> life option" where
  "life_step (l, i, r) (S2S_EVENT_SPEECH_STARTED, i', r') =
     (if l \<in> {Closed, Held} \<and> i' = i + 1 \<and> r' = 0 then Some (Speaking, i', r')
      else if l = Pending \<and> i' = i \<and> r' = r + 1 then Some (Speaking, i', r') else None)"
| "life_step (l, i, r) (S2S_EVENT_BARGE_IN, i', r') =
     (if l \<in> {Closed, Held} \<and> i' = i \<and> r' = r then Some (l, i, r) else None)"
| "life_step (l, i, r) (S2S_EVENT_SPEECH_STOPPED, i', r') =
     (if l = Speaking \<and> i' = i \<and> r' = r then Some (Pending, i, r) else None)"
| "life_step (l, i, r) (S2S_EVENT_TURN_REOPENED, i', r') =
     (if l = Pending \<and> i' = i \<and> r' = r then Some (Pending, i, r) else None)"
| "life_step (l, i, r) (S2S_EVENT_TURN_COMMITTED, i', r') =
     (if l = Pending \<and> i' = i \<and> r' = r then Some (Held, i, r) else None)"
| "life_step (l, i, r) (S2S_EVENT_TURN_RESUMED, i', r') =
     (if l = Held \<and> i' = i \<and> r' = r + 1 then Some (Speaking, i', r') else None)"
| "life_step (l, i, r) (S2S_EVENT_TURN_FINAL, i', r') =
     (if l = Held \<and> i' = i \<and> r' = r then Some (Closed, i, r) else None)"

definition report_key :: "s2s_session_report \<Rightarrow> s2s_session_event \<times> int \<times> int" where
  "report_key rep = (rep_event rep, rep_turn_id rep, rep_revision rep)"

fun life_run :: "life \<Rightarrow> s2s_session_report list \<Rightarrow> life option" where
  "life_run a [] = Some a"
| "life_run a (r # rs) = (case life_step a (report_key r) of None \<Rightarrow> None | Some b \<Rightarrow> life_run b rs)"

lemma life_run_append [simp]:
  "life_run a (xs @ ys) = (case life_run a xs of None \<Rightarrow> None | Some b \<Rightarrow> life_run b ys)"
  by (induction xs arbitrary: a) (auto split: option.splits)

definition life_of :: "'v s2s_session \<Rightarrow> life" where
  "life_of s =
     (case ss_phase s of
        S2S_SESSION_IDLE \<Rightarrow> if ss_committed s then Held else Closed
      | S2S_SESSION_USER_SPEAKING \<Rightarrow> Speaking
      | S2S_SESSION_PENDING_END \<Rightarrow> Pending,
      ss_turn_id s, ss_revision s)"

section \<open>The session is a run of the machine\<close>

definition life_ok :: "'v s2s_session \<Rightarrow> bool" where
  "life_ok s \<longleftrightarrow> ss_cb s \<and> (ss_committed s \<longrightarrow> ss_phase s = S2S_SESSION_IDLE)"

lemma key_emit: "ss_cb s \<Longrightarrow>
    map report_key (s2s_session_emit s e x) = [(e, ss_turn_id s, ss_revision s)]"
  by (simp add: s2s_session_emit_def report_key_def Let_def)

lemma life_run_keys: "life_run a rs = foldl (\<lambda>acc k. case acc of None \<Rightarrow> None | Some b \<Rightarrow> life_step b k) (Some a) (map report_key rs)"
proof -
  have none: "foldl (\<lambda>acc k. case acc of None \<Rightarrow> None | Some b \<Rightarrow> life_step b k) None ks = None" for ks
    by (induction ks) simp_all
  show ?thesis by (induction rs arbitrary: a) (auto simp: none split: option.splits)
qed

lemma life_run_emit: "ss_cb s \<Longrightarrow>
    life_run a (s2s_session_emit s e x) = life_step a (e, ss_turn_id s, ss_revision s)"
  by (simp add: life_run_keys key_emit)

text \<open>A stage simulates: its reports lead from the life before to the life after.\<close>

definition simulates :: "'v s2s_session \<Rightarrow> 'v s2s_session \<times> s2s_session_report list \<Rightarrow> bool" where
  "simulates s res \<longleftrightarrow> life_ok (fst res) \<and> life_run (life_of s) (snd res) = Some (life_of (fst res))"

lemma simulates_then:
  "simulates s (t, xs) \<Longrightarrow> simulates t (u, ys) \<Longrightarrow> simulates s (u, xs @ ys)"
  by (auto simp: simulates_def)

lemma simulates_refl: "life_ok s \<Longrightarrow> simulates s (s, [])"
  by (simp add: simulates_def)

lemma simulates_same: "life_of s = life_of s' \<Longrightarrow> simulates s res \<Longrightarrow> simulates s' res"
  by (simp add: simulates_def)

lemma release_simulates: "life_ok s \<Longrightarrow> simulates s (s2s_session_release s i r)"
  by (auto simp: s2s_session_release_def s2s_session_try_final_def simulates_def life_ok_def life_of_def
      life_run_emit Let_def)

lemma grace_simulates: "life_ok s \<Longrightarrow> simulates s (window_grace s)"
  by (auto simp: window_grace_def s2s_session_try_final_def simulates_def life_ok_def life_of_def
      life_run_emit Let_def)

lemma hear_life: "life_of (window_hear m s w) = life_of s" "life_ok (window_hear m s w) = life_ok s"
  by (simp_all add: window_hear_def Let_def split_beta life_of_def life_ok_def split: s2s_session_state.splits)

lemma phase_simulates: "life_ok s \<Longrightarrow> simulates s (window_phase m s)"
  by (auto simp: window_phase_def window_idle_def window_speaking_def window_pending_def
      s2s_session_open_turn_def s2s_session_commit_def simulates_def life_ok_def life_of_def
      life_run_emit Let_def split: s2s_session_state.splits)

lemma window_simulates:
  assumes "life_ok s"
  shows "simulates s (s2s_session_window m s w)"
proof -
  define g where "g = window_grace s"
  define h where "h = window_hear m (fst g) w"
  define d where "d = window_phase m h"
  have g: "simulates s (fst g, snd g)" using grace_simulates [OF assms] by (simp add: g_def)
  then have "life_ok (fst g)" by (simp add: simulates_def)
  then have "simulates h (fst d, snd d)"
    using phase_simulates [of h m] by (simp add: d_def h_def hear_life)
  then have "simulates (fst g) (fst d, snd d)"
    by (rule simulates_same [rotated]) (simp add: h_def hear_life)
  from simulates_then [OF g this] show ?thesis
    by (simp add: s2s_session_window_def split_beta Let_def g_def h_def d_def simulates_def life_ok_def life_of_def)
qed

interpretation life: session_rel m life_ok simulates
proof unfold_locales
  fix s :: "'a s2s_session" and p b p'
  assume ok: "life_ok s"
  show "simulates s (s\<lparr>ss_partial := p\<rparr>, [])"
    using ok by (simp add: simulates_def life_ok_def life_of_def)
  show "simulates s (s2s_session_set_speaking s b, [])"
    using ok by (simp add: simulates_def life_ok_def life_of_def s2s_session_set_speaking_def)
  show "simulates s (s2s_session_set_params s p', [])"
    using ok by (simp add: simulates_def life_ok_def life_of_def s2s_session_set_params_def Let_def)
qed (auto simp: simulates_then window_simulates release_simulates, auto simp: simulates_def)

lemma life_new [simp]:
  "life_ok (s2s_session_new m p True)" "life_of (s2s_session_new m p cb) = (Closed, 0, 0)"
  by (simp_all add: s2s_session_new_def s2s_session_set_params_def session_members_def life_ok_def life_of_def
      Let_def)

text \<open>C1: Whatever audio a session is fed, in whatever pieces, whenever it is released, told who holds
  the floor or given new thresholds, the events it reports are a run of the abstract life of a turn:
  a turn opens under the next number, stops, is judged unfinished or committed, resumes under the
  next revision or is final, and the machine ends where the session is.\<close>

theorem session_refines_turn_life:
  "life_run (Closed, 0, 0) (snd (session_run m (s2s_session_new m params True) inputs))
     = Some (life_of (fst (session_run m (s2s_session_new m params True) inputs)))"
proof -
  have "simulates (s2s_session_new m params True) (session_run m (s2s_session_new m params True) inputs)"
    by (rule life.R_run) simp
  then show ?thesis by (simp add: simulates_def)
qed

section \<open>Commits\<close>

fun turn_less :: "int \<times> int \<Rightarrow> int \<times> int \<Rightarrow> bool" where
  "turn_less (i, r) (i', r') \<longleftrightarrow> i < i' \<or> i = i' \<and> r < r'"

definition turn_key :: "s2s_session_report \<Rightarrow> int \<times> int" where
  "turn_key rep = (rep_turn_id rep, rep_revision rep)"

definition commits :: "s2s_session_report list \<Rightarrow> s2s_session_report list" where
  "commits rs = filter (\<lambda>r. rep_event r = S2S_EVENT_TURN_COMMITTED) rs"

text \<open>The machine is about to commit the turn it has, or a later one.\<close>

definition may_commit :: "life \<Rightarrow> int \<times> int \<Rightarrow> bool" where
  "may_commit a k = (case a of (l, i, r) \<Rightarrow> turn_less (i, r) k \<or> l \<in> {Speaking, Pending} \<and> k = (i, r))"

lemma may_commit_step:
  "life_step a k = Some b \<Longrightarrow> may_commit b x \<Longrightarrow> may_commit a x"
  by (cases "(a, k)" rule: life_step.cases; cases x) (auto simp: may_commit_def split: if_splits)

lemma commit_step:
  "life_step a (S2S_EVENT_TURN_COMMITTED, i, r) = Some b \<Longrightarrow>
   may_commit a (i, r) \<and> (may_commit b x \<longrightarrow> turn_less (i, r) x)"
  by (cases a) (auto simp: may_commit_def split: if_splits)

lemma commits_ordered:
  "life_run a rs = Some b \<Longrightarrow>
   sorted_wrt turn_less (map turn_key (commits rs)) \<and> list_all (may_commit a) (map turn_key (commits rs))"
proof (induction rs arbitrary: a)
  case (Cons r rs)
  then obtain c where c: "life_step a (report_key r) = Some c" "life_run c rs = Some b"
    by (auto split: option.splits)
  note IH = Cons.IH [OF c(2)]
  then have rest: "list_all (may_commit a) (map turn_key (commits rs))"
    using may_commit_step [OF c(1)] by (auto simp: list_all_iff)
  show ?case
  proof (cases "rep_event r = S2S_EVENT_TURN_COMMITTED")
    case True
    then have "report_key r = (S2S_EVENT_TURN_COMMITTED, rep_turn_id r, rep_revision r)"
      by (simp add: report_key_def)
    with c(1) have "may_commit a (turn_key r) \<and> (\<forall>x. may_commit c x \<longrightarrow> turn_less (turn_key r) x)"
      using commit_step unfolding turn_key_def by metis
    then show ?thesis
      using IH rest True by (simp add: commits_def list_all_iff del: split_paired_All)
  qed (use IH rest in \<open>simp add: commits_def\<close>)
qed (simp add: commits_def)

text \<open>A session never hands the same turn and revision over twice: along any run, the commits come
  under strictly increasing turn number and revision, so a commit replaces every one before it.\<close>

theorem commits_strictly_increase:
  "sorted_wrt turn_less
     (map turn_key (commits (snd (session_run m (s2s_session_new m params True) inputs))))"
proof -
  have "simulates (s2s_session_new m params True) (session_run m (s2s_session_new m params True) inputs)"
    by (rule life.R_run) simp
  then have "life_run (Closed, 0, 0) (snd (session_run m (s2s_session_new m params True) inputs)) =
      Some (life_of (fst (session_run m (s2s_session_new m params True) inputs)))"
    by (simp add: simulates_def)
  from commits_ordered [OF this] show ?thesis by simp
qed

end
