(* ===== verification/Turn_Audio.thy ===== *)
theory Turn_Audio
  imports Turn_Life
begin

text \<open>
  What the session keeps while it runs: the well-formedness of its state, the silence it keeps on an
  answer, and where the audio of a turn comes from.
\<close>

lemma loop_stop:
  "\<not> (0 < ss_window s \<and> ss_window s \<le> length pcm) \<Longrightarrow> session_loop m s pcm = (s\<lparr>ss_partial := pcm\<rparr>, [])"
  by (subst session_loop.simps) auto

lemma loop_go:
  "0 < ss_window s \<and> ss_window s \<le> length pcm \<Longrightarrow> session_loop m s pcm =
     (fst (session_loop m (fst (s2s_session_window m s (take (ss_window s) pcm))) (drop (ss_window s) pcm)),
      snd (s2s_session_window m s (take (ss_window s) pcm)) @
      snd (session_loop m (fst (s2s_session_window m s (take (ss_window s) pcm))) (drop (ss_window s) pcm)))"
  by (subst session_loop.simps) (simp add: split_beta Let_def)

section \<open>Durations in windows\<close>

lemma windows_512:
  assumes "0 \<le> ms" "ms < 2 ^ 40"
  shows "s2s_session_windows ms 512 16000 = max 1 ((ms + 16) div 32)"
proof -
  have window: "to_f64 (to_f64 (1000 * to_f64 (of_nat 512)) / to_f64 (of_nat 16000)) = 32"
    using to_f64_of_int [of 512] to_f64_of_int [of 16000] to_f64_of_int [of 512000] to_f64_of_int [of 32] by simp
  have ms: "to_f64 (of_int ms) = of_int ms" using assms by (intro to_f64_of_int) auto
  have "fl (int 53) (- 1074) (of_int ms / 32 :: rat) = of_int ms / 32"
    by (rule fl_exact [where k = ms and ?e0.0 = "- 5"]) (use assms in \<open>auto simp: power_int_def field_simps\<close>)
  then have q: "to_f64 (of_int ms / 32) = of_int ms / 32" by (simp add: to_f64_def)
  have "fl (int 53) (- 1074) (of_int ms / 32 + 1 / 2 :: rat) = of_int ms / 32 + 1 / 2"
    by (rule fl_exact [where k = "ms + 16" and ?e0.0 = "- 5"]) (use assms in \<open>auto simp: power_int_def field_simps\<close>)
  then have "to_f64 (of_int ms / 32 + 1 / 2) = of_int ms / 32 + 1 / 2" by (simp add: to_f64_def)
  then have "to_f64 (to_f64 (to_f64 (of_int ms) / 32) + 1 / 2) = of_int ms / 32 + 1 / 2" by (simp only: ms q)
  moreover have "(of_int ms / 32 + 1 / 2 :: rat) = of_int (ms + 16) / of_int 32" by (simp add: field_simps)
  moreover have "\<lfloor>of_int (ms + 16) / (of_int 32 :: rat)\<rfloor> = (ms + 16) div 32" by (rule floor_divide_of_int_eq)
  ultimately have "trunc (to_f64 (to_f64 (to_f64 (of_int ms) / 32) + 1 / 2)) = (ms + 16) div 32"
    using assms by (simp only: trunc_def) simp
  then show ?thesis using assms unfolding s2s_session_windows_def window Let_def by (simp add: max_def)
qed

text \<open>With the detector of the program, 512 samples at 16 kHz, the double arithmetic of the
  conversion is exact: a duration becomes its number of 32 ms windows, rounded half up, and at least
  one.\<close>

theorem durations_in_windows:
  "0 \<le> ms \<Longrightarrow> ms \<le> 60000 \<Longrightarrow> s2s_session_windows ms 512 16000 = max 1 ((ms + 16) div 32)"
  by (rule windows_512) simp_all

lemma durations_in_windows_witness:
  "s2s_session_windows 192 512 16000 = 6 \<and> s2s_session_windows 384 512 16000 = 12 \<and>
   s2s_session_windows 2000 512 16000 = 63 \<and> s2s_session_windows 0 512 16000 = 1"
  using durations_in_windows [of 192] durations_in_windows [of 384] durations_in_windows [of 2000]
    durations_in_windows [of 0] by simp

section \<open>Well-formed sessions\<close>

definition windows_ok :: "'v s2s_session \<Rightarrow> bool" where
  "windows_ok s \<longleftrightarrow>
     0 < ss_window s \<and> 1 \<le> ss_open_windows s \<and> 1 \<le> ss_barge_windows s \<and> 1 \<le> ss_reopen_windows s \<and>
     1 \<le> ss_close_windows s \<and> 1 \<le> ss_pad_windows s \<and> 1 \<le> ss_delay_windows s \<and>
     ss_delay_windows s \<le> ss_wait_windows s \<and> 0 \<le> ss_grace_windows s \<and>
     ring_ok (ss_lookback s) \<and> ring_ok (ss_stream s) \<and>
     ring_cap (ss_lookback s) =
       nat (max (ss_open_windows s) (ss_barge_windows s) + ss_pad_windows s) * ss_window s"

definition turn_ok :: "'v s2s_session \<Rightarrow> bool" where
  "turn_ok s \<longleftrightarrow>
     (if ss_committed s then ss_phase s = S2S_SESSION_IDLE \<and> 0 \<le> ss_grace_left s \<and> (ss_released s \<longrightarrow> 0 < ss_grace_left s)
      else ss_grace_left s = 0) \<and>
     ss_grace_left s \<le> ss_grace_given s \<and>
     (if ss_phase s \<noteq> S2S_SESSION_IDLE \<or> ss_committed s then ss_speech_end s \<le> length (ss_turn_pcm s)
      else ss_turn_pcm s = []) \<and>
     0 \<le> ss_speech_run s \<and> 0 \<le> ss_silence_run s \<and> (ss_speech_run s = 0 \<or> ss_silence_run s = 0) \<and>
     0 \<le> ss_pending_run s \<and> 0 \<le> ss_turn_id s \<and> 0 \<le> ss_revision s"

definition session_ok :: "'v s2s_session \<Rightarrow> bool" where
  "session_ok s \<longleftrightarrow> windows_ok s \<and> turn_ok s"

lemma windows_positive: "1 \<le> s2s_session_windows ms w r"
  by (simp add: s2s_session_windows_def Let_def)

lemma windows_ok_set_params:
  "0 < ss_window s \<Longrightarrow> ring_ok (ss_lookback s) \<Longrightarrow> ring_ok (ss_stream s) \<Longrightarrow>
   windows_ok (s2s_session_set_params s p)"
  using windows_positive
  by (simp add: windows_ok_def s2s_session_set_params_def Let_def ring_resize order_trans [OF zero_le_one])

lemma turn_ok_set_params [simp]: "turn_ok (s2s_session_set_params s p) = turn_ok s"
  by (simp add: turn_ok_def s2s_session_set_params_def Let_def)

lemma turn_ok_release: "turn_ok s \<Longrightarrow> turn_ok (fst (s2s_session_release s i r))"
  by (auto simp: turn_ok_def s2s_session_release_def s2s_session_try_final_def Let_def split: if_splits)

lemma turn_ok_grace: "turn_ok s \<Longrightarrow> turn_ok (fst (window_grace s))"
  by (auto simp: turn_ok_def window_grace_def s2s_session_try_final_def Let_def split: if_splits)

lemma turn_ok_hear: "turn_ok s \<Longrightarrow> turn_ok (window_hear m s w)"
  by (auto simp: turn_ok_def window_hear_def Let_def split_beta split: if_splits)

lemma turn_ok_idle: "turn_ok s \<Longrightarrow> turn_ok (fst (window_idle s))"
  unfolding window_idle_def s2s_session_open_turn_def Let_def split_beta
  by (cases "ss_committed s"; cases "ss_phase s"; simp add: turn_ok_def)

lemma turn_ok_speaking:
  "turn_ok s \<Longrightarrow> ss_phase s = S2S_SESSION_USER_SPEAKING \<Longrightarrow> 0 \<le> ss_grace_windows s \<Longrightarrow>
   turn_ok (fst (window_speaking m s))"
  unfolding window_speaking_def s2s_session_commit_def Let_def split_beta
  by (cases "ss_committed s"; simp add: turn_ok_def)

lemma turn_ok_pending:
  "turn_ok s \<Longrightarrow> ss_phase s = S2S_SESSION_PENDING_END \<Longrightarrow> ss_delay_windows s \<le> ss_wait_windows s \<Longrightarrow>
   turn_ok (fst (window_pending s))"
  unfolding window_pending_def s2s_session_commit_def Let_def split_beta
  by (cases "ss_committed s"; simp add: turn_ok_def)

lemma turn_ok_phase: "windows_ok s \<Longrightarrow> turn_ok s \<Longrightarrow> turn_ok (fst (window_phase m s))"
  by (cases "ss_phase s") (simp_all add: window_phase_def turn_ok_idle turn_ok_speaking turn_ok_pending windows_ok_def)

lemma rings_stages:
  "ss_lookback (fst (window_grace s)) = ss_lookback s" "ss_stream (fst (window_grace s)) = ss_stream s"
  "ss_lookback (window_hear m s w) = SampleRing_push (ss_lookback s) w"
  "ss_stream (window_hear m s w) = SampleRing_push (ss_stream s) w"
  "ss_lookback (fst (window_phase m s)) = ss_lookback s" "ss_stream (fst (window_phase m s)) = ss_stream s"
  by (simp_all add: window_grace_def s2s_session_try_final_def window_hear_def window_phase_def window_idle_def
      window_speaking_def window_pending_def s2s_session_open_turn_def s2s_session_commit_def split_beta Let_def
      split: s2s_session_state.splits)

lemma rings_window:
  "ss_lookback (fst (s2s_session_window m s w)) = SampleRing_push (ss_lookback s) w"
  "ss_stream (fst (s2s_session_window m s w)) = SampleRing_push (ss_stream s) w"
  by (simp_all add: s2s_session_window_def rings_stages split_beta Let_def)

lemma windows_ok_static:
  "session_static s t \<Longrightarrow> ss_lookback t = ss_lookback s \<Longrightarrow> ss_stream t = ss_stream s \<Longrightarrow> windows_ok t = windows_ok s"
  by (simp add: windows_ok_def session_static_def)

lemma windows_ok_hear: "windows_ok s \<Longrightarrow> windows_ok (window_hear m s w)"
  by (simp add: windows_ok_def window_hear_def Let_def split_beta ring_push_ok)

lemma windows_ok_grace: "windows_ok s \<Longrightarrow> windows_ok (fst (window_grace s))"
  by (auto simp: windows_ok_def window_grace_def s2s_session_try_final_def Let_def)

lemma windows_ok_release: "windows_ok s \<Longrightarrow> windows_ok (fst (s2s_session_release s i r))"
  by (subst windows_ok_static [OF static_stages(4)])
    (simp_all add: s2s_session_release_def s2s_session_try_final_def Let_def)

lemma windows_ok_window: "windows_ok s \<Longrightarrow> windows_ok (fst (s2s_session_window m s w))"
  using window_static [of s m w] by (simp add: windows_ok_def session_static_def rings_window ring_push_ok)

lemma session_ok_window: "session_ok s \<Longrightarrow> session_ok (fst (s2s_session_window m s w))"
proof -
  assume ok: "session_ok s"
  define g where "g = fst (window_grace s)"
  have g: "windows_ok g" "turn_ok g" using ok by (simp_all add: g_def session_ok_def windows_ok_grace turn_ok_grace)
  then have "turn_ok (fst (window_phase m (window_hear m g w)))"
    by (intro turn_ok_phase windows_ok_hear turn_ok_hear)
  then have "turn_ok (fst (s2s_session_window m s w))"
    by (simp add: s2s_session_window_def split_beta Let_def g_def turn_ok_def)
  then show ?thesis using ok by (simp add: session_ok_def windows_ok_window)
qed

interpretation okay: session_rel m session_ok "\<lambda>s res. session_ok (fst res)"
proof unfold_locales
  fix s :: "'a s2s_session" and p b p' i r
  assume ok: "session_ok s"
  show "session_ok (fst (s\<lparr>ss_partial := p\<rparr>, []))" "session_ok (fst (s2s_session_set_speaking s b, []))"
    using ok by (simp_all add: session_ok_def windows_ok_def turn_ok_def s2s_session_set_speaking_def)
  show "session_ok (fst (s2s_session_set_params s p', []))"
    using ok windows_ok_set_params [of s p'] by (simp add: session_ok_def windows_ok_def)
  show "session_ok (fst (s2s_session_release s i r))"
    using ok by (simp add: session_ok_def turn_ok_release windows_ok_release)
qed (simp_all add: session_ok_window)

lemma session_ok_new: "0 < m_window m \<Longrightarrow> session_ok (s2s_session_new m p cb)"
proof -
  assume "0 < m_window m"
  moreover have "ring_ok SampleRing_new" by (simp add: SampleRing_new_def ring_ok_def ring_cap_def)
  ultimately show ?thesis
    by (simp add: session_ok_def s2s_session_new_def Let_def windows_ok_set_params session_members_def ring_resize)
      (simp add: turn_ok_def)
qed

text \<open>C25: Every state a session reaches is well formed: a committed turn is between two phases, a
  released one still has grace to run, the grace never exceeds what the commit was given, the last
  speech lies inside the audio the turn holds, a session with no turn holds no audio, the delay of an
  unfinished turn is within its wait, and the lookback is as long as an opening and its pad.\<close>

theorem session_stays_well_formed:
  "0 < m_window m \<Longrightarrow> session_ok (fst (session_run m (s2s_session_new m params cb) inputs))"
  by (rule okay.run_keeps [OF session_ok_new])

text \<open>A detector of four samples at 1 kHz that hears speech in any sound, a classifier that is always
  sure, and a session whose turn was committed with two windows of grace.\<close>

definition sample_models :: "unit session_models" where
  "sample_models =
     \<lparr>m_window = 4, m_sample_rate = 1000, m_sv_state_new = (),
      m_sv_prob = (\<lambda>v w. (if list_all (\<lambda>x. x = 0) w then 0 else 1, v)), m_st_window = 8, m_st_predict = (\<lambda>_. 1)\<rparr>"

definition sample_held :: "unit s2s_session" where
  "sample_held =
     (session_members ())\<lparr>ss_cb := True, ss_window := 4, ss_sample_rate := 1000, ss_open_windows := 1,
       ss_barge_windows := 1, ss_reopen_windows := 1, ss_close_windows := 1, ss_pad_windows := 1,
       ss_delay_windows := 1, ss_wait_windows := 1, ss_lookback := SampleRing_resize SampleRing_new 8,
       ss_turn_pcm := [1, 1, 1, 1], ss_speech_end := 4, ss_committed := True, ss_grace_left := 2,
       ss_grace_given := 2, ss_turn_id := 1\<rparr>"

lemma sample_held_ok: "session_ok sample_held" "stream_ok sample_held" "life_ok sample_held"
  by (simp_all add: session_ok_def windows_ok_def turn_ok_def sample_held_def session_members_def ring_resize
      stream_ok_def life_ok_def) (simp add: ring_ok_def ring_cap_def SampleRing_new_def)

lemma session_stays_well_formed_witness:
  "session_ok (fst (session_run sample_models (s2s_session_new sample_models s2s_session_params_default True)
     [Push [1, 1, 1, 1, 0, 0, 0, 0, 0], Release 1 0]))"
  by (rule session_stays_well_formed) (simp add: sample_models_def)

section \<open>The silence kept on an answer\<close>

definition key_of :: "'v s2s_session \<Rightarrow> int \<times> int" where
  "key_of s = (ss_turn_id s, ss_revision s)"

lemma key_of_simps [simp]:
  "key_of (s\<lparr>ss_partial := p\<rparr>) = key_of s" "key_of (s\<lparr>ss_n_windows := n\<rparr>) = key_of s"
  by (simp_all add: key_of_def)

lemma turn_less_trans: "turn_less a b \<Longrightarrow> turn_less b c \<Longrightarrow> turn_less a c"
  by (cases a; cases b; cases c) auto

lemma turn_less_irrefl [simp]: "\<not> turn_less a a"
  by (cases a) auto

text \<open>What one window does to the turn of key \<open>k\<close> while it is held with grace to run.\<close>

definition is_final_of :: "int \<times> int \<Rightarrow> s2s_session_report \<Rightarrow> bool" where
  "is_final_of k r \<longleftrightarrow> rep_event r = S2S_EVENT_TURN_FINAL \<and> turn_key r = k"

definition held :: "int \<times> int \<Rightarrow> int \<Rightarrow> 'v s2s_session \<Rightarrow> bool" where
  "held k n s \<longleftrightarrow> turn_less k (key_of s) \<or> key_of s = k \<and> n \<le> ss_grace_left s"

lemma final_emit: "list_all (\<lambda>r. \<not> is_final_of k r) (s2s_session_emit s e x) \<longleftrightarrow>
    \<not> (ss_cb s \<and> e = S2S_EVENT_TURN_FINAL \<and> key_of s = k)"
  by (auto simp: s2s_session_emit_def is_final_of_def turn_key_def key_of_def Let_def)

lemma held_grace:
  assumes "held k (n + 1) s" "1 \<le> n"
  shows "held k n (fst (window_grace s))" "list_all (\<lambda>r. \<not> is_final_of k r) (snd (window_grace s))"
  using assms
  by (auto simp: held_def window_grace_def s2s_session_try_final_def Let_def final_emit key_of_def)

lemma held_hear: "held k n (window_hear m s w) = held k n s"
  by (simp add: held_def window_hear_def Let_def split_beta key_of_def)

lemma phase_key:
  "key_of (fst (window_phase m s)) = key_of s \<and>
     (ss_phase s = S2S_SESSION_IDLE \<longrightarrow> ss_grace_left (fst (window_phase m s)) = ss_grace_left s) \<or>
   turn_less (key_of s) (key_of (fst (window_phase m s)))"
  by (auto simp: window_phase_def window_idle_def window_speaking_def window_pending_def
      s2s_session_open_turn_def s2s_session_commit_def Let_def key_of_def split: s2s_session_state.splits)

lemma phase_final: "list_all (\<lambda>r. \<not> is_final_of k r) (snd (window_phase m s))"
  by (auto simp: window_phase_def window_idle_def window_speaking_def window_pending_def
      s2s_session_open_turn_def s2s_session_commit_def Let_def final_emit split: s2s_session_state.splits)

lemma held_phase: "held k n s \<Longrightarrow> 1 \<le> n \<Longrightarrow> turn_ok s \<Longrightarrow> held k n (fst (window_phase m s))"
proof -
  assume held: "held k n s" and "1 \<le> n" "turn_ok s"
  show ?thesis
  proof (cases "turn_less k (key_of s)")
    case True
    then show ?thesis using phase_key [of m s] turn_less_trans [OF True, of "key_of (fst (window_phase m s))"] by (auto simp: held_def)
  next
    case False
    with held have "key_of s = k" "n \<le> ss_grace_left s" by (simp_all add: held_def)
    moreover from this have "ss_phase s = S2S_SESSION_IDLE"
      using \<open>1 \<le> n\<close> \<open>turn_ok s\<close> by (auto simp: turn_ok_def split: if_splits)
    ultimately show ?thesis using phase_key [of m s] by (auto simp: held_def)
  qed
qed

lemma held_window:
  assumes "held k (n + 1) s" "1 \<le> n" "turn_ok s"
  shows "held k n (fst (s2s_session_window m s w))" "list_all (\<lambda>r. \<not> is_final_of k r) (snd (s2s_session_window m s w))"
proof -
  have "held k n (fst (window_phase m (window_hear m (fst (window_grace s)) w)))"
    using assms by (intro held_phase turn_ok_hear turn_ok_grace) (simp_all add: held_hear held_grace)
  then show "held k n (fst (s2s_session_window m s w))"
    by (simp add: s2s_session_window_def split_beta Let_def held_def)
  show "list_all (\<lambda>r. \<not> is_final_of k r) (snd (s2s_session_window m s w))"
    using held_grace [OF assms(1,2)] phase_final by (simp add: s2s_session_window_def split_beta Let_def)
qed

lemma div_drop: "0 < w \<Longrightarrow> w \<le> n \<Longrightarrow> n div w = (n - w) div w + (1 :: nat)"
  by (simp add: le_div_geq)

lemma held_loop:
  "held k (1 + int (length pcm div ss_window s)) s \<Longrightarrow> session_ok s \<Longrightarrow>
   list_all (\<lambda>r. \<not> is_final_of k r) (snd (session_loop m s pcm))"
proof (induction "length pcm" arbitrary: s pcm rule: less_induct)
  case less
  show ?case
  proof (cases "0 < ss_window s \<and> ss_window s \<le> length pcm")
    case False
    then show ?thesis by (simp add: loop_stop)
  next
    case True
    define t where "t = s2s_session_window m s (take (ss_window s) pcm)"
    define n where "n = 1 + int (length (drop (ss_window s) pcm) div ss_window s)"
    have "held k (n + 1) s" using less.prems True by (simp add: n_def div_drop)
    then have t: "held k n (fst t)" "list_all (\<lambda>r. \<not> is_final_of k r) (snd t)" "session_ok (fst t)"
      using held_window [of k n s] less.prems by (simp_all add: t_def n_def session_ok_def session_ok_window [unfolded session_ok_def])
    then have "list_all (\<lambda>r. \<not> is_final_of k r) (snd (session_loop m (fst t) (drop (ss_window s) pcm)))"
      using True by (intro less.hyps) (auto simp: n_def t_def)
    with t True show ?thesis by (simp add: loop_go t_def)
  qed
qed

lemma release_stream [simp]:
  "ss_window (fst (s2s_session_release s i r)) = ss_window s"
  "ss_partial (fst (s2s_session_release s i r)) = ss_partial s"
  "stream_ok (fst (s2s_session_release s i r)) = stream_ok s"
  "key_of (fst (s2s_session_release s i r)) = key_of s"
  "ss_grace_left (fst (s2s_session_release s i r)) = ss_grace_left s"
  by (simp_all add: s2s_session_release_def s2s_session_try_final_def stream_ok_def key_of_def Let_def)

lemma release_final: "0 < ss_grace_left s \<Longrightarrow> snd (s2s_session_release s i r) = []"
  by (simp add: s2s_session_release_def s2s_session_try_final_def)

text \<open>C3: An answer stays silent for the whole grace of its commit: released at once or never, a turn
  is not final while fewer windows were heard than its grace has left, whatever they hold.\<close>

theorem grace_keeps_answer_silent:
  assumes "session_ok s" "stream_ok s"
    and "int ((length (ss_partial s) + length pcm) div ss_window s) < ss_grace_left s"
  shows "list_all (\<lambda>r. \<not> is_final_of (key_of s) r) (snd (session_run m s [Release i r, Push pcm]))"
proof -
  define t where "t = fst (s2s_session_release s i r)"
  have grace: "0 < ss_grace_left s" using assms(3) by (rule order_le_less_trans [rotated]) simp
  have "session_ok t" using okay.R_release [OF assms(1), of i r] by (simp add: t_def)
  moreover have "held (key_of s) (1 + int (length (ss_partial t @ pcm) div ss_window t)) t"
    using assms(3) by (simp add: held_def t_def)
  ultimately have "list_all (\<lambda>r. \<not> is_final_of (key_of s) r) (snd (session_loop m t (ss_partial t @ pcm)))"
    by (intro held_loop)
  then show ?thesis
    using assms(2) by (simp add: split_beta Let_def release_final [OF grace] push_loop t_def)
qed

lemma grace_keeps_answer_silent_witness:
  "list_all (\<lambda>r. \<not> is_final_of (1, 0) r)
     (snd (session_run sample_models sample_held [Release 1 0, Push [0, 0, 0, 0, 1]]))"
  using grace_keeps_answer_silent [OF sample_held_ok(1,2), of "[0, 0, 0, 0, 1]" sample_models 1 0]
  by (simp add: key_of_def sample_held_def session_members_def)

text \<open>A released turn: past it, over, or with at most \<open>n\<close> windows to wait.\<close>

definition passes :: "int \<times> int \<Rightarrow> int \<Rightarrow> 'v s2s_session \<Rightarrow> bool" where
  "passes k n s \<longleftrightarrow> turn_less k (key_of s) \<or>
     key_of s = k \<and> ss_phase s = S2S_SESSION_IDLE \<and>
       (if ss_committed s then ss_released s \<and> 0 < ss_grace_left s \<and> ss_grace_left s \<le> n else ss_grace_left s = 0)"

lemma passes_grace: "passes k (n + 1) s \<Longrightarrow> passes k n (fst (window_grace s))"
  by (auto simp: passes_def window_grace_def s2s_session_try_final_def Let_def key_of_def split: if_splits)

lemma passes_hear: "passes k n (window_hear m s w) = passes k n s"
  by (simp add: passes_def window_hear_def Let_def split_beta key_of_def)

lemma passes_phase: "passes k n s \<Longrightarrow> passes k n (fst (window_phase m s))"
proof -
  assume p: "passes k n s"
  show ?thesis
  proof (cases "turn_less k (key_of s)")
    case True
    then show ?thesis using phase_key [of m s] turn_less_trans [OF True, of "key_of (fst (window_phase m s))"] by (auto simp: passes_def)
  next
    case False
    with p have "ss_phase s = S2S_SESSION_IDLE" "key_of s = k" by (simp_all add: passes_def)
    with p show ?thesis
      by (auto simp: window_phase_def window_idle_def s2s_session_open_turn_def Let_def passes_def key_of_def)
  qed
qed

lemma passes_n: "passes k n (s\<lparr>ss_n_windows := x\<rparr>) = passes k n s"
  by (simp add: passes_def)

lemma passes_window: "passes k (n + 1) s \<Longrightarrow> passes k n (fst (s2s_session_window m s w))"
proof -
  assume "passes k (n + 1) s"
  then have "passes k n (fst (window_phase m (window_hear m (fst (window_grace s)) w)))"
    by (intro passes_phase) (simp add: passes_hear passes_grace)
  then show ?thesis by (simp add: s2s_session_window_def split_beta Let_def passes_n)
qed

lemma passes_loop:
  "passes k (int (length pcm div ss_window s)) s \<Longrightarrow> passes k 0 (fst (session_loop m s pcm))"
proof (induction "length pcm" arbitrary: s pcm rule: less_induct)
  case less
  show ?case
  proof (cases "0 < ss_window s \<and> ss_window s \<le> length pcm")
    case False
    then show ?thesis using less.prems by (auto simp: loop_stop passes_def)
  next
    case True
    define t where "t = s2s_session_window m s (take (ss_window s) pcm)"
    have "passes k (int (length (drop (ss_window s) pcm) div ss_window s)) (fst t)"
      unfolding t_def by (rule passes_window) (use less.prems True in \<open>simp add: div_drop add.commute\<close>)
    then have "passes k 0 (fst (session_loop m (fst t) (drop (ss_window s) pcm)))"
      using True by (intro less.hyps) (auto simp: t_def)
    with True show ?thesis by (simp add: loop_go t_def)
  qed
qed

text \<open>What ends the hold on a turn: it is final, or the speaker resumed it, or opened the next.\<close>

fun ends_hold :: "int \<times> int \<Rightarrow> s2s_session_event \<times> int \<times> int \<Rightarrow> bool" where
  "ends_hold (i, r) (e, i', r') \<longleftrightarrow>
     e = S2S_EVENT_TURN_FINAL \<and> (i', r') = (i, r) \<or>
     e = S2S_EVENT_TURN_RESUMED \<and> (i', r') = (i, r + 1) \<or>
     e = S2S_EVENT_SPEECH_STARTED \<and> (i', r') = (i + 1, 0)"

lemma held_until:
  "life_run (Held, i, r) rs = Some b \<Longrightarrow> b \<noteq> (Held, i, r) \<Longrightarrow> list_ex (\<lambda>x. ends_hold (i, r) (report_key x)) rs"
proof (induction rs)
  case (Cons x rs)
  obtain e i' r' where x: "report_key x = (e, i', r')" by (cases "report_key x")
  from Cons x show ?case by (cases e) (auto split: option.splits if_splits)
qed simp

text \<open>C24: A released answer is heard: once a committed turn of a well-formed session is released, the
  audio of its remaining grace brings its end, whatever that audio holds: it is reported final, or
  resumed by the speaker under its next revision, or followed by the next turn.\<close>

theorem released_turn_ends:
  assumes "session_ok s" "life_ok s" "stream_ok s" "ss_committed s"
    and "ss_grace_left s \<le> int ((length (ss_partial s) + length pcm) div ss_window s)"
  shows "list_ex (\<lambda>x. ends_hold (key_of s) (report_key x))
    (snd (session_run m s [Release (ss_turn_id s) (ss_revision s), Push pcm]))"
proof -
  define t where "t = fst (s2s_session_release s (ss_turn_id s) (ss_revision s))"
  let ?run = "session_run m s [Release (ss_turn_id s) (ss_revision s), Push pcm]"
  have idle: "ss_phase s = S2S_SESSION_IDLE" "0 \<le> ss_grace_left s"
    using assms(1,4) by (auto simp: session_ok_def turn_ok_def)
  have "passes (key_of s) (int (length (ss_partial t @ pcm) div ss_window t)) t"
    using assms(4,5) idle
    by (cases "ss_grace_left s = 0")
      (auto simp: t_def passes_def s2s_session_release_def s2s_session_try_final_def Let_def key_of_def)
  then have "passes (key_of s) 0 (fst ?run)"
    using assms(3) by (simp add: split_beta Let_def t_def push_loop passes_loop)
  then have "life_of (fst ?run) \<noteq> (Held, ss_turn_id s, ss_revision s)"
    by (auto simp: passes_def life_of_def key_of_def split: if_splits s2s_session_state.splits)
  moreover have "simulates s ?run" by (rule life.R_run [OF assms(2)])
  then have "life_run (Held, ss_turn_id s, ss_revision s) (snd ?run) = Some (life_of (fst ?run))"
    using assms(4) idle by (simp add: simulates_def life_of_def)
  ultimately show ?thesis using held_until by (simp add: key_of_def)
qed

lemma released_turn_ends_witness:
  "list_ex (\<lambda>x. ends_hold (1, 0) (report_key x))
     (snd (session_run sample_models sample_held [Release 1 0, Push [0, 0, 0, 0, 0, 0, 0, 0]]))"
  using released_turn_ends [OF sample_held_ok(1,3,2), of "[0, 0, 0, 0, 0, 0, 0, 0]" sample_models]
  by (simp add: key_of_def sample_held_def session_members_def)

section \<open>The audio of a turn\<close>

text \<open>The rings and the audio of the turn are ends of the stream heard.\<close>

definition tails :: "f32 list \<Rightarrow> 'v s2s_session \<Rightarrow> bool" where
  "tails heard s \<longleftrightarrow> suffix (SampleRing_read (ss_lookback s)) heard \<and> suffix (SampleRing_read (ss_stream s)) heard \<and>
     suffix (ss_turn_pcm s) heard"

definition from_stream :: "f32 list \<Rightarrow> s2s_session_report list \<Rightarrow> bool" where
  "from_stream audio out \<longleftrightarrow> list_all (\<lambda>r. sublist (rep_pcm r) audio \<and> rep_n_samples r \<le> rep_n_held r \<and>
     rep_n_held r = length (rep_pcm r)) out"

lemma from_stream_emit: "suffix (ss_turn_pcm s) audio \<Longrightarrow> from_stream audio (s2s_session_emit s e x)"
  by (simp add: from_stream_def s2s_session_emit_def Let_def)

lemma from_stream_more: "from_stream audio out \<Longrightarrow> from_stream (audio @ later) out"
proof -
  have "sublist audio (audio @ later)" by simp
  then show "from_stream audio out \<Longrightarrow> ?thesis"
    by (auto simp: from_stream_def list_all_iff intro: subseq_order.order_trans sublist_order.order_trans)
qed

lemma from_stream_simps [simp]:
  "from_stream audio []" "from_stream audio (xs @ ys) = (from_stream audio xs \<and> from_stream audio ys)"
  by (simp_all add: from_stream_def)

lemma suffix_lastn_I: "suffix xs ys \<Longrightarrow> suffix (lastn n xs) ys"
  using suffix_lastn suffix_order.trans by blast

lemma tails_grace: "tails heard s \<Longrightarrow> tails heard (fst (window_grace s)) \<and> from_stream heard (snd (window_grace s))"
  by (simp add: window_grace_def s2s_session_try_final_def Let_def tails_def from_stream_emit)

lemma tails_hear:
  "tails heard s \<Longrightarrow> ring_ok (ss_lookback s) \<Longrightarrow> ring_ok (ss_stream s) \<Longrightarrow> turn_ok s \<Longrightarrow>
   tails (heard @ w) (window_hear m s w)"
  by (auto simp: window_hear_def Let_def split_beta tails_def ring_push_content turn_ok_def
      intro!: suffix_lastn_I split: if_splits)

lemma tails_phase: "tails heard s \<Longrightarrow> tails heard (fst (window_phase m s)) \<and> from_stream heard (snd (window_phase m s))"
  by (simp add: window_phase_def window_idle_def window_speaking_def window_pending_def s2s_session_open_turn_def
      s2s_session_commit_def Let_def tails_def from_stream_emit split: s2s_session_state.splits)

lemma tails_window:
  assumes "tails heard s" "session_ok s"
  shows "tails (heard @ w) (fst (s2s_session_window m s w)) \<and> from_stream (heard @ w) (snd (s2s_session_window m s w))"
proof -
  have "session_ok (fst (window_grace s))"
    using assms(2) by (simp add: session_ok_def windows_ok_grace turn_ok_grace)
  then have "tails (heard @ w) (window_hear m (fst (window_grace s)) w)"
    using tails_grace [OF assms(1)] by (intro tails_hear) (simp_all add: session_ok_def windows_ok_def)
  from tails_phase [OF this, of m] tails_grace [OF assms(1)] show ?thesis
    by (simp add: s2s_session_window_def split_beta Let_def from_stream_more) (simp add: tails_def)
qed

lemma tails_loop:
  "tails heard s \<Longrightarrow> session_ok s \<Longrightarrow>
   (\<exists>h. heard @ pcm = h @ ss_partial (fst (session_loop m s pcm)) \<and> tails h (fst (session_loop m s pcm))) \<and>
   from_stream (heard @ pcm) (snd (session_loop m s pcm))"
proof (induction "length pcm" arbitrary: s pcm heard rule: less_induct)
  case less
  show ?case
  proof (cases "0 < ss_window s \<and> ss_window s \<le> length pcm")
    case False
    then show ?thesis using less.prems by (auto simp: loop_stop tails_def)
  next
    case True
    define w where "w = take (ss_window s) pcm"
    define rest where "rest = drop (ss_window s) pcm"
    define t where "t = fst (s2s_session_window m s w)"
    have pcm: "heard @ pcm = (heard @ w) @ rest" by (simp add: w_def rest_def)
    note win = tails_window [OF less.prems, of w m]
    then have "(\<exists>h. (heard @ w) @ rest = h @ ss_partial (fst (session_loop m t rest)) \<and>
        tails h (fst (session_loop m t rest))) \<and> from_stream ((heard @ w) @ rest) (snd (session_loop m t rest))"
      using True less.prems by (intro less.hyps) (auto simp: rest_def t_def session_ok_window)
    moreover have "from_stream ((heard @ w) @ rest) (snd (s2s_session_window m s w))"
      using win by (simp only: from_stream_more)
    ultimately show ?thesis
      unfolding loop_go [OF True, of m] pcm by (simp add: w_def [symmetric] rest_def [symmetric] t_def [symmetric])
  qed
qed

definition pushed :: "session_input list \<Rightarrow> f32 list" where
  "pushed inputs = concat (map (\<lambda>i. case i of Push pcm \<Rightarrow> pcm | _ \<Rightarrow> []) inputs)"

text \<open>What a session has been fed: the windows it heard, of which it keeps the tails, and the samples
  that wait.\<close>

definition fed :: "f32 list \<Rightarrow> 'v s2s_session \<Rightarrow> bool" where
  "fed audio s \<longleftrightarrow> session_ok s \<and> stream_ok s \<and> (\<exists>h. audio = h @ ss_partial s \<and> tails h s)"

lemma fed_do:
  assumes "fed audio s"
  shows "fed (audio @ pushed [i]) (fst (session_do m s i)) \<and> from_stream (audio @ pushed [i]) (snd (session_do m s i))"
proof -
  obtain h where h: "audio = h @ ss_partial s" "tails h s" and ok: "session_ok s" "stream_ok s"
    using assms by (auto simp: fed_def)
  have keep: "session_ok (fst (session_do m s i))" by (rule okay.R_do [OF ok(1)])
  have w: "0 < ss_window s" using ok(2) by (simp add: stream_ok_def)
  show ?thesis
  proof (cases i)
    case (Push pcm)
    have "stream_ok (fst (session_do m s i))" using loop_stream_ok [OF w] by (simp add: Push push_loop ok)
    then show ?thesis
      using keep tails_loop [OF h(2) ok(1), of "ss_partial s @ pcm" m]
      by (simp add: Push fed_def h(1) pushed_def push_loop ok)
  next
    case (Release j r)
    have "tails h (fst (session_do m s i)) \<and> from_stream audio (snd (session_do m s i))"
      using h(2) by (simp add: Release s2s_session_release_def s2s_session_try_final_def Let_def tails_def from_stream_emit)
    then show ?thesis using keep ok h(1) by (auto simp: Release fed_def pushed_def)
  next
    case (Set_Speaking b)
    then show ?thesis
      using keep ok h by (auto simp: fed_def pushed_def stream_ok_def s2s_session_set_speaking_def tails_def)
  next
    case (Set_Params p)
    then show ?thesis
      using keep ok h
      by (auto simp: fed_def pushed_def stream_ok_def s2s_session_set_params_def Let_def tails_def ring_resize
          suffix_lastn_I)
  qed
qed

lemma fed_run:
  "fed audio s \<Longrightarrow>
   fed (audio @ pushed inputs) (fst (session_run m s inputs)) \<and>
   from_stream (audio @ pushed inputs) (snd (session_run m s inputs))"
proof (induction inputs arbitrary: audio s)
  case Nil
  then show ?case by (simp add: pushed_def)
next
  case (Cons i inputs)
  define a where "a = audio @ pushed [i]"
  have "audio @ pushed (i # inputs) = a @ pushed inputs" by (simp add: a_def pushed_def)
  moreover note fed_do [OF Cons.prems, of i m, folded a_def]
  moreover from this have "fed (a @ pushed inputs) (fst (session_run m (fst (session_do m s i)) inputs)) \<and>
      from_stream (a @ pushed inputs) (snd (session_run m (fst (session_do m s i)) inputs))"
    by (intro Cons.IH) simp
  ultimately show ?case by (simp add: split_beta Let_def from_stream_more)
qed

text \<open>C2: The audio of every commit is one unbroken piece of what the microphone sent: no sample of it
  is lost, repeated or taken from elsewhere, whatever was reopened or resumed in between, and the
  part handed to the recognizer is a prefix of what the turn holds.\<close>

theorem committed_audio_is_contiguous:
  "0 < m_window m \<Longrightarrow>
   list_all (\<lambda>r. sublist (rep_pcm r) (pushed inputs) \<and> rep_n_samples r \<le> length (rep_pcm r))
     (snd (session_run m (s2s_session_new m params cb) inputs))"
proof -
  assume window: "0 < m_window m"
  have "SampleRing_read SampleRing_new = []" by (simp add: SampleRing_new_def SampleRing_read_def)
  then have "tails [] (s2s_session_new m params cb)" "stream_ok (s2s_session_new m params cb)"
    "ss_partial (s2s_session_new m params cb) = []"
    using window by (simp_all add: tails_def s2s_session_new_def s2s_session_set_params_def session_members_def Let_def
        ring_resize stream_ok_def)
  then have "fed [] (s2s_session_new m params cb)" using session_ok_new [OF window] by (simp add: fed_def)
  from fed_run [OF this, of inputs m] show ?thesis by (auto simp: from_stream_def list_all_iff)
qed

lemma committed_audio_is_contiguous_witness:
  "list_all (\<lambda>r. sublist (rep_pcm r) [1, 1, 1, 1, 0, 0, 0, 0, 0] \<and> rep_n_samples r \<le> length (rep_pcm r))
     (snd (session_run sample_models (s2s_session_new sample_models s2s_session_params_default True)
       [Push [1, 1, 1, 1], Release 1 0, Push [0, 0, 0, 0, 0]]))"
  using committed_audio_is_contiguous [of sample_models "[Push [1, 1, 1, 1], Release 1 0, Push [0, 0, 0, 0, 0]]"
      s2s_session_params_default True]
  by (simp add: pushed_def sample_models_def)

text \<open>C26: How the audio is cut into pushes never shows: any two ways of pushing the same samples leave
  the session in the same state, with the same reports in the same order.\<close>

theorem session_cuts_invisible:
  "0 < m_window m \<Longrightarrow>
   feed_all (s2s_session_push m) (s2s_session_new m params cb) pieces =
     s2s_session_push m (s2s_session_new m params cb) (concat pieces)"
  by (rule stream.feed_all_concat)
    (simp add: stream_ok_def s2s_session_new_def s2s_session_set_params_def session_members_def Let_def)

lemma session_cuts_invisible_witness:
  "feed_all (s2s_session_push sample_models) (s2s_session_new sample_models s2s_session_params_default True)
     [[1, 1], [1], [], [1, 0, 0]] =
   s2s_session_push sample_models (s2s_session_new sample_models s2s_session_params_default True) [1, 1, 1, 1, 0, 0]"
  using session_cuts_invisible [of sample_models s2s_session_params_default True "[[1, 1], [1], [], [1, 0, 0]]"]
  by (simp add: sample_models_def)

end
