(* ===== verification/Base64.thy ===== *)
theory Base64
  imports Prelude
begin

text \<open>
  The base64 of an audio frame, \<open>src/realtime-proto.h\<close>, in both directions. A byte is an
  \<open>8 word\<close>, the shift register of the decoder is 32 bits wide as in the source.
\<close>

section \<open>Base64\<close>

definition RT_BASE64_ALPHABET :: string where
  "RT_BASE64_ALPHABET = ''ABCDEFGHIJKLMNOPQRSTUVWXYZabcdefghijklmnopqrstuvwxyz0123456789+/''"

text \<open>One round of the encoding loop takes up to three bytes.\<close>

function rt_base64_encode :: "8 word list \<Rightarrow> string" where
  "rt_base64_encode [] = []"
| "rt_base64_encode (d # rest) =
     (let a = ucast d :: 32 word;
          b = (if 0 < length rest then ucast (rest ! 0) else 0);
          c = (if 1 < length rest then ucast (rest ! 1) else 0);
          triple = push_bit 16 a OR push_bit 8 b OR c;
          digit = (\<lambda>w :: 32 word. RT_BASE64_ALPHABET ! unat (w AND 0x3f))
      in [digit (drop_bit 18 triple), digit (drop_bit 12 triple),
          if 0 < length rest then digit (drop_bit 6 triple) else CHR ''='',
          if 1 < length rest then digit triple else CHR ''='']
         @ rt_base64_encode (drop 2 rest))"
  by pat_completeness auto
termination
  by (relation "measure length") auto

definition rt_base64_value :: "char \<Rightarrow> int" where
  "rt_base64_value c =
     (if 65 \<le> byte_of c \<and> byte_of c \<le> 90 then int (byte_of c) - 65
      else if 97 \<le> byte_of c \<and> byte_of c \<le> 122 then int (byte_of c) - 97 + 26
      else if 48 \<le> byte_of c \<and> byte_of c \<le> 57 then int (byte_of c) - 48 + 52
      else if c = CHR ''+'' then 62
      else if c = CHR ''/'' then 63
      else - 1)"

text \<open>The loop of the decoder: the shift register, the number of bits it holds, the rest of the
  text. What is not of the alphabet is skipped.\<close>

fun decode_loop :: "32 word \<Rightarrow> nat \<Rightarrow> string \<Rightarrow> 8 word list" where
  "decode_loop bits count [] = []"
| "decode_loop bits count (c # cs) =
     (let value = rt_base64_value c in
      if value < 0 then decode_loop bits count cs
      else
        let bits' = push_bit 6 bits OR word_of_int value; count' = count + 6 in
        if 8 \<le> count' then
          ucast (drop_bit (count' - 8) bits' AND 0xff) # decode_loop bits' (count' - 8) cs
        else decode_loop bits' count' cs)"

definition rt_base64_decode :: "string \<Rightarrow> 8 word list" where
  "rt_base64_decode data = decode_loop 0 0 data"

section \<open>Base64 round trip\<close>

lemma alphabet_value: "map rt_base64_value RT_BASE64_ALPHABET = map int [0..<64]"
  by (simp add: RT_BASE64_ALPHABET_def rt_base64_value_def upt_rec)

lemma rt_base64_value_digit: "n < 64 \<Longrightarrow> rt_base64_value (RT_BASE64_ALPHABET ! n) = int n"
proof -
  assume n: "n < 64"
  have "length RT_BASE64_ALPHABET = length [0..<64]" using arg_cong [OF alphabet_value, of length] by simp
  then have "rt_base64_value (RT_BASE64_ALPHABET ! n) = map int [0..<64] ! n"
    using n unfolding alphabet_value [symmetric] by simp
  then show ?thesis using n by simp
qed

lemma rt_base64_value_pad [simp]: "rt_base64_value (CHR ''='') = - 1"
  by (simp add: rt_base64_value_def)

lemma unat_and_63: "unat (w AND 0x3f :: 32 word) < 64"
proof -
  have "unat (w AND 0x3f) \<le> unat (0x3f :: 32 word)"
    by (rule word_and_le1 [THEN word_le_nat_alt [THEN iffD1]])
  then show ?thesis by simp
qed

text \<open>One digit of the encoder, decoded.\<close>

lemma decode_digit:
  "decode_loop bits count (RT_BASE64_ALPHABET ! unat (w AND 0x3f) # cs) =
     (let bits' = push_bit 6 bits OR (w AND 0x3f) in
      if 2 \<le> count then
        ucast (drop_bit (count - 2) bits' AND 0xff) # decode_loop bits' (count - 2) cs
      else decode_loop bits' (count + 6) cs)"
  using rt_base64_value_digit [OF unat_and_63 [of w]]
  by (simp add: Let_def del: of_int_of_nat_eq)

lemma decode_pad: "decode_loop bits count (CHR ''='' # cs) = decode_loop bits count cs"
  by simp

lemma byte_of_triple:
  fixes a b c :: "8 word" and bits :: "32 word"
  defines "t \<equiv> push_bit 16 (ucast a) OR push_bit 8 (ucast b) OR (ucast c :: 32 word)"
  defines "w1 \<equiv> push_bit 6 bits OR (drop_bit 18 t AND 0x3f)"
  defines "w2 \<equiv> push_bit 6 w1 OR (drop_bit 12 t AND 0x3f)"
  defines "w3 \<equiv> push_bit 6 w2 OR (drop_bit 6 t AND 0x3f)"
  defines "w4 \<equiv> push_bit 6 w3 OR (t AND 0x3f)"
  shows "ucast (drop_bit 4 w2 AND 0xff) = a"
    and "ucast (drop_bit 2 w3 AND 0xff) = b"
    and "ucast (w4 AND 0xff) = c"
proof -
  have m: "(0x3f :: 32 word) = mask 6" "(0xff :: 32 word) = mask 8"
    by (simp_all add: mask_eq_exp_minus_1)
  have far: "\<not> bit x k" if "8 \<le> k" for x :: "8 word" and k
    using that by (auto dest: bit_imp_le_length)
  have two: "Suc (Suc (n - 2)) = n" if "2 \<le> n" for n :: nat
    using that by simp
  show "ucast (drop_bit 4 w2 AND 0xff) = a"
    unfolding w2_def w1_def t_def m by (rule bit_word_eqI) (auto simp: bit_simps not_le far two)
  show "ucast (drop_bit 2 w3 AND 0xff) = b"
    unfolding w3_def w2_def w1_def t_def m by (rule bit_word_eqI) (auto simp: bit_simps not_le far two)
  show "ucast (w4 AND 0xff) = c"
    unfolding w4_def w3_def w2_def w1_def t_def m by (rule bit_word_eqI) (auto simp: bit_simps not_le far two)
qed

lemma decode_group:
  fixes a b c :: "8 word" and bits :: "32 word"
  defines "t \<equiv> push_bit 16 (ucast a) OR push_bit 8 (ucast b) OR (ucast c :: 32 word)"
  defines "d \<equiv> \<lambda>w :: 32 word. RT_BASE64_ALPHABET ! unat (w AND 0x3f)"
  shows "\<exists>bits'. decode_loop bits 0 (d (drop_bit 18 t) # d (drop_bit 12 t) # d (drop_bit 6 t) # d t # cs)
           = a # b # c # decode_loop bits' 0 cs"
  using byte_of_triple [of bits a b c] unfolding t_def d_def
  by (simp add: decode_digit Let_def del: decode_loop.simps) blast

lemma decode_tail2:
  fixes a b :: "8 word" and bits :: "32 word"
  defines "t \<equiv> push_bit 16 (ucast a) OR push_bit 8 (ucast b) OR (0 :: 32 word)"
  defines "d \<equiv> \<lambda>w :: 32 word. RT_BASE64_ALPHABET ! unat (w AND 0x3f)"
  shows "decode_loop bits 0 [d (drop_bit 18 t), d (drop_bit 12 t), d (drop_bit 6 t), CHR ''=''] = [a, b]"
  using byte_of_triple [of bits a b 0] unfolding t_def d_def
  by (simp add: decode_digit decode_pad Let_def del: decode_loop.simps) (simp add: decode_pad)

lemma decode_tail1:
  fixes a :: "8 word" and bits :: "32 word"
  defines "t \<equiv> push_bit 16 (ucast a) OR push_bit 8 0 OR (0 :: 32 word)"
  defines "d \<equiv> \<lambda>w :: 32 word. RT_BASE64_ALPHABET ! unat (w AND 0x3f)"
  shows "decode_loop bits 0 [d (drop_bit 18 t), d (drop_bit 12 t), CHR ''='', CHR ''=''] = [a]"
  using byte_of_triple [of bits a 0 0] unfolding t_def d_def
  by (simp add: decode_digit decode_pad Let_def del: decode_loop.simps) (simp add: decode_pad)

lemma decode_encode: "decode_loop bits 0 (rt_base64_encode data) = data"
proof (induction data arbitrary: bits rule: rt_base64_encode.induct)
  case 1
  then show ?case by simp
next
  case (2 d rest)
  consider "rest = []" | e where "rest = [e]" | e f rest' where "rest = e # f # rest'"
    by (cases rest rule: remdups_adj.cases) auto
  then show ?case
  proof cases
    case 1
    then show ?thesis using decode_tail1 [of bits d] by (simp add: Let_def)
  next
    case 2
    then show ?thesis using decode_tail2 [of bits d e] by (simp add: Let_def)
  next
    case 3
    obtain bits' where "decode_loop bits 0 (rt_base64_encode (d # rest))
        = d # e # f # decode_loop bits' 0 (rt_base64_encode rest')"
      using decode_group [of bits d e f "rt_base64_encode rest'"] 3 by (auto simp: Let_def)
    moreover have "decode_loop bits' 0 (rt_base64_encode rest') = rest'"
      using "2.IH" [OF refl refl refl refl refl, of bits'] 3 by simp
    ultimately show ?thesis using 3 by simp
  qed
qed

end
