(* ===== verification/Pcm16.thy ===== *)
theory Pcm16
  imports Base64
begin

text \<open>
  The samples of an audio frame, \<open>src/realtime-proto.h\<close>: 16 bits little endian, read with a scale
  of 32768 and written with a scale of 32767.
\<close>

section \<open>PCM16\<close>

text \<open>Two bytes, little endian, make one sample; an odd byte at the end is left out.\<close>

fun rt_pcm16_to_float :: "8 word list \<Rightarrow> f32 list" where
  "rt_pcm16_to_float (lo # hi # rest) =
     to_f32 (to_f32 (of_int (sint (ucast lo OR push_bit 8 (ucast hi) :: 16 word))) / 32768)
       # rt_pcm16_to_float rest"
| "rt_pcm16_to_float _ = []"

definition float_to_pcm16 :: "f32 \<Rightarrow> int" where
  "float_to_pcm16 v = trunc (to_f32 ((if 1 < v then 1 else if v < - 1 then - 1 else v) * 32767))"

definition pcm16_bytes :: "int \<Rightarrow> 8 word list" where
  "pcm16_bytes sample =
     (let u = word_of_int sample :: 16 word in [ucast (u AND 0xff), ucast (drop_bit 8 u AND 0xff)])"

definition rt_float_to_pcm16_base64 :: "f32 list \<Rightarrow> string" where
  "rt_float_to_pcm16_base64 pcm = rt_base64_encode (concat (map (\<lambda>v. pcm16_bytes (float_to_pcm16 v)) pcm))"

section \<open>PCM16 round trip\<close>

lemma pcm16_bytes_word: "ucast (ucast (u AND 0xff) :: 8 word) OR push_bit 8 (ucast (ucast (drop_bit 8 u AND 0xff) :: 8 word)) = (u :: 16 word)"
proof -
  have m: "(0xff :: 16 word) = mask 8" by (simp add: mask_eq_exp_minus_1)
  show ?thesis unfolding m by (rule bit_word_eqI) (auto simp: bit_simps not_le)
qed

lemma sint_sample: "- 32768 \<le> s \<Longrightarrow> s < 32768 \<Longrightarrow> sint (word_of_int s :: 16 word) = s"
  by (simp add: sint_sbintrunc' signed_take_bit_int_eq_self)

lemma pcm16_bytes_read:
  assumes "- 32768 \<le> s" "s < 32768"
  shows "rt_pcm16_to_float (pcm16_bytes s @ rest) = of_int s / 32768 # rt_pcm16_to_float rest"
proof -
  have "to_f32 (of_int s) = of_int s" using assms by (intro to_f32_of_int) auto
  moreover have "fl (int 24) (- 149) (of_int s / 32768 :: rat) = of_int s / 32768"
  proof (rule fl_exact)
    show "(of_int s / 32768 :: rat) = of_int s * 2 powi (- 15)" by (simp add: power_int_def field_simps)
    show "\<bar>s\<bar> < 2 ^ 24" using assms by auto
  qed simp_all
  then have "to_f32 (of_int s / 32768) = of_int s / 32768" by (simp add: to_f32_def)
  ultimately show ?thesis
    using assms by (simp add: pcm16_bytes_def Let_def pcm16_bytes_word sint_sample)
qed

lemma pcm16_read_all:
  "list_all (\<lambda>s. - 32768 \<le> s \<and> s < 32768) ss \<Longrightarrow>
   rt_pcm16_to_float (concat (map pcm16_bytes ss)) = map (\<lambda>s. of_int s / 32768) ss"
  by (induction ss) (auto simp: pcm16_bytes_read)

text \<open>A sample the client gets is a 16 bit value within two steps of the sample synthesized.\<close>

definition clamp1 :: "f32 \<Rightarrow> f32" where
  "clamp1 v = (if 1 < v then 1 else if v < - 1 then - 1 else v)"

lemma clamp1_bounds: "- 1 \<le> clamp1 v \<and> clamp1 v \<le> 1"
  by (simp add: clamp1_def)

lemma trunc_bounds: "\<bar>of_int (trunc q) - q\<bar> < 1"
  by (auto simp: trunc_def abs_less_iff) linarith+

lemma trunc_int_bounds:
  assumes "of_int a \<le> q" "q \<le> of_int b"
  shows "a \<le> trunc q \<and> trunc q \<le> b"
proof (cases "q < 0")
  case True
  have "\<lceil>q\<rceil> \<le> b" using assms(2) by (simp add: ceiling_le_iff)
  moreover have "of_int a \<le> (of_int \<lceil>q\<rceil> :: rat)" using assms(1) le_of_int_ceiling order_trans by blast
  ultimately show ?thesis using True by (simp add: trunc_def)
next
  case False
  have "a \<le> \<lfloor>q\<rfloor>" using assms(1) by (simp add: le_floor_iff)
  moreover have "(of_int \<lfloor>q\<rfloor> :: rat) \<le> of_int b" using assms(2) of_int_floor_le order_trans by blast
  ultimately show ?thesis using False by (simp add: trunc_def)
qed

lemma float_to_pcm16_range: "- 32767 \<le> float_to_pcm16 v \<and> float_to_pcm16 v \<le> 32767"
proof -
  have x: "- 32767 \<le> clamp1 v * 32767 \<and> clamp1 v * 32767 \<le> 32767"
    using clamp1_bounds [of v] by linarith
  then have "\<bar>clamp1 v * 32767\<bar> < 2 ^ 24" by (simp add: abs_less_iff)
  from to_f32_int_bounds [OF this, of "- 32767"] to_f32_int_bounds [OF this, of 32767] x
  have "of_int (- 32767) \<le> to_f32 (clamp1 v * 32767)" "to_f32 (clamp1 v * 32767) \<le> of_int 32767"
    by simp_all
  then show ?thesis
    unfolding float_to_pcm16_def clamp1_def [symmetric] by (rule trunc_int_bounds)
qed

lemma float_to_pcm16_near: "\<bar>of_int (float_to_pcm16 v) / 32768 - clamp1 v\<bar> \<le> 3 / 32768"
proof -
  define x where "x = clamp1 v * 32767"
  have x: "\<bar>x\<bar> < 2 powi 15" using clamp1_bounds [of v] by (simp add: x_def abs_less_iff)
  have "\<bar>to_f32 x - x\<bar> \<le> 2 powi (- 9) / 2" using to_f32_near_abs [OF x] by simp
  then have near: "\<bar>to_f32 x - x\<bar> \<le> 1 / 2" by (simp add: power_int_def power_divide)
  have "\<bar>of_int (trunc (to_f32 x)) - to_f32 x\<bar> < 1" by (rule trunc_bounds)
  with near have "\<bar>of_int (trunc (to_f32 x)) - x\<bar> \<le> 3 / 2" by linarith
  moreover have "\<bar>x - clamp1 v * 32768\<bar> \<le> 1" using clamp1_bounds [of v] by (simp add: x_def abs_le_iff)
  ultimately have "\<bar>of_int (trunc (to_f32 x)) - clamp1 v * 32768\<bar> \<le> 3" by linarith
  then show ?thesis
    unfolding float_to_pcm16_def clamp1_def [symmetric] x_def [symmetric] by (simp add: abs_le_iff field_simps)
qed

lemma float_to_pcm16_of_sample_pos:
  assumes "0 < s" "s < 32768"
  shows "float_to_pcm16 (of_int s / 32768) = s - 1"
proof -
  define x :: rat where "x = of_int s / 32768 * 32767"
  have s: "1 \<le> (of_int s :: rat)" "(of_int s :: rat) \<le> 32767"
    using assms by (simp_all flip: of_int_le_iff)
  have x: "of_int (s - 1) \<le> x" "x = of_int s - of_int s / 32768" "\<bar>x\<bar> < 2 ^ 24"
    using s by (simp_all add: x_def field_simps abs_less_iff)
  have "(2 :: rat) powi (- 126) \<le> 2 powi (- 1)" by (intro power_int_increasing) auto
  also have "\<dots> \<le> x" using s x(2) by (simp add: power_int_def)
  finally have "\<bar>to_f32 x - x\<bar> \<le> x / 2 ^ 24" by (rule to_f32_near_rel)
  then have "to_f32 x - x \<le> x / 2 ^ 24" by (rule order_trans [OF abs_ge_self])
  then have "to_f32 x \<le> x + x / 16777216" by simp
  then have "to_f32 x < of_int s" using s x(2) by linarith
  moreover have lo: "of_int (s - 1) \<le> to_f32 x" using to_f32_int_bounds(1) [OF x(3,1)] .
  ultimately have "\<lfloor>to_f32 x\<rfloor> = s - 1" by (simp add: floor_eq_iff)
  moreover have "0 \<le> to_f32 x" using lo s by linarith
  moreover have "(if 1 < (of_int s / 32768 :: rat) then 1 else if (of_int s / 32768 :: rat) < - 1 then - 1
      else of_int s / 32768) = (of_int s / 32768 :: rat)"
    using s by auto
  ultimately show ?thesis by (simp only: float_to_pcm16_def trunc_def x_def [symmetric] if_True)
qed

lemma rne_minus: "rne (- q) = - rne q"
proof (cases "q = of_int \<lfloor>q\<rfloor>")
  case True
  then obtain n where "q = of_int n" by blast
  then have "rne q = n" "rne (- q) = - n" by (simp_all add: rne_def flip: of_int_minus)
  then show ?thesis by simp
next
  case False
  then have "\<lceil>q\<rceil> = \<lfloor>q\<rfloor> + 1" by (simp add: ceiling_eq_iff) (metis floor_eq_iff less_le)
  then have "\<lfloor>- q\<rfloor> = - \<lfloor>q\<rfloor> - 1" by (simp add: floor_minus)
  then show ?thesis by (auto simp: rne_def Let_def)
qed

lemma to_f32_minus: "to_f32 (- x) = - to_f32 x"
  by (simp add: to_f32_def fl_def Let_def rne_minus)

lemma float_to_pcm16_minus: "float_to_pcm16 (- v) = - float_to_pcm16 v"
proof -
  have "trunc (- q) = - trunc q" for q by (simp add: trunc_def floor_minus ceiling_minus)
  then show ?thesis by (auto simp: float_to_pcm16_def to_f32_minus simp flip: minus_mult_left)
qed

lemma float_to_pcm16_of_sample:
  assumes "- 32768 < s" "s < 32768"
  shows "float_to_pcm16 (of_int s / 32768) = s - sgn s"
proof -
  consider "0 < s" | "s = 0" | "0 < - s" by linarith
  then show ?thesis
  proof cases
    case 2
    then show ?thesis by (simp add: float_to_pcm16_def to_f32_def fl_def trunc_def)
  next
    case 3
    then have "float_to_pcm16 (- (of_int (- s) / 32768)) = s + 1"
      unfolding float_to_pcm16_minus using assms by (subst float_to_pcm16_of_sample_pos) auto
    then show ?thesis using 3 by simp
  qed (use float_to_pcm16_of_sample_pos assms in simp)
qed

end
