(* ===== verification/Proto.thy ===== *)
theory Proto
  imports Settings Pcm16
begin

text \<open>
  \<open>src/realtime-proto.h\<close>: the Realtime subset. A client frame is parsed into a message, and a server
  frame is built field by field; the audio both carry is the codec of \<open>Pcm16\<close>.
\<close>

section \<open>Reading fields\<close>

definition rt_json_str :: "json option \<Rightarrow> string \<Rightarrow> string" where
  "rt_json_str obj key = json_text (yyjson_obj_get obj key)"

definition rt_json_strs :: "json option \<Rightarrow> string \<Rightarrow> string list" where
  "rt_json_strs obj key =
     List.map_filter (\<lambda>v. case v of JStr s \<Rightarrow> Some s | _ \<Rightarrow> None) (arr_items (yyjson_obj_get obj key))"

definition RT_MAX_MS :: int where "RT_MAX_MS = 60000"
definition RT_MAX_COUNT :: int where "RT_MAX_COUNT = 1000000"
definition RT_MAX_REAL :: rat where "RT_MAX_REAL = 1000000"

text \<open>The value, and the field named in \<open>invalid\<close>: the first one refused.\<close>

definition rt_json_value :: "json option \<Rightarrow> string \<Rightarrow> f64 \<Rightarrow> f64 \<Rightarrow> f64 \<Rightarrow> string \<Rightarrow> f64 \<times> string" where
  "rt_json_value obj key fallback lo hi invalid =
     (let value = yyjson_obj_get obj key in
      if value = None \<or> yyjson_is_null value then (fallback, invalid)
      else case yyjson_num value of
        Some number \<Rightarrow>
          if lo \<le> number \<and> number \<le> hi then (number, invalid)
          else (fallback, if invalid = [] then key else invalid)
      | None \<Rightarrow> (fallback, if invalid = [] then key else invalid))"

definition rt_json_real :: "json option \<Rightarrow> string \<Rightarrow> f32 \<Rightarrow> string \<Rightarrow> f32 \<times> string" where
  "rt_json_real obj key fallback invalid =
     (let (v, inv) = rt_json_value obj key fallback (- RT_MAX_REAL) RT_MAX_REAL invalid in (to_f32 v, inv))"

definition rt_json_count :: "json option \<Rightarrow> string \<Rightarrow> string \<Rightarrow> int \<times> string" where
  "rt_json_count obj key invalid =
     (let (v, inv) = rt_json_value obj key (- 1) 0 (of_int RT_MAX_COUNT) invalid in (trunc v, inv))"

definition rt_json_ms :: "json option \<Rightarrow> string \<Rightarrow> string \<Rightarrow> int \<times> string" where
  "rt_json_ms obj key invalid =
     (let (v, inv) = rt_json_value obj key (- 1) 0 (of_int RT_MAX_MS) invalid in (trunc v, inv))"

definition rt_json_int :: "json option \<Rightarrow> string \<Rightarrow> int \<Rightarrow> int" where
  "rt_json_int obj key fallback =
     (let value = yyjson_obj_get obj key in
      if yyjson_is_int value then yyjson_get_sint value else fallback)"

section \<open>Client frames\<close>

datatype rt_client_event =
    RT_CLIENT_UNKNOWN | RT_CLIENT_SESSION_UPDATE | RT_CLIENT_AUDIO_APPEND
  | RT_CLIENT_RESPONSE_CANCEL | RT_CLIENT_HISTORY

record rt_session_patch =
  p_mode :: string
  p_echo :: string
  p_llm_url :: string
  p_llm_model :: string
  p_llm_key :: string
  p_system_prompt :: string
  p_wake_mode :: string
  p_wake_phrases :: "string list"
  p_sleep_phrases :: "string list"
  p_tools :: "string list"
  p_mcp :: "mcp_server_params list"
  p_max_rounds :: int
  p_tool_timeout_sec :: int
  p_temperature :: f32
  p_top_p :: f32
  p_top_k :: int
  p_min_p :: f32
  p_max_tokens :: int
  p_presence_penalty :: f32
  p_frequency_penalty :: f32
  p_seed :: int
  p_reasoning_effort :: string
  p_tts_voice :: string
  p_tts_effect :: string
  p_tts_language :: string
  p_tts_browser_languages :: "string list"
  p_tts_temperature :: f32
  p_tts_top_k :: int
  p_tts_top_p :: f32
  p_tts_repetition_penalty :: f32
  p_tts_subtalker_temperature :: f32
  p_tts_subtalker_top_k :: int
  p_tts_subtalker_top_p :: f32
  p_tts_max_new_tokens :: int
  p_tts_seed :: int
  p_tts_min_chars :: int
  p_tts_chars_per_second :: f32
  p_tts_margin_seconds :: f32
  p_llm_timeout_sec :: int
  p_vad_neg_threshold :: f32
  p_vad_threshold :: f32
  p_min_speech_ms :: int
  p_barge_in_ms :: int
  p_min_silence_ms :: int
  p_min_speech_continuation_ms :: int
  p_speech_pad_ms :: int
  p_turn_threshold :: f32
  p_incomplete_delay_ms :: int
  p_turn_max_wait_ms :: int
  p_reopen_grace_ms :: int
  p_invalid :: string

definition rt_session_patch_new :: rt_session_patch where
  "rt_session_patch_new =
     \<lparr>p_mode = [], p_echo = [], p_llm_url = [], p_llm_model = [], p_llm_key = [],
      p_system_prompt = [], p_wake_mode = [], p_wake_phrases = [], p_sleep_phrases = [],
      p_tools = [], p_mcp = [], p_max_rounds = - 1, p_tool_timeout_sec = - 1, p_temperature = - 1,
      p_top_p = - 1, p_top_k = - 1, p_min_p = - 1, p_max_tokens = - 1, p_presence_penalty = - 100,
      p_frequency_penalty = - 100, p_seed = - 1, p_reasoning_effort = [], p_tts_voice = [],
      p_tts_effect = [], p_tts_language = [], p_tts_browser_languages = [],
      p_tts_temperature = - 1, p_tts_top_k = - 1, p_tts_top_p = - 1,
      p_tts_repetition_penalty = - 1, p_tts_subtalker_temperature = - 1,
      p_tts_subtalker_top_k = - 1, p_tts_subtalker_top_p = - 1, p_tts_max_new_tokens = - 1,
      p_tts_seed = - 1, p_tts_min_chars = - 1, p_tts_chars_per_second = - 1,
      p_tts_margin_seconds = - 1, p_llm_timeout_sec = - 1, p_vad_neg_threshold = - 1,
      p_vad_threshold = - 1, p_min_speech_ms = - 1, p_barge_in_ms = - 1, p_min_silence_ms = - 1,
      p_min_speech_continuation_ms = - 1, p_speech_pad_ms = - 1, p_turn_threshold = - 1,
      p_incomplete_delay_ms = - 1, p_turn_max_wait_ms = - 1, p_reopen_grace_ms = - 1, p_invalid = []\<rparr>"

record rt_client_message =
  rc_type :: rt_client_event
  rc_patch :: rt_session_patch
  rc_audio :: "f32 list"
  rc_reference :: "f32 list"
  rc_messages :: "rt_message list"

definition rt_client_message_new :: rt_client_message where
  "rt_client_message_new =
     \<lparr>rc_type = RT_CLIENT_UNKNOWN, rc_patch = rt_session_patch_new, rc_audio = [], rc_reference = [],
      rc_messages = []\<rparr>"

text \<open>A field read into the patch, \<open>invalid\<close> passed along: \<open>message.patch.x = rt_json_...(obj, key,
  message.patch.invalid)\<close>.\<close>

definition read_field ::
  "(string \<Rightarrow> 'a \<times> string) \<Rightarrow> ('a \<Rightarrow> rt_session_patch \<Rightarrow> rt_session_patch) \<Rightarrow> rt_session_patch \<Rightarrow> rt_session_patch"
where
  "read_field rd upd p = (upd (fst (rd (p_invalid p))) p)\<lparr>p_invalid := snd (rd (p_invalid p))\<rparr>"

abbreviation read_real where
  "read_real obj key fallback upd \<equiv> read_field (rt_json_real obj key fallback) (\<lambda>v. upd (\<lambda>_. v))"
abbreviation read_count where
  "read_count obj key upd \<equiv> read_field (rt_json_count obj key) (\<lambda>v. upd (\<lambda>_. v))"
abbreviation read_ms where
  "read_ms obj key upd \<equiv> read_field (rt_json_ms obj key) (\<lambda>v. upd (\<lambda>_. v))"
abbreviation read_float where
  "read_float obj key lo hi upd \<equiv>
     read_field (rt_json_value obj key (- 1) lo hi) (\<lambda>v. upd (\<lambda>_. to_f32 v))"

definition parse_sampling :: "json option \<Rightarrow> rt_session_patch \<Rightarrow> rt_session_patch" where
  "parse_sampling llm p =
     (if llm = None then p else
      let p = read_real llm ''temperature'' (- 1) p_temperature_update p;
          p = read_real llm ''top_p'' (- 1) p_top_p_update p;
          p = read_count llm ''top_k'' p_top_k_update p;
          p = read_real llm ''min_p'' (- 1) p_min_p_update p;
          p = read_count llm ''max_tokens'' p_max_tokens_update p;
          p = read_real llm ''presence_penalty'' (- 100) p_presence_penalty_update p;
          p = read_real llm ''frequency_penalty'' (- 100) p_frequency_penalty_update p
      in p\<lparr>p_seed := rt_json_int llm ''seed'' (- 1),
           p_reasoning_effort := rt_json_str llm ''reasoning_effort''\<rparr>)"

definition parse_tts_sampling :: "json option \<Rightarrow> rt_session_patch \<Rightarrow> rt_session_patch" where
  "parse_tts_sampling sampling p =
     (if sampling = None then p else
      let p = read_real sampling ''temperature'' (- 1) p_tts_temperature_update p;
          p = read_count sampling ''top_k'' p_tts_top_k_update p;
          p = read_real sampling ''top_p'' (- 1) p_tts_top_p_update p;
          p = read_real sampling ''repetition_penalty'' (- 1) p_tts_repetition_penalty_update p;
          p = read_real sampling ''subtalker_temperature'' (- 1) p_tts_subtalker_temperature_update p;
          p = read_count sampling ''subtalker_top_k'' p_tts_subtalker_top_k_update p;
          p = read_real sampling ''subtalker_top_p'' (- 1) p_tts_subtalker_top_p_update p;
          p = read_count sampling ''max_new_tokens'' p_tts_max_new_tokens_update p
      in p\<lparr>p_tts_seed := rt_json_int sampling ''seed'' (- 1)\<rparr>)"

definition parse_tts :: "json option \<Rightarrow> rt_session_patch \<Rightarrow> rt_session_patch" where
  "parse_tts tts p =
     (if tts = None then p else
      let p = p\<lparr>p_tts_voice := rt_json_str tts ''voice'', p_tts_effect := rt_json_str tts ''effect'',
                p_tts_language := rt_json_str tts ''language'',
                p_tts_browser_languages := rt_json_strs tts ''browser_languages''\<rparr>;
          p = read_count tts ''min_chars'' p_tts_min_chars_update p;
          p = read_float tts ''chars_per_second'' 1 1000 p_tts_chars_per_second_update p;
          p = read_float tts ''margin_seconds'' 0 (of_int RT_MAX_MS / 1000) p_tts_margin_seconds_update p
      in parse_tts_sampling (yyjson_obj_get tts ''sampling'') p)"

definition parse_vad :: "json option \<Rightarrow> rt_session_patch \<Rightarrow> rt_session_patch" where
  "parse_vad vad p =
     (if vad = None then p else
      let p = read_float vad ''neg_threshold'' 0 1 p_vad_neg_threshold_update p;
          p = read_float vad ''threshold'' 0 1 p_vad_threshold_update p;
          p = read_ms vad ''min_speech_ms'' p_min_speech_ms_update p;
          p = read_ms vad ''barge_in_ms'' p_barge_in_ms_update p;
          p = read_ms vad ''min_silence_ms'' p_min_silence_ms_update p;
          p = read_ms vad ''min_speech_continuation_ms'' p_min_speech_continuation_ms_update p
      in read_ms vad ''speech_pad_ms'' p_speech_pad_ms_update p)"

definition parse_turn :: "json option \<Rightarrow> rt_session_patch \<Rightarrow> rt_session_patch" where
  "parse_turn turn p =
     (if turn = None then p else
      let p = read_float turn ''threshold'' 0 1 p_turn_threshold_update p;
          p = read_ms turn ''incomplete_delay_ms'' p_incomplete_delay_ms_update p;
          p = read_ms turn ''max_wait_ms'' p_turn_max_wait_ms_update p
      in read_ms turn ''reopen_grace_ms'' p_reopen_grace_ms_update p)"

text \<open>The MCP servers an update or a tool list names; one without a URL is left out.\<close>

definition parse_mcp :: "json option \<Rightarrow> mcp_server_params list" where
  "parse_mcp mcp =
     filter (\<lambda>s. mcp_url s \<noteq> [])
       (map (\<lambda>entry. mcp_server_params_default\<lparr>mcp_url := rt_json_str (Some entry) ''url'',
                        mcp_api_key := rt_json_str (Some entry) ''key''\<rparr>)
          (arr_items mcp))"

definition parse_session_update :: "json option \<Rightarrow> rt_session_patch" where
  "parse_session_update top_val =
     (let session = yyjson_obj_get top_val ''session'';
          fields = (if session = None then top_val else session);
          wake = yyjson_obj_get fields ''wake'';
          p = rt_session_patch_new\<lparr>
                p_mode := rt_json_str fields ''mode'', p_echo := rt_json_str fields ''echo'',
                p_llm_url := rt_json_str fields ''llm_url'', p_llm_model := rt_json_str fields ''llm_model'',
                p_llm_key := rt_json_str fields ''llm_key'',
                p_system_prompt := rt_json_str fields ''instructions''\<rparr>;
          p = read_count fields ''llm_timeout_sec'' p_llm_timeout_sec_update p;
          p = p\<lparr>p_wake_mode := rt_json_str wake ''mode'', p_wake_phrases := rt_json_strs wake ''phrases'',
                p_sleep_phrases := rt_json_strs wake ''sleep_phrases''\<rparr>;
          p = read_count fields ''max_rounds'' p_max_rounds_update p;
          p = read_count fields ''tool_timeout_sec'' p_tool_timeout_sec_update p;
          p = p\<lparr>p_tools := rt_json_strs fields ''tools'', p_mcp := parse_mcp (yyjson_obj_get fields ''mcp'')\<rparr>;
          p = parse_sampling (yyjson_obj_get fields ''sampling'') p;
          p = parse_tts (yyjson_obj_get fields ''tts'') p;
          p = parse_vad (yyjson_obj_get fields ''vad'') p
      in parse_turn (yyjson_obj_get fields ''turn'') p)"

definition parse_history :: "json option \<Rightarrow> rt_message list" where
  "parse_history messages =
     filter (\<lambda>m. rt_role m \<noteq> [])
       (map (\<lambda>item. \<lparr>rt_role = rt_json_str (Some item) ''role'', rt_content = rt_json_str (Some item) ''content'',
                      rt_item = rt_json_str (Some item) ''item''\<rparr>)
          (arr_items messages))"

definition rt_parse :: "json_reader \<Rightarrow> string \<Rightarrow> rt_client_message" where
  "rt_parse rd frame =
     (let message = rt_client_message_new; doc = rd frame in
      if doc = None then message
      else
        let top_val = doc; type = rt_json_str top_val ''type'' in
        if type = ''session.update'' then
          message\<lparr>rc_type := RT_CLIENT_SESSION_UPDATE, rc_patch := parse_session_update top_val\<rparr>
        else if type = ''input_audio_buffer.append'' then
          message\<lparr>rc_type := RT_CLIENT_AUDIO_APPEND,
                  rc_audio := rt_pcm16_to_float (rt_base64_decode (rt_json_str top_val ''audio'')),
                  rc_reference := rt_pcm16_to_float (rt_base64_decode (rt_json_str top_val ''reference''))\<rparr>
        else if type = ''response.cancel'' then message\<lparr>rc_type := RT_CLIENT_RESPONSE_CANCEL\<rparr>
        else if type = ''conversation.history'' then
          message\<lparr>rc_type := RT_CLIENT_HISTORY, rc_messages := parse_history (yyjson_obj_get top_val ''messages'')\<rparr>
        else message)"

section \<open>Server frames\<close>

text \<open>A frame under construction is the list of its fields; \<open>rt_frame_end\<close> is where it becomes
  text.\<close>

type_synonym rt_frame = "(string \<times> json) list"

definition rt_frame_begin :: "string \<Rightarrow> rt_frame" where
  "rt_frame_begin type = [(''type'', JStr type)]"

definition rt_frame_str :: "rt_frame \<Rightarrow> string \<Rightarrow> string \<Rightarrow> rt_frame" where
  "rt_frame_str frame key value = add_field frame key (JStr value)"

definition rt_frame_end :: "json_writer \<Rightarrow> rt_frame \<Rightarrow> string" where
  "rt_frame_end wr frame = (case wr (JObj frame) of Some json \<Rightarrow> json | None \<Rightarrow> ''{}'')"

definition rt_event :: "string \<Rightarrow> rt_frame" where
  "rt_event type = rt_frame_begin type"

definition rt_event_voice :: "string \<Rightarrow> string \<Rightarrow> rt_frame" where
  "rt_event_voice voice effect =
     add_field (rt_frame_begin ''session.updated'') ''session''
       (JObj [(''tts'', JObj [(''voice'', JStr voice), (''effect'', JStr effect)])])"

definition rt_event_text :: "string \<Rightarrow> string \<Rightarrow> string \<Rightarrow> rt_frame" where
  "rt_event_text type key value = rt_frame_str (rt_frame_begin type) key value"

definition rt_event_spoken :: "string \<Rightarrow> nat \<Rightarrow> rt_frame" where
  "rt_event_spoken unit text_end =
     add_field (rt_frame_str (rt_frame_begin ''response.output_audio_transcript.delta'') ''delta'' unit)
       ''text_end'' (JInt (int text_end))"

definition rt_event_tool_started :: "string \<Rightarrow> rt_frame" where
  "rt_event_tool_started name = rt_frame_str (rt_frame_begin ''response.tool_call.started'') ''name'' name"

text \<open>\<open>llround\<close>: to the nearest integer, ties away from zero.\<close>

definition llround :: "f64 \<Rightarrow> int" where
  "llround q = (if 0 \<le> q then \<lfloor>q + 1 / 2\<rfloor> else - \<lfloor>- q + 1 / 2\<rfloor>)"

definition rt_event_tool_done :: "string \<Rightarrow> bool \<Rightarrow> f64 \<Rightarrow> nat \<Rightarrow> rt_frame" where
  "rt_event_tool_done name ok ms bytes =
     (let f = rt_frame_str (rt_frame_begin ''response.tool_call.done'') ''name'' name;
          f = add_field f ''ok'' (JBool ok);
          f = add_field f ''ms'' (JInt (uint (word_of_int (llround ms) :: 64 word)))
      in add_field f ''bytes'' (JInt (int bytes)))"

definition rt_event_transcript :: "string \<Rightarrow> string \<Rightarrow> rt_frame" where
  "rt_event_transcript item_id transcript =
     rt_frame_str (rt_frame_str (rt_frame_begin ''conversation.item.input_audio_transcription.completed'')
       ''item_id'' item_id) ''transcript'' transcript"

definition rt_event_audio :: "f32 list \<Rightarrow> rt_frame" where
  "rt_event_audio pcm =
     rt_frame_str (rt_frame_begin ''response.output_audio.delta'') ''delta'' (rt_float_to_pcm16_base64 pcm)"

definition rt_event_error :: "string \<Rightarrow> rt_frame" where
  "rt_event_error message =
     add_field (rt_frame_begin ''error'') ''error'' (JObj [(''message'', JStr message)])"

section \<open>What an update may set\<close>

text \<open>A number field of an update: the object it is in, its name, its range. It is refused when it is
  there, is not null, and is no number of the range.\<close>

type_synonym number_field = "json option \<times> string \<times> f64 \<times> f64"

fun refused :: "number_field \<Rightarrow> bool" where
  "refused (obj, key, lo, hi) =
     (case yyjson_obj_get obj key of
        None \<Rightarrow> False
      | Some v \<Rightarrow> v \<noteq> JNull \<and> (case yyjson_num (Some v) of None \<Rightarrow> True | Some x \<Rightarrow> \<not> (lo \<le> x \<and> x \<le> hi)))"

definition real_field :: "json option \<Rightarrow> string \<Rightarrow> number_field" where
  "real_field obj key = (obj, key, - RT_MAX_REAL, RT_MAX_REAL)"
definition count_field :: "json option \<Rightarrow> string \<Rightarrow> number_field" where
  "count_field obj key = (obj, key, 0, of_int RT_MAX_COUNT)"
definition ms_field :: "json option \<Rightarrow> string \<Rightarrow> number_field" where
  "ms_field obj key = (obj, key, 0, of_int RT_MAX_MS)"

text \<open>The number fields of a \<open>session.update\<close>, in the order they are read.\<close>

definition update_fields :: "json option \<Rightarrow> number_field list" where
  "update_fields top_val =
     (let session = yyjson_obj_get top_val ''session'';
          fields = (if session = None then top_val else session);
          llm = yyjson_obj_get fields ''sampling''; tts = yyjson_obj_get fields ''tts'';
          smp = yyjson_obj_get tts ''sampling''; vad = yyjson_obj_get fields ''vad'';
          turn = yyjson_obj_get fields ''turn''
      in map (count_field fields) [''llm_timeout_sec'', ''max_rounds'', ''tool_timeout_sec''] @
         [real_field llm ''temperature'', real_field llm ''top_p'', count_field llm ''top_k'',
          real_field llm ''min_p'', count_field llm ''max_tokens'', real_field llm ''presence_penalty'',
          real_field llm ''frequency_penalty''] @
         [count_field tts ''min_chars'', (tts, ''chars_per_second'', 1, 1000),
          (tts, ''margin_seconds'', 0, of_int RT_MAX_MS / 1000)] @
         [real_field smp ''temperature'', count_field smp ''top_k'', real_field smp ''top_p'',
          real_field smp ''repetition_penalty'', real_field smp ''subtalker_temperature'',
          count_field smp ''subtalker_top_k'', real_field smp ''subtalker_top_p'',
          count_field smp ''max_new_tokens''] @
         [(vad, ''neg_threshold'', 0, 1), (vad, ''threshold'', 0, 1)] @
         map (ms_field vad) [''min_speech_ms'', ''barge_in_ms'', ''min_silence_ms'',
           ''min_speech_continuation_ms'', ''speech_pad_ms''] @
         [(turn, ''threshold'', 0, 1)] @
         map (ms_field turn) [''incomplete_delay_ms'', ''max_wait_ms'', ''reopen_grace_ms''])"

definition first_refused :: "number_field list \<Rightarrow> string" where
  "first_refused fs = (case filter refused fs of [] \<Rightarrow> [] | (_, key, _, _) # _ \<Rightarrow> key)"

fun note_refused :: "string \<Rightarrow> number_field \<Rightarrow> string" where
  "note_refused named (obj, key, lo, hi) = (if refused (obj, key, lo, hi) \<and> named = [] then key else named)"

lemma snd_rt_json_value: "snd (rt_json_value obj key fb lo hi named) = note_refused named (obj, key, lo, hi)"
  by (auto simp: rt_json_value_def Let_def yyjson_is_null_def split: option.splits json.splits)

lemma fst_rt_json_value:
  "fst (rt_json_value obj key fb lo hi named) = fb \<or>
   lo \<le> fst (rt_json_value obj key fb lo hi named) \<and> fst (rt_json_value obj key fb lo hi named) \<le> hi"
  by (auto simp: rt_json_value_def Let_def split: option.splits)

lemma invalid_read_field [simp]: "p_invalid (read_field rd upd p) = snd (rd (p_invalid p))"
  by (simp add: read_field_def)

lemma snd_readers [simp]:
  "snd (rt_json_real obj key fb named) = note_refused named (real_field obj key)"
  "snd (rt_json_count obj key named) = note_refused named (count_field obj key)"
  "snd (rt_json_ms obj key named) = note_refused named (ms_field obj key)"
  by (simp_all add: rt_json_real_def rt_json_count_def rt_json_ms_def real_field_def count_field_def
      ms_field_def split_beta snd_rt_json_value)

lemma note_refused_absent [simp]:
  "note_refused named (None, key, lo, hi) = named" "note_refused named (real_field None key) = named"
  "note_refused named (count_field None key) = named" "note_refused named (ms_field None key) = named"
  by (simp_all add: real_field_def count_field_def ms_field_def)

lemma foldl_note_refused:
  assumes "list_all (\<lambda>(_, key, _, _). key \<noteq> []) fs"
  shows "foldl note_refused named fs = (if named = [] then first_refused fs else named)"
  using assms
proof (induction fs arbitrary: named)
  case (Cons f fs)
  obtain obj key lo hi where "f = (obj, key, lo, hi)" by (cases f)
  with Cons show ?case by (simp add: first_refused_def del: refused.simps)
qed (simp add: first_refused_def)

lemma update_fields_named: "list_all (\<lambda>(_, key, _, _). key \<noteq> []) (update_fields top_val)"
  by (simp add: update_fields_def Let_def real_field_def count_field_def ms_field_def)

lemma invalid_sections:
  "p_invalid (parse_sampling llm p) = foldl note_refused (p_invalid p)
     [real_field llm ''temperature'', real_field llm ''top_p'', count_field llm ''top_k'',
      real_field llm ''min_p'', count_field llm ''max_tokens'', real_field llm ''presence_penalty'',
      real_field llm ''frequency_penalty'']"
  "p_invalid (parse_tts_sampling smp p) = foldl note_refused (p_invalid p)
     [real_field smp ''temperature'', count_field smp ''top_k'', real_field smp ''top_p'',
      real_field smp ''repetition_penalty'', real_field smp ''subtalker_temperature'',
      count_field smp ''subtalker_top_k'', real_field smp ''subtalker_top_p'',
      count_field smp ''max_new_tokens'']"
  "p_invalid (parse_vad vad p) = foldl note_refused (p_invalid p)
     ([(vad, ''neg_threshold'', 0, 1), (vad, ''threshold'', 0, 1)] @
      map (ms_field vad) [''min_speech_ms'', ''barge_in_ms'', ''min_silence_ms'',
        ''min_speech_continuation_ms'', ''speech_pad_ms''])"
  "p_invalid (parse_turn turn p) = foldl note_refused (p_invalid p)
     ([(turn, ''threshold'', 0, 1)] @
      map (ms_field turn) [''incomplete_delay_ms'', ''max_wait_ms'', ''reopen_grace_ms''])"
  by (simp_all add: parse_sampling_def parse_tts_sampling_def parse_vad_def parse_turn_def Let_def
      snd_rt_json_value del: note_refused.simps)

lemma invalid_tts:
  "p_invalid (parse_tts tts p) = foldl note_refused (p_invalid p)
     ([count_field tts ''min_chars'', (tts, ''chars_per_second'', 1, 1000),
       (tts, ''margin_seconds'', 0, of_int RT_MAX_MS / 1000)] @
      (let smp = yyjson_obj_get tts ''sampling'' in
       [real_field smp ''temperature'', count_field smp ''top_k'', real_field smp ''top_p'',
        real_field smp ''repetition_penalty'', real_field smp ''subtalker_temperature'',
        count_field smp ''subtalker_top_k'', real_field smp ''subtalker_top_p'',
        count_field smp ''max_new_tokens'']))"
  by (simp add: parse_tts_def Let_def invalid_sections snd_rt_json_value del: note_refused.simps)

text \<open>C34: A \<open>session.update\<close> names in \<open>invalid\<close> exactly the first of its numbers, in the order the
  server reads them, that is there without being null and without being a number of its range: an
  update is reported clean if and only if none of its thirty two number fields is refused.\<close>

theorem update_names_first_refused:
  "p_invalid (parse_session_update top_val) = first_refused (update_fields top_val)"
proof -
  have "p_invalid (parse_session_update top_val) = foldl note_refused [] (update_fields top_val)"
    unfolding parse_session_update_def update_fields_def Let_def invalid_sections invalid_tts
    by (simp add: invalid_sections invalid_tts rt_session_patch_new_def Let_def del: note_refused.simps)
  then show ?thesis by (simp add: foldl_note_refused [OF update_fields_named])
qed

text \<open>A count, a duration, a real of the ranges above; a threshold: each of them, or the value that
  stands for absent.\<close>

definition count_ok :: "int \<Rightarrow> bool" where "count_ok v \<longleftrightarrow> v = - 1 \<or> 0 \<le> v \<and> v \<le> RT_MAX_COUNT"
definition ms_ok :: "int \<Rightarrow> bool" where "ms_ok v \<longleftrightarrow> v = - 1 \<or> 0 \<le> v \<and> v \<le> RT_MAX_MS"
definition real_ok :: "f32 \<Rightarrow> bool" where "real_ok v \<longleftrightarrow> - RT_MAX_REAL \<le> v \<and> v \<le> RT_MAX_REAL"
definition unit_ok :: "f32 \<Rightarrow> bool" where "unit_ok v \<longleftrightarrow> v = - 1 \<or> 0 \<le> v \<and> v \<le> 1"

definition patch_in_range :: "rt_session_patch \<Rightarrow> bool" where
  "patch_in_range p \<longleftrightarrow>
     list_all count_ok [p_llm_timeout_sec p, p_max_rounds p, p_tool_timeout_sec p, p_top_k p, p_max_tokens p,
       p_tts_min_chars p, p_tts_top_k p, p_tts_subtalker_top_k p, p_tts_max_new_tokens p] \<and>
     list_all real_ok [p_temperature p, p_top_p p, p_min_p p, p_presence_penalty p, p_frequency_penalty p,
       p_tts_temperature p, p_tts_top_p p, p_tts_repetition_penalty p, p_tts_subtalker_temperature p,
       p_tts_subtalker_top_p p] \<and>
     list_all ms_ok [p_min_speech_ms p, p_barge_in_ms p, p_min_silence_ms p, p_min_speech_continuation_ms p,
       p_speech_pad_ms p, p_incomplete_delay_ms p, p_turn_max_wait_ms p, p_reopen_grace_ms p] \<and>
     list_all unit_ok [p_vad_neg_threshold p, p_vad_threshold p, p_turn_threshold p] \<and>
     (p_tts_chars_per_second p = - 1 \<or> 1 \<le> p_tts_chars_per_second p \<and> p_tts_chars_per_second p \<le> 1000) \<and>
     (p_tts_margin_seconds p = - 1 \<or> 0 \<le> p_tts_margin_seconds p \<and> p_tts_margin_seconds p \<le> 60)"

lemma to_f32_in_range:
  assumes "q = - 1 \<or> of_int lo \<le> q \<and> q \<le> of_int hi" "\<bar>lo\<bar> < 2 ^ 24" "\<bar>hi\<bar> < 2 ^ 24"
  shows "to_f32 q = - 1 \<or> of_int lo \<le> to_f32 q \<and> to_f32 q \<le> of_int hi"
  using assms(1)
proof
  assume "q = - 1"
  then show ?thesis using to_f32_of_int [of "- 1"] by simp
next
  assume q: "of_int lo \<le> q \<and> q \<le> of_int hi"
  have "\<bar>q\<bar> \<le> max \<bar>of_int lo\<bar> \<bar>of_int hi\<bar>" using q by linarith
  also have "\<dots> < 2 ^ 24" using assms(2,3) by (simp flip: of_int_abs)
  finally show ?thesis using to_f32_int_bounds q by blast
qed

lemma count_ok_rt_json_count: "count_ok (fst (rt_json_count obj key named))"
  using fst_rt_json_value [of obj key "- 1" 0 "of_int RT_MAX_COUNT" named]
    trunc_int_bounds [of 0 "fst (rt_json_value obj key (- 1) 0 (of_int RT_MAX_COUNT) named)" RT_MAX_COUNT]
    trunc_of_int [of "- 1"]
  by (auto simp: rt_json_count_def split_beta count_ok_def)

lemma ms_ok_rt_json_ms: "ms_ok (fst (rt_json_ms obj key named))"
  using fst_rt_json_value [of obj key "- 1" 0 "of_int RT_MAX_MS" named]
    trunc_int_bounds [of 0 "fst (rt_json_value obj key (- 1) 0 (of_int RT_MAX_MS) named)" RT_MAX_MS]
    trunc_of_int [of "- 1"]
  by (auto simp: rt_json_ms_def split_beta ms_ok_def)

lemma real_ok_rt_json_real: "fb \<in> {- 1, - 100} \<Longrightarrow> real_ok (fst (rt_json_real obj key fb named))"
  using fst_rt_json_value [of obj key fb "- RT_MAX_REAL" RT_MAX_REAL named]
    to_f32_in_range [of "fst (rt_json_value obj key fb (- RT_MAX_REAL) RT_MAX_REAL named)" "- 1000000" 1000000]
  by (auto simp: rt_json_real_def split_beta real_ok_def RT_MAX_REAL_def)

lemma float_in_range:
  assumes "\<bar>lo\<bar> < 2 ^ 24" "\<bar>hi\<bar> < 2 ^ 24"
  shows "to_f32 (fst (rt_json_value obj key (- 1) (of_int lo) (of_int hi) named)) = - 1 \<or>
    of_int lo \<le> to_f32 (fst (rt_json_value obj key (- 1) (of_int lo) (of_int hi) named)) \<and>
    to_f32 (fst (rt_json_value obj key (- 1) (of_int lo) (of_int hi) named)) \<le> of_int hi"
  by (rule to_f32_in_range [OF fst_rt_json_value assms])

lemmas read_ok = count_ok_rt_json_count ms_ok_rt_json_ms real_ok_rt_json_real
  float_in_range [of 0 1, simplified, folded unit_ok_def] float_in_range [of 1 1000, simplified]
  float_in_range [of 0 60, simplified]

lemma RT_MAX_MS_seconds: "of_int RT_MAX_MS / 1000 = (60 :: rat)"
  by (simp add: RT_MAX_MS_def)

lemma sections_in_range:
  assumes "patch_in_range p"
  shows "patch_in_range (parse_sampling llm p)" "patch_in_range (parse_tts_sampling smp p)"
    "patch_in_range (parse_vad vad p)" "patch_in_range (parse_turn turn p)" "patch_in_range (parse_tts tts p)"
proof -
  show "patch_in_range (parse_sampling llm p)"
    using assms by (simp add: parse_sampling_def Let_def patch_in_range_def read_field_def read_ok)
  have *: "patch_in_range (parse_tts_sampling smp p)" if "patch_in_range p" for smp p
    using that by (simp add: parse_tts_sampling_def Let_def patch_in_range_def read_field_def read_ok)
  then show "patch_in_range (parse_tts_sampling smp p)" by (simp add: assms)
  show "patch_in_range (parse_vad vad p)"
    using assms by (simp add: parse_vad_def Let_def patch_in_range_def read_field_def read_ok)
  show "patch_in_range (parse_turn turn p)"
    using assms by (simp add: parse_turn_def Let_def patch_in_range_def read_field_def read_ok)
  show "patch_in_range (parse_tts tts p)"
  proof (cases "tts = None")
    case True
    then show ?thesis using assms by (simp add: parse_tts_def)
  next
    case False
    have "patch_in_range (read_float tts ''margin_seconds'' 0 60 p_tts_margin_seconds_update
        (read_float tts ''chars_per_second'' 1 1000 p_tts_chars_per_second_update
        (read_count tts ''min_chars'' p_tts_min_chars_update (p\<lparr>p_tts_voice := rt_json_str tts ''voice'',
          p_tts_effect := rt_json_str tts ''effect'', p_tts_language := rt_json_str tts ''language'',
          p_tts_browser_languages := rt_json_strs tts ''browser_languages''\<rparr>))))"
      using assms by (simp add: patch_in_range_def read_field_def read_ok)
    from * [OF this] show ?thesis
      unfolding parse_tts_def Let_def RT_MAX_MS_seconds if_not_P [OF False] .
  qed
qed

lemma rt_parse_patch_ok: "patch_in_range (rc_patch (rt_parse rd frame))"
proof -
  have new: "patch_in_range rt_session_patch_new"
    by (simp add: patch_in_range_def rt_session_patch_new_def count_ok_def ms_ok_def unit_ok_def real_ok_def
        RT_MAX_REAL_def)
  then have "patch_in_range (parse_session_update top_val)" for top_val
    unfolding parse_session_update_def Let_def
    by (intro sections_in_range) (simp add: patch_in_range_def read_field_def read_ok)
  with new show ?thesis by (simp add: rt_parse_def Let_def rt_client_message_new_def)
qed

text \<open>Whatever the text of a client frame, every number of the patch it gives is usable: a count
  lies in 0 .. 1000000, a duration in 0 .. 60000 ms, a threshold in 0 .. 1, a real within a million,
  the guards of the voice within theirs, or the field has the value that stands for absent.\<close>

theorem parsed_patch_in_range: "patch_in_range (rc_patch (rt_parse rd frame))"
  by (rule rt_parse_patch_ok)

section \<open>Audio over the wire\<close>

text \<open>Base64 loses nothing: decoding what the server encoded gives back the very bytes, and what
  is not of the alphabet, the padding included, is skipped wherever it stands in the text.\<close>

theorem base64_roundtrip:
  "rt_base64_decode (rt_base64_encode data) = data \<and>
   rt_base64_decode s = rt_base64_decode (filter (\<lambda>c. 0 \<le> rt_base64_value c) s)"
proof
  show "rt_base64_decode (rt_base64_encode data) = data"
    by (simp add: rt_base64_decode_def decode_encode)
  have "decode_loop bits count s = decode_loop bits count (filter (\<lambda>c. 0 \<le> rt_base64_value c) s)"
    for bits count
    by (induction s arbitrary: bits count) (auto simp: Let_def)
  then show "rt_base64_decode s = rt_base64_decode (filter (\<lambda>c. 0 \<le> rt_base64_value c) s)"
    by (simp add: rt_base64_decode_def)
qed

text \<open>What a client reads in the audio frame of the server.\<close>

definition heard :: "rt_frame \<Rightarrow> f32 list" where
  "heard frame = rt_pcm16_to_float (rt_base64_decode (rt_json_str (Some (JObj frame)) ''delta''))"

lemma float_to_pcm16_16bit: "- 32768 \<le> float_to_pcm16 v" "float_to_pcm16 v < 32768"
  using float_to_pcm16_range [of v] by linarith+

lemma heard_audio: "heard (rt_event_audio pcm) = map (\<lambda>v. of_int (float_to_pcm16 v) / 32768) pcm"
proof -
  have "list_all (\<lambda>s. - 32768 \<le> s \<and> s < 32768) (map float_to_pcm16 pcm)"
    by (simp add: list_all_iff float_to_pcm16_16bit)
  from pcm16_read_all [OF this] show ?thesis
    by (simp add: heard_def rt_event_audio_def rt_frame_str_def rt_frame_begin_def add_field_def rt_json_str_def
        rt_float_to_pcm16_base64_def rt_base64_decode_def decode_encode comp_def)
qed

text \<open>C35: The audio frame the server builds, read back, has one sample per sample synthesized, each
  within [-1, 1] and no further than 3/32768 from that sample clamped to [-1, 1].\<close>

theorem audio_frame_faithful:
  "list_all2 (\<lambda>v w. - 1 \<le> w \<and> w \<le> 1 \<and> \<bar>w - clamp1 v\<bar> \<le> 3 / 32768) pcm (heard (rt_event_audio pcm))"
proof -
  have "- 1 \<le> (of_int (float_to_pcm16 v) / 32768 :: rat) \<and> (of_int (float_to_pcm16 v) / 32768 :: rat) \<le> 1" for v
  proof -
    have "of_int (- 32767) \<le> (of_int (float_to_pcm16 v) :: rat)"
      unfolding of_int_le_iff using float_to_pcm16_range [of v] by simp
    moreover have "(of_int (float_to_pcm16 v) :: rat) \<le> of_int 32767"
      unfolding of_int_le_iff using float_to_pcm16_range [of v] by simp
    ultimately show ?thesis by simp
  qed
  then show ?thesis
    unfolding heard_audio list_all2_map2 list_all2_same using float_to_pcm16_near by blast
qed

text \<open>The server reads samples with a scale of 32768 and writes them with 32767: each round
  through it brings a 16 bit sample other than the lowest one step closer to zero, and silence stays
  silence.\<close>

theorem pcm16_echo_loses_a_step:
  "map (\<lambda>v. float_to_pcm16 v)
     (rt_pcm16_to_float (concat (map pcm16_bytes (filter (\<lambda>s. - 32768 < s \<and> s < 32768) samples))))
   = map (\<lambda>s. s - sgn s) (filter (\<lambda>s. - 32768 < s \<and> s < 32768) samples)"
  by (subst pcm16_read_all) (auto simp: list_all_iff float_to_pcm16_of_sample)

end
