(* ===== verification/Emoji.thy ===== *)
theory Emoji
  imports Prelude
begin

text \<open>
  \<open>src/emoji.h\<close>: the table of emoji code points and the binary search over it. A code point is a
  \<^typ>\<open>nat\<close>: the source's \<open>uint32_t\<close> values never take part in arithmetic here, and the decoder
  that produces them stays below \<open>2 ^ 21\<close>. A range is the pair of its \<open>first\<close> and \<open>last\<close>.
\<close>

type_synonym EmojiRange = "nat \<times> nat"

definition EMOJI_RANGES :: "EmojiRange list" where
  "EMOJI_RANGES = [
    (0xA9, 0xA9), (0xAE, 0xAE), (0x200D, 0x200D), (0x203C, 0x203C), (0x2049, 0x2049),
    (0x20E3, 0x20E3), (0x2122, 0x2122), (0x2139, 0x2139), (0x2194, 0x2199), (0x21A9, 0x21AA),
    (0x231A, 0x231B), (0x2328, 0x2328), (0x23CF, 0x23CF), (0x23E9, 0x23F3), (0x23F8, 0x23FA),
    (0x24C2, 0x24C2), (0x25AA, 0x25AB), (0x25B6, 0x25B6), (0x25C0, 0x25C0), (0x25FB, 0x25FE),
    (0x2600, 0x2604), (0x260E, 0x260E), (0x2611, 0x2611), (0x2614, 0x2615), (0x2618, 0x2618),
    (0x261D, 0x261D), (0x2620, 0x2620), (0x2622, 0x2623), (0x2626, 0x2626), (0x262A, 0x262A),
    (0x262E, 0x262F), (0x2638, 0x263A), (0x2640, 0x2640), (0x2642, 0x2642), (0x2648, 0x2653),
    (0x265F, 0x2660), (0x2663, 0x2663), (0x2665, 0x2666), (0x2668, 0x2668), (0x267B, 0x267B),
    (0x267E, 0x267F), (0x2692, 0x2697), (0x2699, 0x2699), (0x269B, 0x269C), (0x26A0, 0x26A1),
    (0x26A7, 0x26A7), (0x26AA, 0x26AB), (0x26B0, 0x26B1), (0x26BD, 0x26BE), (0x26C4, 0x26C5),
    (0x26C8, 0x26C8), (0x26CE, 0x26CF), (0x26D1, 0x26D1), (0x26D3, 0x26D4), (0x26E9, 0x26EA),
    (0x26F0, 0x26F5), (0x26F7, 0x26FA), (0x26FD, 0x26FD), (0x2702, 0x2702), (0x2705, 0x2705),
    (0x2708, 0x270D), (0x270F, 0x270F), (0x2712, 0x2712), (0x2714, 0x2714), (0x2716, 0x2716),
    (0x271D, 0x271D), (0x2721, 0x2721), (0x2728, 0x2728), (0x2733, 0x2734), (0x2744, 0x2744),
    (0x2747, 0x2747), (0x274C, 0x274C), (0x274E, 0x274E), (0x2753, 0x2755), (0x2757, 0x2757),
    (0x2763, 0x2764), (0x2795, 0x2797), (0x27A1, 0x27A1), (0x27B0, 0x27B0), (0x27BF, 0x27BF),
    (0x2934, 0x2935), (0x2B05, 0x2B07), (0x2B1B, 0x2B1C), (0x2B50, 0x2B50), (0x2B55, 0x2B55),
    (0x3030, 0x3030), (0x303D, 0x303D), (0x3297, 0x3297), (0x3299, 0x3299), (0xFE0E, 0xFE0F),
    (0x1F004, 0x1F004), (0x1F02C, 0x1F02F), (0x1F094, 0x1F09F), (0x1F0AF, 0x1F0B0),
    (0x1F0C0, 0x1F0C0), (0x1F0CF, 0x1F0D0), (0x1F0F6, 0x1F0FF), (0x1F170, 0x1F171),
    (0x1F17E, 0x1F17F), (0x1F18E, 0x1F18E), (0x1F191, 0x1F19A), (0x1F1AF, 0x1F1FF),
    (0x1F201, 0x1F20F), (0x1F21A, 0x1F21A), (0x1F22F, 0x1F22F), (0x1F232, 0x1F23A),
    (0x1F23C, 0x1F23F), (0x1F249, 0x1F25F), (0x1F266, 0x1F321), (0x1F324, 0x1F393),
    (0x1F396, 0x1F397), (0x1F399, 0x1F39B), (0x1F39E, 0x1F3F0), (0x1F3F3, 0x1F3F5),
    (0x1F3F7, 0x1F4FD), (0x1F4FF, 0x1F53D), (0x1F549, 0x1F54E), (0x1F550, 0x1F567),
    (0x1F56F, 0x1F570), (0x1F573, 0x1F57A), (0x1F587, 0x1F587), (0x1F58A, 0x1F58D),
    (0x1F590, 0x1F590), (0x1F595, 0x1F596), (0x1F5A4, 0x1F5A5), (0x1F5A8, 0x1F5A8),
    (0x1F5B1, 0x1F5B2), (0x1F5BC, 0x1F5BC), (0x1F5C2, 0x1F5C4), (0x1F5D1, 0x1F5D3),
    (0x1F5DC, 0x1F5DE), (0x1F5E1, 0x1F5E1), (0x1F5E3, 0x1F5E3), (0x1F5E8, 0x1F5E8),
    (0x1F5EF, 0x1F5EF), (0x1F5F3, 0x1F5F3), (0x1F5FA, 0x1F64F), (0x1F680, 0x1F6C5),
    (0x1F6CB, 0x1F6D2), (0x1F6D5, 0x1F6E5), (0x1F6E9, 0x1F6E9), (0x1F6EB, 0x1F6F0),
    (0x1F6F3, 0x1F6FF), (0x1F7DC, 0x1F7F0), (0x1F80C, 0x1F80F), (0x1F848, 0x1F84F),
    (0x1F85A, 0x1F85F), (0x1F888, 0x1F88F), (0x1F8AE, 0x1F8AF), (0x1F8BC, 0x1F8BF),
    (0x1F8C2, 0x1F8CF), (0x1F8D9, 0x1F8FF), (0x1F90C, 0x1F93A), (0x1F93C, 0x1F945),
    (0x1F947, 0x1F9FF), (0x1FA58, 0x1FA5F), (0x1FA6E, 0x1FAFF), (0x1FC00, 0x1FFFD),
    (0xE0020, 0xE007F)]"

text \<open>The loop of \<open>emoji_is\<close>: \<open>lo\<close> and \<open>hi\<close> close in on the range that could hold the code point.\<close>

function emoji_search :: "nat \<Rightarrow> nat \<Rightarrow> nat \<Rightarrow> bool" where
  "emoji_search cp lo hi =
     (if lo < hi then
        let mid = (lo + hi) div 2 in
        if cp < fst (EMOJI_RANGES ! mid) then emoji_search cp lo mid
        else if snd (EMOJI_RANGES ! mid) < cp then emoji_search cp (mid + 1) hi
        else True
      else False)"
  by pat_completeness auto
termination
  by (relation "measure (\<lambda>(cp, lo, hi). hi - lo)") auto

declare emoji_search.simps [simp del]

definition emoji_is :: "nat \<Rightarrow> bool" where
  "emoji_is cp = emoji_search cp 0 (length EMOJI_RANGES)"

section \<open>The search finds exactly the table\<close>

definition in_range :: "nat \<Rightarrow> EmojiRange \<Rightarrow> bool" where
  "in_range cp r \<longleftrightarrow> fst r \<le> cp \<and> cp \<le> snd r"

text \<open>A table in order, checked row against row in one pass.\<close>

fun ordered_ranges :: "EmojiRange list \<Rightarrow> bool" where
  "ordered_ranges (r # r' # rs) = (fst r \<le> snd r \<and> snd r < fst r' \<and> ordered_ranges (r' # rs))"
| "ordered_ranges [r] = (fst r \<le> snd r)"
| "ordered_ranges [] = True"

lemma ordered_ranges_sorted:
  "ordered_ranges rs \<Longrightarrow> sorted_wrt (\<lambda>r r'. snd r < fst r') rs \<and> list_all (\<lambda>r. fst r \<le> snd r) rs"
proof (induction rs rule: ordered_ranges.induct)
  case (1 r r' rs)
  then have IH: "\<forall>x\<in>set rs. snd r' < fst x" "sorted_wrt (\<lambda>r r'. snd r < fst r') rs"
    "list_all (\<lambda>r. fst r \<le> snd r) (r' # rs)"
    by auto
  from "1.prems" have "snd r < fst r'" "fst r' \<le> snd r'"
    using IH(3) by auto
  with IH "1.prems" show ?case
    by (auto dest: bspec intro: less_trans le_less_trans)
qed auto

lemma EMOJI_RANGES_ordered: "ordered_ranges EMOJI_RANGES"
  by (simp add: EMOJI_RANGES_def)

lemmas EMOJI_RANGES_sorted = ordered_ranges_sorted [OF EMOJI_RANGES_ordered, THEN conjunct1]
lemmas EMOJI_RANGES_proper = ordered_ranges_sorted [OF EMOJI_RANGES_ordered, THEN conjunct2]

lemma EMOJI_RANGES_nth_less:
  "i < j \<Longrightarrow> j < length EMOJI_RANGES \<Longrightarrow> snd (EMOJI_RANGES ! i) < fst (EMOJI_RANGES ! j)"
  using sorted_wrt_nth_less [OF EMOJI_RANGES_sorted] by blast

lemma EMOJI_RANGES_nth_proper:
  "i < length EMOJI_RANGES \<Longrightarrow> fst (EMOJI_RANGES ! i) \<le> snd (EMOJI_RANGES ! i)"
  using EMOJI_RANGES_proper by (simp add: list_all_length)

lemma emoji_search_iff:
  "hi \<le> length EMOJI_RANGES \<Longrightarrow>
   emoji_search cp lo hi \<longleftrightarrow> (\<exists>i. lo \<le> i \<and> i < hi \<and> in_range cp (EMOJI_RANGES ! i))"
proof (induction cp lo hi rule: emoji_search.induct)
  case (1 cp lo hi)
  define mid where "mid = (lo + hi) div 2"
  show ?case
  proof (cases "lo < hi")
    case False
    then show ?thesis by (auto simp: emoji_search.simps [of cp lo hi])
  next
    case True
    then have mid: "lo \<le> mid" "mid < hi" by (auto simp: mid_def)
    consider (below) "cp < fst (EMOJI_RANGES ! mid)"
      | (above) "\<not> cp < fst (EMOJI_RANGES ! mid)" "snd (EMOJI_RANGES ! mid) < cp"
      | (hit) "in_range cp (EMOJI_RANGES ! mid)"
      unfolding in_range_def by linarith
    then show ?thesis
    proof cases
      case below
      have "\<not> in_range cp (EMOJI_RANGES ! i)" if "mid \<le> i" "i < hi" for i
        using below that EMOJI_RANGES_nth_less [of mid i] EMOJI_RANGES_nth_proper [of mid] "1.prems"
        by (cases "mid = i") (auto simp: in_range_def)
      moreover have "emoji_search cp lo hi = emoji_search cp lo mid"
        using below True by (simp add: emoji_search.simps [of cp lo hi] Let_def flip: mid_def)
      moreover have "emoji_search cp lo mid \<longleftrightarrow> (\<exists>i\<ge>lo. i < mid \<and> in_range cp (EMOJI_RANGES ! i))"
        using "1.IH"(1) [OF True mid_def below] mid "1.prems" by simp
      ultimately show ?thesis using mid by (meson less_trans not_le)
    next
      case above
      have "\<not> in_range cp (EMOJI_RANGES ! i)" if "lo \<le> i" "i < mid + 1" for i
        using above that EMOJI_RANGES_nth_less [of i mid] EMOJI_RANGES_nth_proper [of mid] mid "1.prems"
        by (cases "mid = i") (auto simp: in_range_def)
      moreover have "emoji_search cp lo hi = emoji_search cp (mid + 1) hi"
        using above True by (simp add: emoji_search.simps [of cp lo hi] Let_def flip: mid_def)
      moreover have "emoji_search cp (mid + 1) hi \<longleftrightarrow> (\<exists>i\<ge>mid + 1. i < hi \<and> in_range cp (EMOJI_RANGES ! i))"
        using "1.IH"(2) [OF True mid_def above] mid "1.prems" by simp
      ultimately show ?thesis using mid by (meson le_trans le_add1 not_le)
    next
      case hit
      with True mid show ?thesis
        by (subst emoji_search.simps) (auto simp: Let_def in_range_def simp flip: mid_def)
    qed
  qed
qed

lemma emoji_is_iff: "emoji_is cp \<longleftrightarrow> (\<exists>r \<in> set EMOJI_RANGES. in_range cp r)"
  by (simp add: emoji_is_def emoji_search_iff) (metis in_set_conv_nth)

lemma emoji_not_ascii: "cp < 0xA9 \<Longrightarrow> \<not> emoji_is cp"
proof -
  assume cp: "cp < 0xA9"
  have first: "0 < length EMOJI_RANGES" "fst (EMOJI_RANGES ! 0) = 0xA9" by (simp_all add: EMOJI_RANGES_def)
  have "0xA9 \<le> fst r" if r: "r \<in> set EMOJI_RANGES" for r
  proof -
    obtain i where i: "i < length EMOJI_RANGES" "EMOJI_RANGES ! i = r" using r by (metis in_set_conv_nth)
    show ?thesis
      using i first EMOJI_RANGES_nth_less [of 0 i] EMOJI_RANGES_nth_proper [of 0] by (cases i) (auto intro: order_trans)
  qed
  then show ?thesis using cp by (force simp: emoji_is_iff in_range_def)
qed

end
