(* ===== verification/Splitter.thy ===== *)
theory Splitter
  imports Prelude Emoji
begin

text \<open>
  \<open>src/sentence-split.h\<close>: the stream of the model's text becomes synthesis units. A loop over
  positions \<open>i\<close> of a text is a recursion over the rest of it, \<open>text[i..]\<close>. Log lines are left out.
\<close>

section \<open>Definitions\<close>

record SentenceUnit =
  unit_text :: string
  unit_end :: nat

record SentenceSplitter =
  pending :: string
  consumed :: nat

definition sentence_new :: SentenceSplitter where
  "sentence_new = \<lparr>pending = [], consumed = 0\<rparr>"

definition sentence_is_terminator :: "char \<Rightarrow> bool" where
  "sentence_is_terminator c \<longleftrightarrow> c = CHR ''.'' \<or> c = CHR ''!'' \<or> c = CHR ''?'' \<or> c = CHR '':'' \<or> c = CHR '';''"

text \<open>The continuation bytes of a sequence, shifted into the code point; \<^const>\<open>None\<close> on a byte
  that continues nothing.\<close>

fun decode_cont :: "32 word \<Rightarrow> string \<Rightarrow> 32 word option" where
  "decode_cont cp [] = Some cp"
| "decode_cont cp (c # cs) =
     (if uchar c AND 0xC0 \<noteq> 0x80 then None
      else decode_cont (push_bit 6 cp OR (uchar c AND 0x3F)) cs)"

text \<open>The length of the sequence a lead byte announces, 0 for a byte that leads nothing.\<close>

definition lead_len :: "32 word \<Rightarrow> nat" where
  "lead_len lead =
     (if lead < 0x80 then 1 else if drop_bit 5 lead = 0x06 then 2
      else if drop_bit 4 lead = 0x0E then 3 else if drop_bit 3 lead = 0x1E then 4 else 0)"

text \<open>The code point at the head of a text and its length in bytes. The code never asks at the end
  of the text; that row stands for it.\<close>

definition sentence_decode :: "string \<Rightarrow> nat \<times> nat" where
  "sentence_decode t =
     (case t of [] \<Rightarrow> (0xFFFD, 1)
      | c # cs \<Rightarrow>
          let lead = uchar c; n = lead_len lead in
          if n = 0 \<or> length t < n then (0xFFFD, 1)
          else
            let cp = (if n = 1 then lead else if n = 2 then lead AND 0x1F
                      else if n = 3 then lead AND 0x0F else lead AND 0x07)
            in (case decode_cont cp (take (n - 1) cs) of
                  None \<Rightarrow> (0xFFFD, 1)
                | Some cp' \<Rightarrow> (unat cp', n)))"

lemma lead_len_bound: "lead_len lead \<le> 4"
  by (simp add: lead_len_def)

lemma sentence_decode_len: "0 < snd (sentence_decode t)"
  by (auto simp: sentence_decode_def Let_def split: list.splits option.splits)

function sentence_utf16_len :: "string \<Rightarrow> nat" where
  "sentence_utf16_len t =
     (if t = [] then 0
      else (if 0x10000 \<le> fst (sentence_decode t) then 2 else 1)
           + sentence_utf16_len (drop (snd (sentence_decode t)) t))"
  by pat_completeness auto
termination
  by (relation "measure length") (auto simp: sentence_decode_len)

declare sentence_utf16_len.simps [simp del]

definition sentence_is_spoken :: "nat \<Rightarrow> bool" where
  "sentence_is_spoken cp =
     (if cp < 0x80 then (48 \<le> cp \<and> cp \<le> 57) \<or> (97 \<le> cp \<and> cp \<le> 122) \<or> (65 \<le> cp \<and> cp \<le> 90)
      else 0xC0 \<le> cp \<and> \<not> (0x2000 \<le> cp \<and> cp \<le> 0x2BFF) \<and> \<not> (0x3000 \<le> cp \<and> cp \<le> 0x303F))"

text \<open>The code points the cleaning drops and the ones it reads as a space.\<close>

definition clean_drops :: "nat \<Rightarrow> bool" where
  "clean_drops cp \<longleftrightarrow> cp = 42 \<or> cp = 95 \<or> cp = 96 \<or> cp = 35"

definition clean_blank :: "nat \<Rightarrow> bool" where
  "clean_blank cp \<longleftrightarrow> cp = 10 \<or> cp = 13 \<or> cp = 9 \<or> emoji_is cp"

function clean_loop :: "string \<Rightarrow> string \<Rightarrow> bool \<Rightarrow> string \<times> bool" where
  "clean_loop t out spoken =
     (if t = [] then (out, spoken)
      else
        let cp = fst (sentence_decode t); len = snd (sentence_decode t); rest = drop len t in
        if clean_drops cp then clean_loop rest out spoken
        else if clean_blank cp then
          clean_loop rest (if out \<noteq> [] \<and> last out \<noteq> SPC then out @ [SPC] else out) spoken
        else if cp = 32 \<and> out \<noteq> [] \<and> last out = SPC then clean_loop rest out spoken
        else clean_loop rest (out @ take len t) (spoken \<or> sentence_is_spoken cp))"
  by pat_completeness auto
termination
  by (relation "measure (\<lambda>(t, out, spoken). length t)") (auto simp: sentence_decode_len)

declare clean_loop.simps [simp del]

definition sentence_clean :: "string \<Rightarrow> string" where
  "sentence_clean text =
     (let (out, spoken) = clean_loop text [] False
      in if \<not> spoken then [] else pop_back_while (\<lambda>c. c = SPC) (dropWhile (\<lambda>c. c = SPC) out))"

text \<open>The next character confirms a terminator. At the end of the pending text there is none yet,
  so the decision waits for the following delta.\<close>

fun confirms :: "string \<Rightarrow> bool" where
  "confirms [] = False"
| "confirms (nx # _) = (nx = SPC \<or> nx = LF \<or> nx = DQUOTE \<or> nx = SQUOTE)"

text \<open>The scan of \<open>sentence_cut_point\<close>, at position \<open>i\<close> of the pending text.\<close>

fun cut_scan :: "nat \<Rightarrow> string \<Rightarrow> nat" where
  "cut_scan i [] = 0"
| "cut_scan i (c # cs) =
     (if c = LF then i + 1
      else if sentence_is_terminator c \<and> confirms cs then i + 1
      else cut_scan (i + 1) cs)"

definition sentence_cut_point :: "string \<Rightarrow> nat" where
  "sentence_cut_point p = cut_scan 0 p"

lemma cut_scan_bounds: "cut_scan i p = 0 \<or> i < cut_scan i p \<and> cut_scan i p \<le> i + length p"
  by (induction p arbitrary: i) (simp_all, force)

lemma sentence_cut_point_le: "sentence_cut_point p \<le> length p"
  using cut_scan_bounds [of 0 p] by (auto simp: sentence_cut_point_def)

lemma drop_cut_shorter: "0 < sentence_cut_point p \<Longrightarrow> length (drop (sentence_cut_point p) p) < length p"
  using sentence_cut_point_le [of p] by simp

text \<open>The loop of \<open>sentence_split_push\<close>: one cut per round, until the pending text holds no
  complete sentence.\<close>

function split_loop :: "string \<Rightarrow> nat \<Rightarrow> SentenceSplitter \<times> SentenceUnit list" where
  "split_loop p used =
     (let cut = sentence_cut_point p in
      if cut = 0 then (\<lparr>pending = p, consumed = used\<rparr>, [])
      else
        let written = take cut p; used' = used + sentence_utf16_len written;
            text = sentence_clean written;
            (s, units) = split_loop (drop cut p) used'
        in (s, (if text \<noteq> [] then [\<lparr>unit_text = text, unit_end = used'\<rparr>] else []) @ units))"
  by pat_completeness auto
termination
  by (relation "measure (\<lambda>(p, used). length p)") (use drop_cut_shorter in auto)

declare split_loop.simps [simp del]

definition sentence_split_push :: "SentenceSplitter \<Rightarrow> string \<Rightarrow> SentenceSplitter \<times> SentenceUnit list" where
  "sentence_split_push s delta = split_loop (pending s @ delta) (consumed s)"

definition sentence_split_flush :: "SentenceSplitter \<Rightarrow> SentenceSplitter \<times> SentenceUnit" where
  "sentence_split_flush s =
     (let used = consumed s + sentence_utf16_len (pending s)
      in (\<lparr>pending = [], consumed = used\<rparr>,
          \<lparr>unit_text = sentence_clean (pending s), unit_end = used\<rparr>))"

section \<open>Decoding\<close>

lemma uchar_less_iff: "uchar c < 0x80 \<longleftrightarrow> byte_of c < 128"
  by (simp add: word_less_nat_alt)

lemma sentence_decode_ascii: "byte_of c < 128 \<Longrightarrow> sentence_decode (c # cs) = (byte_of c, 1)"
  by (simp add: sentence_decode_def lead_len_def uchar_less_iff)

lemma decode_cont_Some_iff: "decode_cont cp cs \<noteq> None \<longleftrightarrow> list_all utf8_cont cs"
  by (induction cs arbitrary: cp) (auto simp: utf8_cont_def)

text \<open>A sequence longer than one byte is made of bytes past ASCII alone, and so is a byte that
  decodes to nothing.\<close>

lemma sentence_decode_high:
  assumes "128 \<le> byte_of c" "sentence_decode (c # cs) = (cp, n)"
  shows "list_all (\<lambda>b. 128 \<le> byte_of b) (take n (c # cs))"
proof -
  have cont: "list_all (\<lambda>b. 128 \<le> byte_of b) xs" if "list_all utf8_cont xs" for xs
    using that by (induction xs) (auto dest: utf8_cont_high)
  show ?thesis
    using assms cont decode_cont_Some_iff
    by (auto simp: sentence_decode_def Let_def take_Cons' split: if_splits option.splits
        dest!: decode_cont_Some_iff [THEN iffD1, OF not_None_eq [THEN iffD2], OF exI])
qed

lemma sentence_decode_le: "t \<noteq> [] \<Longrightarrow> snd (sentence_decode t) \<le> length t"
  by (auto simp: sentence_decode_def Let_def not_less Suc_le_eq split: list.splits option.splits)

text \<open>What follows a text that ends on an ASCII character never changes how it decodes.\<close>

lemma sentence_decode_append:
  assumes "a \<noteq> []" "byte_of (last a) < 128"
  shows "sentence_decode (a @ b) = sentence_decode a"
proof -
  obtain c cs where a: "a = c # cs" using assms(1) by (cases a) auto
  define n where "n = lead_len (uchar c)"
  show ?thesis
  proof (cases "n \<le> length a")
    case True
    then have "take (n - 1) (cs @ b) = take (n - 1) cs" using a by simp
    with True show ?thesis by (simp add: sentence_decode_def a Let_def flip: n_def)
  next
    case False
    have "cs \<noteq> []"
      using False assms(2) a by (auto simp: n_def lead_len_def uchar_less_iff)
    with assms(2) a have lst: "last cs \<in> set cs" "byte_of (last cs) < 128"
      by auto
    have "set cs \<subseteq> set (take (n - 1) (cs @ b))" using False a by auto
    with lst have "\<not> list_all utf8_cont (take (n - 1) (cs @ b))"
      using utf8_cont_high by (auto simp: list_all_iff) fastforce
    then have "decode_cont cp (take (n - 1) (cs @ b)) = None" for cp
      using decode_cont_Some_iff by blast
    with False a show ?thesis by (simp add: sentence_decode_def Let_def flip: n_def)
  qed
qed

lemma sentence_utf16_len_Nil [simp]: "sentence_utf16_len [] = 0"
  by (simp add: sentence_utf16_len.simps)

lemma sentence_utf16_len_append:
  "a = [] \<or> byte_of (last a) < 128 \<Longrightarrow>
   sentence_utf16_len (a @ b) = sentence_utf16_len a + sentence_utf16_len b"
proof (induction a rule: sentence_utf16_len.induct)
  case (1 a)
  show ?case
  proof (cases "a = []")
    case False
    then have dec: "sentence_decode (a @ b) = sentence_decode a"
      using "1.prems" by (simp add: sentence_decode_append)
    define n where "n = snd (sentence_decode a)"
    have n: "n \<le> length a" using False by (simp add: n_def sentence_decode_le)
    have "drop n a = [] \<or> byte_of (last (drop n a)) < 128"
      using "1.prems" False by (cases "n < length a") auto
    then have "sentence_utf16_len (drop n a @ b) = sentence_utf16_len (drop n a) + sentence_utf16_len b"
      using "1.IH" False by (simp add: n_def)
    with False dec n show ?thesis
      by (simp add: sentence_utf16_len.simps [of "a @ b"] sentence_utf16_len.simps [of a] flip: n_def)
  qed simp
qed

section \<open>Cuts\<close>

definition sentence_close :: "char \<Rightarrow> bool" where
  "sentence_close c \<longleftrightarrow> c = LF \<or> sentence_is_terminator c"

lemma sentence_close_ascii: "sentence_close c \<Longrightarrow> byte_of c < 128"
  by (auto simp: sentence_close_def sentence_is_terminator_def)

lemma cut_scan_append: "cut_scan i p \<noteq> 0 \<Longrightarrow> cut_scan i (p @ q) = cut_scan i p"
proof (induction p arbitrary: i)
  case (Cons c cs)
  then show ?case by (cases cs) (auto split: if_splits)
qed simp

lemma cut_scan_close: "cut_scan i p \<noteq> 0 \<Longrightarrow> sentence_close (p ! (cut_scan i p - Suc i))"
proof (induction p arbitrary: i)
  case (Cons c cs)
  have "i + 1 < cut_scan (i + 1) cs" if "cut_scan (i + 1) cs \<noteq> 0"
    using that cut_scan_bounds [of "i + 1" cs] by auto
  with Cons show ?case
    by (auto simp: sentence_close_def nth_Cons' Suc_diff_Suc split: if_splits)
qed simp

lemma sentence_cut_point_append:
  "sentence_cut_point p \<noteq> 0 \<Longrightarrow> sentence_cut_point (p @ q) = sentence_cut_point p"
  by (simp add: sentence_cut_point_def cut_scan_append)

lemma sentence_cut_close:
  assumes "sentence_cut_point p \<noteq> 0"
  shows "take (sentence_cut_point p) p \<noteq> [] \<and> sentence_close (last (take (sentence_cut_point p) p))"
proof -
  have "p \<noteq> []" using assms by (auto simp: sentence_cut_point_def)
  moreover have "last (take (sentence_cut_point p) p) = p ! (sentence_cut_point p - 1)"
    using assms sentence_cut_point_le [of p] \<open>p \<noteq> []\<close> by (simp add: last_conv_nth min_def)
  ultimately show ?thesis
    using assms cut_scan_close [of 0 p] by (simp add: sentence_cut_point_def)
qed

lemma split_loop_done [simp]: "sentence_cut_point p = 0 \<Longrightarrow> split_loop p used = (\<lparr>pending = p, consumed = used\<rparr>, [])"
  by (simp add: split_loop.simps [of p used])

lemma split_loop_step:
  "sentence_cut_point p \<noteq> 0 \<Longrightarrow>
   split_loop p used =
     (let w = take (sentence_cut_point p) p; used' = used + sentence_utf16_len w;
          r = split_loop (drop (sentence_cut_point p) p) used'
      in (fst r, (if sentence_clean w \<noteq> [] then [\<lparr>unit_text = sentence_clean w, unit_end = used'\<rparr>] else [])
                 @ snd r))"
  by (simp add: split_loop.simps [of p used] Let_def case_prod_beta)

lemma split_loop_append:
  "split_loop (p @ q) used =
     (let r = split_loop p used; r' = split_loop (pending (fst r) @ q) (consumed (fst r))
      in (fst r', snd r @ snd r'))"
proof (induction p used rule: split_loop.induct)
  case (1 p used)
  show ?case
  proof (cases "sentence_cut_point p = 0")
    case False
    have "sentence_cut_point p \<le> length p" by (rule sentence_cut_point_le)
    with False "1.IH" [OF refl False refl refl refl] show ?thesis
      by (simp add: split_loop_step sentence_cut_point_append Let_def)
  qed (simp add: Let_def)
qed

lemma split_loop_inv: "sentence_cut_point (pending (fst (split_loop p used))) = 0"
proof (induction p used rule: split_loop.induct)
  case (1 p used)
  then show ?case
    by (cases "sentence_cut_point p = 0") (simp_all add: split_loop_step Let_def)
qed

text \<open>The splitter is a consumer of a stream that arrives in pieces: a state that holds no complete
  sentence is what every push leaves.\<close>

definition splitter_ok :: "SentenceSplitter \<Rightarrow> bool" where
  "splitter_ok s \<longleftrightarrow> sentence_cut_point (pending s) = 0"

lemma splitter_ok_new [simp]: "splitter_ok sentence_new"
  by (simp add: splitter_ok_def sentence_new_def sentence_cut_point_def)

interpretation split: chunked sentence_split_push splitter_ok
proof
  show "splitter_ok s \<Longrightarrow> sentence_split_push s [] = (s, [])" for s
    by (simp add: sentence_split_push_def splitter_ok_def)
  show "splitter_ok s \<Longrightarrow> splitter_ok (fst (sentence_split_push s xs))" for s xs
    by (simp add: sentence_split_push_def splitter_ok_def split_loop_inv)
  show "splitter_ok s \<Longrightarrow> sentence_split_push s (xs @ ys) =
      (fst (sentence_split_push (fst (sentence_split_push s xs)) ys),
       snd (sentence_split_push s xs) @ snd (sentence_split_push (fst (sentence_split_push s xs)) ys))" for s xs ys
    using split_loop_append [of "pending s @ xs" ys "consumed s"]
    by (simp add: sentence_split_push_def Let_def)
qed

section \<open>What the units say of the text\<close>

text \<open>The units a list of written sentences gives: each one cleaned, with the UTF-16 length of
  everything written up to its end, a sentence with nothing to say left out.\<close>

fun units_of :: "nat \<Rightarrow> string list \<Rightarrow> SentenceUnit list" where
  "units_of used [] = []"
| "units_of used (w # ws) =
     (let used' = used + sentence_utf16_len w
      in (if sentence_clean w \<noteq> [] then [\<lparr>unit_text = sentence_clean w, unit_end = used'\<rparr>] else [])
         @ units_of used' ws)"

lemma split_loop_segments:
  "\<exists>ws. p = concat ws @ pending (fst (split_loop p used)) \<and> snd (split_loop p used) = units_of used ws
     \<and> consumed (fst (split_loop p used)) = used + sentence_utf16_len (concat ws)
     \<and> (\<forall>w \<in> set ws. w \<noteq> [] \<and> sentence_close (last w))"
proof (induction p used rule: split_loop.induct)
  case (1 p used)
  show ?case
  proof (cases "sentence_cut_point p = 0")
    case True
    then show ?thesis by (intro exI [of _ "[]"]) simp
  next
    case False
    define w where "w = take (sentence_cut_point p) p"
    define rest where "rest = drop (sentence_cut_point p) p"
    obtain ws where ws: "rest = concat ws @ pending (fst (split_loop rest (used + sentence_utf16_len w)))"
      "snd (split_loop rest (used + sentence_utf16_len w)) = units_of (used + sentence_utf16_len w) ws"
      "consumed (fst (split_loop rest (used + sentence_utf16_len w)))
         = used + sentence_utf16_len w + sentence_utf16_len (concat ws)"
      "\<forall>w \<in> set ws. w \<noteq> [] \<and> sentence_close (last w)"
      using "1.IH" [OF refl False refl refl refl] unfolding w_def rest_def by auto
    have close: "w \<noteq> []" "sentence_close (last w)"
      using sentence_cut_close [OF False] by (simp_all add: w_def)
    have p: "p = concat (w # ws) @ pending (fst (split_loop rest (used + sentence_utf16_len w)))"
      using ws(1) by (simp add: w_def rest_def)
    have len: "sentence_utf16_len (w @ concat ws) = sentence_utf16_len w + sentence_utf16_len (concat ws)"
      by (rule sentence_utf16_len_append) (use close sentence_close_ascii in blast)
    have step: "split_loop p used = (fst (split_loop rest (used + sentence_utf16_len w)),
        (if sentence_clean w \<noteq> []
         then [\<lparr>unit_text = sentence_clean w, unit_end = used + sentence_utf16_len w\<rparr>] else [])
        @ snd (split_loop rest (used + sentence_utf16_len w)))"
      using split_loop_step [OF False] by (simp add: Let_def flip: w_def rest_def)
    show ?thesis
      unfolding step using p ws(2-4) len close by (intro exI [of _ "w # ws"]) (simp add: Let_def)
  qed
qed

lemma concat_close:
  "\<forall>w \<in> set ws. w \<noteq> [] \<and> sentence_close (last w) \<Longrightarrow> concat ws = [] \<or> byte_of (last (concat ws)) < 128"
  by (induction ws rule: rev_induct) (auto simp: sentence_close_ascii)

lemma units_of_bounds:
  "u \<in> set (units_of used ws) \<Longrightarrow> used \<le> unit_end u \<and> unit_text u \<noteq> []"
  by (induction ws arbitrary: used) (fastforce simp: Let_def split: if_splits)+

lemma units_of_ends_sorted: "sorted (map unit_end (units_of used ws))"
  by (induction ws arbitrary: used) (auto simp: Let_def dest: units_of_bounds)

section \<open>What the cleaning keeps\<close>

text \<open>One step of the decoder takes an ASCII character or a run of bytes past ASCII.\<close>

lemma decode_chunk:
  assumes "t \<noteq> []" "sentence_decode t = (cp, n)"
  shows "(\<exists>c. take n t = [c] \<and> byte_of c = cp \<and> cp < 128)
    \<or> (take n t \<noteq> [] \<and> list_all (\<lambda>b. 128 \<le> byte_of b) (take n t))"
proof -
  obtain c cs where t: "t = c # cs" using assms(1) by (cases t) auto
  show ?thesis
  proof (cases "byte_of c < 128")
    case True
    with assms(2) show ?thesis by (auto simp: t sentence_decode_ascii)
  next
    case False
    with assms(2) have "list_all (\<lambda>b. 128 \<le> byte_of b) (take n t)"
      unfolding t by (intro sentence_decode_high) auto
    moreover have "0 < n" using sentence_decode_len [of t] assms(2) by simp
    ultimately show ?thesis by (simp add: t)
  qed
qed

text \<open>The bytes a cleaned text never holds: markdown markers, line breaks and tabs. Nor does it
  ever hold two spaces in a row.\<close>

definition eye_byte :: "char \<Rightarrow> bool" where
  "eye_byte c \<longleftrightarrow> clean_drops (byte_of c) \<or> byte_of c \<in> {9, 10, 13}"

definition tidy :: "string \<Rightarrow> bool" where
  "tidy out \<longleftrightarrow> list_all (\<lambda>c. \<not> eye_byte c) out \<and> successively (\<lambda>a b. a = SPC \<longrightarrow> b \<noteq> SPC) out"

lemma tidy_appendD: "tidy (xs @ ys) \<Longrightarrow> tidy xs \<and> tidy ys"
  by (auto simp: tidy_def successively_append_iff)

lemma tidy_append_space: "tidy out \<Longrightarrow> out = [] \<or> last out \<noteq> SPC \<Longrightarrow> tidy (out @ [SPC])"
  by (auto simp: tidy_def successively_append_iff eye_byte_def clean_drops_def)

lemma successively_no_space:
  "SPC \<notin> set xs \<Longrightarrow> successively (\<lambda>a b. a = SPC \<longrightarrow> b \<noteq> SPC) xs"
  by (induction xs rule: induct_list012) auto

lemma byte_of_SPC_iff: "c = SPC \<longleftrightarrow> byte_of c = 32"
proof
  assume "byte_of c = 32"
  then have "(of_char c :: nat) = of_char SPC" by simp
  then show "c = SPC" by (simp only: of_char_eq_iff)
qed simp

lemma tidy_append_chunk:
  assumes "tidy out" "t \<noteq> []" "sentence_decode t = (cp, n)" "\<not> clean_drops cp" "\<not> clean_blank cp"
    "\<not> (cp = 32 \<and> out \<noteq> [] \<and> last out = SPC)"
  shows "tidy (out @ take n t)"
  using decode_chunk [OF assms(2,3)]
proof
  assume "\<exists>c. take n t = [c] \<and> byte_of c = cp \<and> cp < 128"
  then obtain c where c: "take n t = [c]" "byte_of c = cp" by blast
  have "c = SPC \<longleftrightarrow> cp = 32" using c(2) byte_of_SPC_iff by blast
  moreover have "\<not> eye_byte c" using c assms(4,5) by (auto simp: eye_byte_def clean_blank_def)
  ultimately show ?thesis
    using assms(1,6) unfolding c(1) by (auto simp: tidy_def successively_append_iff)
next
  assume a: "take n t \<noteq> [] \<and> list_all (\<lambda>b. 128 \<le> byte_of b) (take n t)"
  define ch where "ch = take n t"
  from a have "ch \<noteq> []" "list_all (\<lambda>c. \<not> eye_byte c) ch" "SPC \<notin> set ch"
    by (auto simp: ch_def list_all_iff eye_byte_def clean_drops_def)
  moreover from this have "hd ch \<noteq> SPC" by (metis hd_in_set)
  ultimately show ?thesis
    using assms(1) successively_no_space [of ch]
    by (auto simp: tidy_def successively_append_iff simp flip: ch_def)
qed

lemma clean_loop_tidy: "tidy out \<Longrightarrow> tidy (fst (clean_loop t out spoken))"
proof (induction t out spoken rule: clean_loop.induct)
  case (1 t out spoken)
  show ?case
  proof (cases "t = []")
    case False
    note IH = "1.IH" [OF False refl refl refl]
    show ?thesis
      using IH "1.prems" tidy_append_space [of out]
        tidy_append_chunk [OF "1.prems" False prod.collapse [symmetric]]
      by (simp add: clean_loop.simps [of t out spoken] Let_def False)
  qed (simp add: clean_loop.simps "1.prems")
qed

lemma clean_shape:
  assumes "sentence_clean t = u" "u \<noteq> []"
  shows "tidy u \<and> hd u \<noteq> SPC \<and> last u \<noteq> SPC"
proof -
  define out where "out = fst (clean_loop t [] False)"
  define v where "v = dropWhile (\<lambda>c. c = SPC) out"
  have u: "u = pop_back_while (\<lambda>c. c = SPC) v"
    using assms by (simp add: sentence_clean_def case_prod_beta Let_def out_def v_def split: if_splits)
  have "tidy out" unfolding out_def by (rule clean_loop_tidy) (simp add: tidy_def)
  then have "tidy v"
    unfolding v_def by (metis tidy_appendD takeWhile_dropWhile_id)
  obtain w where w: "v = u @ w" using pop_back_while_prefix u unfolding prefix_def by blast
  with \<open>tidy v\<close> have "tidy u" by (metis tidy_appendD)
  moreover have "hd u = hd v" using w assms(2) by simp
  moreover have "v \<noteq> []" using w assms(2) by simp
  then have "hd v \<noteq> SPC" unfolding v_def by (metis (full_types) hd_dropWhile)
  moreover have "last u \<noteq> SPC" using u assms(2) pop_back_while_last by blast
  ultimately show ?thesis by simp
qed

text \<open>The code points of a text as the decoder reads them.\<close>

function code_points :: "string \<Rightarrow> nat list" where
  "code_points t =
     (if t = [] then [] else fst (sentence_decode t) # code_points (drop (snd (sentence_decode t)) t))"
  by pat_completeness auto
termination
  by (relation "measure length") (auto simp: sentence_decode_len)

declare code_points.simps [simp del]

lemma spoken_kept: "sentence_is_spoken cp \<Longrightarrow> \<not> emoji_is cp \<Longrightarrow> \<not> clean_drops cp \<and> \<not> clean_blank cp \<and> cp \<noteq> 32"
  by (auto simp: sentence_is_spoken_def clean_drops_def clean_blank_def split: if_splits)

definition says_something :: "string \<Rightarrow> bool" where
  "says_something t \<longleftrightarrow> list_ex (\<lambda>cp. sentence_is_spoken cp \<and> \<not> emoji_is cp) (code_points t)"

lemma clean_loop_spoken:
  "snd (clean_loop t out spoken) \<longleftrightarrow> spoken \<or> says_something t"
proof (induction t out spoken rule: clean_loop.induct)
  case (1 t out spoken)
  show ?case
  proof (cases "t = []")
    case False
    note IH = "1.IH" [OF False refl refl refl]
    have cps: "says_something t \<longleftrightarrow> (sentence_is_spoken (fst (sentence_decode t)) \<and> \<not> emoji_is (fst (sentence_decode t)))
        \<or> says_something (drop (snd (sentence_decode t)) t)"
      using False by (simp add: says_something_def code_points.simps [of t])
    have blank: "\<not> emoji_is (fst (sentence_decode t))" if "\<not> clean_blank (fst (sentence_decode t))"
      using that by (simp add: clean_blank_def)
    show ?thesis
      using IH spoken_kept [of "fst (sentence_decode t)"] blank
      by (auto simp: clean_loop.simps [of t out spoken] Let_def False cps)
  qed (simp add: clean_loop.simps says_something_def code_points.simps)
qed

text \<open>A spoken code point is never a space, so what is left after trimming is not empty.\<close>

definition visible :: "string \<Rightarrow> bool" where
  "visible out \<longleftrightarrow> list_ex (\<lambda>c. c \<noteq> SPC) out"

lemma spoken_chunk_visible:
  assumes "t \<noteq> []" "sentence_is_spoken (fst (sentence_decode t))"
  shows "visible (take (snd (sentence_decode t)) t)"
proof -
  have "fst (sentence_decode t) \<noteq> 32" using assms(2) by (auto simp: sentence_is_spoken_def)
  with decode_chunk [OF assms(1) prod.collapse [symmetric]] show ?thesis
    using byte_of_SPC_iff
    by (fastforce simp: visible_def list_ex_iff list_all_iff neq_Nil_conv)
qed

lemma clean_loop_visible:
  "(spoken \<longrightarrow> visible out) \<Longrightarrow> snd (clean_loop t out spoken) \<Longrightarrow> visible (fst (clean_loop t out spoken))"
proof (induction t out spoken rule: clean_loop.induct)
  case (1 t out spoken)
  show ?case
  proof (cases "t = []")
    case True
    with "1.prems" show ?thesis by (simp add: clean_loop.simps)
  next
    case False
    note IH = "1.IH" [OF False refl refl refl]
    have grow: "visible (out @ xs) \<longleftrightarrow> visible out \<or> visible xs" for xs
      by (simp add: visible_def)
    show ?thesis
      using IH "1.prems" spoken_chunk_visible [OF False]
      by (auto simp: clean_loop.simps [of t out spoken] Let_def False grow split: if_splits)
  qed
qed

lemma sentence_clean_empty_iff: "sentence_clean t = [] \<longleftrightarrow> \<not> says_something t"
proof (cases "says_something t")
  case False
  then show ?thesis using clean_loop_spoken [of t "[]" False]
    by (simp add: sentence_clean_def case_prod_beta)
next
  case True
  then have sp: "snd (clean_loop t [] False)" using clean_loop_spoken [of t "[]" False] by simp
  define out where "out = fst (clean_loop t [] False)"
  have "visible out" using clean_loop_visible [OF _ sp] by (simp add: out_def)
  then obtain c where c: "c \<in> set out" "c \<noteq> SPC" by (auto simp: visible_def list_ex_iff)
  then have "c \<in> set (dropWhile (\<lambda>c. c = SPC) out)"
    using set_takeWhileD [of c "\<lambda>c. c = SPC" out] by (metis (full_types) Un_iff set_append takeWhile_dropWhile_id)
  with c(2) have "pop_back_while (\<lambda>c. c = SPC) (dropWhile (\<lambda>c. c = SPC) out) \<noteq> []"
    by (simp add: pop_back_while_eq_Nil list_all_iff) blast
  with sp True show ?thesis
    by (simp add: sentence_clean_def case_prod_beta Let_def flip: out_def)
qed

lemma units_of_le:
  "list_all (\<lambda>w. w \<noteq> [] \<and> sentence_close (last w)) ws \<Longrightarrow> u \<in> set (units_of used ws) \<Longrightarrow>
   unit_end u \<le> used + sentence_utf16_len (concat ws)"
proof (induction ws arbitrary: used)
  case (Cons w ws)
  have "sentence_utf16_len (w @ concat ws) = sentence_utf16_len w + sentence_utf16_len (concat ws)"
    by (rule sentence_utf16_len_append) (use Cons.prems sentence_close_ascii in auto)
  with Cons.IH [of "used + sentence_utf16_len w"] Cons.prems show ?case
    by (auto simp: Let_def split: if_splits)
qed simp

section \<open>Properties\<close>

text \<open>C28: The splitter does not depend on how the endpoint cut its stream: handing it the deltas
  one by one gives the state and the units of the whole text handed over at once.\<close>

theorem split_cuts_invisible:
  "feed_all sentence_split_push sentence_new deltas = sentence_split_push sentence_new (concat deltas)"
  by (rule split.feed_all_concat) simp


text \<open>A unit is synthesized exactly when it holds something a voice can say: the cleaned text
  is empty if and only if no code point of the written text is a letter or digit outside the emoji.\<close>

theorem clean_empty_iff_nothing_to_say: "sentence_clean t = [] \<longleftrightarrow> \<not> says_something t"
  by (rule sentence_clean_empty_iff)

text \<open>What reaches the talker is tidy: no markdown marker, line break or tab, no two spaces in
  a row, and no space at either end.\<close>

theorem clean_text_tidy:
  "sentence_clean t = [] \<or>
   tidy (sentence_clean t) \<and> hd (sentence_clean t) \<noteq> SPC \<and> last (sentence_clean t) \<noteq> SPC"
  using clean_shape [OF refl] by blast

text \<open>The emoji table is searched exactly: a code point is an emoji if and only if it falls in
  one of the ranges of the table.\<close>

theorem emoji_search_exact: "emoji_is cp \<longleftrightarrow> list_ex (in_range cp) EMOJI_RANGES"
  by (simp add: emoji_is_iff list_ex_iff)

end
