(* ===== verification/Http.thy ===== *)
theory Http
  imports Settings
begin

text \<open>
  What the clients share: \<open>src/http-client.h\<close> and the messages of \<open>src/s2s-error.h\<close>. The requests
  themselves are the vendored httplib's: the network is a parameter, which says of each host whether
  a client can be made for it and answers every request. While a request runs, other threads move
  the shared state \<open>'w\<close>: an answer carries their moves, one before each chunk it delivers and one
  before it ends.
\<close>

section \<open>Diagnostics\<close>

text \<open>\<open>s2s_format_v\<close>: the buffer holds 1023 bytes and a terminator.\<close>

definition s2s_format :: "string \<Rightarrow> string" where
  "s2s_format text = take 1023 text"

text \<open>\<open>s2s_set_error\<close> with a tag and a \<open>%s\<close>.\<close>

definition s2s_error_text :: "string \<Rightarrow> string \<Rightarrow> string" where
  "s2s_error_text tag reason = s2s_format (tag @ [SPC] @ c_str reason)"

section \<open>URLs\<close>

definition http_split_url :: "string \<Rightarrow> (string \<times> string) option" where
  "http_split_url url =
     (case find_sub ''://'' url of
        None \<Rightarrow> None
      | Some scheme \<Rightarrow>
          (case find_from ''/'' url (scheme + 3) of
             None \<Rightarrow> Some (url, [])
           | Some slash \<Rightarrow> Some (take slash url, pop_back_while (\<lambda>c. c = CHR ''/'') (drop slash url))))"

section \<open>Requests\<close>

datatype http_method = GET | POST | DELETE

record http_request =
  rq_host :: string
  rq_method :: http_method
  rq_path :: string
  rq_headers :: "(string \<times> string) list"
  rq_body :: string
  rq_timeout :: int

record http_response =
  rs_status :: int
  rs_headers :: "(string \<times> string) list"
  rs_body :: string

text \<open>How a request ends: without a response, for a reason, or with one.\<close>

datatype http_end = No_Response string | Responded http_response

record 'w http_answer =
  an_chunks :: "(('w \<Rightarrow> 'w) \<times> string) list"
  an_after :: "'w \<Rightarrow> 'w"
  an_end :: http_end
  an_silent :: bool

record 'w network =
  net_open :: "string \<Rightarrow> bool"
  net_request :: "http_request \<Rightarrow> 'w \<Rightarrow> 'w http_answer"

text \<open>\<open>http_open\<close>: a client for the host, or the error it records.\<close>

definition http_open_error :: "string \<Rightarrow> string" where
  "http_open_error tag =
     s2s_format (tag @ '' The URL cannot be reached: bad port, unknown scheme, or https without TLS'')"

definition http_open :: "'w network \<Rightarrow> string \<Rightarrow> string \<Rightarrow> string + unit" where
  "http_open net host tag = (if net_open net host then Inr () else Inl (http_open_error tag))"

text \<open>A request whose body is read whole. The cancel watch closes the socket under it, which is one of
  the ways it ends without a response.\<close>

definition http_send :: "'w network \<Rightarrow> http_request \<Rightarrow> 'w \<Rightarrow> http_end \<times> 'w" where
  "http_send net request w = (let a = net_request net request w in (an_end a, an_after a w))"

definition status_ok :: "int \<Rightarrow> bool" where
  "status_ok status \<longleftrightarrow> \<not> (status < 200 \<or> 300 \<le> status)"

definition http_header :: "http_response \<Rightarrow> string \<Rightarrow> string option" where
  "http_header r key = map_of (map (\<lambda>(k, v). (map to_lower k, v)) (rs_headers r)) (map to_lower key)"

definition bearer :: "string \<Rightarrow> (string \<times> string) list" where
  "bearer api_key = (if api_key = [] then [] else [(''Authorization'', ''Bearer '' @ api_key)])"

section \<open>The parts of a URL\<close>

lemma pop_back_while_trims: "\<exists>s. xs = pop_back_while p xs @ s \<and> list_all p s"
proof (induction xs rule: rev_induct)
  case (snoc x xs)
  then obtain s where s: "xs = pop_back_while p xs @ s" "list_all p s" by blast
  show ?case
  proof (cases "p x")
    case True
    then have "xs @ [x] = pop_back_while p (xs @ [x]) @ (s @ [x])" "list_all p (s @ [x])" using s by simp_all
    then show ?thesis by blast
  qed simp
qed simp

text \<open>What a URL is split into: the host, which has a scheme and no slash after it, the path, which is
  empty or starts with a slash and does not end with one, and the slashes dropped.\<close>

definition splits_into :: "string \<Rightarrow> string \<Rightarrow> string \<Rightarrow> bool" where
  "splits_into url host path \<longleftrightarrow>
     (\<exists>slashes. url = host @ path @ slashes \<and> list_all (\<lambda>c. c = CHR ''/'') slashes) \<and>
     (\<exists>scheme rest. host = scheme @ ''://'' @ rest \<and> CHR ''/'' \<notin> set rest) \<and>
     (path = [] \<or> hd path = CHR ''/'' \<and> last path \<noteq> CHR ''/'')"

lemma http_split_Some:
  assumes "http_split_url url = Some (host, path)"
  shows "splits_into url host path"
proof -
  obtain scheme where scheme: "find_sub ''://'' url = Some scheme"
    using assms by (auto simp: http_split_url_def split: option.splits)
  then have at_scheme: "prefix ''://'' (drop scheme url)" "scheme + 3 \<le> length url"
    using find_sub_Some by fastforce+
  then have url: "url = take scheme url @ ''://'' @ drop (scheme + 3) url"
    by (metis (no_types, lifting) add.commute append_take_drop_id drop_drop length_Cons list.size(3)
        numeral_3_eq_3 prefix_def append_eq_conv_conj)
  show ?thesis
  proof (cases "find_from ''/'' url (scheme + 3)")
    case None
    then have "CHR ''/'' \<notin> set (drop (scheme + 3) url)"
      using at_scheme by (simp add: find_from_def find_char_None)
    moreover have "host = url" "path = []" using assms scheme None by (simp_all add: http_split_url_def)
    ultimately show ?thesis unfolding splits_into_def using url by auto
  next
    case (Some slash)
    then obtain i where i: "find_sub ''/'' (drop (scheme + 3) url) = Some i" "slash = scheme + 3 + i"
      using at_scheme by (auto simp: find_from_def)
    have hp: "host = take slash url" "path = pop_back_while (\<lambda>c. c = CHR ''/'') (drop slash url)"
      using assms scheme Some by (simp_all add: http_split_url_def)
    define p where "p = take scheme url"
    define q where "q = take i (drop (scheme + 3) url)"
    have len: "i < length (drop (scheme + 3) url)" "drop (scheme + 3) url ! i = CHR ''/''" and q: "CHR ''/'' \<notin> set q"
      using find_char_Some [OF i(1)] by (simp_all add: q_def)
    have "url = p @ ''://'' @ q @ CHR ''/'' # drop (Suc i) (drop (scheme + 3) url)"
      using url id_take_nth_drop [OF len(1)] unfolding len(2) q_def p_def by metis
    moreover have "length p + (3 + length q) = slash"
      using at_scheme(2) i(2) len(1) by (simp add: p_def q_def)
    ultimately obtain b where b: "url = p @ ''://'' @ q @ CHR ''/'' # b" "length (p @ ''://'' @ q) = slash" by auto
    then have parts: "take slash url = p @ ''://'' @ q" "drop slash url = CHR ''/'' # b"
      by (metis append.assoc append_eq_conv_conj)+
    obtain s where s: "CHR ''/'' # b = path @ s" "list_all (\<lambda>c. c = CHR ''/'') s"
      using pop_back_while_trims hp(2) unfolding parts by metis
    have "hd path = CHR ''/'' \<and> last path \<noteq> CHR ''/''" if "path \<noteq> []"
    proof
      show "hd path = CHR ''/''" using s(1) that by (cases path) auto
      show "last path \<noteq> CHR ''/''" using that pop_back_while_last unfolding hp(2) by blast
    qed
    moreover have "url = host @ path @ s" using b(1) s(1) hp(1) parts(1) by simp
    moreover have "host = p @ ''://'' @ q" using hp(1) parts(1) by simp
    ultimately show ?thesis unfolding splits_into_def using q s(2) by blast
  qed
qed

text \<open>A URL is refused exactly when it has no scheme. Any other is split without loss into the part a
  connection is opened to, scheme included, which holds no slash after the scheme, and the path of
  the requests, which is empty or opens with a slash; only the slashes a path ends with are dropped.\<close>

theorem url_split_exact:
  "(case http_split_url url of None \<Rightarrow> \<not> sublist ''://'' url | Some (host, path) \<Rightarrow> splits_into url host path)"
proof (cases "http_split_url url")
  case None
  then have "find_sub ''://'' url = None" by (auto simp: http_split_url_def split: option.splits)
  then show ?thesis using None by (simp only: find_sub_None_iff) simp
next
  case (Some hp)
  then show ?thesis using http_split_Some by (cases hp) auto
qed

end
