(* ===== verification/Llm_Client.thy ===== *)
theory Llm_Client
  imports Http
begin

text \<open>
  \<open>src/llm-client.h\<close> and \<open>src/llm-client.cpp\<close>: chat completions over server sent events, the model list,
  the tool routes. The answer of an endpoint is a parameter (\<open>Http\<close>); the receiver is translated line
  by line. A delta callback takes the shared state and says whether to go on.
\<close>

section \<open>Data\<close>

definition LLM_REASON_MAX :: nat where "LLM_REASON_MAX = 200"
definition LLM_TOOL_CALLS_MAX :: int where "LLM_TOOL_CALLS_MAX = 64"

record llm_client =
  lc_params :: llm_client_params
  lc_host :: string
  lc_path :: string
  lc_http :: bool
  lc_tool_calls :: string

definition llm_client_blank :: llm_client where
  "llm_client_blank =
     \<lparr>lc_params = llm_client_params_default, lc_host = [], lc_path = [], lc_http = False, lc_tool_calls = []\<rparr>"

record LlmToolFragment =
  fr_index :: int
  fr_id :: string
  fr_name :: string
  fr_arguments :: string

record LlmFrame =
  fm_delta :: string
  fm_reasoning :: nat
  fm_tools :: "LlmToolFragment list"
  fm_finish :: string
  fm_failed :: bool

record LlmToolCall =
  lt_id :: string
  lt_name :: string
  lt_arguments :: string

type_synonym 'w llm_delta_cb = "string \<Rightarrow> 'w \<Rightarrow> bool \<times> 'w"

section \<open>Settings\<close>

definition llm_client_set_params :: "'w network \<Rightarrow> llm_client \<Rightarrow> llm_client_params \<Rightarrow> string + llm_client" where
  "llm_client_set_params net c params =
     (case http_split_url (lp_base_url params) of
        None \<Rightarrow> Inl (s2s_format ''[LLM] The endpoint URL has no scheme'')
      | Some (host, path) \<Rightarrow>
          (case (if \<not> lc_http c \<or> host \<noteq> lc_host c then http_open net host ''[LLM]'' else Inr ()) of
             Inl err \<Rightarrow> Inl err
           | Inr _ \<Rightarrow> Inr (c\<lparr>lc_http := True, lc_params := params, lc_host := host, lc_path := path\<rparr>)))"

definition llm_client_new :: "'w network \<Rightarrow> llm_client_params \<Rightarrow> string + llm_client" where
  "llm_client_new net params = llm_client_set_params net llm_client_blank params"

section \<open>Requests\<close>

definition opt_field :: "bool \<Rightarrow> string \<Rightarrow> json \<Rightarrow> (string \<times> json) list" where
  "opt_field present key v = (if present then [(key, v)] else [])"

definition message_json :: "llm_message \<Rightarrow> json" where
  "message_json m =
     JObj ([(''role'', JStr (c_str (msg_role m))), (''content'', JStr (c_str (msg_content m)))]
       @ opt_field (msg_tool_calls m \<noteq> []) ''tool_calls'' (JRaw (c_str (msg_tool_calls m)))
       @ opt_field (msg_tool_call_id m \<noteq> []) ''tool_call_id'' (JStr (c_str (msg_tool_call_id m))))"

definition llm_client_body :: "json_writer \<Rightarrow> llm_client \<Rightarrow> llm_message list \<Rightarrow> string" where
  "llm_client_body wr c messages =
     (let p = lc_params c; s = lp_sampling p;
          fields =
            opt_field (lp_model p \<noteq> []) ''model'' (JStr (c_str (lp_model p)))
            @ [(''stream'', JBool True)]
            @ opt_field (0 \<le> ls_temperature s) ''temperature'' (JReal (ls_temperature s))
            @ opt_field (0 \<le> ls_top_p s) ''top_p'' (JReal (ls_top_p s))
            @ opt_field (0 \<le> ls_top_k s) ''top_k'' (JInt (ls_top_k s))
            @ opt_field (0 \<le> ls_min_p s) ''min_p'' (JReal (ls_min_p s))
            @ opt_field (0 < ls_max_tokens s) ''max_tokens'' (JInt (ls_max_tokens s))
            @ opt_field (- 3 < ls_presence_penalty s) ''presence_penalty'' (JReal (ls_presence_penalty s))
            @ opt_field (- 3 < ls_frequency_penalty s) ''frequency_penalty'' (JReal (ls_frequency_penalty s))
            @ opt_field (0 \<le> ls_seed s) ''seed'' (JInt (ls_seed s))
            @ opt_field (ls_reasoning_effort s \<noteq> []) ''reasoning_effort'' (JStr (c_str (ls_reasoning_effort s)))
            @ opt_field (lp_tools p \<noteq> []) ''tools'' (JRaw (c_str (lp_tools p)))
            @ [(''messages'', JArr (map message_json messages))]
      in case wr (JObj fields) of Some json \<Rightarrow> json | None \<Rightarrow> [])"

text \<open>The reason an endpoint gives: the message of its error, or the first line of the body.\<close>

definition error_message :: "json option \<Rightarrow> string" where
  "error_message top_val =
     (let error = yyjson_obj_get top_val ''error''
      in json_text (if yyjson_is_obj error then yyjson_obj_get error ''message'' else error))"

definition llm_client_reason :: "json_reader \<Rightarrow> string \<Rightarrow> string" where
  "llm_client_reason rd body =
     (let reason = (case rd body of None \<Rightarrow> [] | Some top_val \<Rightarrow> error_message (Some top_val));
          reason = (if reason = [] then takeWhile (\<lambda>c. c \<noteq> LF) body else reason)
      in if LLM_REASON_MAX < length reason then take LLM_REASON_MAX reason else reason)"

section \<open>One data frame\<close>

definition frame_fragment :: "nat \<Rightarrow> json \<Rightarrow> LlmToolFragment" where
  "frame_fragment index call =
     (let at_val = yyjson_obj_get (Some call) ''index''; function_val = yyjson_obj_get (Some call) ''function''
      in \<lparr>fr_index = (if yyjson_is_int at_val then sint (word_of_int (yyjson_get_sint at_val) :: 32 word) else int index),
          fr_id = json_text (yyjson_obj_get (Some call) ''id''),
          fr_name = json_text (yyjson_obj_get function_val ''name''),
          fr_arguments = json_text (yyjson_obj_get function_val ''arguments'')\<rparr>)"

definition llm_client_frame :: "json_reader \<Rightarrow> string \<Rightarrow> LlmFrame" where
  "llm_client_frame rd json =
     (case rd json of
        None \<Rightarrow> \<lparr>fm_delta = [], fm_reasoning = 0, fm_tools = [], fm_finish = [], fm_failed = False\<rparr>
      | Some top_val \<Rightarrow>
          let choice = yyjson_arr_get_first (yyjson_obj_get (Some top_val) ''choices'');
              message = yyjson_obj_get choice ''delta'';
              calls = arr_items (yyjson_obj_get message ''tool_calls'')
          in \<lparr>fm_delta = json_text (yyjson_obj_get message ''content''),
              fm_reasoning = length (json_text (yyjson_obj_get message ''reasoning_content''))
                + length (json_text (yyjson_obj_get message ''reasoning'')),
              fm_tools = map (\<lambda>(i, call). frame_fragment i call) (enumerate 0 calls),
              fm_finish = json_text (yyjson_obj_get choice ''finish_reason''),
              fm_failed = (yyjson_obj_get (Some top_val) ''error'' \<noteq> None)\<rparr>)"

section \<open>The calls of an answer\<close>

definition add_fragment :: "LlmToolCall list \<Rightarrow> LlmToolFragment \<Rightarrow> LlmToolCall list" where
  "add_fragment calls f =
     (if fr_index f < 0 \<or> LLM_TOOL_CALLS_MAX \<le> fr_index f then calls
      else
        let i = nat (fr_index f);
            calls = (if length calls \<le> i
                     then calls @ replicate (i + 1 - length calls) \<lparr>lt_id = [], lt_name = [], lt_arguments = []\<rparr>
                     else calls);
            call = calls ! i
        in calls[i := call\<lparr>lt_id := lt_id call @ fr_id f, lt_name := lt_name call @ fr_name f,
                           lt_arguments := lt_arguments call @ fr_arguments f\<rparr>])"

definition call_json :: "LlmToolCall \<Rightarrow> json" where
  "call_json call =
     JObj [(''id'', JStr (c_str (lt_id call))), (''type'', JStr ''function''),
           (''function'', JObj [(''name'', JStr (c_str (lt_name call))),
                                (''arguments'', JStr (c_str (lt_arguments call)))])]"

definition llm_client_calls_json :: "json_writer \<Rightarrow> LlmToolCall list \<Rightarrow> string" where
  "llm_client_calls_json wr calls =
     (let items = map call_json (filter (\<lambda>call. lt_name call \<noteq> []) calls)
      in if items = [] then [] else case wr (JArr items) of Some json \<Rightarrow> json | None \<Rightarrow> [])"

section \<open>The receiver\<close>

text \<open>The locals of \<open>llm_client_stream\<close> its receiver writes.\<close>

record llm_recv =
  rv_body :: string
  rv_pending :: string
  rv_failure :: string
  rv_cancelled :: bool
  rv_done :: bool
  rv_finish :: string
  rv_reasoning :: nat
  rv_calls :: "LlmToolCall list"
  rv_text :: string

definition llm_recv_new :: llm_recv where
  "llm_recv_new =
     \<lparr>rv_body = [], rv_pending = [], rv_failure = [], rv_cancelled = False, rv_done = False, rv_finish = [],
      rv_reasoning = 0, rv_calls = [], rv_text = []\<rparr>"

definition absorb_frame :: "LlmFrame \<Rightarrow> llm_recv \<Rightarrow> llm_recv" where
  "absorb_frame f r =
     r\<lparr>rv_finish := (if fm_finish f \<noteq> [] then fm_finish f else rv_finish r),
       rv_reasoning := rv_reasoning r + fm_reasoning f,
       rv_calls := foldl add_fragment (rv_calls r) (fm_tools f)\<rparr>"

text \<open>One complete line. \<^const>\<open>None\<close> continues the loop, \<open>Some b\<close> returns \<open>b\<close> from the receiver.\<close>

definition recv_line ::
  "json_reader \<Rightarrow> 'w llm_delta_cb \<Rightarrow> string \<Rightarrow> llm_recv \<Rightarrow> 'w \<Rightarrow> bool option \<times> llm_recv \<times> 'w" where
  "recv_line rd cb raw r w =
     (let line = pop_back_while (\<lambda>c. c = CR \<or> c = SPC) raw in
      if take 5 line \<noteq> ''data:'' then (None, r, w)
      else
        let payload = dropWhile (\<lambda>c. c = SPC) (drop 5 line) in
        if payload = ''[DONE]'' then (Some True, r\<lparr>rv_done := True\<rparr>, w)
        else
          let frame = llm_client_frame rd payload in
          if fm_failed frame then (Some False, r\<lparr>rv_failure := llm_client_reason rd payload\<rparr>, w)
          else
            let r = absorb_frame frame r in
            if fm_delta frame = [] then (None, r, w)
            else
              let r = r\<lparr>rv_text := rv_text r @ fm_delta frame\<rparr>;
                  (go, w) = cb (c_str (fm_delta frame)) w
              in if go then (None, r, w) else (Some False, r\<lparr>rv_cancelled := True\<rparr>, w))"

function recv_loop ::
  "json_reader \<Rightarrow> 'w llm_delta_cb \<Rightarrow> string \<Rightarrow> llm_recv \<Rightarrow> 'w \<Rightarrow> bool \<times> llm_recv \<times> 'w" where
  "recv_loop rd cb pending r w =
     (case find_sub [LF] pending of
        None \<Rightarrow> (True, r\<lparr>rv_pending := pending\<rparr>, w)
      | Some newline \<Rightarrow>
          let (stop, r, w) = recv_line rd cb (take newline pending) r w; rest = drop (newline + 1) pending
          in (case stop of
                None \<Rightarrow> recv_loop rd cb rest r w
              | Some b \<Rightarrow> (b, r\<lparr>rv_pending := rest\<rparr>, w)))"
  by pat_completeness auto
termination
  by (relation "measure (\<lambda>(rd, cb, pending, r, w). length pending)") (auto dest: find_sub_Some)

declare recv_loop.simps [simp del]

definition receiver ::
  "json_reader \<Rightarrow> 'w llm_delta_cb \<Rightarrow> ('w \<Rightarrow> bool) \<Rightarrow> string \<Rightarrow> llm_recv \<Rightarrow> 'w \<Rightarrow> bool \<times> llm_recv \<times> 'w" where
  "receiver rd cb cancel data r w =
     (if rv_done r then (True, r, w)
      else if cancel w then (False, r\<lparr>rv_cancelled := True\<rparr>, w)
      else recv_loop rd cb (rv_pending r @ data) (r\<lparr>rv_body := rv_body r @ data\<rparr>) w)"

text \<open>What the network does with the receiver: a chunk at a time, until it returns false.\<close>

fun recv_stream ::
  "json_reader \<Rightarrow> 'w llm_delta_cb \<Rightarrow> ('w \<Rightarrow> bool) \<Rightarrow> (('w \<Rightarrow> 'w) \<times> string) list \<Rightarrow> llm_recv \<Rightarrow> 'w
     \<Rightarrow> bool \<times> llm_recv \<times> 'w" where
  "recv_stream rd cb cancel [] r w = (True, r, w)"
| "recv_stream rd cb cancel ((others, data) # chunks) r w =
     (let (go, r, w) = receiver rd cb cancel data r (others w)
      in if go then recv_stream rd cb cancel chunks r w else (False, r, w))"

section \<open>One completion\<close>

record llm_result =
  lr_error :: "string option"
  lr_client :: llm_client
  lr_text :: string

definition stream_request :: "json_writer \<Rightarrow> llm_client \<Rightarrow> llm_message list \<Rightarrow> http_request" where
  "stream_request wr c messages =
     \<lparr>rq_host = lc_host c, rq_method = POST, rq_path = lc_path c @ ''/chat/completions'',
      rq_headers = (''Accept'', ''text/event-stream'') # bearer (lp_api_key (lc_params c)),
      rq_body = llm_client_body wr c messages, rq_timeout = lp_timeout_sec (lc_params c)\<rparr>"

text \<open>What the request comes to, once the network is done with it.\<close>

definition stream_error ::
  "json_reader \<Rightarrow> int \<Rightarrow> llm_recv \<Rightarrow> bool \<Rightarrow> http_end \<Rightarrow> bool \<Rightarrow> string option" where
  "stream_error rd timeout r cancelled result silent =
     (if rv_failure r \<noteq> [] then Some (s2s_error_text ''[LLM]'' (rv_failure r))
      else if rv_cancelled r \<or> cancelled then Some (s2s_format ''[LLM] Cancelled'')
      else if rv_done r then None
      else case result of
          No_Response reason \<Rightarrow>
            Some (if silent then s2s_format (''[LLM] The endpoint stayed silent past '' @ int_str timeout @ '' s'')
                  else s2s_error_text ''[LLM]'' reason)
        | Responded response \<Rightarrow>
            if rs_status response < 200 \<or> 300 \<le> rs_status response then
              Some (s2s_format (''[LLM] HTTP '' @ int_str (rs_status response) @ '', '' @
                c_str (llm_client_reason rd (rv_body r))))
            else if rv_finish r = [] then Some (s2s_format ''[LLM] The stream ended before the answer did'')
            else None)"

definition llm_client_stream ::
  "json_reader \<Rightarrow> json_writer \<Rightarrow> 'w network \<Rightarrow> llm_client \<Rightarrow> llm_message list \<Rightarrow> 'w llm_delta_cb
     \<Rightarrow> ('w \<Rightarrow> bool) \<Rightarrow> string \<Rightarrow> 'w \<Rightarrow> llm_result \<times> 'w" where
  "llm_client_stream rd wr net c messages cb cancel text w =
     (if messages = [] then
        (\<lparr>lr_error = Some (s2s_format ''[LLM] Client is NULL or the conversation is empty''),
          lr_client = c, lr_text = text\<rparr>, w)
      else
        let answer = net_request net (stream_request wr c messages) w;
            (whole, r, w) = recv_stream rd cb cancel (an_chunks answer) llm_recv_new w;
            w = an_after answer w;
            result = (if whole then an_end answer else No_Response ''Canceled'');
            err = stream_error rd (lp_timeout_sec (lc_params c)) r (cancel w) result (an_silent answer)
        in (\<lparr>lr_error = err,
             lr_client = c\<lparr>lc_tool_calls := (if err = None then llm_client_calls_json wr (rv_calls r) else [])\<rparr>,
             lr_text = rv_text r\<rparr>, w))"

section \<open>The model list and the tool routes\<close>

definition json_field_texts :: "json list \<Rightarrow> string \<Rightarrow> string list" where
  "json_field_texts items key =
     List.map_filter (\<lambda>item. case yyjson_obj_get (Some item) key of Some (JStr s) \<Rightarrow> Some s | _ \<Rightarrow> None) items"

text \<open>A GET of a JSON document, with the failures the two listings share.\<close>

definition llm_get ::
  "json_reader \<Rightarrow> 'w network \<Rightarrow> llm_client_params \<Rightarrow> (string \<Rightarrow> string) \<Rightarrow> string \<Rightarrow> 'w \<Rightarrow> (string + json) \<times> 'w" where
  "llm_get rd net params route not_json w =
     (case http_split_url (lp_base_url params) of
        None \<Rightarrow> (Inl (s2s_format ''[LLM] The endpoint URL has no scheme''), w)
      | Some (host, path) \<Rightarrow>
          (case http_open net host ''[LLM]'' of
             Inl err \<Rightarrow> (Inl err, w)
           | Inr _ \<Rightarrow>
               let (result, w) = http_send net
                     \<lparr>rq_host = host, rq_method = GET, rq_path = route path,
                      rq_headers = bearer (lp_api_key params), rq_body = [], rq_timeout = lp_timeout_sec params\<rparr> w
               in (case result of
                     No_Response reason \<Rightarrow> (Inl (s2s_error_text ''[LLM]'' reason), w)
                   | Responded response \<Rightarrow>
                       if rs_status response < 200 \<or> 300 \<le> rs_status response then
                         (Inl (s2s_format (''[LLM] HTTP '' @ int_str (rs_status response) @ '', '' @
                           c_str (llm_client_reason rd (rs_body response)))), w)
                       else (case rd (rs_body response) of
                           None \<Rightarrow> (Inl (s2s_format not_json), w)
                         | Some top_val \<Rightarrow> (Inr top_val, w)))))"

definition llm_client_models ::
  "json_reader \<Rightarrow> 'w network \<Rightarrow> llm_client_params \<Rightarrow> 'w \<Rightarrow> (string + string list) \<times> 'w" where
  "llm_client_models rd net params w =
     (let (got, w) = llm_get rd net params (\<lambda>path. path @ ''/models'') ''[LLM] Model list is not JSON'' w
      in (case got of
            Inl err \<Rightarrow> Inl err
          | Inr top_val \<Rightarrow>
              Inr (json_field_texts (arr_items (yyjson_obj_get (Some top_val) ''data'')) ''id''), w))"

definition llm_client_root :: "string \<Rightarrow> string" where
  "llm_client_root path =
     (if length ''/v1'' \<le> length path \<and> drop (length path - length ''/v1'') path = ''/v1''
      then take (length path - length ''/v1'') path else path)"

definition listed_tool :: "json_writer \<Rightarrow> json \<Rightarrow> llm_tool option" where
  "listed_tool wr item =
     (case (yyjson_obj_get (Some item) ''tool'', yyjson_obj_get (Some item) ''definition'') of
        (Some (JStr name), Some definition_val) \<Rightarrow>
          (case wr definition_val of
             None \<Rightarrow> None
           | Some json \<Rightarrow> Some \<lparr>tool_name = name, tool_definition = json\<rparr>)
      | _ \<Rightarrow> None)"

definition llm_client_tools ::
  "json_reader \<Rightarrow> json_writer \<Rightarrow> 'w network \<Rightarrow> llm_client_params \<Rightarrow> 'w \<Rightarrow> (string + llm_tool list) \<times> 'w" where
  "llm_client_tools rd wr net params w =
     (let (got, w) = llm_get rd net params (\<lambda>path. llm_client_root path @ ''/tools'') ''[LLM] Tool list is not JSON'' w
      in (case got of
            Inl err \<Rightarrow> Inl err
          | Inr top_val \<Rightarrow> Inr (List.map_filter (listed_tool wr) (arr_items (Some top_val))), w))"

definition tool_call_request :: "json_writer \<Rightarrow> llm_client \<Rightarrow> string \<Rightarrow> string \<Rightarrow> http_request" where
  "tool_call_request wr c name arguments =
     \<lparr>rq_host = lc_host c, rq_method = POST, rq_path = llm_client_root (lc_path c) @ ''/tools'',
      rq_headers = bearer (lp_api_key (lc_params c)),
      rq_body = (case wr (JObj [(''tool'', JStr (c_str name)),
                   (''params'', if arguments = [] then JObj [] else JRaw (c_str arguments))]) of
                   Some json \<Rightarrow> json | None \<Rightarrow> []),
      rq_timeout = lp_tool_timeout_sec (lc_params c)\<rparr>"

definition llm_client_tool_call ::
  "json_reader \<Rightarrow> json_writer \<Rightarrow> 'w network \<Rightarrow> llm_client \<Rightarrow> string \<Rightarrow> string \<Rightarrow> ('w \<Rightarrow> bool) \<Rightarrow> 'w
     \<Rightarrow> (string + string) \<times> 'w" where
  "llm_client_tool_call rd wr net c name arguments cancel w =
     (let (result, w) = http_send net (tool_call_request wr c name arguments) w in
      (if cancel w then Inl (s2s_format ''[LLM] Cancelled'')
       else case result of
           No_Response reason \<Rightarrow> Inl (s2s_error_text ''[LLM]'' reason)
         | Responded response \<Rightarrow>
             if rs_status response < 200 \<or> 300 \<le> rs_status response then
               Inl (s2s_format (''[LLM] HTTP '' @ int_str (rs_status response) @ '', '' @
                 c_str (llm_client_reason rd (rs_body response))))
             else Inr (case rd (rs_body response) of
                 None \<Rightarrow> rs_body response
               | Some top_val \<Rightarrow>
                   (case yyjson_obj_get (Some top_val) ''plain_text_response'' of
                      Some (JStr s) \<Rightarrow> s
                    | _ \<Rightarrow> rs_body response)), w))"

section \<open>The stream is cut anywhere\<close>

lemma recv_line_pending:
  "recv_line rd cb raw (r\<lparr>rv_pending := p\<rparr>) w =
     (case recv_line rd cb raw r w of (stop, r', w') \<Rightarrow> (stop, r'\<lparr>rv_pending := p\<rparr>, w'))"
  by (simp add: recv_line_def Let_def absorb_frame_def split: prod.splits)

lemma recv_line_keeps:
  "recv_line rd cb raw r w = (stop, r', w') \<Longrightarrow>
   rv_body r' = rv_body r \<and> rv_pending r' = rv_pending r \<and> (stop = None \<longrightarrow> rv_done r' = rv_done r)"
  by (auto simp: recv_line_def Let_def absorb_frame_def split: if_splits prod.splits)

lemma recv_loop_no_line: "LF \<notin> set pending \<Longrightarrow> recv_loop rd cb pending r w = (True, r\<lparr>rv_pending := pending\<rparr>, w)"
  by (subst recv_loop.simps) (simp add: find_char_None [THEN iffD2])

lemma recv_loop_line:
  "find_sub [LF] pending = Some n \<Longrightarrow> recv_loop rd cb pending r w =
     (case recv_line rd cb (take n pending) r w of
        (None, r', w') \<Rightarrow> recv_loop rd cb (drop (n + 1) pending) r' w'
      | (Some b, r', w') \<Rightarrow> (b, r'\<lparr>rv_pending := drop (n + 1) pending\<rparr>, w'))"
  by (subst recv_loop.simps) (auto simp: Let_def split: prod.splits option.splits)

lemma find_LF_shorter: "find_sub [LF] xs = Some n \<Longrightarrow> length (drop (n + 1) xs) < length xs"
  using find_char_Some [of LF xs n] unfolding length_drop by linarith

lemma recv_loop_pending: "recv_loop rd cb pending (r\<lparr>rv_pending := p\<rparr>) w = recv_loop rd cb pending r w"
proof (induction "length pending" arbitrary: pending r w rule: less_induct)
  case less
  show ?case
  proof (cases "find_sub [LF] pending")
    case None
    then show ?thesis by (simp add: find_char_None recv_loop_no_line)
  next
    case (Some n)
    note shorter = find_LF_shorter [OF Some]
    show ?thesis using less.hyps [OF shorter]
      by (simp add: recv_loop_line [OF Some] recv_line_pending split: prod.splits option.splits)
  qed
qed

text \<open>The bytes after the loop stops do not matter.\<close>

definition more_bytes :: "string \<Rightarrow> llm_recv \<Rightarrow> llm_recv" where
  "more_bytes ys r = r\<lparr>rv_body := rv_body r @ ys\<rparr>"

lemma recv_line_more:
  "recv_line rd cb raw (more_bytes ys r) w =
     (case recv_line rd cb raw r w of (stop, r', w') \<Rightarrow> (stop, more_bytes ys r', w'))"
  by (simp add: more_bytes_def recv_line_def Let_def absorb_frame_def split: prod.splits)

lemma recv_loop_more:
  "recv_loop rd cb pending (more_bytes ys r) w =
     (case recv_loop rd cb pending r w of (go, r', w') \<Rightarrow> (go, more_bytes ys r', w'))"
proof (induction "length pending" arbitrary: pending r w rule: less_induct)
  case less
  show ?case
  proof (cases "find_sub [LF] pending")
    case None
    then show ?thesis by (simp add: find_char_None recv_loop_no_line more_bytes_def)
  next
    case (Some n)
    note shorter = find_LF_shorter [OF Some]
    show ?thesis using less.hyps [OF shorter]
      by (simp add: recv_loop_line [OF Some] recv_line_more split: prod.splits option.splits)
        (simp add: more_bytes_def)
  qed
qed

text \<open>The loop over a text and its continuation: the first part, then, unless it stopped, the rest.\<close>

lemma recv_loop_append:
  "\<not> rv_done r \<Longrightarrow> recv_loop rd cb (xs @ ys) r w =
     (case recv_loop rd cb xs r w of (go, r', w') \<Rightarrow>
        if go \<and> \<not> rv_done r' then recv_loop rd cb (rv_pending r' @ ys) r' w'
        else (go, r'\<lparr>rv_pending := rv_pending r' @ ys\<rparr>, w'))"
proof (induction "length xs" arbitrary: xs r w rule: less_induct)
  case less
  show ?case
  proof (cases "find_sub [LF] xs")
    case None
    then show ?thesis using less.prems by (simp add: find_char_None recv_loop_no_line recv_loop_pending)
  next
    case (Some n)
    have all: "find_sub [LF] (xs @ ys) = Some n" using Some by (simp add: find_char_append)
    have n: "n < length xs" using find_char_Some [OF Some] by simp
    obtain stop r1 w1 where line: "recv_line rd cb (take n xs) r w = (stop, r1, w1)"
      using prod_cases3 by blast
    show ?thesis
    proof (cases stop)
      case stop: None
      then have "\<not> rv_done r1" using recv_line_keeps [OF line] less.prems by simp
      then show ?thesis
        using less.hyps [of "drop (n + 1) xs" r1 w1] n
        by (simp add: recv_loop_line [OF Some] recv_loop_line [OF all] line stop)
    next
      case (Some b)
      have "b \<longrightarrow> rv_done r1"
        using line Some by (auto simp: recv_line_def Let_def split: if_splits prod.splits)
      then show ?thesis
        using n Some
        by (cases b) (simp_all add: recv_loop_line [OF \<open>find_sub [LF] xs = Some n\<close>] recv_loop_line [OF all] line)
    qed
  qed
qed

lemma recv_loop_end:
  "recv_loop rd cb pending r w = (go, r', w') \<Longrightarrow> \<not> rv_done r \<Longrightarrow>
   rv_body r' = rv_body r \<and> (go \<and> \<not> rv_done r' \<longrightarrow> LF \<notin> set (rv_pending r'))"
proof (induction "length pending" arbitrary: pending r w rule: less_induct)
  case less
  show ?case
  proof (cases "find_sub [LF] pending")
    case None
    then show ?thesis using less.prems by (auto simp: find_char_None recv_loop_no_line)
  next
    case (Some n)
    note n = find_LF_shorter [OF Some]
    obtain stop r1 w1 where line: "recv_line rd cb (take n pending) r w = (stop, r1, w1)"
      using prod_cases3 by blast
    show ?thesis
    proof (cases stop)
      case None
      then show ?thesis
        using less.hyps [OF n, of r1 w1] less.prems recv_line_keeps [OF line]
        by (simp add: recv_loop_line [OF Some] line)
    next
      case stop: (Some b)
      have "b \<longrightarrow> rv_done r1"
        using line stop by (auto simp: recv_line_def Let_def split: if_splits prod.splits)
      then show ?thesis
        using less.prems recv_line_keeps [OF line] stop by (auto simp: recv_loop_line [OF Some] line)
    qed
  qed
qed

text \<open>The state of a stream, what it no longer reads dropped: a stream that ended or stopped looks at
  none of the bytes that follow.\<close>

definition recv_norm :: "bool \<times> llm_recv \<times> 'w \<Rightarrow> bool \<times> llm_recv \<times> 'w" where
  "recv_norm st =
     (case st of (go, r, w) \<Rightarrow> (go, if go \<and> \<not> rv_done r then r else r\<lparr>rv_body := [], rv_pending := []\<rparr>, w))"

definition recv_feed ::
  "json_reader \<Rightarrow> 'w llm_delta_cb \<Rightarrow> bool \<times> llm_recv \<times> 'w \<Rightarrow> string \<Rightarrow> (bool \<times> llm_recv \<times> 'w) \<times> unit list" where
  "recv_feed rd cb st data =
     (case st of (go, r, w) \<Rightarrow>
        (if go \<and> \<not> rv_done r then recv_norm (receiver rd cb (\<lambda>_. False) data r w) else st, []))"

definition recv_ok :: "bool \<times> llm_recv \<times> 'w \<Rightarrow> bool" where
  "recv_ok st = (case st of (go, r, w) \<Rightarrow>
     if go \<and> \<not> rv_done r then LF \<notin> set (rv_pending r) else rv_body r = [] \<and> rv_pending r = [])"

lemma recv_feed_ok: "recv_ok st \<Longrightarrow> recv_ok (fst (recv_feed rd cb st xs))"
proof -
  assume ok: "recv_ok st"
  obtain go r w where st: "st = (go, r, w)" by (cases st)
  show ?thesis
  proof (cases "go \<and> \<not> rv_done r")
    case True
    obtain go' r' w' where res: "recv_loop rd cb (rv_pending r @ xs) (r\<lparr>rv_body := rv_body r @ xs\<rparr>) w = (go', r', w')"
      using prod_cases3 by blast
    then show ?thesis
      using True recv_loop_end [OF res]
      by (auto simp: st recv_feed_def receiver_def recv_norm_def recv_ok_def split: if_splits)
  qed (use ok st in \<open>auto simp: recv_feed_def\<close>)
qed

interpretation recv: chunked "recv_feed rd cb" recv_ok
proof unfold_locales
  fix st :: "bool \<times> llm_recv \<times> 'a" and xs ys
  assume ok: "recv_ok st"
  obtain go r w where st: "st = (go, r, w)" by (cases st)
  show "recv_ok (fst (recv_feed rd cb st xs))" by (rule recv_feed_ok [OF ok])
  show "recv_feed rd cb st [] = (st, [])"
    using ok by (auto simp: st recv_feed_def receiver_def recv_loop_no_line recv_norm_def recv_ok_def)
  show "recv_feed rd cb st (xs @ ys) =
      (fst (recv_feed rd cb (fst (recv_feed rd cb st xs)) ys),
       snd (recv_feed rd cb st xs) @ snd (recv_feed rd cb (fst (recv_feed rd cb st xs)) ys))"
  proof (cases "go \<and> \<not> rv_done r")
    case True
    define rx where "rx = r\<lparr>rv_body := rv_body r @ xs\<rparr>"
    obtain g1 r1 w1 where one: "recv_loop rd cb (rv_pending r @ xs) rx w = (g1, r1, w1)"
      using prod_cases3 by blast
    have ryx: "r\<lparr>rv_body := rv_body r @ xs @ ys\<rparr> = more_bytes ys rx" by (simp add: rx_def more_bytes_def)
    have "\<not> rv_done rx" using True by (simp add: rx_def)
    then have two: "recv_loop rd cb (rv_pending r @ xs @ ys) (more_bytes ys rx) w =
        (case (if g1 \<and> \<not> rv_done r1 then recv_loop rd cb (rv_pending r1 @ ys) r1 w1
               else (g1, r1\<lparr>rv_pending := rv_pending r1 @ ys\<rparr>, w1)) of (go, r', w') \<Rightarrow> (go, more_bytes ys r', w'))"
      using recv_loop_append [of rx rd cb "rv_pending r @ xs" ys w] by (simp add: recv_loop_more one)
    have three: "recv_loop rd cb (rv_pending r1 @ ys) (r1\<lparr>rv_body := rv_body r1 @ ys\<rparr>) w1 =
        (case recv_loop rd cb (rv_pending r1 @ ys) r1 w1 of (go, r', w') \<Rightarrow> (go, more_bytes ys r', w'))"
      using recv_loop_more [of rd cb "rv_pending r1 @ ys" ys r1 w1] by (simp add: more_bytes_def)
    show ?thesis
      using True
      by (simp add: st recv_feed_def receiver_def ryx two one [unfolded rx_def] recv_norm_def three)
        (auto simp: more_bytes_def split: prod.splits)
  qed (auto simp: st recv_feed_def)
qed

text \<open>An endpoint that answers in those pieces, with nobody else at work.\<close>

definition answering :: "string list \<Rightarrow> 'w http_answer \<Rightarrow> 'w network" where
  "answering pieces a =
     \<lparr>net_open = (\<lambda>_. True), net_request = (\<lambda>_ _. a\<lparr>an_chunks := map (\<lambda>p. (id, p)) pieces\<rparr>)\<rparr>"

lemma receiver_done: "go \<and> \<not> rv_done r \<Longrightarrow> receiver rd cb cancel data r w = (True, r', w') \<Longrightarrow> rv_done r' \<Longrightarrow>
    recv_stream rd cb cancel (map (\<lambda>p. (id, p)) ps) r' w' = (True, r', w')"
  by (induction ps) (simp_all add: receiver_def)

lemma recv_stream_done: "rv_done r \<Longrightarrow> recv_stream rd cb cancel (map (\<lambda>p. (id, p)) ps) r w = (True, r, w)"
  by (induction ps) (simp_all add: receiver_def)

lemma feed_all_stopped: "\<not> (go \<and> \<not> rv_done r) \<Longrightarrow> fst (feed_all (recv_feed rd cb) (go, r, w) ps) = (go, r, w)"
  by (induction ps) (auto simp: recv_feed_def Let_def split_beta)

lemma recv_stream_feed:
  "\<not> rv_done r \<Longrightarrow>
   recv_norm (recv_stream rd cb (\<lambda>_. False) (map (\<lambda>p. (id, p)) ps) r w) = fst (feed_all (recv_feed rd cb) (True, r, w) ps)"
proof (induction ps arbitrary: r w)
  case Nil
  then show ?case by (simp add: recv_norm_def)
next
  case (Cons p ps)
  obtain go r1 w1 where one: "receiver rd cb (\<lambda>_. False) p r w = (go, r1, w1)" using prod_cases3 by blast
  have step: "recv_feed rd cb (True, r, w) p = (recv_norm (go, r1, w1), [])"
    using Cons.prems by (simp add: recv_feed_def one)
  show ?case
  proof (cases "go \<and> \<not> rv_done r1")
    case True
    then show ?thesis using Cons.IH [of r1 w1] by (simp add: one step split_beta Let_def recv_norm_def)
  next
    case False
    obtain r2 where r2: "recv_norm (go, r1, w1) = (go, r2, w1)" "rv_done r2 = rv_done r1"
      using False by (auto simp: recv_norm_def)
    then have "fst (feed_all (recv_feed rd cb) (recv_norm (go, r1, w1)) ps) = recv_norm (go, r1, w1)"
      using feed_all_stopped False by metis
    then show ?thesis
      using False by (cases go) (simp_all add: one step split_beta Let_def recv_stream_done recv_stream_done [unfolded id_def])
  qed
qed

lemma recv_stream_pieces:
  "recv_norm (recv_stream rd cb (\<lambda>_. False) (map (\<lambda>p. (id, p)) ps) llm_recv_new w) =
   recv_norm (recv_stream rd cb (\<lambda>_. False) (map (\<lambda>p. (id, p)) [concat ps]) llm_recv_new w)"
proof -
  have "recv_ok (True, llm_recv_new, w)" by (simp add: recv_ok_def llm_recv_new_def)
  then have "feed_all (recv_feed rd cb) (True, llm_recv_new, w) ps = feed_all (recv_feed rd cb) (True, llm_recv_new, w) [concat ps]"
    by (intro recv.feed_cuts) simp_all
  then show ?thesis by (simp only: recv_stream_feed llm_recv_new_def llm_recv.simps simp_thms)
qed

lemma stream_error_norm:
  "recv_norm (go, r, w) = (go', r', w') \<Longrightarrow>
   stream_error rd timeout r c (if go then e else No_Response x) silent =
   stream_error rd timeout r' c (if go' then e else No_Response x) silent \<and>
   rv_text r = rv_text r' \<and> rv_calls r = rv_calls r' \<and> w = w'"
proof -
  assume n: "recv_norm (go, r, w) = (go', r', w')"
  have body: "stream_error rd timeout (r\<lparr>rv_body := b, rv_pending := p\<rparr>) c (if go then e else No_Response x) silent =
      stream_error rd timeout r c (if go then e else No_Response x) silent" if "\<not> (go \<and> \<not> rv_done r)" for b p
    using that by (cases go) (simp_all add: stream_error_def)
  show ?thesis
  proof (cases "go \<and> \<not> rv_done r")
    case False
    then have "go' = go" "w' = w" "r' = r\<lparr>rv_body := [], rv_pending := []\<rparr>" using n by (auto simp: recv_norm_def)
    then show ?thesis using body [OF False] by simp
  qed (use n in \<open>simp add: recv_norm_def\<close>)
qed

text \<open>C31: How the network cuts the answer of an endpoint never shows: any way of cutting the same bytes
  into chunks, in the middle of a line or of a character, gives the same outcome, the same text, the
  same tool calls and the same deltas to the listener.\<close>

theorem completion_cuts_invisible:
  "llm_client_stream rd wr (answering pieces a) c messages cb (\<lambda>_. False) text w =
   llm_client_stream rd wr (answering [concat pieces] a) c messages cb (\<lambda>_. False) text w"
proof -
  obtain g1 r1 w1 where one: "recv_stream rd cb (\<lambda>_. False) (map (\<lambda>p. (id, p)) pieces) llm_recv_new w = (g1, r1, w1)"
    using prod_cases3 by blast
  obtain g2 r2 w2 where two: "recv_stream rd cb (\<lambda>_. False) (map (\<lambda>p. (id, p)) [concat pieces]) llm_recv_new w = (g2, r2, w2)"
    using prod_cases3 by blast
  obtain g r w' where n1: "recv_norm (g1, r1, w1) = (g, r, w')" using prod_cases3 by blast
  have n2: "recv_norm (g2, r2, w2) = (g, r, w')"
    using recv_stream_pieces [of rd cb pieces w] unfolding one two n1 by simp
  note same = stream_error_norm [OF n1] stream_error_norm [OF n2]
  show ?thesis
    unfolding llm_client_stream_def answering_def Let_def
    by (simp add: one [unfolded id_def] two [simplified, unfolded id_def] same id_def)
qed

section \<open>What an endpoint says is what is heard\<close>

text \<open>An answer in the shape the dialect fixes: data frames that are one line of JSON each, then
  \<open>[DONE]\<close>.\<close>

definition sse_answer :: "string list \<Rightarrow> string" where
  "sse_answer frames = concat (map (\<lambda>j. ''data: '' @ j @ [LF, LF]) frames) @ ''data: [DONE]'' @ [LF, LF]"

definition frame_ok :: "json_reader \<Rightarrow> string \<Rightarrow> bool" where
  "frame_ok rd j \<longleftrightarrow> j \<noteq> [] \<and> LF \<notin> set j \<and> hd j \<noteq> SPC \<and> last j \<notin> {CR, SPC} \<and> j \<noteq> ''[DONE]'' \<and>
     \<not> fm_failed (llm_client_frame rd j)"

text \<open>The listener: it writes down what it hears and never cancels.\<close>

definition listen :: "string list llm_delta_cb" where
  "listen d said = (True, said @ [d])"

definition frame_delta :: "json_reader \<Rightarrow> string \<Rightarrow> string" where
  "frame_delta rd j = fm_delta (llm_client_frame rd j)"

lemma trim_nothing: "\<not> p (last xs) \<Longrightarrow> pop_back_while p xs = xs"
  by (induction xs rule: rev_induct) auto

lemma recv_line_frame:
  assumes "frame_ok rd j"
  shows "recv_line rd listen (''data: '' @ j) r said =
    (None, (absorb_frame (llm_client_frame rd j) r)\<lparr>rv_text := rv_text r @ frame_delta rd j\<rparr>,
     said @ (if frame_delta rd j = [] then [] else [c_str (frame_delta rd j)]))"
proof -
  have j: "j \<noteq> []" "hd j \<noteq> SPC" "last j \<noteq> CR" "last j \<noteq> SPC" "j \<noteq> ''[DONE]''" "\<not> fm_failed (llm_client_frame rd j)"
    using assms by (auto simp: frame_ok_def)
  have "pop_back_while (\<lambda>c. c = CR \<or> c = SPC) (''data: '' @ j) = ''data: '' @ j"
    using j by (intro trim_nothing) simp
  moreover have "dropWhile (\<lambda>c. c = SPC) (SPC # j) = j"
    using j by (cases j) auto
  ultimately show ?thesis
    using j by (simp add: recv_line_def Let_def listen_def frame_delta_def absorb_frame_def)
qed

lemma recv_loop_next: "LF \<notin> set line \<Longrightarrow> recv_loop rd cb (line @ LF # rest) r w =
     (case recv_line rd cb line r w of
        (None, r', w') \<Rightarrow> recv_loop rd cb rest r' w'
      | (Some b, r', w') \<Rightarrow> (b, r'\<lparr>rv_pending := rest\<rparr>, w'))"
proof -
  assume "LF \<notin> set line"
  then have "find_sub [LF] (line @ LF # rest) = Some (length line)"
    by (simp add: find_char_append find_char_None [THEN iffD2])
  moreover have "drop (length line + 1) (line @ LF # rest) = rest" "take (length line) (line @ LF # rest) = line" by simp_all
  ultimately show ?thesis by (simp only: recv_loop_line)
qed

lemma recv_line_blank: "recv_line rd cb [] r w = (None, r, w)"
  by (simp add: recv_line_def)

definition heard_frames :: "json_reader \<Rightarrow> string list \<Rightarrow> llm_recv \<Rightarrow> llm_recv" where
  "heard_frames rd frames r =
     foldl (\<lambda>r j. (absorb_frame (llm_client_frame rd j) r)\<lparr>rv_text := rv_text r @ frame_delta rd j\<rparr>) r frames"

lemma recv_loop_answer:
  "list_all (frame_ok rd) frames \<Longrightarrow>
   \<exists>p. recv_loop rd listen (sse_answer frames) r said =
     (True, (heard_frames rd frames r)\<lparr>rv_done := True, rv_pending := p\<rparr>,
      said @ map c_str (filter (\<lambda>d. d \<noteq> []) (map (frame_delta rd) frames)))"
proof (induction frames arbitrary: r said)
  case Nil
  have "recv_line rd listen ''data: [DONE]'' r said = (Some True, r\<lparr>rv_done := True\<rparr>, said)"
    by (simp add: recv_line_def pop_back_while_def)
  then show ?case
    using recv_loop_next [of "''data: [DONE]''" rd listen "[LF]" r said]
    by (auto simp: sse_answer_def heard_frames_def)
next
  case (Cons j frames)
  have j: "frame_ok rd j" "LF \<notin> set (''data: '' @ j)" using Cons.prems by (auto simp: frame_ok_def)
  have "sse_answer (j # frames) = (''data: '' @ j) @ LF # ([] @ LF # sse_answer frames)"
    by (simp add: sse_answer_def)
  then show ?case
    using Cons.IH [of "(absorb_frame (llm_client_frame rd j) r)\<lparr>rv_text := rv_text r @ frame_delta rd j\<rparr>"
        "said @ (if frame_delta rd j = [] then [] else [c_str (frame_delta rd j)])"] Cons.prems
    by (simp only: recv_loop_next [OF j(2)] recv_line_frame [OF j(1)])
      (auto simp: recv_loop_next [of "[]", simplified] recv_line_blank heard_frames_def)
qed

lemma heard_frames_simps:
  "rv_text (heard_frames rd frames r) = rv_text r @ concat (map (frame_delta rd) frames)"
  "rv_calls (heard_frames rd frames r) =
     foldl add_fragment (rv_calls r) (concat (map (\<lambda>j. fm_tools (llm_client_frame rd j)) frames))"
  "rv_failure (heard_frames rd frames r) = rv_failure r"
  "rv_cancelled (heard_frames rd frames r) = rv_cancelled r"
  by (induction frames arbitrary: r) (simp_all add: heard_frames_def absorb_frame_def foldl_append)

text \<open>C30: What an endpoint says is what is heard: an answer in the shape of the dialect, cut anywhere by
  the network, succeeds with the text of all its deltas in their order, the listener hears each of
  them once, and the tool calls are the fragments of all its frames joined by their index.\<close>

theorem complete_answer_is_heard:
  assumes "list_all (frame_ok rd) frames" "concat pieces = sse_answer frames" "messages \<noteq> []"
  shows "let (res, said) = llm_client_stream rd wr (answering pieces (a\<lparr>an_after := id\<rparr>)) c messages listen (\<lambda>_. False) text []
    in lr_error res = None \<and> lr_text res = concat (map (frame_delta rd) frames) \<and>
       said = map c_str (filter (\<lambda>d. d \<noteq> []) (map (frame_delta rd) frames)) \<and>
       lc_tool_calls (lr_client res) = llm_client_calls_json wr
         (foldl add_fragment [] (concat (map (\<lambda>j. fm_tools (llm_client_frame rd j)) frames)))"
proof -
  let ?r = "llm_recv_new\<lparr>rv_body := sse_answer frames\<rparr>"
  obtain p where p: "recv_loop rd listen (sse_answer frames) ?r [] =
      (True, (heard_frames rd frames ?r)\<lparr>rv_done := True, rv_pending := p\<rparr>,
       map c_str (filter (\<lambda>d. d \<noteq> []) (map (frame_delta rd) frames)))"
    using recv_loop_answer [OF assms(1), of ?r "[]"] by auto
  have "receiver rd listen (\<lambda>_. False) (sse_answer frames) llm_recv_new [] =
      recv_loop rd listen (sse_answer frames) ?r []"
    by (simp add: receiver_def llm_recv_new_def)
  moreover have "rv_failure llm_recv_new = []" "\<not> rv_cancelled llm_recv_new" "rv_text llm_recv_new = []" "rv_calls llm_recv_new = []"
    by (simp_all add: llm_recv_new_def)
  ultimately show ?thesis
    using assms(3) unfolding completion_cuts_invisible [of rd wr pieces] assms(2)
    by (simp add: llm_client_stream_def answering_def Let_def p stream_error_def heard_frames_simps)
qed

lemma complete_answer_is_heard_witness:
  "\<exists>rd. let (res, said) = llm_client_stream rd (\<lambda>_. None)
       (answering [''data: He'', ''llo'' @ [LF, LF] @ ''data: you'' @ [LF, LF] @ ''data: [D'', ''ONE]'' @ [LF, LF]]
         (\<lparr>an_chunks = [], an_after = id, an_end = No_Response [], an_silent = False\<rparr>\<lparr>an_after := id\<rparr>))
       llm_client_blank [plain_message ''user'' ''Hi''] listen (\<lambda>_. False) [] []
     in lr_error res = None \<and> lr_text res = ''Helloyou'' \<and> said = [''Hello'', ''you'']"
proof -
  define rd :: json_reader where "rd = (\<lambda>s. Some (JObj [(''choices'', JArr [JObj [(''delta'', JObj [(''content'', JStr s)])]])]))"
  have delta: "frame_delta rd j = j" for j
    by (simp add: frame_delta_def llm_client_frame_def rd_def yyjson_arr_get_first_def Let_def)
  have "list_all (frame_ok rd) [''Hello'', ''you'']"
    by (simp add: frame_ok_def llm_client_frame_def rd_def yyjson_arr_get_first_def Let_def)
  from complete_answer_is_heard [OF this, of "[''data: He'', ''llo'' @ [LF, LF] @ ''data: you'' @ [LF, LF] @ ''data: [D'', ''ONE]'' @ [LF, LF]]"
      "[plain_message ''user'' ''Hi'']" "\<lambda>_. None"
      "\<lparr>an_chunks = [], an_after = id, an_end = No_Response [], an_silent = False\<rparr>" llm_client_blank "[]"]
  show ?thesis
    by (intro exI [of _ rd]) (simp add: sse_answer_def delta c_str_def split_beta Let_def)
qed

section \<open>Tool calls\<close>

lemma add_fragment_bound: "length calls \<le> 64 \<Longrightarrow> length (add_fragment calls f) \<le> 64"
  by (simp add: add_fragment_def Let_def LLM_TOOL_CALLS_MAX_def) linarith

lemma absorb_bound: "length (rv_calls r) \<le> 64 \<Longrightarrow> length (rv_calls (absorb_frame f r)) \<le> 64"
proof -
  have "length calls \<le> 64 \<Longrightarrow> length (foldl add_fragment calls fs) \<le> 64" for calls fs
    by (induction fs arbitrary: calls) (simp_all add: add_fragment_bound)
  then show "length (rv_calls r) \<le> 64 \<Longrightarrow> ?thesis" by (simp add: absorb_frame_def)
qed

lemma recv_line_bound:
  "length (rv_calls r) \<le> 64 \<Longrightarrow> length (rv_calls (fst (snd (recv_line rd cb raw r w)))) \<le> 64"
  by (simp add: recv_line_def Let_def split_beta absorb_bound)

lemma recv_loop_bound:
  "length (rv_calls r) \<le> 64 \<Longrightarrow> length (rv_calls (fst (snd (recv_loop rd cb pending r w)))) \<le> 64"
proof (induction "length pending" arbitrary: pending r w rule: less_induct)
  case less
  show ?case
  proof (cases "find_sub [LF] pending")
    case None
    then show ?thesis using less.prems by (simp add: find_char_None recv_loop_no_line)
  next
    case (Some n)
    obtain stop r1 w1 where line: "recv_line rd cb (take n pending) r w = (stop, r1, w1)"
      using prod_cases3 by blast
    then have "length (rv_calls r1) \<le> 64" using recv_line_bound [OF less.prems, of rd cb "take n pending" w] by simp
    then show ?thesis
      using less.hyps [OF find_LF_shorter [OF Some]]
      by (simp add: recv_loop_line [OF Some] line split: option.splits)
  qed
qed

lemma recv_stream_bound:
  "length (rv_calls r) \<le> 64 \<Longrightarrow> length (rv_calls (fst (snd (recv_stream rd cb cancel chunks r w)))) \<le> 64"
proof (induction chunks arbitrary: r w)
  case (Cons c chunks)
  obtain others data where c: "c = (others, data)" by (cases c)
  obtain go r1 w1 where one: "receiver rd cb cancel data r (others w) = (go, r1, w1)" using prod_cases3 by blast
  have "length (rv_calls r1) \<le> 64"
    using one Cons.prems recv_loop_bound [of "r\<lparr>rv_body := rv_body r @ data\<rparr>" rd cb "rv_pending r @ data" "others w"]
    by (auto simp: receiver_def split: if_splits)
  then show ?case using Cons.IH by (simp add: c one)
qed simp

text \<open>Whatever an endpoint sends, however it numbers the calls, and whoever cancels, an answer asks
  for at most 64 tool calls, and an answer that failed or was cancelled asks for none.\<close>

theorem tool_calls_bounded:
  "let (res, _) = llm_client_stream rd wr net c messages cb cancel text w in
   messages = [] \<or>
   (if lr_error res = None then \<exists>calls. length calls \<le> 64 \<and> lc_tool_calls (lr_client res) = llm_client_calls_json wr calls
    else lc_tool_calls (lr_client res) = [])"
  using recv_stream_bound [of llm_recv_new rd cb cancel "an_chunks (net_request net (stream_request wr c messages) w)" w]
  by (auto simp: llm_client_stream_def Let_def split_beta llm_recv_new_def)

end
