(* ===== verification/Mcp_Client.thy ===== *)
theory Mcp_Client
  imports Http
begin

text \<open>
  \<open>src/mcp-client.h\<close> and \<open>src/mcp-client.cpp\<close>: JSON-RPC over Streamable HTTP. An exchange that finds its
  session forgotten opens it again, which is itself made of exchanges: the recursion has fuel, and
  \<^const>\<open>None\<close> is a call that has not returned within it. A call that returns gives an error or a value,
  with the client and the shared state after it.
\<close>

section \<open>Data\<close>

definition MCP_REASON_MAX :: nat where "MCP_REASON_MAX = 200"
definition MCP_PROTOCOL_VERSION :: string where "MCP_PROTOCOL_VERSION = ''2025-11-25''"

definition MCP_SUPPORTED_VERSIONS :: "string list" where
  "MCP_SUPPORTED_VERSIONS =
     [MCP_PROTOCOL_VERSION, ''2025-06-18'', ''2025-03-26'', ''2024-11-05'', ''2024-10-07'']"

record mcp_client =
  mc_params :: mcp_server_params
  mc_host :: string
  mc_path :: string
  mc_session :: string
  mc_version :: string
  mc_server_name :: string
  mc_next_id :: int
  mc_open :: bool

text \<open>What the client stands on: yyjson, the network, the cancel flag, the version the build writes.\<close>

record 'w mcp_env =
  me_rd :: json_reader
  me_wr :: json_writer
  me_net :: "'w network"
  me_cancel :: "'w \<Rightarrow> bool"
  me_build :: string

type_synonym ('a, 'w) mcp_outcome = "((string + 'a) \<times> mcp_client \<times> 'w) option"

text \<open>A call that fails ends the caller: \<open>if (!call(...)) return false;\<close>.\<close>

definition mcp_then :: "('a, 'w) mcp_outcome \<Rightarrow> ('a \<Rightarrow> mcp_client \<Rightarrow> 'w \<Rightarrow> ('b, 'w) mcp_outcome) \<Rightarrow> ('b, 'w) mcp_outcome" where
  "mcp_then o1 k =
     (case o1 of
        None \<Rightarrow> None
      | Some (Inl err, c, w) \<Rightarrow> Some (Inl err, c, w)
      | Some (Inr v, c, w) \<Rightarrow> k v c w)"

section \<open>Messages\<close>

definition mcp_reason :: "json_reader \<Rightarrow> string \<Rightarrow> string" where
  "mcp_reason rd body =
     (let reason =
            (case rd body of
               None \<Rightarrow> []
             | Some top_val \<Rightarrow>
                 (let error = yyjson_obj_get (Some top_val) ''error''
                  in json_text (if yyjson_is_obj error then yyjson_obj_get error ''message'' else error)));
          reason = (if reason = [] then takeWhile (\<lambda>c. c \<noteq> LF) body else reason)
      in if MCP_REASON_MAX < length reason then take MCP_REASON_MAX reason else reason)"

definition mcp_message :: "json_writer \<Rightarrow> string \<Rightarrow> int \<Rightarrow> (string \<times> json) list \<Rightarrow> string" where
  "mcp_message wr method rid params =
     (case wr (JObj ([(''jsonrpc'', JStr ''2.0'')] @ (if 0 < rid then [(''id'', JInt rid)] else [])
        @ [(''method'', JStr method), (''params'', JObj params)])) of
        Some json \<Rightarrow> json | None \<Rightarrow> ''{}'')"

definition mcp_answers :: "json \<Rightarrow> int \<Rightarrow> bool" where
  "mcp_answers message rid =
     (let value = yyjson_obj_get (Some message) ''id'' in yyjson_is_int value \<and> yyjson_get_sint value = rid)"

definition mcp_json_response :: "json_reader \<Rightarrow> json_writer \<Rightarrow> string \<Rightarrow> int \<Rightarrow> string option" where
  "mcp_json_response rd wr body rid =
     (case rd body of
        None \<Rightarrow> None
      | Some top_val \<Rightarrow>
          if mcp_answers top_val rid then Some body
          else (case filter (\<lambda>item. mcp_answers item rid) (arr_items (Some top_val)) of
              [] \<Rightarrow> None
            | item # _ \<Rightarrow> Some (case wr item of Some json \<Rightarrow> json | None \<Rightarrow> [])))"

text \<open>The \<open>dispatch\<close> of an event: its data when it is the message looked for.\<close>

definition sse_dispatch :: "json_reader \<Rightarrow> int \<Rightarrow> string \<Rightarrow> string \<Rightarrow> string option" where
  "sse_dispatch rd rid data event =
     (if data \<noteq> [] \<and> (event = [] \<or> event = ''message'') then
        (case rd data of
           Some top_val \<Rightarrow> if mcp_answers top_val rid then Some data else None
         | None \<Rightarrow> None)
      else None)"

definition strip_cr :: "string \<Rightarrow> string" where
  "strip_cr line = (if line \<noteq> [] \<and> last line = CR then butlast line else line)"

function sse_loop :: "json_reader \<Rightarrow> int \<Rightarrow> string \<Rightarrow> string \<Rightarrow> string \<Rightarrow> string option" where
  "sse_loop rd rid body data event =
     (if body = [] then sse_dispatch rd rid data event
      else
        let raw = takeWhile (\<lambda>c. c \<noteq> LF) body; rest = drop (length raw + 1) body;
            line = strip_cr raw
        in if line = [] then
             (case sse_dispatch rd rid data event of
                Some message \<Rightarrow> Some message
              | None \<Rightarrow> sse_loop rd rid rest [] [])
           else if take 5 line = ''data:'' then
             sse_loop rd rid rest
               (data @ (if data = [] then [] else [LF]) @ drop (if 5 < length line \<and> line ! 5 = SPC then 6 else 5) line) event
           else if take 6 line = ''event:'' then
             sse_loop rd rid rest data (drop (if 6 < length line \<and> line ! 6 = SPC then 7 else 6) line)
           else sse_loop rd rid rest data event)"
  by pat_completeness auto
termination
  by (relation "measure (\<lambda>(rd, rid, body, data, event). length body)") auto

declare sse_loop.simps [simp del]

definition mcp_sse_response :: "json_reader \<Rightarrow> string \<Rightarrow> int \<Rightarrow> string option" where
  "mcp_sse_response rd body rid = sse_loop rd rid body [] []"

section \<open>Exchanges\<close>

definition mcp_headers :: "mcp_client \<Rightarrow> (string \<times> string) list" where
  "mcp_headers c =
     [(''Accept'', ''application/json, text/event-stream'')] @ bearer (mcp_api_key (mc_params c))
     @ (if mc_session c = [] then [] else [(''Mcp-Session-Id'', mc_session c)])
     @ (if mc_version c = [] then [] else [(''MCP-Protocol-Version'', mc_version c)])"

definition mcp_http_request :: "mcp_client \<Rightarrow> string \<Rightarrow> http_request" where
  "mcp_http_request c request =
     \<lparr>rq_host = mc_host c, rq_method = POST, rq_path = (if mc_path c = [] then ''/'' else mc_path c),
      rq_headers = mcp_headers c, rq_body = request, rq_timeout = mcp_timeout_sec (mc_params c)\<rparr>"

text \<open>What a response with a good status says of request \<open>id\<close>.\<close>

definition mcp_read_response :: "'w mcp_env \<Rightarrow> http_response \<Rightarrow> int \<Rightarrow> string + string" where
  "mcp_read_response E response rid =
     (if rid \<le> 0 \<or> rs_status response = 202 then Inr []
      else
        let type = (case http_header response ''Content-Type'' of Some t \<Rightarrow> t | None \<Rightarrow> []);
            found = (if find_sub ''text/event-stream'' type \<noteq> None
                     then mcp_sse_response (me_rd E) (rs_body response) rid
                     else mcp_json_response (me_rd E) (me_wr E) (rs_body response) rid)
        in case found of
             Some message \<Rightarrow> Inr message
           | None \<Rightarrow> Inl (s2s_format (''[MCP] The server answered without the response to request '' @ int_str rid)))"

text \<open>\<open>mcp_request\<close>, over an exchange.\<close>

definition mcp_request_with ::
  "'w mcp_env \<Rightarrow> (mcp_client \<Rightarrow> string \<Rightarrow> int \<Rightarrow> bool \<Rightarrow> 'w \<Rightarrow> (string, 'w) mcp_outcome)
     \<Rightarrow> mcp_client \<Rightarrow> string \<Rightarrow> int \<Rightarrow> (string \<times> json) list \<Rightarrow> 'w \<Rightarrow> (json, 'w) mcp_outcome" where
  "mcp_request_with E exchange c method rid params w =
     mcp_then (exchange c (mcp_message (me_wr E) method rid params) rid True w) (\<lambda>message c w.
       case me_rd E message of
         None \<Rightarrow> Some (Inl (s2s_format ''[MCP] The response is not JSON''), c, w)
       | Some top_val \<Rightarrow>
           (case yyjson_obj_get (Some top_val) ''error'' of
              Some error \<Rightarrow>
                let reason = json_text (yyjson_obj_get (Some error) ''message''); code = yyjson_obj_get (Some error) ''code''
                in Some (Inl (s2s_format (''[MCP] '' @ c_str reason @ '' ('' @
                     int_str (if yyjson_is_int code then yyjson_get_sint code else 0) @ '')'')), c, w)
            | None \<Rightarrow>
                (case yyjson_obj_get (Some top_val) ''result'' of
                   None \<Rightarrow> Some (Inl (s2s_format ''[MCP] The response has no result''), c, w)
                 | Some result \<Rightarrow> Some (Inr result, c, w))))"

text \<open>\<open>mcp_client_open_session\<close>, over an exchange.\<close>

definition mcp_open_session_with ::
  "'w mcp_env \<Rightarrow> (mcp_client \<Rightarrow> string \<Rightarrow> int \<Rightarrow> bool \<Rightarrow> 'w \<Rightarrow> (string, 'w) mcp_outcome)
     \<Rightarrow> mcp_client \<Rightarrow> 'w \<Rightarrow> (unit, 'w) mcp_outcome" where
  "mcp_open_session_with E exchange c w =
     (let rid = mc_next_id c; c = c\<lparr>mc_next_id := rid + 1\<rparr>;
          params = [(''protocolVersion'', JStr MCP_PROTOCOL_VERSION), (''capabilities'', JObj []),
                    (''clientInfo'', JObj [(''name'', JStr ''s2s.cpp''), (''version'', JStr (me_build E))])]
      in mcp_then (mcp_request_with E exchange c ''initialize'' rid params w) (\<lambda>result c w.
           let version = json_text (yyjson_obj_get (Some result) ''protocolVersion'');
               c = c\<lparr>mc_server_name := json_text (yyjson_obj_get (yyjson_obj_get (Some result) ''serverInfo'') ''name'')\<rparr>
           in if version \<notin> set MCP_SUPPORTED_VERSIONS then
                Some (Inl (s2s_format (''[MCP] The server speaks protocol version '' @ c_str version @
                  '', which this client does not'')), c, w)
              else
                let c = c\<lparr>mc_version := version\<rparr> in
                mcp_then (exchange c (mcp_message (me_wr E) ''notifications/initialized'' 0 []) 0 True w) (\<lambda>_ c w.
                  Some (Inr (), c\<lparr>mc_open := True\<rparr>, w))))"

primrec mcp_exchange ::
  "'w mcp_env \<Rightarrow> nat \<Rightarrow> mcp_client \<Rightarrow> string \<Rightarrow> int \<Rightarrow> bool \<Rightarrow> 'w \<Rightarrow> (string, 'w) mcp_outcome" where
  "mcp_exchange E 0 = (\<lambda>c request rid retry w. None)"
| "mcp_exchange E (Suc fuel) = (\<lambda>c request rid retry w.
     let (result, w) = http_send (me_net E) (mcp_http_request c request) w in
     if me_cancel E w then Some (Inl (s2s_format ''[MCP] Cancelled''), c, w)
     else case result of
         No_Response reason \<Rightarrow> Some (Inl (s2s_error_text ''[MCP]'' reason), c, w)
       | Responded response \<Rightarrow>
           let c = (case http_header response ''Mcp-Session-Id'' of
                      Some session \<Rightarrow> c\<lparr>mc_session := session\<rparr> | None \<Rightarrow> c)
           in if rs_status response = 404 \<and> mc_session c \<noteq> [] \<and> retry then
                mcp_then (mcp_open_session_with E (mcp_exchange E fuel) (c\<lparr>mc_session := [], mc_open := False\<rparr>) w)
                  (\<lambda>_ c w. mcp_exchange E fuel c request rid False w)
              else if rs_status response < 200 \<or> 300 \<le> rs_status response then
                Some (Inl (s2s_format (''[MCP] HTTP '' @ int_str (rs_status response) @ '', '' @
                  c_str (mcp_reason (me_rd E) (rs_body response)))), c, w)
              else Some (mcp_read_response E response rid, c, w))"

declare mcp_exchange.simps [simp del]

section \<open>The client\<close>

definition mcp_client_new :: "'w network \<Rightarrow> mcp_server_params \<Rightarrow> string + mcp_client" where
  "mcp_client_new net params =
     (case http_split_url (mcp_url params) of
        None \<Rightarrow> Inl (s2s_format ''[MCP] The server URL has no scheme'')
      | Some (host, path) \<Rightarrow>
          (case http_open net host ''[MCP]'' of
             Inl err \<Rightarrow> Inl err
           | Inr _ \<Rightarrow>
               Inr \<lparr>mc_params = params, mc_host = host, mc_path = path, mc_session = [], mc_version = [],
                    mc_server_name = [], mc_next_id = 1, mc_open = False\<rparr>))"

text \<open>\<open>mcp_client_free\<close>: the session ends with a DELETE, whatever it answers.\<close>

definition mcp_client_free :: "'w network \<Rightarrow> mcp_client \<Rightarrow> 'w \<Rightarrow> 'w" where
  "mcp_client_free net c w =
     (if mc_session c = [] then w
      else snd (http_send net
        \<lparr>rq_host = mc_host c, rq_method = DELETE, rq_path = (if mc_path c = [] then ''/'' else mc_path c),
         rq_headers = [(''Mcp-Session-Id'', mc_session c)] @ bearer (mcp_api_key (mc_params c))
           @ (if mc_version c = [] then [] else [(''MCP-Protocol-Version'', mc_version c)]),
         rq_body = [], rq_timeout = mcp_timeout_sec (mc_params c)\<rparr> w))"

definition mcp_client_open :: "'w mcp_env \<Rightarrow> nat \<Rightarrow> mcp_client \<Rightarrow> 'w \<Rightarrow> (unit, 'w) mcp_outcome" where
  "mcp_client_open E fuel c w =
     (if mc_open c then Some (Inr (), c, w) else mcp_open_session_with E (mcp_exchange E fuel) c w)"

definition mcp_tool_definition :: "json_writer \<Rightarrow> json \<Rightarrow> llm_tool" where
  "mcp_tool_definition wr tool =
     (let name = json_text (yyjson_obj_get (Some tool) ''name'');
          description = yyjson_obj_get (Some tool) ''description''; schema = yyjson_obj_get (Some tool) ''inputSchema'';
          function_val = [(''name'', JStr name)]
            @ (if yyjson_is_str description then [(''description'', JStr (json_text description))] else [])
            @ [(''parameters'', case schema of Some s \<Rightarrow> s | None \<Rightarrow> JObj [])]
      in \<lparr>tool_name = name,
          tool_definition =
            (case wr (JObj [(''type'', JStr ''function''), (''function'', JObj function_val)]) of
               Some json \<Rightarrow> json | None \<Rightarrow> [])\<rparr>)"

text \<open>The loop over the pages of a list. A server may name a next page for ever: the pages have fuel.\<close>

fun mcp_pages ::
  "'w mcp_env \<Rightarrow> nat \<Rightarrow> nat \<Rightarrow> mcp_client \<Rightarrow> string \<Rightarrow> llm_tool list \<Rightarrow> 'w \<Rightarrow> (llm_tool list, 'w) mcp_outcome" where
  "mcp_pages E fuel 0 c cursor tools w = None"
| "mcp_pages E fuel (Suc pages) c cursor tools w =
     (let rid = mc_next_id c; c = c\<lparr>mc_next_id := rid + 1\<rparr>;
          params = (if cursor = [] then [] else [(''cursor'', JStr cursor)])
      in mcp_then (mcp_request_with E (mcp_exchange E fuel) c ''tools/list'' rid params w) (\<lambda>result c w.
           let listed = map (mcp_tool_definition (me_wr E)) (arr_items (yyjson_obj_get (Some result) ''tools''));
               tools = tools @ filter (\<lambda>t. tool_name t \<noteq> []) listed;
               cursor = json_text (yyjson_obj_get (Some result) ''nextCursor'')
           in if cursor = [] then Some (Inr tools, c, w) else mcp_pages E fuel pages c cursor tools w))"

definition mcp_client_tools :: "'w mcp_env \<Rightarrow> nat \<Rightarrow> mcp_client \<Rightarrow> 'w \<Rightarrow> (llm_tool list, 'w) mcp_outcome" where
  "mcp_client_tools E fuel c w =
     mcp_then (mcp_client_open E fuel c w) (\<lambda>_ c w. mcp_pages E fuel fuel c [] [] w)"

text \<open>The text items of a content, joined by newlines.\<close>

definition join_text :: "json list \<Rightarrow> string" where
  "join_text items =
     foldl (\<lambda>result item.
       if json_text (yyjson_obj_get (Some item) ''type'') = ''text''
       then result @ (if result = [] then [] else [LF]) @ json_text (yyjson_obj_get (Some item) ''text'')
       else result) [] items"

definition mcp_client_call ::
  "'w mcp_env \<Rightarrow> nat \<Rightarrow> mcp_client \<Rightarrow> string \<Rightarrow> string \<Rightarrow> 'w \<Rightarrow> (string, 'w) mcp_outcome" where
  "mcp_client_call E fuel c name arguments w =
     mcp_then (mcp_client_open E fuel c w) (\<lambda>_ c w.
       let rid = mc_next_id c; c = c\<lparr>mc_next_id := rid + 1\<rparr>;
           params = [(''name'', JStr name), (''arguments'', if arguments = [] then JObj [] else JRaw (c_str arguments))]
       in mcp_then (mcp_request_with E (mcp_exchange E fuel) c ''tools/call'' rid params w) (\<lambda>val c w.
            let result = join_text (arr_items (yyjson_obj_get (Some val) ''content''));
                result = (case yyjson_obj_get (Some val) ''structuredContent'' of
                            Some structured \<Rightarrow>
                              if result = [] then (case me_wr E structured of Some json \<Rightarrow> json | None \<Rightarrow> []) else result
                          | None \<Rightarrow> result)
            in Some (Inr result, c, w)))"

section \<open>Event streams\<close>

lemma sse_dispatch_answers: "sse_dispatch rd rid data event = Some m \<Longrightarrow> \<exists>v. rd m = Some v \<and> mcp_answers v rid"
  by (auto simp: sse_dispatch_def split: if_splits option.splits)

lemma sse_loop_answers: "sse_loop rd rid body data event = Some m \<Longrightarrow> \<exists>v. rd m = Some v \<and> mcp_answers v rid"
proof (induction rd rid body data event rule: sse_loop.induct)
  case (1 rd rid body data event)
  define raw where "raw = takeWhile (\<lambda>c. c \<noteq> LF) body"
  define rest where "rest = drop (length raw + 1) body"
  show ?case
  proof (cases "body = []")
    case True
    then show ?thesis using "1.prems" sse_dispatch_answers by (subst (asm) sse_loop.simps) simp
  next
    case False
    note IH = "1.IH" [OF False raw_def rest_def refl]
    show ?thesis
      using "1.prems" unfolding sse_loop.simps [of rd rid body] Let_def raw_def [symmetric] rest_def [symmetric] if_not_P [OF False]
      using IH sse_dispatch_answers by (auto split: if_splits option.splits)
  qed
qed

text \<open>Whatever bytes a server sends, the message an exchange accepts is JSON that carries the id of
  the request: a notification, a request of the server or the answer to another request is never
  taken for the answer.\<close>

theorem accepted_message_answers:
  "(case mcp_sse_response rd body rid of None \<Rightarrow> True | Some m \<Rightarrow> (case rd m of None \<Rightarrow> False | Some v \<Rightarrow> mcp_answers v rid)) \<and>
   (case mcp_json_response rd (\<lambda>_. None) body rid of None \<Rightarrow> True | Some m \<Rightarrow>
      (case rd body of None \<Rightarrow> False | Some v \<Rightarrow> mcp_answers v rid \<and> m = body \<or> list_ex (\<lambda>i. mcp_answers i rid) (arr_items (Some v))))"
proof
  show "case mcp_sse_response rd body rid of None \<Rightarrow> True | Some m \<Rightarrow> (case rd m of None \<Rightarrow> False | Some v \<Rightarrow> mcp_answers v rid)"
    using sse_loop_answers [of rd rid body "[]" "[]"] by (auto simp: mcp_sse_response_def split: option.split)
  have *: "list_ex p xs" if "filter p xs = y # ys" for p :: "json \<Rightarrow> bool" and xs y ys
    using that by (metis filter_eq_Cons_iff list_ex_iff in_set_conv_decomp)
  show "case mcp_json_response rd (\<lambda>_. None) body rid of None \<Rightarrow> True | Some m \<Rightarrow>
      (case rd body of None \<Rightarrow> False | Some v \<Rightarrow> mcp_answers v rid \<and> m = body \<or> list_ex (\<lambda>i. mcp_answers i rid) (arr_items (Some v)))"
    by (auto simp: mcp_json_response_def dest: * split: option.split list.split)
qed

text \<open>A message event as a server writes it: its data over one or more lines, then an empty line.\<close>

definition sse_event :: "string list \<Rightarrow> string" where
  "sse_event ls = concat (map (\<lambda>l. ''data: '' @ l @ [LF]) ls) @ [LF]"

fun join_lines :: "string list \<Rightarrow> string" where
  "join_lines [] = []"
| "join_lines [l] = l"
| "join_lines (l # ls) = l @ [LF] @ join_lines ls"

definition line_ok :: "string \<Rightarrow> bool" where
  "line_ok l \<longleftrightarrow> l \<noteq> [] \<and> LF \<notin> set l \<and> last l \<noteq> CR"

lemma sse_loop_line:
  assumes "LF \<notin> set raw"
  shows "sse_loop rd rid (raw @ LF # rest) data event =
    (let line = strip_cr raw in
     if line = [] then
       (case sse_dispatch rd rid data event of Some message \<Rightarrow> Some message | None \<Rightarrow> sse_loop rd rid rest [] [])
     else if take 5 line = ''data:'' then
       sse_loop rd rid rest
         (data @ (if data = [] then [] else [LF]) @ drop (if 5 < length line \<and> line ! 5 = SPC then 6 else 5) line) event
     else if take 6 line = ''event:'' then
       sse_loop rd rid rest data (drop (if 6 < length line \<and> line ! 6 = SPC then 7 else 6) line)
     else sse_loop rd rid rest data event)"
proof -
  have "takeWhile (\<lambda>c. c \<noteq> LF) (raw @ LF # rest) = raw"
    using assms by (subst takeWhile_append2) auto
  moreover have "drop (length raw + 1) (raw @ LF # rest) = rest" "(raw @ LF # rest = []) = False" by simp_all
  ultimately show ?thesis by (subst sse_loop.simps) (simp only: Let_def if_False)
qed

lemma sse_loop_data:
  assumes "line_ok l"
  shows "sse_loop rd rid (''data: '' @ l @ LF # rest) data event =
    sse_loop rd rid rest (if data = [] then l else data @ [LF] @ l) event"
  using assms sse_loop_line [of "''data: '' @ l" rd rid rest data event] by (simp add: line_ok_def strip_cr_def)

lemma sse_loop_lines:
  "list_all line_ok ls \<Longrightarrow> sse_loop rd rid (concat (map (\<lambda>l. ''data: '' @ l @ [LF]) ls) @ rest) data event =
   sse_loop rd rid rest (if ls = [] then data else if data = [] then join_lines ls else data @ [LF] @ join_lines ls) event"
proof (induction ls arbitrary: data)
  case (Cons l ls)
  then have l: "line_ok l" "l \<noteq> []" by (simp_all add: line_ok_def)
  show ?case
    using Cons.IH [of "if data = [] then l else data @ [LF] @ l"] Cons.prems l
    by (cases ls) (simp_all add: sse_loop_data [OF l(1), simplified])
qed simp

lemma sse_loop_event:
  "ls \<noteq> [] \<Longrightarrow> list_all line_ok ls \<Longrightarrow> sse_loop rd rid (sse_event ls @ rest) [] [] =
   (case sse_dispatch rd rid (join_lines ls) [] of Some m \<Rightarrow> Some m | None \<Rightarrow> sse_loop rd rid rest [] [])"
  using sse_loop_lines [of ls rd rid "LF # rest" "[]" "[]"] sse_loop_line [of "[]" rd rid rest "join_lines ls" "[]"]
  by (simp add: sse_event_def strip_cr_def)

text \<open>An event stream is read to the response of the request: of the messages a server sends, each
  over as many data lines as it likes, the exchange takes the first that answers its request, with
  its lines joined, and finds none exactly when none does.\<close>

theorem sse_finds_the_response:
  assumes "list_all (\<lambda>ls. ls \<noteq> [] \<and> list_all line_ok ls) events"
  shows "mcp_sse_response rd (concat (map sse_event events)) rid =
    List.find (\<lambda>m. case rd m of None \<Rightarrow> False | Some v \<Rightarrow> mcp_answers v rid) (map join_lines events)"
proof -
  have nonempty: "join_lines ls \<noteq> []" if "ls \<noteq> []" "list_all line_ok ls" for ls
    using that by (cases ls rule: join_lines.cases) (auto simp: line_ok_def)
  have "sse_loop rd rid (concat (map sse_event events)) [] [] =
    List.find (\<lambda>m. case rd m of None \<Rightarrow> False | Some v \<Rightarrow> mcp_answers v rid) (map join_lines events)"
    using assms
  proof (induction events)
    case Nil
    then show ?case by (subst sse_loop.simps) (simp add: sse_dispatch_def)
  next
    case (Cons ls events)
    then show ?case
      using nonempty [of ls] by (auto simp: sse_loop_event sse_dispatch_def split: option.split)
  qed
  then show ?thesis by (simp add: mcp_sse_response_def)
qed

lemma sse_finds_the_response_witness:
  "mcp_sse_response (\<lambda>m. Some (JObj [(''id'', JInt (int (length m)))])) (sse_event [''{}''] @ sse_event [''ab'', ''cd''] @ []) 5 =
   Some (''ab'' @ [LF] @ ''cd'')"
  using sse_finds_the_response [of "[[''{}''], [''ab'', ''cd'']]" "\<lambda>m. Some (JObj [(''id'', JInt (int (length m)))])" 5]
  by (simp add: line_ok_def mcp_answers_def yyjson_is_int_def yyjson_get_sint_def)

section \<open>Exchanges that return\<close>

definition never_404 :: "'w network \<Rightarrow> bool" where
  "never_404 net \<longleftrightarrow> (\<forall>rq w. case an_end (net_request net rq w) of Responded r \<Rightarrow> rs_status r \<noteq> 404 | _ \<Rightarrow> True)"

lemma exchange_returns:
  assumes "never_404 (me_net E)"
  shows "mcp_exchange E (Suc fuel) c request rid retry w \<noteq> None"
proof -
  define a where "a = net_request (me_net E) (mcp_http_request c request) w"
  have "case an_end a of Responded r \<Rightarrow> rs_status r \<noteq> 404 | _ \<Rightarrow> True"
    using assms by (auto simp: never_404_def a_def)
  then show ?thesis
    by (cases "an_end a") (auto simp: mcp_exchange.simps http_send_def Let_def a_def [symmetric])
qed

lemma mcp_then_returns: "o1 \<noteq> None \<Longrightarrow> (\<And>v c w. k v c w \<noteq> None) \<Longrightarrow> mcp_then o1 k \<noteq> None"
  by (cases o1) (auto simp: mcp_then_def split: sum.split)

lemma request_returns:
  assumes "never_404 (me_net E)"
  shows "mcp_request_with E (mcp_exchange E (Suc fuel)) c method rid params w \<noteq> None"
  unfolding mcp_request_with_def
  by (rule mcp_then_returns [OF exchange_returns [OF assms]]) (auto simp: Let_def split: option.split)

lemma open_session_returns:
  assumes "never_404 (me_net E)"
  shows "mcp_open_session_with E (mcp_exchange E (Suc fuel)) c w \<noteq> None"
proof -
  have ready: "mcp_then (mcp_exchange E (Suc fuel) c req 0 True w) (\<lambda>_ c w. Some (Inr (), c\<lparr>mc_open := True\<rparr>, w)) \<noteq> None"
    for c req w
    by (rule mcp_then_returns [OF exchange_returns [OF assms]]) simp
  show ?thesis
    unfolding mcp_open_session_with_def Let_def
    by (rule mcp_then_returns [OF request_returns [OF assms]]) (use ready in auto)
qed

lemma client_open_returns:
  "never_404 (me_net E) \<Longrightarrow> mcp_client_open E (Suc fuel) c w \<noteq> None"
  by (cases "mc_open c") (simp_all add: mcp_client_open_def open_session_returns del: not_None_eq)


definition refusing_server :: "unit network" where
  "refusing_server =
     \<lparr>net_open = (\<lambda>_. True),
      net_request = (\<lambda>_ _. \<lparr>an_chunks = [], an_after = id, an_end = Responded \<lparr>rs_status = 500, rs_headers = [], rs_body = []\<rparr>,
                             an_silent = False\<rparr>)\<rparr>"

definition mcp_client_sample :: mcp_client where
  "mcp_client_sample =
     \<lparr>mc_params = mcp_server_params_default, mc_host = ''http://h'', mc_path = ''/mcp'', mc_session = ''s'', mc_version = [],
      mc_server_name = [], mc_next_id = 1, mc_open = True\<rparr>"


text \<open>A server that keeps answering 404 and names a session each time.\<close>

definition forgetful_server :: "'w network" where
  "forgetful_server =
     \<lparr>net_open = (\<lambda>_. True),
      net_request = (\<lambda>_ _. \<lparr>an_chunks = [], an_after = id,
        an_end = Responded \<lparr>rs_status = 404, rs_headers = [(''Mcp-Session-Id'', ''s'')], rs_body = []\<rparr>, an_silent = False\<rparr>)\<rparr>"

text \<open>The retry of a forgotten session is not bounded: the exchanges that open the new session may
  retry in their turn. Against a server whose 404 names a session, an exchange never returns, for no
  amount of fuel, where the comment of \<open>mcp_exchange\<close> promises one retry.\<close>

theorem forgotten_session_retries_forever:
  "mcp_exchange \<lparr>me_rd = rd, me_wr = wr, me_net = forgetful_server, me_cancel = (\<lambda>_. False), me_build = build\<rparr>
     fuel c request rid True w = None"
proof (induction fuel arbitrary: c request rid w)
  case 0
  then show ?case by (simp add: mcp_exchange.simps)
next
  case (Suc fuel)
  then show ?case
    by (simp add: mcp_exchange.simps(2) http_send_def forgetful_server_def http_header_def Let_def
        mcp_open_session_with_def mcp_request_with_def mcp_then_def)
qed

end
