(* ===== verification/Agent.thy ===== *)
theory Agent
  imports Llm_Client Mcp_Client
begin

text \<open>
  \<open>src/llm-agent.h\<close> and \<open>src/llm-agent.cpp\<close>: the tools a session may use and the rounds of a turn. The
  agent is the list of its MCP clients, NULL for a server that cannot be reached; every call threads
  it. A call on an MCP server may not return (\<open>Mcp_Client\<close>), so what calls one is an option.
\<close>

section \<open>Data\<close>

definition LLM_AGENT_BUILTIN :: string where "LLM_AGENT_BUILTIN = ''built-in''"

text \<open>A tool the process runs itself: its reason or its result.\<close>

record 'w llm_agent_builtin =
  bt_tool :: llm_tool
  bt_fn :: "string \<Rightarrow> 'w \<Rightarrow> (string + string) \<times> 'w"

text \<open>What runs a tool: a builtin or an MCP client, by its place, or the endpoint.\<close>

datatype tool_server = By_Builtin nat | By_Mcp nat | By_Endpoint

record LlmAgentTool =
  at_tool :: llm_tool
  at_server :: tool_server

type_synonym llm_agent = "mcp_client option list"

record llm_agent_group =
  gr_url :: string
  gr_name :: string
  gr_tools :: "string list"

record LlmAgentCall =
  ac_id :: string
  ac_name :: string
  ac_arguments :: string

text \<open>\<open>llm_agent_call_cb\<close>: the name, whether the call is over, whether it went well, its ms, its bytes.\<close>

type_synonym 'w llm_agent_call_cb = "string \<Rightarrow> bool \<Rightarrow> bool \<Rightarrow> f64 \<Rightarrow> nat \<Rightarrow> 'w \<Rightarrow> 'w"

text \<open>The environment of an MCP client, and the timer: the ms between two states of the world.\<close>

record 'w agent_env =
  ae_mcp :: "'w mcp_env"
  ae_ms :: "'w \<Rightarrow> 'w \<Rightarrow> f64"

abbreviation "ae_rd E \<equiv> me_rd (ae_mcp E)"
abbreviation "ae_wr E \<equiv> me_wr (ae_mcp E)"
abbreviation "ae_net E \<equiv> me_net (ae_mcp E)"
abbreviation "ae_cancel E \<equiv> me_cancel (ae_mcp E)"

definition llm_agent_new :: "'w network \<Rightarrow> mcp_server_params list \<Rightarrow> llm_agent" where
  "llm_agent_new net servers =
     map (\<lambda>server. case mcp_client_new net server of Inl _ \<Rightarrow> None | Inr c \<Rightarrow> Some c) servers"

definition llm_agent_free :: "'w network \<Rightarrow> llm_agent \<Rightarrow> 'w \<Rightarrow> 'w" where
  "llm_agent_free net agent w =
     foldl (\<lambda>w client. case client of None \<Rightarrow> w | Some c \<Rightarrow> mcp_client_free net c w) w agent"

section \<open>The tools of a session\<close>

definition add_tool :: "LlmAgentTool list \<Rightarrow> llm_tool \<Rightarrow> tool_server \<Rightarrow> LlmAgentTool list" where
  "add_tool tools tool server =
     (if list_ex (\<lambda>known. tool_name (at_tool known) = tool_name tool) tools then tools
      else tools @ [\<lparr>at_tool = tool, at_server = server\<rparr>])"

definition add_tools :: "LlmAgentTool list \<Rightarrow> llm_tool list \<Rightarrow> tool_server \<Rightarrow> LlmAgentTool list" where
  "add_tools tools listed server = foldl (\<lambda>tools tool. add_tool tools tool server) tools listed"

definition builtin_tools :: "'w llm_agent_builtin list \<Rightarrow> LlmAgentTool list" where
  "builtin_tools builtins =
     foldl (\<lambda>tools (i, b). add_tool tools (bt_tool b) (By_Builtin i)) [] (enumerate 0 builtins)"

text \<open>The loop over the MCP clients, from the \<open>i\<close>-th on; \<open>slot\<close> is the error slot of the thread.
  \<open>Inl\<close> is the return on a cancellation.\<close>

fun gather_mcp ::
  "'w agent_env \<Rightarrow> nat \<Rightarrow> nat \<Rightarrow> llm_agent \<Rightarrow> LlmAgentTool list \<Rightarrow> string \<Rightarrow> 'w
     \<Rightarrow> ((string + LlmAgentTool list) \<times> llm_agent \<times> 'w) option" where
  "gather_mcp E fuel i [] tools slot w = Some (Inr tools, [], w)"
| "gather_mcp E fuel i (None # clients) tools slot w =
     (if ae_cancel E w then Some (Inl slot, None # clients, w)
      else map_option (\<lambda>(r, rest, w). (r, None # rest, w)) (gather_mcp E fuel (i + 1) clients tools slot w))"
| "gather_mcp E fuel i (Some client # clients) tools slot w =
     (case mcp_client_tools (ae_mcp E) fuel client w of
        None \<Rightarrow> None
      | Some (Inl err, client, w) \<Rightarrow>
          if ae_cancel E w then Some (Inl err, Some client # clients, w)
          else map_option (\<lambda>(r, rest, w). (r, Some client # rest, w)) (gather_mcp E fuel (i + 1) clients tools err w)
      | Some (Inr listed, client, w) \<Rightarrow>
          map_option (\<lambda>(r, rest, w). (r, Some client # rest, w))
            (gather_mcp E fuel (i + 1) clients (add_tools tools listed (By_Mcp i)) slot w))"

definition llm_agent_gather ::
  "'w agent_env \<Rightarrow> nat \<Rightarrow> llm_agent \<Rightarrow> 'w llm_agent_builtin list \<Rightarrow> llm_client_params \<Rightarrow> string \<Rightarrow> 'w
     \<Rightarrow> ((string + LlmAgentTool list) \<times> llm_agent \<times> 'w) option" where
  "llm_agent_gather E fuel agent builtins params slot w =
     (case gather_mcp E fuel 0 agent (builtin_tools builtins) slot w of
        None \<Rightarrow> None
      | Some (Inl err, agent, w) \<Rightarrow> Some (Inl err, agent, w)
      | Some (Inr tools, agent, w) \<Rightarrow>
          (case llm_client_tools (ae_rd E) (ae_wr E) (ae_net E) params w of
             (Inr own, w) \<Rightarrow> Some (Inr (add_tools tools own By_Endpoint), agent, w)
           | (Inl err, w) \<Rightarrow>
               if agent = [] \<and> builtins = [] then Some (Inl err, agent, w) else Some (Inr tools, agent, w)))"

text \<open>The definitions of the checked tools as a JSON array, and how many there are.\<close>

definition llm_agent_definitions :: "LlmAgentTool list \<Rightarrow> string list \<Rightarrow> string \<times> nat" where
  "llm_agent_definitions tools enabled =
     (let (text, count) = foldl (\<lambda>(text, count) entry.
            if tool_name (at_tool entry) \<notin> set enabled then (text, count)
            else (text @ (if count \<noteq> 0 then '','' else []) @ tool_definition (at_tool entry), count + 1))
            (''['', 0) tools
      in (text @ '']'', count))"

text \<open>The tool groups of the settings panel.\<close>

definition tool_group :: "llm_agent \<Rightarrow> LlmAgentTool \<Rightarrow> string \<times> string" where
  "tool_group agent entry =
     (case at_server entry of
        By_Builtin _ \<Rightarrow> ([], LLM_AGENT_BUILTIN)
      | By_Mcp i \<Rightarrow> (case agent ! i of Some c \<Rightarrow> (c_str (mcp_url (mc_params c)), c_str (mc_server_name c)) | None \<Rightarrow> ([], []))
      | By_Endpoint \<Rightarrow> ([], ''llama.cpp''))"

definition add_to_group :: "llm_agent \<Rightarrow> llm_agent_group list \<Rightarrow> LlmAgentTool \<Rightarrow> llm_agent_group list" where
  "add_to_group agent groups entry =
     (let (url, name) = tool_group agent entry;
          groups = (if groups = [] \<or> gr_url (last groups) \<noteq> url \<or> gr_name (last groups) \<noteq> name
                    then groups @ [\<lparr>gr_url = url, gr_name = name, gr_tools = []\<rparr>] else groups);
          g = last groups
      in butlast groups @ [g\<lparr>gr_tools := gr_tools g @ [tool_name (at_tool entry)]\<rparr>])"

definition llm_agent_tools ::
  "'w agent_env \<Rightarrow> nat \<Rightarrow> llm_agent \<Rightarrow> 'w llm_agent_builtin list \<Rightarrow> llm_client_params \<Rightarrow> string \<Rightarrow> 'w
     \<Rightarrow> ((string + llm_agent_group list) \<times> llm_agent \<times> 'w) option" where
  "llm_agent_tools E fuel agent builtins params slot w =
     (case llm_agent_gather E fuel agent builtins params slot w of
        None \<Rightarrow> None
      | Some (Inl err, agent, w) \<Rightarrow> Some (Inl err, agent, w)
      | Some (Inr tools, agent, w) \<Rightarrow> Some (Inr (foldl (add_to_group agent) [] tools), agent, w))"

section \<open>Calls\<close>

definition llm_agent_call ::
  "'w agent_env \<Rightarrow> nat \<Rightarrow> LlmAgentTool list \<Rightarrow> llm_agent \<Rightarrow> 'w llm_agent_builtin list \<Rightarrow> llm_client \<Rightarrow> string \<Rightarrow> string
     \<Rightarrow> 'w \<Rightarrow> ((string + string) \<times> llm_agent \<times> 'w) option" where
  "llm_agent_call E fuel tools agent builtins c name arguments w =
     (case List.find (\<lambda>entry. tool_name (at_tool entry) = name) tools of
        None \<Rightarrow> Some (Inl (s2s_format (''[Agent] The model called '' @ c_str name @ '', a tool nobody offered'')), agent, w)
      | Some entry \<Rightarrow>
          (case at_server entry of
             By_Builtin i \<Rightarrow> (let (r, w) = bt_fn (builtins ! i) arguments w in Some (r, agent, w))
           | By_Mcp i \<Rightarrow>
               (case agent ! i of
                  Some client \<Rightarrow>
                    (case mcp_client_call (ae_mcp E) fuel client name arguments w of
                       None \<Rightarrow> None
                     | Some (r, client, w) \<Rightarrow> Some (r, agent[i := Some client], w))
                | None \<Rightarrow> Some (Inl [], agent, w))
           | By_Endpoint \<Rightarrow>
               (let (r, w) = llm_client_tool_call (ae_rd E) (ae_wr E) (ae_net E) c name arguments (ae_cancel E) w
                in Some (r, agent, w))))"

definition llm_agent_calls :: "json_reader \<Rightarrow> string \<Rightarrow> LlmAgentCall list" where
  "llm_agent_calls rd json =
     (case rd json of
        None \<Rightarrow> []
      | Some top_val \<Rightarrow>
          map (\<lambda>item. let function_val = yyjson_obj_get (Some item) ''function''
                      in \<lparr>ac_id = json_text (yyjson_obj_get (Some item) ''id''),
                          ac_name = json_text (yyjson_obj_get function_val ''name''),
                          ac_arguments = json_text (yyjson_obj_get function_val ''arguments'')\<rparr>)
            (arr_items (Some top_val)))"

section \<open>The tap\<close>

record LlmAgentTap =
  tap_separate :: bool
  tap_spaced :: bool

text \<open>The tap rides along the shared state while a round streams; nobody else touches it.\<close>

definition llm_agent_tap :: "'w llm_delta_cb \<Rightarrow> ('w \<times> LlmAgentTap) llm_delta_cb" where
  "llm_agent_tap cb delta st =
     (case st of (w, tap) \<Rightarrow>
        if tap_separate tap \<and> delta \<noteq> [] then
          let tap = tap\<lparr>tap_separate := False\<rparr> in
          if \<not> is_space (hd delta) then
            let tap = tap\<lparr>tap_spaced := True\<rparr>; (go, w) = cb [SPC] w
            in if \<not> go then (False, w, tap) else (let (go, w) = cb delta w in (go, w, tap))
          else (let (go, w) = cb delta w in (go, w, tap))
        else (let (go, w) = cb delta w in (go, w, tap)))"

definition tap_network :: "'w network \<Rightarrow> ('w \<times> 'p) network" where
  "tap_network net =
     \<lparr>net_open = net_open net,
      net_request = (\<lambda>rq (w, tap). let a = net_request net rq w in
        \<lparr>an_chunks = map (\<lambda>(others, data). (map_prod others id, data)) (an_chunks a),
         an_after = map_prod (an_after a) id, an_end = an_end a, an_silent = an_silent a\<rparr>)\<rparr>"

section \<open>A turn\<close>

definition tool_message :: "string \<Rightarrow> LlmAgentCall \<Rightarrow> llm_message" where
  "tool_message result call =
     \<lparr>msg_role = ''tool'', msg_content = result, msg_tool_calls = [], msg_tool_call_id = ac_id call\<rparr>"

definition HTTP_TIMER_SLACK_MS :: f64 where "HTTP_TIMER_SLACK_MS = 50"

text \<open>What the model reads of a call that failed.\<close>

definition failed_result :: "llm_client_params \<Rightarrow> string \<Rightarrow> f64 \<Rightarrow> string \<Rightarrow> string" where
  "failed_result params name ms err =
     (if of_int (lp_tool_timeout_sec params) * 1000 \<le> to_f64 (ms + HTTP_TIMER_SLACK_MS)
      then ''Error: '' @ name @ '' did not answer within '' @ int_str (lp_tool_timeout_sec params) @ '' s''
      else ''Error: '' @ c_str err)"

record 'w agent_run =
  ar_agent :: llm_agent
  ar_messages :: "llm_message list"
  ar_world :: 'w

text \<open>The calls of one answer, in their order. \<open>Inl\<close> is the return on a cancellation.\<close>

fun run_calls ::
  "'w agent_env \<Rightarrow> nat \<Rightarrow> LlmAgentTool list \<Rightarrow> 'w llm_agent_builtin list \<Rightarrow> llm_client \<Rightarrow> llm_client_params
     \<Rightarrow> 'w llm_agent_call_cb \<Rightarrow> LlmAgentCall list \<Rightarrow> 'w agent_run \<Rightarrow> ((string + unit) \<times> 'w agent_run) option" where
  "run_calls E fuel tools builtins c params on_call [] st = Some (Inr (), st)"
| "run_calls E fuel tools builtins c params on_call (call # calls) st =
     (let w0 = ar_world st; w = on_call (ac_name call) False False 0 0 w0 in
      case llm_agent_call E fuel tools (ar_agent st) builtins c (ac_name call) (ac_arguments call) w of
        None \<Rightarrow> None
      | Some (Inl err, agent, w) \<Rightarrow>
          let ms = ae_ms E w0 w; w = on_call (ac_name call) True False ms 0 w in
          if ae_cancel E w then Some (Inl err, st\<lparr>ar_agent := agent, ar_world := w\<rparr>)
          else run_calls E fuel tools builtins c params on_call calls
                 (st\<lparr>ar_agent := agent, ar_world := w,
                     ar_messages := ar_messages st @ [tool_message (failed_result params (ac_name call) ms err) call]\<rparr>)
      | Some (Inr result, agent, w) \<Rightarrow>
          let w = on_call (ac_name call) True True (ae_ms E w0 w) (length result) w in
          run_calls E fuel tools builtins c params on_call calls
            (st\<lparr>ar_agent := agent, ar_world := w, ar_messages := ar_messages st @ [tool_message result call]\<rparr>))"

text \<open>The rounds that are left. The outcome is the error, if any, the text and the client.\<close>

fun run_rounds ::
  "'w agent_env \<Rightarrow> nat \<Rightarrow> LlmAgentTool list \<Rightarrow> 'w llm_agent_builtin list \<Rightarrow> llm_client_params \<Rightarrow> int
     \<Rightarrow> 'w llm_delta_cb \<Rightarrow> 'w llm_agent_call_cb \<Rightarrow> nat \<Rightarrow> llm_client \<Rightarrow> string \<Rightarrow> 'w agent_run
     \<Rightarrow> (string option \<times> string \<times> llm_client \<times> 'w agent_run) option" where
  "run_rounds E fuel tools builtins params max_rounds cb on_call 0 c text st =
     Some (Some (s2s_format (''[Agent] The tools still had work to do after '' @ int_str max_rounds @ '' rounds'')),
           text, c, st)"
| "run_rounds E fuel tools builtins params max_rounds cb on_call (Suc rounds) c text st =
     (let tap = \<lparr>tap_separate = (text \<noteq> [] \<and> \<not> is_space (last text)), tap_spaced = False\<rparr>;
          (res, w, tap) = llm_client_stream (ae_rd E) (ae_wr E) (tap_network (ae_net E)) c (ar_messages st)
            (llm_agent_tap cb) (\<lambda>(w, _). ae_cancel E w) [] (ar_world st, tap);
          c = lr_client res; st = st\<lparr>ar_world := w\<rparr>
      in case lr_error res of
           Some err \<Rightarrow> Some (Some err, text, c, st)
         | None \<Rightarrow>
             let answer = lr_text res; text = text @ (if tap_spaced tap then SPC # answer else answer);
                 calls = llm_agent_calls (ae_rd E) (c_str (lc_tool_calls c))
             in if calls = [] then Some (None, text, c, st)
                else
                  let st = st\<lparr>ar_messages := ar_messages st @
                        [\<lparr>msg_role = ''assistant'', msg_content = answer, msg_tool_calls = c_str (lc_tool_calls c),
                          msg_tool_call_id = []\<rparr>]\<rparr>
                  in (case run_calls E fuel tools builtins c params on_call calls st of
                        None \<Rightarrow> None
                      | Some (Inl err, st) \<Rightarrow> Some (Some err, text, c, st)
                      | Some (Inr _, st) \<Rightarrow>
                          run_rounds E fuel tools builtins params max_rounds cb on_call rounds c text st))"

definition llm_agent_run ::
  "'w agent_env \<Rightarrow> nat \<Rightarrow> 'w llm_agent_builtin list \<Rightarrow> llm_client_params \<Rightarrow> string list \<Rightarrow> int \<Rightarrow> 'w llm_delta_cb
     \<Rightarrow> 'w llm_agent_call_cb \<Rightarrow> llm_client \<Rightarrow> string \<Rightarrow> string \<Rightarrow> 'w agent_run
     \<Rightarrow> (string option \<times> string \<times> llm_client \<times> 'w agent_run) option" where
  "llm_agent_run E fuel builtins params enabled max_rounds cb on_call c slot text st =
     (case llm_agent_gather E fuel (ar_agent st) builtins params slot (ar_world st) of
        None \<Rightarrow> None
      | Some (Inl err, agent, w) \<Rightarrow> Some (Some err, text, c, st\<lparr>ar_agent := agent, ar_world := w\<rparr>)
      | Some (Inr available, agent, w) \<Rightarrow>
          let st = st\<lparr>ar_agent := agent, ar_world := w\<rparr>;
              (definitions, count) = llm_agent_definitions available enabled;
              tooled = params\<lparr>lp_tools := (if count \<noteq> 0 then definitions else [])\<rparr>
          in (case llm_client_set_params (ae_net E) c tooled of
                Inl err \<Rightarrow> Some (Some err, text, c, st)
              | Inr c \<Rightarrow> run_rounds E fuel available builtins params max_rounds cb on_call (nat max_rounds) c [] st))"

section \<open>One server per tool\<close>

definition tool_names :: "LlmAgentTool list \<Rightarrow> string list" where
  "tool_names tools = map (\<lambda>entry. tool_name (at_tool entry)) tools"

text \<open>A list of tools grows: names stay distinct and what is there stays in front.\<close>

definition grows :: "LlmAgentTool list \<Rightarrow> LlmAgentTool list \<Rightarrow> bool" where
  "grows xs ys \<longleftrightarrow> prefix xs ys \<and> (distinct (tool_names xs) \<longrightarrow> distinct (tool_names ys))"

lemma grows_refl [simp]: "grows xs xs" and grows_trans: "grows xs ys \<Longrightarrow> grows ys zs \<Longrightarrow> grows xs zs"
  by (auto simp: grows_def intro: prefix_order.trans)

lemma grows_add_tool: "grows tools (add_tool tools tool server)"
  by (auto simp: grows_def add_tool_def tool_names_def list_ex_iff)

lemma grows_add_tools: "grows tools (add_tools tools listed server)"
proof (induction listed arbitrary: tools)
  case (Cons t listed)
  show ?case
    using grows_trans [OF grows_add_tool Cons.IH [of "add_tool tools t server"]] by (simp add: add_tools_def)
qed (simp add: add_tools_def)

lemma grows_builtin: "grows tools (foldl (\<lambda>tools (i, b). add_tool tools (bt_tool b) (By_Builtin i)) tools bs)"
proof (induction bs arbitrary: tools)
  case (Cons b bs)
  show ?case
    using grows_trans [OF grows_add_tool Cons.IH [of "add_tool tools (bt_tool (snd b)) (By_Builtin (fst b))"]]
    by (simp add: split_beta)
qed simp

lemma gather_mcp_grows: "gather_mcp E fuel i clients tools slot w = Some (Inr tools', agent, w') \<Longrightarrow> grows tools tools'"
proof (induction E fuel i clients tools slot w arbitrary: agent w' rule: gather_mcp.induct)
  case (3 E fuel i client clients tools slot w)
  then show ?case
    by (auto split: option.splits sum.splits if_splits) (blast intro: grows_trans grows_add_tools)
qed (auto split: if_splits)

text \<open>The tools a session may use have distinct names, so a call has one server, and the first server
  that offers a name keeps it: the tools of the process stay in front, whatever an MCP server or the
  endpoint lists after them.\<close>

theorem gathered_tools_distinct:
  "(case llm_agent_gather E fuel agent builtins params slot w of
      Some (Inr tools, _, _) \<Rightarrow> distinct (tool_names tools) \<and> prefix (builtin_tools builtins) tools
    | _ \<Rightarrow> True)"
proof -
  have own: "grows tools (add_tools tools own By_Endpoint)" for tools own by (rule grows_add_tools)
  have b: "distinct (tool_names (builtin_tools builtins))"
    using grows_builtin [of "[]" "enumerate 0 builtins"] by (simp add: grows_def builtin_tools_def tool_names_def)
  show ?thesis
    using b own gather_mcp_grows [of E fuel 0 agent "builtin_tools builtins" slot w]
    by (auto simp: llm_agent_gather_def grows_def split: option.splits sum.splits prod.splits
        intro: prefix_order.trans)
qed

section \<open>Every call is answered\<close>

text \<open>A round: the message of the assistant that asks for calls, then one result per call, in their
  order, each under the id it answers. A round that a cancellation cut short has the first of them.\<close>

definition round_part :: "json_reader \<Rightarrow> llm_message list \<Rightarrow> bool" where
  "round_part rd ms \<longleftrightarrow>
     (case ms of
        [] \<Rightarrow> True
      | m # results \<Rightarrow> msg_role m = ''assistant'' \<and> list_all (\<lambda>r. msg_role r = ''tool'') results \<and>
          prefix (map msg_tool_call_id results) (map ac_id (llm_agent_calls rd (msg_tool_calls m))))"

definition full_round :: "json_reader \<Rightarrow> llm_message list \<Rightarrow> bool" where
  "full_round rd ms \<longleftrightarrow>
     (case ms of
        [] \<Rightarrow> False
      | m # results \<Rightarrow> msg_role m = ''assistant'' \<and> results \<noteq> [] \<and> list_all (\<lambda>r. msg_role r = ''tool'') results \<and>
          map msg_tool_call_id results = map ac_id (llm_agent_calls rd (msg_tool_calls m)))"

lemma run_calls_results:
  "run_calls E fuel tools builtins c params on_call calls st = Some (out, st') \<Longrightarrow>
   \<exists>results. ar_messages st' = ar_messages st @ results \<and> list_all (\<lambda>r. msg_role r = ''tool'') results \<and>
     (case out of Inr _ \<Rightarrow> map msg_tool_call_id results = map ac_id calls
      | Inl _ \<Rightarrow> prefix (map msg_tool_call_id results) (map ac_id calls))"
proof (induction calls arbitrary: st)
  case (Cons call calls)
  define w where "w = on_call (ac_name call) False False 0 0 (ar_world st)"
  have step: ?case if again: "run_calls E fuel tools builtins c params on_call calls st1 = Some (out, st')"
    and msgs: "ar_messages st1 = ar_messages st @ [tool_message r call]" for st1 r
  proof -
    obtain results where "ar_messages st' = ar_messages st1 @ results" "list_all (\<lambda>r. msg_role r = ''tool'') results"
      "case out of Inr _ \<Rightarrow> map msg_tool_call_id results = map ac_id calls
       | Inl _ \<Rightarrow> prefix (map msg_tool_call_id results) (map ac_id calls)"
      using Cons.IH [OF again] by blast
    then show ?thesis
      using msgs by (intro exI [of _ "tool_message r call # results"]) (auto simp: tool_message_def split: sum.split)
  qed
  obtain res agent w1 where call: "llm_agent_call E fuel tools (ar_agent st) builtins c (ac_name call) (ac_arguments call) w =
      Some (res, agent, w1)"
    using Cons.prems by (auto simp: w_def Let_def split: option.splits)
  show ?case
  proof (cases res)
    case (Inr result)
    then show ?thesis using Cons.prems call by (auto simp: w_def Let_def intro: step)
  next
    case (Inl err)
    show ?thesis
    proof (cases "ae_cancel E (on_call (ac_name call) True False (ae_ms E (ar_world st) w1) 0 w1)")
      case True
      then show ?thesis using Cons.prems call Inl by (auto simp: w_def Let_def)
    next
      case False
      then show ?thesis using Cons.prems call Inl by (auto simp: w_def Let_def intro: step)
    qed
  qed
qed auto

lemma run_rounds_messages:
  "run_rounds E fuel tools builtins params max_rounds cb on_call rounds c text st = Some (err, text', c', st') \<Longrightarrow>
   \<exists>rs part. ar_messages st' = ar_messages st @ concat rs @ part \<and> list_all (full_round (ae_rd E)) rs \<and>
     length rs \<le> rounds \<and> round_part (ae_rd E) part \<and> (err = None \<longrightarrow> part = [] \<and> length rs < rounds)"
proof (induction rounds arbitrary: c "text" st)
  case 0
  then show ?case by (auto intro: exI [of _ "[]"] simp: round_part_def)
next
  case (Suc rounds)
  obtain res w tap where stream: "llm_client_stream (ae_rd E) (ae_wr E) (tap_network (ae_net E)) c (ar_messages st)
      (llm_agent_tap cb) (\<lambda>(w, _). ae_cancel E w) []
      (ar_world st, \<lparr>tap_separate = (text \<noteq> [] \<and> \<not> is_space (last text)), tap_spaced = False\<rparr>) = (res, w, tap)"
    using prod_cases3 by blast
  define calls where "calls = llm_agent_calls (ae_rd E) (c_str (lc_tool_calls (lr_client res)))"
  define asked where "asked = \<lparr>msg_role = ''assistant'', msg_content = lr_text res,
      msg_tool_calls = c_str (lc_tool_calls (lr_client res)), msg_tool_call_id = []\<rparr>"
  define st1 where "st1 = st\<lparr>ar_world := w, ar_messages := ar_messages st @ [asked]\<rparr>"
  show ?case
  proof (cases "lr_error res = None \<and> calls \<noteq> []")
    case False
    then show ?thesis
      using Suc.prems stream
      by (auto simp: calls_def Let_def split: option.splits intro!: exI [of _ "[]"] simp: round_part_def)
  next
    case True
    then obtain out st2 where run: "run_calls E fuel tools builtins (lr_client res) params on_call calls st1 = Some (out, st2)"
      using Suc.prems stream by (auto simp: calls_def st1_def asked_def Let_def split: option.splits)
    obtain results where r: "ar_messages st2 = ar_messages st1 @ results" "list_all (\<lambda>r. msg_role r = ''tool'') results"
      "case out of Inr _ \<Rightarrow> map msg_tool_call_id results = map ac_id calls
       | Inl _ \<Rightarrow> prefix (map msg_tool_call_id results) (map ac_id calls)"
      using run_calls_results [OF run] by blast
    show ?thesis
    proof (cases out)
      case (Inl e)
      then have "err \<noteq> None" "st' = st2"
        using Suc.prems stream True run by (auto simp: calls_def st1_def asked_def Let_def)
      moreover have "round_part (ae_rd E) (asked # results)"
        using r Inl by (simp add: round_part_def asked_def calls_def)
      ultimately show ?thesis
        using r(1) by (intro exI [of _ "[]"] exI [of _ "asked # results"]) (simp add: st1_def)
    next
      case (Inr u)
      obtain text2 where rest: "run_rounds E fuel tools builtins params max_rounds cb on_call rounds (lr_client res) text2 st2 =
          Some (err, text', c', st')"
        using Suc.prems stream True run Inr by (auto simp: calls_def st1_def asked_def Let_def)
      have "map msg_tool_call_id results = map ac_id calls" using r(3) Inr by simp
      then have "full_round (ae_rd E) (asked # results)"
        using r(2) True by (auto simp: full_round_def asked_def calls_def)
      moreover obtain rs part where "ar_messages st' = ar_messages st2 @ concat rs @ part"
        "list_all (full_round (ae_rd E)) rs" "length rs \<le> rounds" "round_part (ae_rd E) part"
        "err = None \<longrightarrow> part = [] \<and> length rs < rounds"
        using Suc.IH [OF rest] by blast
      ultimately show ?thesis
        using r(1) by (intro exI [of _ "(asked # results) # rs"] exI [of _ part]) (simp add: st1_def)
    qed
  qed
qed


end
