(* ===== verification/Tts_Bridge.thy ===== *)
theory Tts_Bridge
  imports Settings "HOL-Library.List_Lexorder"
begin

text \<open>
  \<open>src/tts-bridge.h\<close> and \<open>src/tts-bridge.cpp\<close>: the voices, the request of one synthesis and its
  outcome. The talker is the qwentts submodule, not under \<open>src/\<close>: what it knows of itself and how it
  answers a synthesis are parameters. The files of the voices directory are read into a record.
\<close>

section \<open>Voices\<close>

text \<open>The files of one voice: the bytes of its \<open>.spk\<close>, whether its \<open>.rvq\<close> and \<open>.txt\<close> exist, what reading
  them gives; a file that cannot be read or is empty is \<^const>\<open>None\<close>.\<close>

record voice_files =
  vf_spk :: "string option"
  vf_has_rvq :: bool
  vf_has_txt :: bool
  vf_rvq :: "(int list \<times> int) option"
  vf_txt :: "string option"

record TtsVoice =
  tv_name :: string
  tv_spk :: string
  tv_codes :: "int list"
  tv_n_frames :: int
  tv_text :: string

record TtsVoiceEntry =
  te_label :: string
  te_voice :: nat
  te_reference :: bool

record tts_bridge =
  tb_voices :: "TtsVoice list"
  tb_entries :: "TtsVoiceEntry list"
  tb_labels :: "string list"
  tb_languages :: "string list"
  tb_defaults :: tts_request
  tb_sampling_defaults :: tts_sampling

definition tts_error :: "string \<Rightarrow> string" where
  "tts_error text = take 1023 text"

definition tts_bridge_load_voice :: "string \<Rightarrow> voice_files \<Rightarrow> string + TtsVoice" where
  "tts_bridge_load_voice name files =
     (case vf_spk files of
        None \<Rightarrow> Inl (tts_error (''[TTS] Voice '' @ name @ '' is not a float embedding''))
      | Some bytes \<Rightarrow>
          if length bytes mod 4 \<noteq> 0 then Inl (tts_error (''[TTS] Voice '' @ name @ '' is not a float embedding''))
          else
            let voice = \<lparr>tv_name = name, tv_spk = bytes, tv_codes = [], tv_n_frames = 0, tv_text = []\<rparr> in
            if vf_has_rvq files \<noteq> vf_has_txt files then
              Inl (tts_error (''[TTS] Voice '' @ name @ '' needs both its .rvq and its .txt, or neither''))
            else if \<not> vf_has_rvq files then Inr voice
            else (case vf_rvq files of
                None \<Rightarrow> Inl (tts_error (''[TTS] Voice '' @ name @ '' has an unreadable .rvq''))
              | Some (codes, n_frames) \<Rightarrow>
                  (case vf_txt files of
                     None \<Rightarrow> Inl (tts_error (''[TTS] Voice '' @ name @ '' has an empty .txt''))
                   | Some text \<Rightarrow>
                       Inr (voice\<lparr>tv_codes := codes, tv_n_frames := n_frames,
                                  tv_text := pop_back_while (\<lambda>c. byte_of c \<le> 32) text\<rparr>))))"

text \<open>The labels of one voice: its reference speech first, when it has one.\<close>

definition voice_entries :: "nat \<Rightarrow> TtsVoice \<Rightarrow> TtsVoiceEntry list" where
  "voice_entries index voice =
     (if tv_codes voice = [] then []
      else [\<lparr>te_label = tv_name voice @ '' (original accent)'', te_voice = index, te_reference = True\<rparr>])
     @ [\<lparr>te_label = tv_name voice @ '' (timbre only)'', te_voice = index, te_reference = False\<rparr>]"

fun load_voices_loop ::
  "(string \<times> voice_files) list \<Rightarrow> TtsVoice list \<Rightarrow> TtsVoiceEntry list \<Rightarrow> string + (TtsVoice list \<times> TtsVoiceEntry list)" where
  "load_voices_loop [] voices entries = Inr (voices, entries)"
| "load_voices_loop ((name, files) # rest) voices entries =
     (case tts_bridge_load_voice name files of
        Inl err \<Rightarrow> Inl err
      | Inr voice \<Rightarrow> load_voices_loop rest (voices @ [voice]) (entries @ voice_entries (length voices) voice))"

text \<open>The \<open>.spk\<close> files of the directory by the order of their paths.\<close>

definition tts_bridge_load_voices ::
  "string \<Rightarrow> (string \<times> voice_files) list \<Rightarrow> string + (TtsVoice list \<times> TtsVoiceEntry list)" where
  "tts_bridge_load_voices dir files =
     (if files = [] then Inl (tts_error (''[TTS] No .spk voice in '' @ dir))
      else load_voices_loop (sort_key (\<lambda>(name, _). map byte_of (name @ ''.spk'')) files) [] [])"

definition tts_bridge_find_voice :: "tts_bridge \<Rightarrow> string \<Rightarrow> TtsVoiceEntry option" where
  "tts_bridge_find_voice b label = List.find (\<lambda>entry. te_label entry = label) (tb_entries b)"

text \<open>What the talker says of itself: whether it is a base one, its languages, its sampling.\<close>

record qt_model =
  qm_type :: string
  qm_languages :: "string list"
  qm_sampling :: tts_sampling
  qm_tokens :: "f32 \<Rightarrow> int"

definition tts_bridge_load ::
  "(string + qt_model) \<Rightarrow> string \<Rightarrow> string \<Rightarrow> string \<Rightarrow> (string \<times> voice_files) list \<Rightarrow> tts_sampling \<Rightarrow> tts_guards
     \<Rightarrow> string + tts_bridge" where
  "tts_bridge_load init talker_path codec_path dir files sampling guards =
     (if talker_path = [] \<or> codec_path = [] then Inl (tts_error ''[TTS] Talker or codec path is empty'')
      else case init of
          Inl err \<Rightarrow> Inl (tts_error (''[TTS] '' @ err))
        | Inr model \<Rightarrow>
            if qm_type model \<noteq> ''base'' then
              Inl (tts_error (''[TTS] The talker is '' @ qm_type model @ '', the voices need a base one''))
            else (case tts_bridge_load_voices dir files of
                Inl err \<Rightarrow> Inl err
              | Inr (voices, entries) \<Rightarrow>
                  let labels = map te_label entries in
                  Inr \<lparr>tb_voices = voices, tb_entries = entries, tb_labels = labels,
                       tb_languages = qm_languages model,
                       tb_defaults = tts_request_default\<lparr>tr_sampling := sampling, tr_guards := guards,
                         tr_voice := hd labels, tr_language := ''auto''\<rparr>,
                       tb_sampling_defaults = qm_sampling model\<rparr>))"

section \<open>One synthesis\<close>

definition tts_bridge_budget :: "qt_model \<Rightarrow> tts_bridge \<Rightarrow> tts_request \<Rightarrow> nat \<Rightarrow> int" where
  "tts_bridge_budget model b request n_chars =
     (let seconds = to_f32 (to_f32 (to_f32 (of_nat n_chars) / tg_chars_per_second (tr_guards request))
            + tg_margin_seconds (tr_guards request));
          frames = qm_tokens model seconds;
          maximum = (if 0 < ts_max_new_tokens (tr_sampling request) then ts_max_new_tokens (tr_sampling request)
                     else ts_max_new_tokens (tb_sampling_defaults b))
      in if frames < maximum then frames else maximum)"

definition tts_bridge_language :: "tts_bridge \<Rightarrow> tts_request \<Rightarrow> string" where
  "tts_bridge_language b request =
     (let language = (if tr_language request = [] then tr_language (tb_defaults b) else tr_language request) in
      if language \<noteq> ''auto'' then language
      else case List.find (\<lambda>name. name \<in> set (tb_languages b)) (tr_browser_languages request) of
          Some name \<Rightarrow> name
        | None \<Rightarrow> language)"

record qt_tts_params =
  qp_text :: string
  qp_lang :: "string option"
  qp_spk :: string
  qp_reference :: "(int list \<times> int \<times> string) option"
  qp_sampling :: tts_sampling

text \<open>A seed that is not set is drawn: two draws of the hardware, 53 bits kept.\<close>

definition drawn_seed :: "32 word \<Rightarrow> 32 word \<Rightarrow> int" where
  "drawn_seed hi lo = uint (drop_bit 11 (push_bit 32 (ucast hi) XOR ucast lo :: 64 word))"

definition speak_sampling :: "qt_model \<Rightarrow> tts_bridge \<Rightarrow> tts_request \<Rightarrow> int \<Rightarrow> nat \<Rightarrow> tts_sampling" where
  "speak_sampling model b request draw n_chars =
     (let s = tr_sampling request; d = qm_sampling model;
          keep = (\<lambda>v fallback :: rat. if 0 \<le> v then v else fallback);
          keepi = (\<lambda>v fallback :: int. if 0 \<le> v then v else fallback)
      in \<lparr>ts_temperature = keep (ts_temperature s) (ts_temperature d),
          ts_top_k = keepi (ts_top_k s) (ts_top_k d), ts_top_p = keep (ts_top_p s) (ts_top_p d),
          ts_repetition_penalty = keep (ts_repetition_penalty s) (ts_repetition_penalty d),
          ts_subtalker_temperature = keep (ts_subtalker_temperature s) (ts_subtalker_temperature d),
          ts_subtalker_top_k = keepi (ts_subtalker_top_k s) (ts_subtalker_top_k d),
          ts_subtalker_top_p = keep (ts_subtalker_top_p s) (ts_subtalker_top_p d),
          ts_max_new_tokens = tts_bridge_budget model b request n_chars,
          ts_seed = (if 0 \<le> ts_seed s then ts_seed s else draw)\<rparr>)"

datatype qt_status = QT_STATUS_OK | QT_STATUS_CANCELLED | QT_STATUS_FAILED string

text \<open>The answer of the talker: its chunks, what other threads do before each and before the end, and
  its status. A chunk refused cancels the synthesis.\<close>

record 'w qt_run =
  qr_chunks :: "(('w \<Rightarrow> 'w) \<times> f32 list) list"
  qr_after :: "'w \<Rightarrow> 'w"
  qr_status :: qt_status

text \<open>The talker as a bridge sees it: the model, the syntheses, the hardware draw.\<close>

record 'w talker =
  tk_model :: qt_model
  tk_synthesize :: "qt_tts_params \<Rightarrow> 'w \<Rightarrow> 'w qt_run"
  tk_draw :: "'w \<Rightarrow> 32 word \<times> 32 word"

type_synonym 'w tts_chunk_cb = "f32 list \<Rightarrow> 'w \<Rightarrow> bool \<times> 'w"

definition tts_bridge_chunk :: "'w tts_chunk_cb \<Rightarrow> ('w \<Rightarrow> bool) \<Rightarrow> f32 list \<Rightarrow> 'w \<Rightarrow> bool \<times> 'w" where
  "tts_bridge_chunk cb cancel samples w = (if cancel w then (False, w) else cb samples w)"

fun tts_chunks ::
  "'w tts_chunk_cb \<Rightarrow> ('w \<Rightarrow> bool) \<Rightarrow> (('w \<Rightarrow> 'w) \<times> f32 list) list \<Rightarrow> 'w \<Rightarrow> bool \<times> 'w" where
  "tts_chunks cb cancel [] w = (True, w)"
| "tts_chunks cb cancel ((others, pcm) # rest) w =
     (let (go, w) = tts_bridge_chunk cb cancel pcm (others w) in if go then tts_chunks cb cancel rest w else (False, w))"

text \<open>How a synthesis ends: spoken, cancelled, which leaves the error slot alone, or failed.\<close>

datatype tts_outcome = Spoken | Tts_Cancelled | Tts_Failed string

definition tts_bridge_speak ::
  "'w talker \<Rightarrow> tts_bridge \<Rightarrow> string \<Rightarrow> tts_request \<Rightarrow> 'w tts_chunk_cb \<Rightarrow> ('w \<Rightarrow> bool) \<Rightarrow> 'w \<Rightarrow> tts_outcome \<times> 'w" where
  "tts_bridge_speak tk b text request cb cancel w =
     (if text = [] then (Tts_Failed (tts_error ''[TTS] Bridge is NULL or text is empty''), w)
      else if cancel w then (Tts_Cancelled, w)
      else
        let name = (if tr_voice request = [] then tr_voice (tb_defaults b) else tr_voice request) in
        case tts_bridge_find_voice b name of
          None \<Rightarrow> (Tts_Failed (tts_error (''[TTS] Unknown voice '' @ name)), w)
        | Some entry \<Rightarrow>
            let language = tts_bridge_language b request; voice = tb_voices b ! te_voice entry;
                (hi, lo) = tk_draw tk w;
                params = \<lparr>qp_text = text, qp_lang = (if language = ''auto'' then None else Some language),
                          qp_spk = tv_spk voice,
                          qp_reference = (if te_reference entry
                            then Some (tv_codes voice, tv_n_frames voice, tv_text voice) else None),
                          qp_sampling = speak_sampling (tk_model tk) b request (drawn_seed hi lo) (utf8_chars text)\<rparr>;
                run = tk_synthesize tk params w;
                (whole, w) = tts_chunks cb cancel (qr_chunks run) w; w = qr_after run w
            in (case (if whole then qr_status run else QT_STATUS_CANCELLED) of
                  QT_STATUS_CANCELLED \<Rightarrow> (Tts_Cancelled, w)
                | QT_STATUS_FAILED err \<Rightarrow> (Tts_Failed (tts_error (''[TTS] '' @ err)), w)
                | QT_STATUS_OK \<Rightarrow> (Spoken, w)))"

section \<open>Labels\<close>

lemma load_voices_entries:
  "load_voices_loop files voices entries = Inr (voices', entries') \<Longrightarrow>
   list_all (\<lambda>e. te_voice e < length voices \<and> te_reference e \<longrightarrow> tv_codes (voices ! te_voice e) \<noteq> []) entries \<Longrightarrow>
   list_all (\<lambda>e. te_voice e < length voices) entries \<Longrightarrow>
   list_all (\<lambda>e. te_voice e < length voices' \<and> (te_reference e \<longrightarrow> tv_codes (voices' ! te_voice e) \<noteq> [])) entries'"
proof (induction files arbitrary: voices entries)
  case Nil
  then show ?case by (auto simp: list_all_iff)
next
  case (Cons f files)
  obtain name fs where f: "f = (name, fs)" by (cases f)
  obtain voice where v: "tts_bridge_load_voice name fs = Inr voice"
    using Cons.prems(1) f by (auto split: sum.splits)
  have "load_voices_loop files (voices @ [voice]) (entries @ voice_entries (length voices) voice) = Inr (voices', entries')"
    using Cons.prems(1) f v by simp
  then show ?case
    by (rule Cons.IH) (use Cons.prems(2,3) in \<open>auto simp: list_all_iff voice_entries_def nth_append\<close>)
qed

lemma load_voices_nonempty:
  "load_voices_loop files voices entries = Inr (voices', entries') \<Longrightarrow> files \<noteq> [] \<or> entries \<noteq> [] \<Longrightarrow> entries' \<noteq> []"
proof (induction files arbitrary: voices entries)
  case (Cons f files)
  obtain name fs where f: "f = (name, fs)" by (cases f)
  obtain voice where v: "tts_bridge_load_voice name fs = Inr voice"
    using Cons.prems(1) f by (auto split: sum.splits)
  show ?case
    by (rule Cons.IH [of "voices @ [voice]" "entries @ voice_entries (length voices) voice"])
      (use Cons.prems f v in \<open>simp_all add: voice_entries_def\<close>)
qed simp

text \<open>A bridge whose every label names a voice it holds.\<close>

definition bridge_ok :: "tts_bridge \<Rightarrow> bool" where
  "bridge_ok b \<longleftrightarrow> tb_labels b = map te_label (tb_entries b) \<and> tr_voice (tb_defaults b) \<in> set (tb_labels b) \<and>
     list_all (\<lambda>e. te_voice e < length (tb_voices b) \<and>
       (te_reference e \<longrightarrow> tv_codes (tb_voices b ! te_voice e) \<noteq> [])) (tb_entries b)"

text \<open>A bridge that loads is ready to speak: its default voice and every label it publishes name one
  of its voices, and a label that promises the reference speech names a voice that has its codes.\<close>

theorem loaded_bridge_ok:
  "(case tts_bridge_load init talker_path codec_path dir files sampling guards of
      Inl _ \<Rightarrow> True
    | Inr b \<Rightarrow> bridge_ok b \<and> list_all (\<lambda>label. tts_bridge_find_voice b label \<noteq> None) (tr_voice (tb_defaults b) # tb_labels b))"
proof (cases "tts_bridge_load init talker_path codec_path dir files sampling guards")
  case (Inr b)
  then obtain model where model: "init = Inr model" "talker_path \<noteq> []" "codec_path \<noteq> []" "qm_type model = ''base''"
    unfolding tts_bridge_load_def by (cases init; cases "talker_path = [] \<or> codec_path = []") (auto split: if_splits)
  with Inr obtain voices entries where parts: "tts_bridge_load_voices dir files = Inr (voices, entries)"
    unfolding tts_bridge_load_def by (cases "tts_bridge_load_voices dir files") auto
  with Inr model have b: "tb_voices b = voices" "tb_entries b = entries" "tb_labels b = map te_label entries"
    "tr_voice (tb_defaults b) = hd (map te_label entries)"
    unfolding tts_bridge_load_def by (auto simp: Let_def)
  have files: "files \<noteq> []" using parts by (auto simp: tts_bridge_load_voices_def)
  then have loop: "load_voices_loop (sort_key (\<lambda>(name, _). map byte_of (name @ ''.spk'')) files) [] [] = Inr (voices, entries)"
    using parts by (simp add: tts_bridge_load_voices_def)
  have sorted: "sort_key (\<lambda>(name, _). map byte_of (name @ ''.spk'')) files \<noteq> []"
    using files by (metis length_0_conv length_sort)
  have "entries \<noteq> []" using load_voices_nonempty [OF loop] sorted by blast
  moreover have "list_all (\<lambda>e. te_voice e < length voices \<and> (te_reference e \<longrightarrow> tv_codes (voices ! te_voice e) \<noteq> [])) entries"
    by (rule load_voices_entries [OF loop]) simp_all
  ultimately have ok: "bridge_ok b" using b by (cases entries) (auto simp: bridge_ok_def)
  have "tts_bridge_find_voice b label \<noteq> None" if "label \<in> set (tb_labels b)" for label
    using that b by (auto simp: tts_bridge_find_voice_def find_None_iff)
  then show ?thesis using Inr ok by (auto simp: bridge_ok_def list_all_iff)
qed simp

text \<open>A seed the bridge draws is never negative and fits 53 bits, so a JavaScript number holds it and
  the take can be replayed; a seed a session sets is sent as it is; and the frames of a synthesis never
  exceed the bound the session set, or the one of the model.\<close>

theorem speech_is_bounded:
  fixes model :: qt_model
  shows "let s = speak_sampling model b request (drawn_seed hi lo) n_chars in
   ts_seed s = (if 0 \<le> ts_seed (tr_sampling request) then ts_seed (tr_sampling request) else drawn_seed hi lo) \<and>
   0 \<le> drawn_seed hi lo \<and> drawn_seed hi lo < 2 ^ 53 \<and>
   ts_max_new_tokens s \<le> (if 0 < ts_max_new_tokens (tr_sampling request)
     then ts_max_new_tokens (tr_sampling request) else ts_max_new_tokens (tb_sampling_defaults b))"
proof -
  have "uint (drop_bit 11 (w :: 64 word)) < 2 ^ 53" for w
  proof -
    have "uint (drop_bit 11 w) = uint w div 2 ^ 11" by (simp add: drop_bit_eq_div uint_div_distrib)
    also have "\<dots> < 2 ^ 53" using uint_lt2p [of w] by simp
    finally show ?thesis .
  qed
  then have "drawn_seed hi lo < 2 ^ 53" unfolding drawn_seed_def by blast
  moreover have "0 \<le> drawn_seed hi lo" by (simp add: drawn_seed_def)
  ultimately show ?thesis by (simp add: speak_sampling_def Let_def tts_bridge_budget_def)
qed

end
