(* ===== verification/Wake.thy ===== *)
theory Wake
  imports Proto Http Tts_Bridge
begin

text \<open>
  The pure parts of \<open>src/s2s-conversation.cpp\<close>: the allowlist of hosts, the effects, the wake phrase
  gate, the definitions of the built-in tools, the list of messages of a request.
\<close>

section \<open>Hosts\<close>

definition url_host :: "string \<Rightarrow> string" where
  "url_host url =
     (let start = (case find_sub ''://'' url of None \<Rightarrow> 0 | Some scheme \<Rightarrow> scheme + 3)
      in case find_from ''/'' url start of
           None \<Rightarrow> drop start url
         | Some stop \<Rightarrow> take (stop - start) (drop start url))"

definition host_allowed :: "string list \<Rightarrow> string \<Rightarrow> bool" where
  "host_allowed hosts url =
     (if hosts = [] then True
      else let host = url_host url in list_ex (\<lambda>entry. host = url_host entry) hosts)"

section \<open>Effects and modes\<close>

definition VOICE_TOOL :: string where "VOICE_TOOL = ''set_voice''"
definition SLEEP_TOOL :: string where "SLEEP_TOOL = ''sleep''"

record VoiceEffect =
  fx_name :: string
  fx_about :: string

definition EFFECTS :: "VoiceEffect list" where
  "EFFECTS = [\<lparr>fx_name = ''off'', fx_about = ''the voice as it is''\<rparr>,
              \<lparr>fx_name = ''jarvis'', fx_about = ''an echo and a chorus''\<rparr>]"

definition conn_effects :: "string list" where
  "conn_effects = map fx_name EFFECTS"

definition conn_effect_known :: "string \<Rightarrow> bool" where
  "conn_effect_known effect \<longleftrightarrow> effect \<in> set conn_effects"

definition conn_wake_modes :: "string list" where
  "conn_wake_modes = [''off'', ''alone'', ''anywhere'']"

definition conn_wake_known :: "string \<Rightarrow> bool" where
  "conn_wake_known mode \<longleftrightarrow> mode \<in> set conn_wake_modes"

section \<open>Phrases\<close>

definition is_word_byte :: "char \<Rightarrow> bool" where
  "is_word_byte c \<longleftrightarrow> 128 \<le> byte_of c \<or> is_alnum c"

text \<open>The loop over the bytes: the words found, the word under construction.\<close>

fun wake_loop :: "string \<Rightarrow> string list \<Rightarrow> string \<Rightarrow> string list" where
  "wake_loop [] words word = (if word \<noteq> [] then words @ [word] else words)"
| "wake_loop (c # cs) words word =
     (if is_word_byte c then wake_loop cs words (word @ [to_lower c])
      else if word \<noteq> [] then wake_loop cs (words @ [word]) []
      else wake_loop cs words word)"

definition wake_words :: "string \<Rightarrow> string list" where
  "wake_words text = wake_loop text [] []"

definition wake_heard :: "string \<Rightarrow> string list \<Rightarrow> bool \<Rightarrow> bool" where
  "wake_heard text phrases alone =
     (let words = wake_words text in
      list_ex (\<lambda>phrase. let wanted = wake_words phrase in
        wanted \<noteq> [] \<and> (if alone then words = wanted else find_sub wanted words \<noteq> None)) phrases)"

section \<open>The gate\<close>

text \<open>What \<open>conn_admit\<close> decides, on the settings, whether the assistant is awake and the turn it last let
  through.\<close>

definition wake_gate ::
  "ClientSettings \<Rightarrow> bool \<Rightarrow> int \<Rightarrow> int \<Rightarrow> string \<Rightarrow> bool \<times> bool \<times> int" where
  "wake_gate client awake admitted turn_id transcript =
     (let wake = cl_wake client in
      if cl_mode client = ''loopback'' then (True, awake, admitted)
      else if turn_id \<noteq> admitted \<and> \<not> awake \<and>
              (wake_mode wake = ''off'' \<or> \<not> wake_heard transcript (wake_phrases wake) (wake_mode wake = ''alone''))
        then (False, awake, admitted)
      else
        let awake = (if turn_id \<noteq> admitted then True else awake);
            admitted = turn_id;
            awake = (if wake_mode wake \<noteq> ''off'' \<and> awake \<and> wake_heard transcript (wake_sleep_phrases wake) False
                     then False else awake)
        in (True, awake, admitted))"

section \<open>Built-in tools\<close>

definition tool_definition_json :: "json_writer \<Rightarrow> string \<Rightarrow> string \<Rightarrow> json \<Rightarrow> llm_tool" where
  "tool_definition_json wr name about parameters =
     \<lparr>tool_name = name,
      tool_definition =
        (case wr (JObj [(''type'', JStr ''function''),
           (''function'', JObj [(''name'', JStr name), (''description'', JStr about), (''parameters'', parameters)])]) of
           Some json \<Rightarrow> json | None \<Rightarrow> ''{}'')\<rparr>"

definition conn_sleep_tool :: "json_writer \<Rightarrow> llm_tool" where
  "conn_sleep_tool wr =
     tool_definition_json wr SLEEP_TOOL
       (''Stops answering until the user says a wake phrase again, for the rest of the conversation when none is '' @
        ''set. What you write with the call is still spoken. '' @
        ''Call it when the user thanks you, says goodbye or expects nothing more, or when what you hear makes no '' @
        ''sense or is not meant for you.'')
       (JObj [(''type'', JStr ''object''), (''properties'', JObj [])])"

definition effects_about :: string where
  "effects_about =
     foldl (\<lambda>effects e. effects @ (if effects = [] then [] else '', '') @ fx_name e @ '' for '' @ fx_about e) [] EFFECTS"

definition conn_voice_tool :: "json_writer \<Rightarrow> string list \<Rightarrow> llm_tool" where
  "conn_voice_tool wr labels =
     tool_definition_json wr VOICE_TOOL
       (''Changes the voice you speak with, for the rest of the conversation: what you write after the call is '' @
        ''spoken with it. The suffix of a voice is the language it was recorded in: an original accent voice '' @
        ''speaks with the accent of that language, a timbre only voice keeps its timbre alone. Try to pick a voice '' @
        ''in the language of the user. effect runs over any voice: '' @ effects_about @ ''; left out, it does not change.'')
       (JObj [(''type'', JStr ''object''),
              (''properties'', JObj
                [(''voice'', JObj [(''type'', JStr ''string''), (''enum'', JArr (map JStr labels))]),
                 (''effect'', JObj [(''type'', JStr ''string''), (''enum'', JArr (map JStr conn_effects))])]),
              (''required'', JArr [JStr ''voice''])])"

section \<open>The messages of a request\<close>

definition llm_push :: "llm_message list \<Rightarrow> llm_message \<Rightarrow> llm_message list" where
  "llm_push messages message =
     (if msg_role message = ''user'' \<and> messages \<noteq> [] \<and> msg_role (last messages) = ''user'' then
        butlast messages @ [(last messages)\<lparr>msg_content := msg_content (last messages) @ [SPC] @ msg_content message\<rparr>]
      else messages @ [message])"

text \<open>The messages \<open>conn_answer\<close> builds for the turn of that item.\<close>

definition request_messages :: "ClientSettings \<Rightarrow> string \<Rightarrow> string \<Rightarrow> llm_message list" where
  "request_messages client item transcript =
     (let system = (if cl_system_prompt client = [] then [] else [plain_message ''system'' (cl_system_prompt client)]);
          messages = foldl (\<lambda>messages m.
            if rt_role m \<noteq> ''user'' \<or> rt_item m \<noteq> item
            then llm_push messages (plain_message (rt_role m) (rt_content m)) else messages) system (cl_history client)
      in llm_push messages (plain_message ''user'' transcript))"

section \<open>What the allowlist checks is what is reached\<close>

lemma url_host_split:
  "http_split_url url = Some (host, path) \<Longrightarrow> \<exists>scheme. host = scheme @ ''://'' @ url_host url"
proof -
  assume split: "http_split_url url = Some (host, path)"
  then obtain scheme where scheme: "find_sub ''://'' url = Some scheme"
    by (auto simp: http_split_url_def split: option.splits)
  then have len: "scheme + 3 \<le> length url" and pre: "prefix ''://'' (drop scheme url)"
    using find_sub_Some by fastforce+
  then obtain q where q: "drop scheme url = ''://'' @ q" by (auto simp: prefix_def)
  have "drop (scheme + 3) url = drop 3 (drop scheme url)" by (simp add: add.commute)
  then have "drop (scheme + 3) url = q" unfolding q by simp
  then have url: "url = take scheme url @ ''://'' @ drop (scheme + 3) url"
    using q append_take_drop_id [of scheme url] by simp
  show ?thesis
  proof (cases "find_from ''/'' url (scheme + 3)")
    case None
    then show ?thesis using split scheme url by (auto simp: http_split_url_def url_host_def)
  next
    case (Some slash)
    then have slash: "scheme + 3 \<le> slash" "slash \<le> length url"
      by (auto simp: find_from_def dest: find_sub_Some split: if_splits)
    have "take slash url = take (scheme + 3) url @ take (slash - (scheme + 3)) (drop (scheme + 3) url)"
      using slash(1) by (metis le_add_diff_inverse take_add)
    moreover have "take (scheme + 3) url = take scheme url @ ''://''"
      unfolding take_add q by simp
    ultimately have "take slash url = take scheme url @ ''://'' @ url_host url"
      using Some scheme by (simp add: url_host_def Let_def)
    moreover have "host = take slash url" using split scheme Some by (simp add: http_split_url_def)
    ultimately show ?thesis by metis
  qed
qed

text \<open>A URL the allowlist lets through is reached at a host the allowlist names: the part of the URL the
  check compares is, scheme apart, the very part a connection is opened to.\<close>

theorem allowed_host_is_reached:
  "(case http_split_url url of
      None \<Rightarrow> True
    | Some (host, _) \<Rightarrow>
        \<exists>scheme. host = scheme @ ''://'' @ url_host url \<and>
          (host_allowed hosts url \<longleftrightarrow> hosts = [] \<or> list_ex (\<lambda>entry. host = scheme @ ''://'' @ url_host entry) hosts))"
proof (cases "http_split_url url")
  case (Some hp)
  obtain host path where hp: "hp = (host, path)" by (cases hp)
  obtain scheme where "host = scheme @ ''://'' @ url_host url" using url_host_split Some hp by blast
  then show ?thesis using Some hp by (auto simp: host_allowed_def list_ex_iff)
qed simp

section \<open>What the gate hears\<close>

text \<open>Words as they are compared: not empty, made of bytes of words, without capitals.\<close>

definition word_ok :: "string \<Rightarrow> bool" where
  "word_ok w \<longleftrightarrow> w \<noteq> [] \<and> list_all (\<lambda>c. is_word_byte c \<and> \<not> is_upper c) w"

lemma byte_to_lower: "byte_of (to_lower c) = (if is_upper c then byte_of c + 32 else byte_of c)"
  by (simp add: to_lower_def is_upper_def)

lemma to_lower_not_upper [simp]: "\<not> is_upper (to_lower c)"
  using byte_to_lower [of c] by (auto simp: is_upper_def split: if_splits)

lemma to_lower_idem [simp]: "to_lower (to_lower c) = to_lower c"
  unfolding to_lower_def [of "to_lower c"] by simp

lemma is_word_byte_lower [simp]: "is_word_byte (to_lower c) = is_word_byte c"
proof (cases "is_upper c")
  case True
  then have "is_lower (to_lower c)" using byte_to_lower [of c] by (simp add: is_upper_def is_lower_def)
  then show ?thesis using True by (simp add: is_word_byte_def is_alnum_def)
qed (simp add: to_lower_def)

lemma wake_loop_words:
  "wake_loop cs words word = words @ wake_loop cs [] word"
proof (induction cs arbitrary: words word)
  case (Cons c cs)
  have a: "wake_loop cs (words @ [word]) [] = words @ [word] @ wake_loop cs [] []"
    "wake_loop cs [word] [] = [word] @ wake_loop cs [] []"
    using Cons.IH [of "words @ [word]" "[]"] Cons.IH [of "[word]" "[]"] by simp_all
  show ?case
    using Cons.IH [of words word] Cons.IH [of words "word @ [to_lower c]"] a
    by (cases "is_word_byte c"; cases "word = []") (simp_all del: append_eq_append_conv)
qed simp

text \<open>A separator ends a word, whatever follows.\<close>

lemma wake_loop_sep:
  "\<not> is_word_byte c \<Longrightarrow> wake_loop (xs @ c # ys) [] word = wake_loop xs [] word @ wake_words ys"
proof (induction xs arbitrary: word)
  case Nil
  then show ?case by (simp add: wake_words_def wake_loop_words [of ys "[word]"])
next
  case (Cons x xs)
  then show ?case by (simp add: wake_loop_words [of _ "[word]"])
qed

lemma wake_words_ok: "list_all word_ok (wake_words text)"
proof -
  have "list_all word_ok words \<Longrightarrow> list_all (\<lambda>c. is_word_byte c \<and> \<not> is_upper c) word \<Longrightarrow>
      list_all word_ok (wake_loop cs words word)" for cs words word
  proof (induction cs arbitrary: words word)
    case (Cons c cs)
    show ?case
    proof (cases "is_word_byte c")
      case True
      then show ?thesis using Cons.IH [of words "word @ [to_lower c]"] Cons.prems by simp
    next
      case False
      have "list_all word_ok (words @ [word])" if "word \<noteq> []" using Cons.prems that by (simp add: word_ok_def list_all_iff)
      then show ?thesis
        using False Cons.IH [of "words @ [word]" "[]"] Cons.IH [of words "[]"] Cons.prems by (cases "word = []") simp_all
    qed
  qed (simp add: word_ok_def list_all_iff)
  then show ?thesis by (simp add: wake_words_def)
qed

lemma wake_words_lower: "wake_words (map to_lower text) = wake_words text"
proof -
  have "wake_loop (map to_lower cs) words word = wake_loop cs words word" for cs words word
  proof (induction cs arbitrary: words word)
    case (Cons c cs)
    show ?case by (simp only: list.map wake_loop.simps is_word_byte_lower to_lower_idem Cons.IH)
  qed simp
  then show ?thesis by (simp add: wake_words_def)
qed

text \<open>The gate compares words: text is split at every byte that is no letter, digit or byte past ASCII,
  capitals do not count, and a phrase is heard in a turn exactly when its words stand in a row among the
  words of the turn, or make all of them for a phrase that must stand alone. A phrase without a word is
  never heard.\<close>

theorem wake_heard_exact:
  "wake_heard text phrases alone \<longleftrightarrow>
     list_ex (\<lambda>phrase. wake_words phrase \<noteq> [] \<and>
       (if alone then wake_words phrase = wake_words text else sublist (wake_words phrase) (wake_words text))) phrases"
  by (auto simp: wake_heard_def Let_def list_ex_iff find_sub_None_iff)

text \<open>The words of a turn do not depend on its capitals, each is made of letters, digits and bytes past
  ASCII, and the words around any other byte are the words before it followed by the words after.\<close>

theorem wake_words_exact:
  "list_all word_ok (wake_words text) \<and> wake_words (map to_lower text) = wake_words text \<and>
   (if is_word_byte c then True else wake_words (a @ c # b) = wake_words a @ wake_words b)"
  using wake_loop_sep [of c a b "[]"] by (simp add: wake_words_ok wake_words_lower) (simp add: wake_words_def)

text \<open>Asleep, the assistant lets a new turn through exactly when its gate is on and a wake phrase is
  heard in it; awake, or for a turn it already let through, it lets every one through; and after a turn it
  let through, it is asleep exactly when the gate is on and a sleep phrase was heard, or it already slept
  and the turn is a revision.\<close>

theorem wake_gate_exact:
  "wake_gate client awake admitted turn_id transcript =
     (let wake = cl_wake client; on = (wake_mode wake \<noteq> ''off'');
          wakes = (on \<and> wake_heard transcript (wake_phrases wake) (wake_mode wake = ''alone''));
          sleeps = (on \<and> wake_heard transcript (wake_sleep_phrases wake) False);
          heard = (awake \<or> turn_id = admitted \<or> wakes)
      in if cl_mode client = ''loopback'' then (True, awake, admitted)
         else (heard,
               (if heard then (if turn_id = admitted then awake else True) \<and> \<not> sleeps else awake),
               if heard then turn_id else admitted))"
  by (auto simp: wake_gate_def Let_def)

section \<open>Messages\<close>

fun no_user_pair :: "llm_message list \<Rightarrow> bool" where
  "no_user_pair (a # b # ms) \<longleftrightarrow> \<not> (msg_role a = ''user'' \<and> msg_role b = ''user'') \<and> no_user_pair (b # ms)"
| "no_user_pair _ \<longleftrightarrow> True"

lemma no_user_pair_snoc:
  "no_user_pair (ms @ [m]) \<longleftrightarrow> no_user_pair ms \<and> (ms = [] \<or> \<not> (msg_role (last ms) = ''user'' \<and> msg_role m = ''user''))"
  by (induction ms rule: no_user_pair.induct) auto

lemma no_user_pair_push: "no_user_pair ms \<Longrightarrow> no_user_pair (llm_push ms m)"
proof (cases ms rule: rev_cases)
  case (snoc ys y)
  assume ms: "no_user_pair ms"
  show ?thesis
  proof (cases "msg_role m = ''user'' \<and> msg_role y = ''user''")
    case True
    then show ?thesis using ms by (simp add: snoc llm_push_def no_user_pair_snoc)
  next
    case False
    then have "llm_push ms m = ms @ [m]" by (auto simp: snoc llm_push_def)
    moreover have "no_user_pair (ms @ [m])" using ms False unfolding no_user_pair_snoc [of ms] by (auto simp: snoc)
    ultimately show ?thesis by simp
  qed
qed (simp add: llm_push_def)

text \<open>The two parts of a request before the turn itself.\<close>

definition system_messages :: "ClientSettings \<Rightarrow> llm_message list" where
  "system_messages client =
     (if cl_system_prompt client = [] then [] else [plain_message ''system'' (cl_system_prompt client)])"

definition add_history :: "string \<Rightarrow> llm_message list \<Rightarrow> rt_message \<Rightarrow> llm_message list" where
  "add_history item messages m =
     (if rt_role m \<noteq> ''user'' \<or> rt_item m \<noteq> item
      then llm_push messages (plain_message (rt_role m) (rt_content m)) else messages)"

lemma request_messages_unfold:
  "request_messages client item transcript =
     llm_push (foldl (add_history item) (system_messages client) (cl_history client)) (plain_message ''user'' transcript)"
  unfolding request_messages_def system_messages_def add_history_def [abs_def] Let_def by (rule refl)

lemma foldl_add_history_filter:
  "foldl (add_history item) ms (filter (\<lambda>m. \<not> (rt_role m = ''user'' \<and> rt_item m = item)) h) =
   foldl (add_history item) ms h"
proof (induction h arbitrary: ms)
  case (Cons m h)
  show ?case
  proof (cases "rt_role m = ''user'' \<and> rt_item m = item")
    case True
    then show ?thesis using Cons.IH [of ms] by (simp add: add_history_def)
  next
    case False
    then show ?thesis using Cons.IH [of "add_history item ms m"] by simp
  qed
qed simp

lemma llm_push_hd: "ms \<noteq> [] \<Longrightarrow> msg_role (hd ms) = ''system'' \<Longrightarrow> hd (llm_push ms x) = hd ms"
  by (cases ms rule: rev_cases) (auto simp: llm_push_def hd_append)

lemma llm_push_not_Nil [simp]: "llm_push ms x \<noteq> []"
  by (simp add: llm_push_def)

lemma add_history_body:
  "no_user_pair ms \<Longrightarrow> no_user_pair (foldl (add_history item) ms h) \<and>
     (ms \<noteq> [] \<and> msg_role (hd ms) = ''system'' \<longrightarrow>
        foldl (add_history item) ms h \<noteq> [] \<and> hd (foldl (add_history item) ms h) = hd ms)"
proof (induction h arbitrary: ms)
  case (Cons m h)
  have "no_user_pair (add_history item ms m)" by (simp add: add_history_def Cons.prems no_user_pair_push)
  moreover have "add_history item ms m \<noteq> [] \<and> hd (add_history item ms m) = hd ms"
    if "ms \<noteq> []" "msg_role (hd ms) = ''system''"
    using that llm_push_hd [OF that] by (simp add: add_history_def)
  ultimately show ?case using Cons.IH [of "add_history item ms m"] by simp
qed simp

text \<open>A request to the model is well formed whatever history the client keeps: the system prompt opens
  it when there is one, no two messages of the user follow each other, the last is the user's and ends
  with the transcript, and an earlier revision of the turn that sits in the history is left out.\<close>

theorem request_messages_ok:
  "let ms = request_messages client item transcript in
   no_user_pair ms \<and> ms \<noteq> [] \<and> msg_role (last ms) = ''user'' \<and> suffix transcript (msg_content (last ms)) \<and>
   (if cl_system_prompt client = [] then True else hd ms = plain_message ''system'' (cl_system_prompt client)) \<and>
   ms = request_messages
     (client\<lparr>cl_history := filter (\<lambda>m. \<not> (rt_role m = ''user'' \<and> rt_item m = item)) (cl_history client)\<rparr>) item transcript"
proof -
  define ms where "ms = foldl (add_history item) (system_messages client) (cl_history client)"
  define all where "all = llm_push ms (plain_message ''user'' transcript)"
  have req: "request_messages client item transcript = all"
    by (simp add: request_messages_unfold ms_def all_def)
  have kept: "cl_history (client\<lparr>cl_history := h\<rparr>) = h" "system_messages (client\<lparr>cl_history := h\<rparr>) = system_messages client"
    for h by (simp_all add: system_messages_def)
  have filtered: "request_messages
      (client\<lparr>cl_history := filter (\<lambda>m. \<not> (rt_role m = ''user'' \<and> rt_item m = item)) (cl_history client)\<rparr>) item transcript = all"
    unfolding request_messages_unfold ms_def all_def
    by (simp only: kept foldl_add_history_filter)
  have sys: "no_user_pair (system_messages client)" by (simp add: system_messages_def)
  have "no_user_pair ms" using add_history_body [OF sys] by (simp add: ms_def)
  then have "no_user_pair all" by (simp add: all_def no_user_pair_push)
  moreover have "all \<noteq> []" "msg_role (last all) = ''user''" "suffix transcript (msg_content (last all))"
    by (auto simp: all_def llm_push_def plain_message_def suffix_def)
  moreover have "hd all = plain_message ''system'' (cl_system_prompt client)" if "cl_system_prompt client \<noteq> []"
  proof -
    have one: "system_messages client = [plain_message ''system'' (cl_system_prompt client)]"
      using that by (simp add: system_messages_def)
    then have "ms \<noteq> [] \<and> hd ms = plain_message ''system'' (cl_system_prompt client)"
      using add_history_body [OF sys, of item "cl_history client"] by (simp add: ms_def plain_message_def)
    then show ?thesis unfolding all_def using llm_push_hd [of ms] by (simp add: plain_message_def)
  qed
  ultimately show ?thesis unfolding Let_def req filtered by (intro conjI) (assumption | simp)+
qed

end
