(* ===== verification/Resample.thy ===== *)
theory Resample
  imports Prelude
begin

text \<open>
  \<open>src/audio-resample.h\<close>: the windowed sinc resampler, on a whole buffer and on a stream. The math
  functions of the C library are a parameter; every other operation on a \<open>float\<close> or a \<open>double\<close> is
  rounded where the code rounds it, a product and the sum it goes into apart. A sample rate and a
  length are a \<^typ>\<open>nat\<close>.
\<close>

section \<open>The kernel\<close>

text \<open>The C math library: \<open>cos\<close>, \<open>sin\<close>, \<open>sqrt\<close>, \<open>pow\<close> and their \<open>float\<close> versions.\<close>

record libm =
  lm_cos :: "f64 \<Rightarrow> f64"
  lm_sin :: "f64 \<Rightarrow> f64"
  lm_sqrt :: "f64 \<Rightarrow> f64"
  lm_pow :: "f64 \<Rightarrow> f64 \<Rightarrow> f64"
  lm_cosf :: "f32 \<Rightarrow> f32"
  lm_sinf :: "f32 \<Rightarrow> f32"
  lm_sqrtf :: "f32 \<Rightarrow> f32"
  lm_powf :: "f32 \<Rightarrow> f32 \<Rightarrow> f32"

definition M_PI :: f64 where "M_PI = to_f64 3.14159265358979323846"
definition AUDIO_RESAMPLE_LPFW :: nat where "AUDIO_RESAMPLE_LPFW = 6"
definition AUDIO_RESAMPLE_ROLLOFF :: f64 where "AUDIO_RESAMPLE_ROLLOFF = to_f64 0.99"

fun audio_resample_gcd :: "nat \<Rightarrow> nat \<Rightarrow> nat" where
  "audio_resample_gcd a b = (if b \<noteq> 0 then audio_resample_gcd b (a mod b) else a)"

declare audio_resample_gcd.simps [simp del]

definition resample_base :: "nat \<Rightarrow> nat \<Rightarrow> f64" where
  "resample_base orig newf = to_f64 (of_nat (if orig < newf then orig else newf) * AUDIO_RESAMPLE_ROLLOFF)"

definition resample_width :: "nat \<Rightarrow> nat \<Rightarrow> nat" where
  "resample_width orig newf =
     nat \<lceil>to_f64 (to_f64 (of_nat AUDIO_RESAMPLE_LPFW * of_nat orig) / resample_base orig newf)\<rceil>"

text \<open>One tap of the kernel, row \<open>j\<close>, column \<open>k\<close>.\<close>

definition kernel_tap :: "libm \<Rightarrow> nat \<Rightarrow> nat \<Rightarrow> nat \<Rightarrow> nat \<Rightarrow> f32" where
  "kernel_tap lm orig newf j k =
     (let base = resample_base orig newf; width = resample_width orig newf;
          scale = to_f64 (base / of_nat orig);
          inv_o = to_f64 (1 / of_nat orig); inv_n = to_f64 (1 / of_nat newf);
          t_off = to_f64 (- of_nat j * inv_n);
          idx_k = to_f64 (of_int (int k - int width) * inv_o);
          t = to_f64 (to_f64 (t_off + idx_k) * base);
          t = (if t < - of_nat AUDIO_RESAMPLE_LPFW then - of_nat AUDIO_RESAMPLE_LPFW else t);
          t = (if of_nat AUDIO_RESAMPLE_LPFW < t then of_nat AUDIO_RESAMPLE_LPFW else t);
          w = lm_cos lm (to_f64 (to_f64 (to_f64 (t * M_PI) / of_nat AUDIO_RESAMPLE_LPFW) / 2));
          w = to_f64 (w * w);
          tp = to_f64 (t * M_PI);
          sinc = (if tp = 0 then 1 else to_f64 (lm_sin lm tp / tp))
      in to_f32 (to_f64 (to_f64 (sinc * w) * scale)))"

definition audio_resample_build_kernel :: "libm \<Rightarrow> nat \<Rightarrow> nat \<Rightarrow> f32 list \<times> nat \<times> nat" where
  "audio_resample_build_kernel lm orig newf =
     (let width = resample_width orig newf; K = 2 * width + orig
      in (concat (map (\<lambda>j. map (kernel_tap lm orig newf j) [0..<K]) [0..<newf]), width, K))"

section \<open>A whole buffer\<close>

text \<open>The sum of the products of a window of the input and a row of the kernel.\<close>

definition dot :: "f32 list \<Rightarrow> f32 list \<Rightarrow> f32" where
  "dot x w = foldl (\<lambda>sum (a, b). to_f32 (sum + to_f32 (a * b))) 0 (zip x w)"

definition audio_resample_apply_mono ::
  "f32 list \<Rightarrow> nat \<Rightarrow> nat \<Rightarrow> nat \<Rightarrow> nat \<Rightarrow> f32 list \<Rightarrow> nat \<Rightarrow> f32 list" where
  "audio_resample_apply_mono xs orig newf width K ker target_length =
     (let Np = length xs + 2 * width + orig;
          padded = replicate width 0 @ xs @ replicate (Np - width - length xs) 0;
          n_per_chan = (Np - K) div orig + 1;
          total = n_per_chan * newf;
          out_len = (if target_length < total then target_length else total)
      in map (\<lambda>t_out. let chan = t_out mod newf; pos = t_out div newf
                      in dot (take K (drop (pos * orig) padded)) (take K (drop (chan * K) ker))) [0..<out_len])"

text \<open>\<open>audio_resample\<close> on the channels of a buffer, all of one length: \<^const>\<open>None\<close> is NULL.\<close>

definition resample_target :: "nat \<Rightarrow> nat \<Rightarrow> nat \<Rightarrow> nat" where
  "resample_target n_in sr_in sr_out =
     nat \<lceil>to_f64 (to_f64 (of_nat sr_out * of_nat n_in) / of_nat sr_in)\<rceil>"

definition audio_resample :: "libm \<Rightarrow> f32 list list \<Rightarrow> nat \<Rightarrow> nat \<Rightarrow> nat \<Rightarrow> f32 list list option" where
  "audio_resample lm channels n_in sr_in sr_out =
     (if n_in = 0 \<or> sr_in = 0 \<or> sr_out = 0 \<or> channels = [] then None
      else if sr_in = sr_out then Some channels
      else
        let g = audio_resample_gcd sr_in sr_out; orig = sr_in div g; newf = sr_out div g;
            (ker, width, K) = audio_resample_build_kernel lm orig newf;
            target = resample_target n_in sr_in sr_out
        in if target = 0 then None
           else Some (map (\<lambda>src. audio_resample_apply_mono src orig newf width K ker target) channels))"

section \<open>A stream\<close>

record AudioResampleStream =
  rs_orig :: nat
  rs_newf :: nat
  rs_width :: nat
  rs_K :: nat
  rs_kernel :: "f32 list"
  rs_history :: "f32 list"

definition audio_resample_stream_init :: "libm \<Rightarrow> nat \<Rightarrow> nat \<Rightarrow> AudioResampleStream" where
  "audio_resample_stream_init lm sr_in sr_out =
     (let g = audio_resample_gcd sr_in sr_out; orig = sr_in div g; newf = sr_out div g;
          (ker, width, K) = audio_resample_build_kernel lm orig newf
      in \<lparr>rs_orig = orig, rs_newf = newf, rs_width = width, rs_K = K, rs_kernel = ker,
          rs_history = replicate width 0\<rparr>)"

text \<open>The group of outputs of one position of the window.\<close>

definition resample_group :: "nat \<Rightarrow> nat \<Rightarrow> f32 list \<Rightarrow> f32 list \<Rightarrow> f32 list" where
  "resample_group newf K ker h = map (\<lambda>j. dot (take K h) (take K (drop (j * K) ker))) [0..<newf]"

text \<open>The loop over the positions, on the history that is left: \<open>orig\<close> samples go at each. A window is
  wider than \<open>orig\<close>, which is not zero, so the loop ends.\<close>

function resample_loop :: "nat \<Rightarrow> nat \<Rightarrow> nat \<Rightarrow> f32 list \<Rightarrow> f32 list \<Rightarrow> f32 list \<times> f32 list" where
  "resample_loop orig newf K ker h =
     (if 0 < orig \<and> orig \<le> K \<and> K \<le> length h
      then let (rest, out) = resample_loop orig newf K ker (drop orig h)
           in (rest, resample_group newf K ker h @ out)
      else (h, []))"
  by pat_completeness auto
termination by (relation "measure (\<lambda>(_, _, _, _, h). length h)") auto

declare resample_loop.simps [simp del]

definition audio_resample_stream_push ::
  "AudioResampleStream \<Rightarrow> f32 list \<Rightarrow> AudioResampleStream \<times> f32 list" where
  "audio_resample_stream_push s xs =
     (let (rest, out) = resample_loop (rs_orig s) (rs_newf s) (rs_K s) (rs_kernel s) (rs_history s @ xs)
      in (s\<lparr>rs_history := rest\<rparr>, out))"

section \<open>Pieces\<close>

definition stream_set :: "AudioResampleStream \<Rightarrow> bool" where
  "stream_set s \<longleftrightarrow> 0 < rs_orig s \<and> rs_orig s \<le> rs_K s \<and> length (rs_history s) < rs_K s"

lemma resample_loop_short:
  "0 < orig \<Longrightarrow> orig \<le> K \<Longrightarrow> length (fst (resample_loop orig newf K ker h)) < K"
proof (induction orig newf K ker h rule: resample_loop.induct)
  case (1 orig newf K ker h)
  then show ?case by (subst resample_loop.simps) (simp add: case_prod_beta Let_def)
qed

lemma resample_loop_idle: "length h < K \<Longrightarrow> resample_loop orig newf K ker h = (h, [])"
  by (subst resample_loop.simps) simp

lemma resample_group_take: "K \<le> length h \<Longrightarrow> resample_group newf K ker (h @ ys) = resample_group newf K ker h"
  by (simp add: resample_group_def)

lemma resample_loop_append:
  "0 < orig \<Longrightarrow> orig \<le> K \<Longrightarrow> resample_loop orig newf K ker (h @ ys) =
     (let (rest, out) = resample_loop orig newf K ker h; (rest', out') = resample_loop orig newf K ker (rest @ ys)
      in (rest', out @ out'))"
proof (induction orig newf K ker h rule: resample_loop.induct)
  case (1 orig newf K ker h)
  show ?case
  proof (cases "K \<le> length h")
    case True
    then have "resample_loop orig newf K ker (h @ ys) =
        (let (rest, out) = resample_loop orig newf K ker (drop orig h @ ys)
         in (rest, resample_group newf K ker h @ out))"
      using 1(2,3) by (subst resample_loop.simps) (simp add: resample_group_take)
    moreover have "resample_loop orig newf K ker h =
        (let (rest, out) = resample_loop orig newf K ker (drop orig h)
         in (rest, resample_group newf K ker h @ out))"
      using 1(2,3) True by (subst resample_loop.simps) simp
    ultimately show ?thesis using 1 True by (simp add: case_prod_beta Let_def)
  next
    case False
    then show ?thesis by (simp add: resample_loop_idle case_prod_beta)
  qed
qed

interpretation resample: chunked audio_resample_stream_push stream_set
proof
  fix s xs ys
  assume s: "stream_set s"
  then show "audio_resample_stream_push s [] = (s, [])"
    by (simp add: audio_resample_stream_push_def stream_set_def resample_loop_idle)
  show "stream_set (fst (audio_resample_stream_push s xs))"
    using s resample_loop_short by (simp add: audio_resample_stream_push_def stream_set_def case_prod_beta Let_def)
  show "audio_resample_stream_push s (xs @ ys) =
      (fst (audio_resample_stream_push (fst (audio_resample_stream_push s xs)) ys),
       snd (audio_resample_stream_push s xs) @ snd (audio_resample_stream_push (fst (audio_resample_stream_push s xs)) ys))"
    using s resample_loop_append [of "rs_orig s" "rs_K s" "rs_newf s" "rs_kernel s" "rs_history s @ xs" ys]
    by (simp add: audio_resample_stream_push_def stream_set_def case_prod_beta Let_def)
qed

section \<open>A stream and a whole buffer\<close>

lemma audio_resample_gcd_eq: "audio_resample_gcd a b = gcd a b"
proof (induction a b rule: audio_resample_gcd.induct)
  case (1 a b)
  then show ?case by (subst audio_resample_gcd.simps) (simp add: gcd_red_nat [of a b])
qed

text \<open>The groups of outputs a history holds, and what the loop makes of them.\<close>

definition groups_of :: "nat \<Rightarrow> nat \<Rightarrow> nat \<Rightarrow> nat" where
  "groups_of orig K n = (if n < K then 0 else (n - K) div orig + 1)"

lemma groups_of_step:
  assumes "0 < orig" "orig \<le> K" "K \<le> n"
  shows "groups_of orig K n = Suc (groups_of orig K (n - orig))"
proof (cases "n - orig < K")
  case True
  then have "n - K < orig" using assms by linarith
  then show ?thesis using True assms by (simp add: groups_of_def)
next
  case False
  then have "n - K = (n - orig - K) + orig" using assms by linarith
  then have "(n - K) div orig = (n - orig - K) div orig + 1"
    using assms(1) by (metis add.commute div_add_self2 less_numeral_extra(3) plus_1_eq_Suc)
  moreover have "\<not> n < K" using assms by simp
  ultimately show ?thesis using False unfolding groups_of_def by presburger
qed

lemma resample_loop_groups:
  "0 < orig \<Longrightarrow> orig \<le> K \<Longrightarrow> snd (resample_loop orig newf K ker h) =
     concat (map (\<lambda>p. resample_group newf K ker (drop (p * orig) h)) [0..<groups_of orig K (length h)])"
proof (induction orig newf K ker h rule: resample_loop.induct)
  case (1 orig newf K ker h)
  show ?case
  proof (cases "K \<le> length h")
    case True
    define g where "g = groups_of orig K (length h - orig)"
    have "snd (resample_loop orig newf K ker h) =
        resample_group newf K ker h @ snd (resample_loop orig newf K ker (drop orig h))"
      using 1(2,3) True by (subst resample_loop.simps) (simp add: case_prod_beta Let_def)
    also have "snd (resample_loop orig newf K ker (drop orig h)) =
        concat (map (\<lambda>p. resample_group newf K ker (drop (p * orig + orig) h)) [0..<g])"
      using 1 True by (simp add: g_def add.commute)
    also have "map (\<lambda>p. resample_group newf K ker (drop (p * orig + orig) h)) [0..<g] =
        map (\<lambda>p. resample_group newf K ker (drop (p * orig) h)) [1..<Suc g]"
      unfolding One_nat_def map_Suc_upt [symmetric] map_map by (simp add: add.commute)
    finally have "snd (resample_loop orig newf K ker h) = resample_group newf K ker (drop (0 * orig) h) @
        concat (map (\<lambda>p. resample_group newf K ker (drop (p * orig) h)) [1..<Suc g])" by simp
    also have "\<dots> = concat (map (\<lambda>p. resample_group newf K ker (drop (p * orig) h)) [0..<Suc g])"
      by (subst (2) upt_conv_Cons) (simp_all del: upt_Suc)
    finally show ?thesis using groups_of_step [OF 1(2,3) True] by (simp only: g_def)
  next
    case False
    then show ?thesis by (simp add: resample_loop_idle groups_of_def)
  qed
qed

lemma grid_rows: "0 < n \<Longrightarrow> map (\<lambda>t. f (t mod n) (t div n)) [0..<g * n] = concat (map (\<lambda>p. map (\<lambda>j. f j p) [0..<n]) [0..<g])"
proof (induction g)
  case (Suc g)
  have "map (\<lambda>t. f (t mod n) (t div n)) [g * n..<g * n + n] = map (\<lambda>j. f j g) [0..<n]"
    using Suc.prems by (intro nth_equalityI) simp_all
  moreover have "[0..<Suc g * n] = [0..<g * n] @ [g * n..<g * n + n]"
    using upt_add_eq_append [of 0 "g * n" n] by (simp add: add.commute)
  ultimately show ?case using Suc by simp
qed simp

lemma length_resample_group [simp]: "length (resample_group newf K ker h) = newf"
  by (simp add: resample_group_def)

lemma length_groups: "length (concat (map (\<lambda>p. resample_group newf K ker (h p)) [0..<g])) = g * newf"
  by (induction g) simp_all

lemma groups_of_le: "g \<le> groups_of orig (2 * width + orig) (width + length xs) \<Longrightarrow> g \<le> length xs div orig + 1"
proof -
  assume g: "g \<le> groups_of orig (2 * width + orig) (width + length xs)"
  have "(width + length xs - (2 * width + orig)) div orig \<le> length xs div orig" by (intro div_le_mono) linarith
  then show ?thesis using g unfolding groups_of_def by (cases "width + length xs < 2 * width + orig") simp_all
qed

lemma window_fits:
  assumes "p < groups_of orig K n"
  shows "p * orig + K \<le> n"
proof -
  have K: "\<not> n < K" "p \<le> (n - K) div orig" using assms unfolding groups_of_def by (simp_all split: if_splits)
  then have "p * orig \<le> (n - K) div orig * orig" by (intro mult_right_mono) simp_all
  also have "\<dots> \<le> n - K" by (rule div_times_less_eq_dividend)
  finally show ?thesis using K(1) by linarith
qed

lemma take_upt_min: "take m [0..<n] = [0..<min m n]"
  by (simp add: min_def)

lemma apply_mono_unfold:
  "audio_resample_apply_mono xs orig newf width (2 * width + orig) ker target =
     map (\<lambda>t. dot (take (2 * width + orig) (drop (t div newf * orig) ((replicate width 0 @ xs) @ replicate (width + orig) 0)))
                 (take (2 * width + orig) (drop (t mod newf * (2 * width + orig)) ker)))
       [0..<min target ((length xs div orig + 1) * newf)]"
proof -
  have "length xs + 2 * width + orig - width - length xs = width + orig" by simp
  moreover have "length xs + 2 * width + orig - (2 * width + orig) = length xs" by simp
  moreover have "(if a < b then a else b) = min a b" for a b :: nat by simp
  ultimately show ?thesis unfolding audio_resample_apply_mono_def Let_def by (simp only: append_assoc)
qed

text \<open>The windows of the first groups lie inside the samples: the pad past them does not count.\<close>

lemma apply_mono_groups:
  assumes orig: "0 < orig" and newf: "0 < newf"
    and g: "g \<le> groups_of orig (2 * width + orig) (width + length xs)" and target: "g * newf \<le> target"
  shows "take (g * newf) (audio_resample_apply_mono xs orig newf width (2 * width + orig) ker target) =
    concat (map (\<lambda>p. resample_group newf (2 * width + orig) ker (drop (p * orig) (replicate width 0 @ xs))) [0..<g])"
proof -
  define K where "K = 2 * width + orig"
  define h where "h = replicate width 0 @ xs"
  define padded where "padded = h @ replicate (width + orig) (0 :: rat)"
  have total: "g \<le> length xs div orig + 1"
    using groups_of_le [of g orig width xs] g by simp
  have window: "take K (drop (p * orig) padded) = take K (drop (p * orig) h)" if "p < g" for p
    using window_fits [OF less_le_trans [OF that g]] by (simp add: padded_def h_def K_def)
  have len: "g * newf \<le> (length xs div orig + 1) * newf" using total by (intro mult_right_mono) simp_all
  have "take (g * newf) (audio_resample_apply_mono xs orig newf width K ker target) =
      map (\<lambda>t. dot (take K (drop (t div newf * orig) padded)) (take K (drop (t mod newf * K) ker))) [0..<g * newf]"
    unfolding apply_mono_unfold K_def padded_def h_def take_map take_upt_min using len target by (simp add: min_def)
  also have "\<dots> = concat (map (\<lambda>p. map (\<lambda>j. dot (take K (drop (p * orig) padded)) (take K (drop (j * K) ker))) [0..<newf]) [0..<g])"
    by (rule grid_rows [OF newf])
  also have "\<dots> = concat (map (\<lambda>p. resample_group newf K ker (drop (p * orig) h)) [0..<g])"
    using window by (intro arg_cong [where f = concat] map_cong) (simp_all add: resample_group_def)
  finally show ?thesis by (simp add: K_def h_def)
qed

lemma to_f64_int_bounds:
  assumes "\<bar>x\<bar> < 2 ^ 53"
  shows "of_int n \<le> x \<Longrightarrow> of_int n \<le> to_f64 x" and "x \<le> of_int n \<Longrightarrow> to_f64 x \<le> of_int n"
  using fl_int_bounds [OF assms, of "- 1074"] by (simp_all add: to_f64_def)

text \<open>The length the code computes in double precision is never short of a whole number of samples.\<close>

lemma resample_target_ge:
  assumes n: "m * sr_in \<le> sr_out * n_in" and small: "sr_out * n_in < 2 ^ 53" and sr_in: "0 < sr_in"
  shows "m \<le> resample_target n_in sr_in sr_out"
proof -
  have prod: "to_f64 (of_nat sr_out * of_nat n_in) = of_nat (sr_out * n_in)"
  proof -
    have "int (sr_out * n_in) < int (2 ^ 53)" using small unfolding of_nat_less_iff .
    then have "to_f64 (of_int (int (sr_out * n_in))) = of_int (int (sr_out * n_in))"
      by (intro to_f64_of_int) (simp only: abs_of_nat of_nat_power of_nat_numeral)
    then show ?thesis by simp
  qed
  define q where "q = (of_nat (sr_out * n_in) / of_nat sr_in :: rat)"
  have "q \<le> of_nat (sr_out * n_in) / 1"
    unfolding q_def using sr_in by (intro divide_left_mono) simp_all
  then have "q \<le> of_nat (sr_out * n_in)" by simp
  also have "(of_nat (sr_out * n_in) :: rat) < 2 ^ 53"
    using small by (metis of_nat_less_iff of_nat_numeral of_nat_power)
  finally have "\<bar>q\<bar> < 2 ^ 53" by (simp add: q_def)
  moreover have "of_int (int m) \<le> q"
    using n sr_in by (simp add: q_def le_divide_eq flip: of_nat_mult)
  ultimately have "of_int (int m) \<le> to_f64 q" by (rule to_f64_int_bounds(1))
  then have "int m \<le> \<lceil>to_f64 q\<rceil>" by linarith
  then show ?thesis by (simp add: resample_target_def prod q_def)
qed

text \<open>What a stream gives, from its start: the groups whose windows have arrived.\<close>

lemma stream_push_groups:
  assumes "audio_resample_stream_push \<lparr>rs_orig = orig, rs_newf = newf, rs_width = width, rs_K = 2 * width + orig,
      rs_kernel = ker, rs_history = replicate width 0\<rparr> xs = (s, out)" and orig: "0 < orig"
  shows "out = concat (map (\<lambda>p. resample_group newf (2 * width + orig) ker (drop (p * orig) (replicate width 0 @ xs)))
      [0..<groups_of orig (2 * width + orig) (width + length xs)])"
    and "rs_orig s = orig" "rs_newf s = newf" "rs_K s = 2 * width + orig" "rs_width s = width"
  using resample_loop_groups [of orig "2 * width + orig" newf ker "replicate width 0 @ xs"] assms
  by (auto simp: audio_resample_stream_push_def case_prod_beta Let_def)

text \<open>They are no more than the samples the whole buffer is worth.\<close>

lemma groups_in_time:
  assumes "0 < orig" "n = groups_of orig (2 * width + orig) (width + l)"
  shows "n * orig \<le> l"
proof (cases n)
  case (Suc p)
  then have "p * orig + (2 * width + orig) \<le> width + l" using assms(2) by (intro window_fits) simp
  then show ?thesis using Suc by simp
qed simp

lemma groups_in_target:
  assumes "0 < orig" "n = groups_of orig (2 * width + orig) (width + l)" "orig * g = sr_in" "newf * g = sr_out"
    and "sr_out * l < 2 ^ 53" "0 < sr_in"
  shows "n * newf \<le> resample_target l sr_in sr_out"
proof (rule resample_target_ge [OF _ assms(5,6)])
  have "n * orig * (newf * g) \<le> l * (newf * g)" using groups_in_time [OF assms(1,2)] by simp
  then show "n * newf * sr_in \<le> sr_out * l"
    unfolding assms(3) [symmetric] assms(4) [symmetric] by (simp add: mult.commute mult.left_commute)
qed

text \<open>C36: A microphone resampled as it streams in gives the samples a resampling of the whole recording gives,
  whatever the pieces it arrives in: the output of the stream is the start of that of the buffer, and holds
  every group of samples whose window has arrived in full.\<close>

theorem stream_is_the_buffer:
  "(let (s, out) = feed_all audio_resample_stream_push (audio_resample_stream_init lm sr_in sr_out) pieces;
        n = length (concat pieces)
    in if sr_in = 0 \<or> sr_out = 0 \<or> sr_in = sr_out \<or> 2 ^ 53 \<le> sr_out * n then True
       else length out = groups_of (rs_orig s) (rs_K s) (rs_width s + n) * rs_newf s \<and>
            (case audio_resample lm [concat pieces] n sr_in sr_out of
               None \<Rightarrow> out = []
             | Some channels \<Rightarrow> prefix out (hd channels)))"
proof -
  define xs where "xs = concat pieces"
  define g where "g = audio_resample_gcd sr_in sr_out"
  define orig newf where "orig = sr_in div g" and "newf = sr_out div g"
  define width where "width = resample_width orig newf"
  define ker where "ker = fst (audio_resample_build_kernel lm orig newf)"
  have built: "audio_resample_build_kernel lm orig newf = (ker, width, 2 * width + orig)"
    by (simp add: ker_def width_def audio_resample_build_kernel_def Let_def)
  define s0 where "s0 = audio_resample_stream_init lm sr_in sr_out"
  have s0: "s0 = \<lparr>rs_orig = orig, rs_newf = newf, rs_width = width, rs_K = 2 * width + orig, rs_kernel = ker,
      rs_history = replicate width 0\<rparr>"
    using built by (simp add: s0_def audio_resample_stream_init_def Let_def g_def orig_def newf_def)
  obtain s out where run: "feed_all audio_resample_stream_push s0 pieces = (s, out)"
    by (cases "feed_all audio_resample_stream_push s0 pieces")
  show ?thesis
  proof (cases "sr_in = 0 \<or> sr_out = 0 \<or> sr_in = sr_out \<or> 2 ^ 53 \<le> sr_out * length xs")
    case True
    then show ?thesis using run by (simp add: s0_def xs_def Let_def)
  next
    case False
    then have pos: "0 < sr_in" "0 < sr_out" "sr_in \<noteq> sr_out" and small: "sr_out * length xs < 2 ^ 53" by auto
    have g: "g dvd sr_in" "g dvd sr_out" "0 < g" using pos by (simp_all add: g_def audio_resample_gcd_eq)
    then have orig: "0 < orig" and newf: "0 < newf" using pos by (auto simp: orig_def newf_def)
    define n where "n = groups_of orig (2 * width + orig) (width + length xs)"
    define target where "target = resample_target (length xs) sr_in sr_out"
    define mono where "mono = audio_resample_apply_mono xs orig newf width (2 * width + orig) ker target"
    have "stream_set s0" using orig by (simp add: s0 stream_set_def)
    then have push: "audio_resample_stream_push s0 xs = (s, out)"
      using resample.feed_all_concat run by (simp add: xs_def)
    note out = stream_push_groups [OF push [unfolded s0] orig, folded n_def]
    have len: "length out = n * newf" unfolding out(1) by (rule length_groups)
    have target: "n * newf \<le> target"
      unfolding target_def using g small pos
      by (intro groups_in_target [OF orig n_def, where g = g]) (simp_all add: orig_def newf_def)
    then have "take (n * newf) mono = out"
      unfolding out(1) mono_def by (intro apply_mono_groups orig newf) (simp_all add: n_def)
    then have "prefix out mono" using take_is_prefix by metis
    moreover have "length xs = 0 \<or> target = 0 \<Longrightarrow> out = []"
      using len target groups_in_time [OF orig n_def] orig by auto
    moreover have "audio_resample lm [xs] (length xs) sr_in sr_out = (if length xs = 0 \<or> target = 0 then None else Some [mono])"
      using pos built by (simp add: audio_resample_def Let_def g_def orig_def newf_def mono_def target_def)
    ultimately show ?thesis
      using run len False by (simp add: s0_def xs_def Let_def out(2-) n_def)
  qed
qed

end
