(* ===== verification/Jarvis.thy ===== *)
theory Jarvis
  imports Resample
begin

text \<open>
  \<open>src/jarvis-fx.h\<close> and \<open>src/jarvis-fx.cpp\<close>: the Jarvis voice effect, its delay line, its shelves and
  its two chorus voices. Every operation is rounded in the type the source gives it.
\<close>

section \<open>Arithmetic\<close>

definition f_add :: "f32 \<Rightarrow> f32 \<Rightarrow> f32" where "f_add x y = to_f32 (x + y)"
definition f_sub :: "f32 \<Rightarrow> f32 \<Rightarrow> f32" where "f_sub x y = to_f32 (x - y)"
definition f_mul :: "f32 \<Rightarrow> f32 \<Rightarrow> f32" where "f_mul x y = to_f32 (x * y)"
definition f_div :: "f32 \<Rightarrow> f32 \<Rightarrow> f32" where "f_div x y = to_f32 (x / y)"
definition d_add :: "f64 \<Rightarrow> f64 \<Rightarrow> f64" where "d_add x y = to_f64 (x + y)"
definition d_sub :: "f64 \<Rightarrow> f64 \<Rightarrow> f64" where "d_sub x y = to_f64 (x - y)"
definition d_mul :: "f64 \<Rightarrow> f64 \<Rightarrow> f64" where "d_mul x y = to_f64 (x * y)"
definition d_div :: "f64 \<Rightarrow> f64 \<Rightarrow> f64" where "d_div x y = to_f64 (x / y)"

section \<open>Parameters\<close>

definition JARVIS_ECHO_MS :: f32 where "JARVIS_ECHO_MS = to_f32 50.39"

record jarvis_shelf =
  sh_f0 :: f32
  sh_gain_db :: f32
  sh_high :: bool

record jarvis_path_params =
  pp_gain_db :: f32
  pp_lo :: jarvis_shelf
  pp_hi :: jarvis_shelf

definition JARVIS_LEAK :: jarvis_path_params where
  "JARVIS_LEAK =
     \<lparr>pp_gain_db = to_f32 (- 13.10),
      pp_lo = \<lparr>sh_f0 = 426, sh_gain_db = to_f32 (- 1.81), sh_high = False\<rparr>,
      pp_hi = \<lparr>sh_f0 = 5417, sh_gain_db = to_f32 6.97, sh_high = True\<rparr>\<rparr>"

definition JARVIS_ECHO :: jarvis_path_params where
  "JARVIS_ECHO =
     \<lparr>pp_gain_db = to_f32 (- 1.60),
      pp_lo = \<lparr>sh_f0 = 100, sh_gain_db = 0, sh_high = False\<rparr>,
      pp_hi = \<lparr>sh_f0 = 10391, sh_gain_db = to_f32 (- 3.49), sh_high = True\<rparr>\<rparr>"

definition JARVIS_CHORUS :: jarvis_path_params where
  "JARVIS_CHORUS =
     \<lparr>pp_gain_db = to_f32 (- 0.57),
      pp_lo = \<lparr>sh_f0 = 217, sh_gain_db = to_f32 (- 4.12), sh_high = False\<rparr>,
      pp_hi = \<lparr>sh_f0 = 3617, sh_gain_db = to_f32 2.94, sh_high = True\<rparr>\<rparr>"

record jarvis_voice_params =
  vp_share :: f32
  vp_center_ms :: f32
  vp_depth_ms :: f32
  vp_rate_hz :: f32
  vp_phase :: f32

definition JARVIS_VOICES :: "jarvis_voice_params list" where
  "JARVIS_VOICES =
     [\<lparr>vp_share = to_f32 0.33, vp_center_ms = to_f32 35.4, vp_depth_ms = 1, vp_rate_hz = to_f32 0.55, vp_phase = 0\<rparr>,
      \<lparr>vp_share = to_f32 0.67, vp_center_ms = to_f32 33.2, vp_depth_ms = to_f32 0.9, vp_rate_hz = to_f32 0.90,
       vp_phase = to_f32 1.5707963\<rparr>]"

section \<open>Filters\<close>

record jarvis_biquad =
  bq_b0 :: f32
  bq_b1 :: f32
  bq_b2 :: f32
  bq_a1 :: f32
  bq_a2 :: f32
  bq_z1 :: f32
  bq_z2 :: f32

definition biquad_run :: "jarvis_biquad \<Rightarrow> f32 \<Rightarrow> f32 \<times> jarvis_biquad" where
  "biquad_run q x =
     (let y = f_add (f_mul (bq_b0 q) x) (bq_z1 q)
      in (y, q\<lparr>bq_z1 := f_add (f_sub (f_mul (bq_b1 q) x) (f_mul (bq_a1 q) y)) (bq_z2 q),
              bq_z2 := f_sub (f_mul (bq_b2 q) x) (f_mul (bq_a2 q) y)\<rparr>))"

definition jarvis_shelf_init :: "libm \<Rightarrow> jarvis_shelf \<Rightarrow> f32 \<Rightarrow> jarvis_biquad" where
  "jarvis_shelf_init lm p sample_rate =
     (let A = lm_pow lm 10 (d_div (sh_gain_db p) 40);
          w = d_div (d_mul (d_mul 2 M_PI) (sh_f0 p)) sample_rate;
          c = lm_cos lm w;
          sq = d_mul (lm_sqrt lm (d_mul 2 A)) (lm_sin lm w);
          s = (if sh_high p then 1 else - 1);
          up = d_add A 1; down = d_sub A 1;
          b0 = d_mul A (d_add (d_add up (d_mul (d_mul s down) c)) sq);
          b1 = d_mul (d_mul (d_mul (- 2) s) A) (d_add down (d_mul (d_mul s up) c));
          b2 = d_mul A (d_sub (d_add up (d_mul (d_mul s down) c)) sq);
          a0 = d_add (d_sub up (d_mul (d_mul s down) c)) sq;
          a1 = d_mul (d_mul 2 s) (d_sub down (d_mul (d_mul s up) c));
          a2 = d_sub (d_sub up (d_mul (d_mul s down) c)) sq
      in \<lparr>bq_b0 = to_f32 (d_div b0 a0), bq_b1 = to_f32 (d_div b1 a0), bq_b2 = to_f32 (d_div b2 a0),
          bq_a1 = to_f32 (d_div a1 a0), bq_a2 = to_f32 (d_div a2 a0), bq_z1 = 0, bq_z2 = 0\<rparr>)"

record jarvis_path =
  pa_gain :: f32
  pa_lo :: jarvis_biquad
  pa_hi :: jarvis_biquad

definition path_run :: "jarvis_path \<Rightarrow> f32 \<Rightarrow> f32 \<times> jarvis_path" where
  "path_run p x =
     (let (a, lo) = biquad_run (pa_lo p) x; (b, hi) = biquad_run (pa_hi p) a
      in (f_mul (pa_gain p) b, p\<lparr>pa_lo := lo, pa_hi := hi\<rparr>))"

definition jarvis_path_init :: "libm \<Rightarrow> jarvis_path_params \<Rightarrow> f32 \<Rightarrow> jarvis_path" where
  "jarvis_path_init lm p sample_rate =
     \<lparr>pa_gain = lm_powf lm 10 (f_div (pp_gain_db p) 20),
      pa_lo = jarvis_shelf_init lm (pp_lo p) sample_rate, pa_hi = jarvis_shelf_init lm (pp_hi p) sample_rate\<rparr>"

section \<open>The effect\<close>

record jarvis_voice =
  jv_amp :: f32
  jv_center :: f32
  jv_depth :: f32
  jv_c :: f32
  jv_s :: f32
  jv_wc :: f32
  jv_ws :: f32

record jarvis_fx =
  fx_sample_rate :: f32
  fx_ring :: "f32 list"
  fx_mask :: "32 word"
  fx_pos :: "32 word"
  fx_echo_delay :: f32
  fx_leak :: jarvis_path
  fx_echo :: jarvis_path
  fx_chorus :: jarvis_path
  fx_voices :: "jarvis_voice list"

definition voice_init :: "libm \<Rightarrow> f32 \<Rightarrow> jarvis_voice_params \<Rightarrow> jarvis_voice" where
  "voice_init lm sample_rate p =
     (let ms = f_div sample_rate 1000;
          w = d_div (d_mul (d_mul 2 M_PI) (vp_rate_hz p)) sample_rate
      in \<lparr>jv_amp = lm_sqrtf lm (vp_share p), jv_center = f_mul (vp_center_ms p) ms, jv_depth = f_mul (vp_depth_ms p) ms,
          jv_c = lm_cosf lm (vp_phase p), jv_s = lm_sinf lm (vp_phase p),
          jv_wc = to_f32 (lm_cos lm w), jv_ws = to_f32 (lm_sin lm w)\<rparr>)"

definition jarvis_fx_reset :: "libm \<Rightarrow> jarvis_fx \<Rightarrow> jarvis_fx" where
  "jarvis_fx_reset lm fx =
     fx\<lparr>fx_ring := replicate (length (fx_ring fx)) 0, fx_pos := 0,
        fx_leak := jarvis_path_init lm JARVIS_LEAK (fx_sample_rate fx),
        fx_echo := jarvis_path_init lm JARVIS_ECHO (fx_sample_rate fx),
        fx_chorus := jarvis_path_init lm JARVIS_CHORUS (fx_sample_rate fx),
        fx_voices := map (voice_init lm (fx_sample_rate fx)) JARVIS_VOICES\<rparr>"

text \<open>The ring: the first power of two from \<open>size\<close> on that is not below the bound. The bound is far from
  the range of the type: 108 million for the largest sample rate an \<open>int\<close> holds.\<close>

function ring_size :: "nat \<Rightarrow> nat \<Rightarrow> nat" where
  "ring_size bound sz = (if 0 < sz \<and> sz < bound then ring_size bound (2 * sz) else sz)"
  by pat_completeness auto
termination by (relation "measure (\<lambda>(bound, sz). bound - sz)") auto

declare ring_size.simps [simp del]

definition jarvis_fx_blank :: jarvis_fx where
  "jarvis_fx_blank =
     (let q = \<lparr>bq_b0 = 1, bq_b1 = 0, bq_b2 = 0, bq_a1 = 0, bq_a2 = 0, bq_z1 = 0, bq_z2 = 0\<rparr>;
          p = \<lparr>pa_gain = 1, pa_lo = q, pa_hi = q\<rparr>
      in \<lparr>fx_sample_rate = 0, fx_ring = [], fx_mask = 0, fx_pos = 0, fx_echo_delay = 0, fx_leak = p, fx_echo = p,
          fx_chorus = p,
          fx_voices = replicate 2 \<lparr>jv_amp = 0, jv_center = 0, jv_depth = 0, jv_c = 1, jv_s = 0, jv_wc = 1, jv_ws = 0\<rparr>\<rparr>)"

definition jarvis_fx_new :: "libm \<Rightarrow> int \<Rightarrow> jarvis_fx" where
  "jarvis_fx_new lm sample_rate =
     (let rate = to_f32 (of_int sample_rate);
          delay = f_div (f_mul JARVIS_ECHO_MS rate) 1000;
          sz = ring_size (nat (trunc delay) + 8) 1
      in jarvis_fx_reset lm
           (jarvis_fx_blank\<lparr>fx_sample_rate := rate, fx_echo_delay := delay, fx_ring := replicate sz 0,
                            fx_mask := word_of_nat (sz - 1)\<rparr>))"

text \<open>A slot of the ring, and the read between four of them.\<close>

definition ring_at :: "jarvis_fx \<Rightarrow> 32 word \<Rightarrow> f32" where
  "ring_at fx i = fx_ring fx ! unat (i AND fx_mask fx)"

definition jarvis_read :: "jarvis_fx \<Rightarrow> f32 \<Rightarrow> f32" where
  "jarvis_read fx delay =
     (let fd = of_int \<lfloor>delay\<rfloor>;
          t = f_sub 1 (f_sub delay fd);
          i = fx_pos fx - word_of_int (trunc fd) - 2;
          xm1 = ring_at fx (i - 1); x0 = ring_at fx i; x1 = ring_at fx (i + 1); x2 = ring_at fx (i + 2);
          c1 = f_mul (1 / 2) (f_sub x1 xm1);
          c2 = f_sub (f_add (f_sub xm1 (f_mul (5 / 2) x0)) (f_mul 2 x1)) (f_mul (1 / 2) x2);
          c3 = f_add (f_mul (1 / 2) (f_sub x2 xm1)) (f_mul (3 / 2) (f_sub x0 x1))
      in f_add (f_mul (f_add (f_mul (f_add (f_mul c3 t) c2) t) c1) t) x0)"

text \<open>The voices in turn: each adds its read and turns its phasor.\<close>

definition voice_step :: "jarvis_fx \<Rightarrow> jarvis_voice \<Rightarrow> f32 \<Rightarrow> f32 \<times> jarvis_voice" where
  "voice_step fx v ch =
     (let ch = f_add ch (f_mul (jv_amp v) (jarvis_read fx (f_add (jv_center v) (f_mul (jv_depth v) (jv_s v)))));
          c = f_sub (f_mul (jv_c v) (jv_wc v)) (f_mul (jv_s v) (jv_ws v));
          s = f_add (f_mul (jv_s v) (jv_wc v)) (f_mul (jv_c v) (jv_ws v))
      in (ch, v\<lparr>jv_s := s, jv_c := c\<rparr>))"

fun voices_step :: "jarvis_fx \<Rightarrow> jarvis_voice list \<Rightarrow> f32 \<Rightarrow> f32 \<times> jarvis_voice list" where
  "voices_step fx [] ch = (ch, [])"
| "voices_step fx (v # vs) ch =
     (let (ch, v) = voice_step fx v ch; (ch, vs) = voices_step fx vs ch in (ch, v # vs))"

definition jarvis_sample :: "jarvis_fx \<Rightarrow> f32 \<Rightarrow> f32 \<times> jarvis_fx" where
  "jarvis_sample fx x =
     (let fx = fx\<lparr>fx_ring := (fx_ring fx)[unat (fx_pos fx AND fx_mask fx) := x], fx_pos := fx_pos fx + 1\<rparr>;
          (ch, voices) = voices_step fx (fx_voices fx) 0;
          (leak, leak_path) = path_run (fx_leak fx) x;
          (echo, echo_path) = path_run (fx_echo fx) (jarvis_read fx (fx_echo_delay fx));
          (chorus, chorus_path) = path_run (fx_chorus fx) ch
      in (f_add (f_add (f_add x leak) echo) chorus,
          fx\<lparr>fx_voices := voices, fx_leak := leak_path, fx_echo := echo_path, fx_chorus := chorus_path\<rparr>))"

definition voice_settle :: "libm \<Rightarrow> jarvis_voice \<Rightarrow> jarvis_voice" where
  "voice_settle lm v =
     (let r = f_div 1 (lm_sqrtf lm (f_add (f_mul (jv_c v) (jv_c v)) (f_mul (jv_s v) (jv_s v))))
      in v\<lparr>jv_c := f_mul (jv_c v) r, jv_s := f_mul (jv_s v) r\<rparr>)"

fun jarvis_samples :: "jarvis_fx \<Rightarrow> f32 list \<Rightarrow> f32 list \<times> jarvis_fx" where
  "jarvis_samples fx [] = ([], fx)"
| "jarvis_samples fx (x # xs) =
     (let (y, fx) = jarvis_sample fx x; (ys, fx) = jarvis_samples fx xs in (y # ys, fx))"

definition jarvis_fx_process :: "libm \<Rightarrow> jarvis_fx \<Rightarrow> f32 list \<Rightarrow> f32 list \<times> jarvis_fx" where
  "jarvis_fx_process lm fx pcm =
     (let (out, fx) = jarvis_samples fx pcm in (out, fx\<lparr>fx_voices := map (voice_settle lm) (fx_voices fx)\<rparr>))"

definition jarvis_fx_tail :: "jarvis_fx \<Rightarrow> nat" where
  "jarvis_fx_tail fx = nat \<lceil>fx_echo_delay fx\<rceil> + 2"

section \<open>What the effect keeps\<close>

text \<open>The ring is a power of two, masked by one less; the rest of the effect is what a reset writes again.\<close>

definition fx_ok :: "jarvis_fx \<Rightarrow> bool" where
  "fx_ok fx \<longleftrightarrow> fx_ring fx \<noteq> [] \<and> length (fx_ring fx) \<le> 2 ^ 31 \<and> fx_mask fx = word_of_nat (length (fx_ring fx) - 1)"

lemma ring_index: "fx_ok fx \<Longrightarrow> unat (i AND fx_mask fx) < length (fx_ring fx)"
proof -
  assume ok: "fx_ok fx"
  have "unat (i AND fx_mask fx) \<le> unat (fx_mask fx)"
    by (simp add: word_and_le1 word_le_nat_alt [symmetric])
  also have "\<dots> = length (fx_ring fx) - 1"
  proof -
    have "length (fx_ring fx) - 1 < 2 ^ 32" using ok by (simp add: fx_ok_def) linarith
    then have "unat (word_of_nat (length (fx_ring fx) - 1) :: 32 word) = length (fx_ring fx) - 1"
      unfolding unat_of_nat by (simp add: take_bit_nat_eq_self)
    then show ?thesis using ok unfolding fx_ok_def by metis
  qed
  finally have "unat (i AND fx_mask fx) \<le> length (fx_ring fx) - 1" .
  moreover have "0 < length (fx_ring fx)" using ok by (simp add: fx_ok_def)
  ultimately show ?thesis by linarith
qed

text \<open>What a call may change.\<close>

definition fx_same :: "jarvis_fx \<Rightarrow> jarvis_fx \<Rightarrow> bool" where
  "fx_same fx fx' \<longleftrightarrow>
     fx_sample_rate fx' = fx_sample_rate fx \<and> length (fx_ring fx') = length (fx_ring fx) \<and>
     fx_mask fx' = fx_mask fx \<and> fx_echo_delay fx' = fx_echo_delay fx"

lemma sample_same: "fx_same fx (snd (jarvis_sample fx x))"
  by (simp add: jarvis_sample_def fx_same_def Let_def split: prod.splits)

lemma samples_same: "fx_same fx (snd (jarvis_samples fx xs)) \<and> length (fst (jarvis_samples fx xs)) = length xs"
proof (induction xs arbitrary: fx)
  case (Cons x xs)
  then show ?case using sample_same [of fx x] Cons.IH [of "snd (jarvis_sample fx x)"]
    by (simp add: fx_same_def case_prod_beta Let_def)
qed (simp add: fx_same_def)

lemma process_same:
  "fx_same fx (snd (jarvis_fx_process lm fx pcm)) \<and> length (fst (jarvis_fx_process lm fx pcm)) = length pcm"
  using samples_same [of fx pcm] by (simp add: jarvis_fx_process_def fx_same_def case_prod_beta Let_def)

lemma reset_same: "fx_same fx fx' \<Longrightarrow> jarvis_fx_reset lm fx' = jarvis_fx_reset lm fx"
  by (simp add: fx_same_def jarvis_fx_reset_def)

lemma fx_same_ok: "fx_same fx fx' \<Longrightarrow> fx_ok fx \<Longrightarrow> fx_ok fx'"
  by (auto simp: fx_same_def fx_ok_def)

lemma ring_size_bounds: "0 < sz \<Longrightarrow> bound \<le> ring_size bound sz \<and> ring_size bound sz \<le> max sz (2 * bound)"
proof (induction bound sz rule: ring_size.induct)
  case (1 bound sz)
  then show ?case by (subst (1 2) ring_size.simps) auto
qed

lemma ring_size_power: "\<exists>k. ring_size bound (2 ^ n) = 2 ^ k"
proof (induction "bound - 2 ^ n" arbitrary: n rule: less_induct)
  case less
  show ?case
  proof (cases "(2 :: nat) ^ n < bound")
    case True
    have "bound - 2 ^ Suc n < bound - 2 ^ n" using True by (intro diff_less_mono2) simp_all
    from less.hyps [OF this] show ?thesis using True by (subst ring_size.simps) simp
  next
    case False
    then show ?thesis by (subst ring_size.simps) auto
  qed
qed

lemma echo_ms: "50 \<le> JARVIS_ECHO_MS" "JARVIS_ECHO_MS \<le> 51"
proof -
  have "\<bar>50.39 :: rat\<bar> < 2 ^ 24" by simp
  note b = to_f32_int_bounds [OF this]
  show "50 \<le> JARVIS_ECHO_MS" using b(1) [of 50] unfolding JARVIS_ECHO_MS_def by simp
  show "JARVIS_ECHO_MS \<le> 51" using b(2) [of 51] unfolding JARVIS_ECHO_MS_def by simp
qed

lemma to_f32_between:
  assumes "0 \<le> x" "x \<le> of_int n" "n < 2 ^ 24"
  shows "0 \<le> to_f32 x" "to_f32 x \<le> of_int n"
proof -
  have "of_int n < (of_int (2 ^ 24) :: rat)" using assms(3) by (simp only: of_int_less_iff)
  then have small: "\<bar>x\<bar> < 2 ^ 24" using assms(1,2) by simp
  show "0 \<le> to_f32 x" using to_f32_int_bounds(1) [OF small, of 0] assms(1) by simp
  show "to_f32 x \<le> of_int n" by (rule to_f32_int_bounds(2) [OF small assms(2)])
qed

lemma echo_delay_bound:
  assumes "0 \<le> rate" "rate \<le> 320000"
  shows "trunc (f_div (f_mul JARVIS_ECHO_MS (to_f32 (of_int rate))) 1000) \<le> 2 ^ 24"
proof -
  have rate: "to_f32 (of_int rate) = of_int rate" using assms by (intro to_f32_of_int) simp
  have nonneg: "0 \<le> (of_int rate :: rat)" using assms(1) by simp
  have "JARVIS_ECHO_MS * of_int rate \<le> 51 * of_int rate" by (rule mult_right_mono [OF echo_ms(2) nonneg])
  then have le: "JARVIS_ECHO_MS * of_int rate \<le> of_int (51 * rate)" by simp
  have ge: "0 \<le> JARVIS_ECHO_MS * of_int rate" using echo_ms(1) nonneg by (intro mult_nonneg_nonneg) simp_all
  have lt: "51 * rate < 2 ^ 24" using assms(2) by simp
  define y where "y = f_mul JARVIS_ECHO_MS (of_int rate)"
  have y: "0 \<le> y" "y \<le> of_int (51 * rate)" using to_f32_between [OF ge le lt] unfolding y_def f_mul_def by simp_all
  have "y / 1000 \<le> y / 1" by (intro divide_left_mono) (simp_all add: y(1))
  then have "y / 1000 \<le> of_int (51 * rate)" using y(2) by simp
  moreover have "0 \<le> y / 1000" using y(1) by simp
  ultimately have z: "0 \<le> f_div y 1000" "f_div y 1000 \<le> of_int (51 * rate)"
    using to_f32_between [OF _ _ lt] unfolding f_div_def by blast+
  then have "trunc (f_div y 1000) \<le> 51 * rate" unfolding trunc_def by (simp only: if_True floor_le_iff)
  then show ?thesis unfolding rate y_def [symmetric] using lt by linarith
qed

definition new_delay :: "int \<Rightarrow> f32" where
  "new_delay rate = f_div (f_mul JARVIS_ECHO_MS (to_f32 (of_int rate))) 1000"

definition new_size :: "int \<Rightarrow> nat" where
  "new_size rate = ring_size (nat (trunc (new_delay rate)) + 8) 1"

lemma fx_new_unfold:
  "jarvis_fx_new lm rate = jarvis_fx_reset lm
     (jarvis_fx_blank\<lparr>fx_sample_rate := to_f32 (of_int rate), fx_echo_delay := new_delay rate,
        fx_ring := replicate (new_size rate) 0, fx_mask := word_of_nat (new_size rate - 1)\<rparr>)"
  by (simp only: jarvis_fx_new_def Let_def new_delay_def new_size_def)

lemma fx_new_fields:
  "fx_echo_delay (jarvis_fx_new lm rate) = new_delay rate" "length (fx_ring (jarvis_fx_new lm rate)) = new_size rate"
  "fx_mask (jarvis_fx_new lm rate) = word_of_nat (new_size rate - 1)"
  unfolding fx_new_unfold jarvis_fx_reset_def by simp_all

lemma reset_reset: "jarvis_fx_reset lm (jarvis_fx_reset lm fx) = jarvis_fx_reset lm fx"
  by (simp add: jarvis_fx_reset_def)

lemma reset_new: "jarvis_fx_reset lm (jarvis_fx_new lm rate) = jarvis_fx_new lm rate"
  unfolding fx_new_unfold by (rule reset_reset)

lemma new_size_ok:
  assumes "0 \<le> rate" "rate \<le> 320000"
  shows "nat (trunc (new_delay rate)) + 8 \<le> new_size rate" "new_size rate \<le> 2 ^ 31" "\<exists>k. new_size rate = 2 ^ k"
proof -
  have "nat (trunc (new_delay rate)) \<le> 2 ^ 24" using echo_delay_bound [OF assms] unfolding new_delay_def by simp
  moreover have "nat (trunc (new_delay rate)) + 8 \<le> new_size rate"
    "new_size rate \<le> max 1 (2 * (nat (trunc (new_delay rate)) + 8))"
    using ring_size_bounds [of 1 "nat (trunc (new_delay rate)) + 8"] unfolding new_size_def by simp_all
  ultimately show "nat (trunc (new_delay rate)) + 8 \<le> new_size rate" "new_size rate \<le> 2 ^ 31" by simp_all
  show "\<exists>k. new_size rate = 2 ^ k" using ring_size_power [of _ 0] unfolding new_size_def by simp
qed

lemma fx_new_ok:
  assumes "0 \<le> rate" "rate \<le> 320000"
  shows "fx_ok (jarvis_fx_new lm rate)"
proof -
  have "0 < new_size rate" using new_size_ok(1) [OF assms] by simp
  then show ?thesis
    using new_size_ok(2) [OF assms] unfolding fx_ok_def fx_new_fields by (simp add: fx_new_fields flip: length_greater_0_conv)
qed

lemma processes_same: "fx_same fx (foldl (\<lambda>fx pcm. snd (jarvis_fx_process lm fx pcm)) fx pieces)"
proof (induction pieces arbitrary: fx)
  case (Cons p pieces)
  then show ?case using Cons.IH [of "snd (jarvis_fx_process lm fx p)"] process_same [of fx lm p]
    by (simp add: fx_same_def)
qed (simp add: fx_same_def)

text \<open>An answer starts from silence: whatever earlier answers ran through the effect, a reset leaves the
  effect exactly as it was made, and up to a sample rate of 320 kHz the delay line keeps its shape through
  any run: a power of two past the longest delay, every read inside it.\<close>

theorem effect_forgets:
  "let fx = jarvis_fx_new lm rate; fx' = foldl (\<lambda>fx pcm. snd (jarvis_fx_process lm fx pcm)) fx pieces in
   jarvis_fx_reset lm fx' = fx \<and>
   (if 0 \<le> rate \<and> rate \<le> 320000
    then fx_ok fx' \<and> nat (trunc (fx_echo_delay fx')) + 8 \<le> length (fx_ring fx') \<and> (\<exists>k. length (fx_ring fx') = 2 ^ k)
    else True)"
proof -
  define fx where "fx = jarvis_fx_new lm rate"
  define fx' where "fx' = foldl (\<lambda>fx pcm. snd (jarvis_fx_process lm fx pcm)) fx pieces"
  have fx': "fx_same fx fx'" unfolding fx'_def by (rule processes_same)
  have keeps: "fx_echo_delay fx' = new_delay rate" "length (fx_ring fx') = new_size rate"
    using fx' unfolding fx_same_def fx_def fx_new_fields by simp_all
  have "jarvis_fx_reset lm fx' = fx" unfolding reset_same [OF fx'] fx_def by (rule reset_new)
  moreover have "fx_ok fx' \<and> nat (trunc (fx_echo_delay fx')) + 8 \<le> length (fx_ring fx') \<and> (\<exists>k. length (fx_ring fx') = 2 ^ k)"
    if "0 \<le> rate \<and> rate \<le> 320000"
    using fx_same_ok [OF fx'] fx_new_ok new_size_ok(1,3) that unfolding keeps fx_def by blast
  ultimately show ?thesis unfolding Let_def fx_def [symmetric] fx'_def [symmetric] by simp
qed

end
