(* ===== verification/Connection.thy ===== *)
theory Connection
  imports Proto Session Splitter Agent Wake Jarvis
begin

text \<open>
  The state of one conversation, \<open>struct Connection\<close> of \<open>src/s2s-conversation.cpp\<close>, and the operations
  its four threads share: sending, stopping, the turn flags, the events of the session, the echo
  canceller. A frame in the queue is the list of its fields; the writer is where it becomes text. What
  only feeds the log (the energies and timings of the canceller) is left out, and so are the buffers
  a call fills anew.
\<close>

section \<open>Data\<close>

text \<open>The models: the two of the session, the recognizer, which fails with a reason or transcribes, the
  voices, and the echo canceller, its hop, its fresh state and what it makes of one hop, with the reason
  of a failure.\<close>

record ('v, 'a) ServerModels =
  sm_session :: "'v session_models"
  sm_asr :: "f32 list \<Rightarrow> string + string"
  sm_tts :: tts_bridge
  sm_lv_hop :: nat
  sm_lv_new :: "'a option"
  sm_lv_process :: "'a \<Rightarrow> f32 list \<Rightarrow> f32 list \<Rightarrow> (string option \<times> f32 list) \<times> 'a"

record ('v, 'a) ConversationSetup =
  cs_models :: "('v, 'a) ServerModels"
  cs_defaults :: ClientSettings
  cs_llm_fixed :: bool
  cs_mcp_fixed :: bool
  cs_llm_hosts :: "string list"

record TurnAudio =
  ta_pcm :: "f32 list"
  ta_turn_id :: int
  ta_revision :: int

record AnswerJob =
  aj_transcript :: string
  aj_turn_id :: int
  aj_revision :: int

definition S2S_INPUT_RATE :: nat where "S2S_INPUT_RATE = 24000"
definition S2S_MODEL_RATE :: nat where "S2S_MODEL_RATE = 16000"

text \<open>\<open>cn_wire\<close> is the far end of \<open>conn->send\<close>: the frames the client has been given.\<close>

record ('v, 'a) Connection =
  cn_session :: "'v s2s_session"
  cn_params :: s2s_session_params
  cn_echo :: string
  cn_client :: ClientSettings
  cn_awake :: bool
  cn_admitted_turn :: int
  cn_out :: "rt_frame list"
  cn_out_stop :: bool
  cn_wire :: "rt_frame list"
  cn_llm :: "llm_client option"
  cn_agent :: "llm_agent option"
  cn_agent_servers :: "mcp_server_params list"
  cn_queue :: "TurnAudio list"
  cn_answers :: "AnswerJob list"
  cn_stop :: bool
  cn_cancel :: bool
  cn_final_turn :: int
  cn_open_turn :: int
  cn_open_revision :: int
  cn_answer_turn :: int
  cn_answer_revision :: int
  cn_answer_released :: bool
  cn_speaking :: bool
  cn_fx :: jarvis_fx
  cn_mic_resample :: AudioResampleStream
  cn_ref_resample :: AudioResampleStream
  cn_aec :: "'a option"
  cn_aec_mic :: "f32 list"
  cn_aec_ref :: "f32 list"
  cn_aec_failing :: bool

text \<open>A write under the client lock.\<close>

definition update_client ::
  "(ClientSettings \<Rightarrow> ClientSettings) \<Rightarrow> ('v, 'a) Connection \<Rightarrow> ('v, 'a) Connection" where
  "update_client f c = c\<lparr>cn_client := f (cn_client c)\<rparr>"

section \<open>Frames\<close>

definition conn_send :: "('v, 'a) Connection \<Rightarrow> rt_frame \<Rightarrow> ('v, 'a) Connection" where
  "conn_send c frame = (if \<not> cn_out_stop c then c\<lparr>cn_out := cn_out c @ [frame]\<rparr> else c)"

definition conn_error :: "('v, 'a) Connection \<Rightarrow> string \<Rightarrow> ('v, 'a) Connection" where
  "conn_error c message = conn_send c (rt_event_error (c_str message))"

definition conn_stop :: "('v, 'a) Connection \<Rightarrow> ('v, 'a) Connection" where
  "conn_stop c = c\<lparr>cn_cancel := True, cn_stop := True\<rparr>"

text \<open>One turn of the writer: \<^const>\<open>None\<close> while it waits and once it has returned.\<close>

definition conn_writer :: "(rt_frame list \<Rightarrow> rt_frame \<Rightarrow> bool) \<Rightarrow> ('v, 'a) Connection \<Rightarrow> ('v, 'a) Connection option" where
  "conn_writer send c =
     (if cn_out_stop c then None
      else case cn_out c of
          [] \<Rightarrow> None
        | frame # rest \<Rightarrow>
            let c = c\<lparr>cn_out := rest\<rparr> in
            Some (if send (cn_wire c) frame then c\<lparr>cn_wire := cn_wire c @ [frame]\<rparr>
                  else conn_stop (c\<lparr>cn_out_stop := True, cn_out := []\<rparr>)))"

section \<open>Turns\<close>

definition conn_outdated :: "('v, 'a) Connection \<Rightarrow> int \<Rightarrow> int \<Rightarrow> bool" where
  "conn_outdated c turn_id revision \<longleftrightarrow>
     turn_id < cn_open_turn c \<or> cn_open_turn c = turn_id \<and> revision < cn_open_revision c"

definition conn_revised :: "('v, 'a) Connection \<Rightarrow> int \<Rightarrow> int \<Rightarrow> bool" where
  "conn_revised c turn_id revision \<longleftrightarrow> cn_open_turn c = turn_id \<and> revision < cn_open_revision c"

definition conn_opened :: "('v, 'a) Connection \<Rightarrow> int \<Rightarrow> int \<Rightarrow> ('v, 'a) Connection" where
  "conn_opened c turn_id revision =
     (let c = (if cn_open_turn c < turn_id \<or> turn_id = cn_open_turn c \<and> cn_open_revision c < revision
               then c\<lparr>cn_open_turn := turn_id, cn_open_revision := revision\<rparr> else c)
      in if cn_speaking c \<and> \<not> cn_cancel c \<and> conn_outdated c (cn_answer_turn c) (cn_answer_revision c)
         then c\<lparr>cn_cancel := True\<rparr> else c)"

definition conn_on_session_event :: "('v, 'a) Connection \<Rightarrow> s2s_session_report \<Rightarrow> ('v, 'a) Connection" where
  "conn_on_session_event c report =
     (case rep_event report of
        S2S_EVENT_SPEECH_STARTED \<Rightarrow>
          conn_opened (conn_send c (rt_event ''input_audio_buffer.speech_started'')) (rep_turn_id report) (rep_revision report)
      | S2S_EVENT_TURN_RESUMED \<Rightarrow>
          conn_opened (conn_send c (rt_event ''input_audio_buffer.speech_started'')) (rep_turn_id report) (rep_revision report)
      | S2S_EVENT_TURN_FINAL \<Rightarrow>
          c\<lparr>cn_final_turn := (if cn_final_turn c < rep_turn_id report then rep_turn_id report else cn_final_turn c)\<rparr>
      | S2S_EVENT_SPEECH_STOPPED \<Rightarrow> c
      | S2S_EVENT_TURN_REOPENED \<Rightarrow> c
      | S2S_EVENT_BARGE_IN \<Rightarrow> c\<lparr>cn_cancel := True\<rparr>
      | S2S_EVENT_TURN_COMMITTED \<Rightarrow>
          c\<lparr>cn_queue := cn_queue c @
              [\<lparr>ta_pcm = take (rep_n_samples report) (rep_pcm report), ta_turn_id = rep_turn_id report,
                ta_revision = rep_revision report\<rparr>]\<rparr>)"

lemma opened_fields:
  "cn_client (conn_opened c t r) = cn_client c" "cn_params (conn_opened c t r) = cn_params c"
  "cn_session (conn_opened c t r) = cn_session c"
  by (simp_all add: conn_opened_def Let_def)

lemma event_fields:
  "cn_client (conn_on_session_event c report) = cn_client c" "cn_params (conn_on_session_event c report) = cn_params c"
  "cn_session (conn_on_session_event c report) = cn_session c"
  by (cases "rep_event report"; simp add: conn_on_session_event_def opened_fields conn_send_def)+

text \<open>A call on the session and the events it raises, which run before it returns. No event reads the
  session, and the session reads nothing the events change.\<close>

definition conn_events ::
  "('v, 'a) Connection \<Rightarrow> 'v s2s_session \<times> s2s_session_report list \<Rightarrow> ('v, 'a) Connection" where
  "conn_events c res = foldl conn_on_session_event (c\<lparr>cn_session := fst res\<rparr>) (snd res)"

definition conn_release :: "('v, 'a) Connection \<Rightarrow> int \<Rightarrow> int \<Rightarrow> ('v, 'a) Connection" where
  "conn_release c turn_id revision = conn_events c (s2s_session_release (cn_session c) turn_id revision)"

section \<open>Echo\<close>

text \<open>The loop over the complete hops: the microphone and the reference not cancelled yet, the cleaned
  samples so far. The output of a hop is a buffer of one hop, zero where the canceller wrote nothing. A
  canceller whose hop is empty would keep the source in its loop.\<close>

function echo_hops ::
  "('v, 'a) ServerModels \<Rightarrow> ('v, 'a) Connection \<Rightarrow> 'a \<Rightarrow> f32 list \<Rightarrow> f32 list \<Rightarrow> f32 list
     \<Rightarrow> f32 list \<times> ('v, 'a) Connection" where
  "echo_hops m c st mic reference pcm =
     (let hop = sm_lv_hop m in
      if 0 < hop \<and> hop \<le> length mic then
        let ((failure, out), st) = sm_lv_process m st (take hop mic) (take hop reference);
            c = (case failure of
                   Some reason \<Rightarrow> if cn_aec_failing c then c else conn_send c (rt_event_error (c_str reason))
                 | None \<Rightarrow> c)
        in echo_hops m (c\<lparr>cn_aec_failing := (failure \<noteq> None)\<rparr>) st (drop hop mic) (drop hop reference)
             (pcm @ take hop (out @ replicate hop 0))
      else (pcm, c\<lparr>cn_aec := Some st, cn_aec_mic := mic, cn_aec_ref := reference\<rparr>))"
  by pat_completeness auto
termination by (relation "measure (\<lambda>(_, _, _, mic, _). length mic)") auto

declare echo_hops.simps [simp del]

definition conn_cancel_echo ::
  "('v, 'a) ServerModels \<Rightarrow> ('v, 'a) Connection \<Rightarrow> 'a \<Rightarrow> f32 list \<Rightarrow> f32 list \<Rightarrow> f32 list \<times> ('v, 'a) Connection" where
  "conn_cancel_echo m c st pcm reference = echo_hops m c st (cn_aec_mic c @ pcm) (cn_aec_ref c @ reference) []"

section \<open>Open and close\<close>

text \<open>\<open>conn_open\<close>; the session of a vad and a turn model that are there is never NULL here.\<close>

definition conn_open :: "libm \<Rightarrow> ('v, 'a) ConversationSetup \<Rightarrow> ('v, 'a) Connection" where
  "conn_open lm setup =
     (let resample = audio_resample_stream_init lm S2S_INPUT_RATE S2S_MODEL_RATE
      in \<lparr>cn_session = s2s_session_new (sm_session (cs_models setup)) s2s_session_params_default True,
          cn_params = s2s_session_params_default, cn_echo = ''client'', cn_client = cs_defaults setup,
          cn_awake = True, cn_admitted_turn = - 1, cn_out = [], cn_out_stop = False, cn_wire = [],
          cn_llm = None, cn_agent = None, cn_agent_servers = [], cn_queue = [], cn_answers = [],
          cn_stop = False, cn_cancel = False, cn_final_turn = 0, cn_open_turn = 0, cn_open_revision = 0,
          cn_answer_turn = 0, cn_answer_revision = 0, cn_answer_released = False, cn_speaking = False,
          cn_fx = jarvis_fx_new lm (int S2S_INPUT_RATE), cn_mic_resample = resample, cn_ref_resample = resample,
          cn_aec = None, cn_aec_mic = [], cn_aec_ref = [], cn_aec_failing = False\<rparr>)"

definition conn_stopped :: "('v, 'a) Connection \<Rightarrow> bool" where
  "conn_stopped c = cn_stop c"

end
