(* ===== verification/World.thy ===== *)
theory World
  imports Agent Tts_Bridge
begin

text \<open>
  What a component may do to the world it shares with its caller. A preorder on worlds that every
  callback and every move of another thread respects is respected by the whole call: by a streamed
  completion, a tool call, a turn of the agent, a synthesis. The conversation uses it for what its
  responder keeps while it answers.
\<close>

section \<open>Moves\<close>

definition answer_moves :: "('w \<Rightarrow> 'w \<Rightarrow> bool) \<Rightarrow> 'w http_answer \<Rightarrow> bool" where
  "answer_moves R a \<longleftrightarrow> list_all (\<lambda>(f, _). \<forall>w. R w (f w)) (an_chunks a) \<and> (\<forall>w. R w (an_after a w))"

definition net_moves :: "('w \<Rightarrow> 'w \<Rightarrow> bool) \<Rightarrow> 'w network \<Rightarrow> bool" where
  "net_moves R net \<longleftrightarrow> (\<forall>rq w. answer_moves R (net_request net rq w))"

definition talker_moves :: "('w \<Rightarrow> 'w \<Rightarrow> bool) \<Rightarrow> 'w talker \<Rightarrow> bool" where
  "talker_moves R tk \<longleftrightarrow> (\<forall>params w. let run = tk_synthesize tk params w in
     list_all (\<lambda>(f, _). \<forall>w. R w (f w)) (qr_chunks run) \<and> (\<forall>w. R w (qr_after run w)))"

definition cb_moves :: "('w \<Rightarrow> 'w \<Rightarrow> bool) \<Rightarrow> 'w llm_delta_cb \<Rightarrow> bool" where
  "cb_moves R cb \<longleftrightarrow> (\<forall>d w. R w (snd (cb d w)))"

text \<open>A call that may not return, and threads its client: an MCP call, the tools of an agent.\<close>

definition mcp_moves :: "('w \<Rightarrow> 'w \<Rightarrow> bool) \<Rightarrow> 'w \<Rightarrow> ('r \<times> 'c \<times> 'w) option \<Rightarrow> bool" where
  "mcp_moves R w out \<longleftrightarrow> (case out of None \<Rightarrow> True | Some (_, _, w') \<Rightarrow> R w w')"

definition builtins_move :: "('w \<Rightarrow> 'w \<Rightarrow> bool) \<Rightarrow> 'w llm_agent_builtin list \<Rightarrow> bool" where
  "builtins_move R builtins \<longleftrightarrow> list_all (\<lambda>b. \<forall>a w. R w (snd (bt_fn b a w))) builtins"

text \<open>The calls of one answer, and a turn.\<close>

definition run_moves :: "('w \<Rightarrow> 'w \<Rightarrow> bool) \<Rightarrow> 'w \<Rightarrow> ('r \<times> 'w agent_run) option \<Rightarrow> bool" where
  "run_moves R w out \<longleftrightarrow> (case out of None \<Rightarrow> True | Some (_, st) \<Rightarrow> R w (ar_world st))"

definition turn_moves :: "('w \<Rightarrow> 'w \<Rightarrow> bool) \<Rightarrow> 'w \<Rightarrow> ('r \<times> 's \<times> 'c \<times> 'w agent_run) option \<Rightarrow> bool" where
  "turn_moves R w out \<longleftrightarrow> (case out of None \<Rightarrow> True | Some (_, _, _, st) \<Rightarrow> R w (ar_world st))"

text \<open>A world with something private to the call beside it.\<close>

definition beside :: "('w \<Rightarrow> 'w \<Rightarrow> bool) \<Rightarrow> 'w \<times> 'p \<Rightarrow> 'w \<times> 'p \<Rightarrow> bool" where
  "beside R u v \<longleftrightarrow> R (fst u) (fst v)"

text \<open>Every built-in tool of a list is one of the first \<open>n\<close>.\<close>

definition servers_ok :: "nat \<Rightarrow> LlmAgentTool list \<Rightarrow> bool" where
  "servers_ok n tools \<longleftrightarrow> list_all (\<lambda>e. case at_server e of By_Builtin i \<Rightarrow> i < n | _ \<Rightarrow> True) tools"

lemma servers_ok_add_tool: "servers_ok n tools \<Longrightarrow> (case server of By_Builtin i \<Rightarrow> i < n | _ \<Rightarrow> True) \<Longrightarrow>
    servers_ok n (add_tool tools tool server)"
  by (auto simp: servers_ok_def add_tool_def)

lemma servers_ok_add_tools: "servers_ok n tools \<Longrightarrow> (case server of By_Builtin i \<Rightarrow> i < n | _ \<Rightarrow> True) \<Longrightarrow>
    servers_ok n (add_tools tools listed server)"
  unfolding add_tools_def by (induction listed arbitrary: tools) (simp_all add: servers_ok_add_tool)

lemma servers_ok_builtin: "servers_ok (length builtins) (builtin_tools builtins)"
proof -
  have "servers_ok (k + length bs) tools \<Longrightarrow>
      servers_ok (k + length bs) (foldl (\<lambda>tools (i, b). add_tool tools (bt_tool b) (By_Builtin i)) tools (enumerate k bs))"
    for k tools and bs :: "'w llm_agent_builtin list"
  proof (induction bs arbitrary: k tools)
    case (Cons b bs)
    then show ?case using Cons.IH [of "Suc k"] by (simp add: servers_ok_add_tool)
  qed simp
  from this [of 0 builtins "[]"] show ?thesis by (simp add: builtin_tools_def servers_ok_def)
qed

lemma servers_ok_gather_mcp:
  "servers_ok n tools \<Longrightarrow> gather_mcp E fuel i agent tools slot w = Some (Inr tools', agent', w') \<Longrightarrow> servers_ok n tools'"
proof (induction E fuel i agent tools slot w arbitrary: agent' rule: gather_mcp.induct)
  case (3 E fuel i client clients tools slot w)
  then show ?case by (auto simp: servers_ok_add_tools split: option.splits sum.splits if_splits)
qed (auto split: if_splits)

lemma servers_ok_gather:
  assumes "llm_agent_gather E fuel agent builtins params slot w = Some (Inr tools, agent', w')"
  shows "servers_ok (length builtins) tools"
proof -
  obtain known agent1 w1 where mcp: "gather_mcp E fuel 0 agent (builtin_tools builtins) slot w = Some (Inr known, agent1, w1)"
    using assms by (auto simp: llm_agent_gather_def split: option.splits sum.splits prod.splits)
  have known: "servers_ok (length builtins) known" by (rule servers_ok_gather_mcp [OF servers_ok_builtin mcp])
  obtain own w2 where own: "llm_client_tools (ae_rd E) (ae_wr E) (ae_net E) params w1 = (own, w2)" by fastforce
  show ?thesis
    using assms mcp own known by (cases own) (auto simp: llm_agent_gather_def servers_ok_add_tools split: if_splits)
qed

lemma net_movesD: "net_moves R net \<Longrightarrow> answer_moves R (net_request net rq w)"
  by (simp add: net_moves_def)

locale world_preorder =
  fixes R :: "'w \<Rightarrow> 'w \<Rightarrow> bool"
  assumes R_refl: "R w w" and R_trans: "R u v \<Longrightarrow> R v w \<Longrightarrow> R u w"
begin

lemma recv_line_R: "cb_moves R cb \<Longrightarrow> recv_line rd cb raw r w = (stop, r', w') \<Longrightarrow> R w w'"
proof -
  assume cb: "cb_moves R cb" and line: "recv_line rd cb raw r w = (stop, r', w')"
  have "snd (snd (recv_line rd cb raw r w)) = w \<or> (\<exists>delta. snd (snd (recv_line rd cb raw r w)) = snd (cb delta w))"
    by (simp add: recv_line_def Let_def split_beta) blast
  then show ?thesis using cb line by (auto simp: cb_moves_def R_refl)
qed

lemma recv_loop_R: "cb_moves R cb \<Longrightarrow> recv_loop rd cb pending r w = (go, r', w') \<Longrightarrow> R w w'"
proof (induction "length pending" arbitrary: pending r w rule: less_induct)
  case less
  show ?case
  proof (cases "find_sub [LF] pending")
    case None
    then show ?thesis using less.prems by (simp add: find_char_None recv_loop_no_line R_refl)
  next
    case (Some n)
    obtain stop r1 w1 where line: "recv_line rd cb (take n pending) r w = (stop, r1, w1)" using prod_cases3 by blast
    note first = recv_line_R [OF less.prems(1) line]
    show ?thesis
    proof (cases stop)
      case None
      then have "recv_loop rd cb (drop (n + 1) pending) r1 w1 = (go, r', w')"
        using less.prems(2) by (simp add: recv_loop_line [OF Some] line)
      then show ?thesis using less.hyps [OF find_LF_shorter [OF Some] less.prems(1)] first R_trans by blast
    qed (use less.prems(2) first in \<open>simp add: recv_loop_line [OF Some] line\<close>)
  qed
qed

lemma receiver_R: "cb_moves R cb \<Longrightarrow> receiver rd cb cancel data r w = (go, r', w') \<Longrightarrow> R w w'"
  by (auto simp: receiver_def Let_def R_refl split: if_splits dest: recv_loop_R)

lemma recv_stream_R:
  "cb_moves R cb \<Longrightarrow> list_all (\<lambda>(f, _). \<forall>w. R w (f w)) chunks \<Longrightarrow>
   recv_stream rd cb cancel chunks r w = (whole, r', w') \<Longrightarrow> R w w'"
proof (induction chunks arbitrary: r w)
  case (Cons chunk chunks)
  obtain f data where chunk: "chunk = (f, data)" by (cases chunk)
  obtain go r1 w1 where recv: "receiver rd cb cancel data r (f w) = (go, r1, w1)" using prod_cases3 by blast
  have "R w (f w)" using Cons.prems(2) chunk by simp
  then have "R w w1" using receiver_R [OF Cons.prems(1) recv] R_trans by blast
  then show ?case
    using Cons.IH [OF Cons.prems(1)] Cons.prems chunk recv R_trans by (auto split: if_splits)
qed (simp add: R_refl)

lemma llm_client_stream_R:
  assumes "net_moves R net" "cb_moves R cb" "llm_client_stream rd wr net c messages cb cancel text w = (res, w')"
  shows "R w w'"
proof (cases "messages = []")
  case False
  define a where "a = net_request net (stream_request wr c messages) w"
  obtain whole r w1 where recv: "recv_stream rd cb cancel (an_chunks a) llm_recv_new w = (whole, r, w1)"
    using prod_cases3 by blast
  have a: "answer_moves R a" using net_movesD [OF assms(1)] by (simp add: a_def)
  then have "R w w1" using recv_stream_R [OF assms(2) _ recv] by (simp add: answer_moves_def)
  moreover have "w' = an_after a w1"
    using assms(3) False recv by (simp add: llm_client_stream_def Let_def a_def)
  ultimately show ?thesis using a R_trans by (auto simp: answer_moves_def)
qed (use assms(3) in \<open>simp add: llm_client_stream_def R_refl\<close>)

lemma http_send_R: "net_moves R net \<Longrightarrow> http_send net rq w = (result, w') \<Longrightarrow> R w w'"
  using net_movesD [of R net rq w] by (auto simp: http_send_def Let_def answer_moves_def)

lemma llm_get_R: "net_moves R net \<Longrightarrow> llm_get rd net params route not_json w = (res, w') \<Longrightarrow> R w w'"
  by (auto simp: llm_get_def Let_def R_refl split: option.splits sum.splits prod.splits http_end.splits if_splits
      dest: http_send_R)

lemma llm_client_tools_R: "net_moves R net \<Longrightarrow> llm_client_tools rd wr net params w = (res, w') \<Longrightarrow> R w w'"
  by (auto simp: llm_client_tools_def Let_def split: prod.splits dest: llm_get_R)

lemma llm_client_tool_call_R:
  "net_moves R net \<Longrightarrow> llm_client_tool_call rd wr net c name arguments cancel w = (res, w') \<Longrightarrow> R w w'"
  by (auto simp: llm_client_tool_call_def Let_def split: prod.splits dest: http_send_R)

text \<open>An MCP call.\<close>

lemma mcp_movesI: "R w w' \<Longrightarrow> mcp_moves R w (Some (r, c, w'))"
  by (simp add: mcp_moves_def)

lemma mcp_moves_trans: "R w w' \<Longrightarrow> mcp_moves R w' out \<Longrightarrow> mcp_moves R w out"
  using R_trans by (auto simp: mcp_moves_def split: option.splits)

lemma mcp_then_R:
  assumes "mcp_moves R w out" and k: "\<And>v c w'. mcp_moves R w' (k v c w')"
  shows "mcp_moves R w (mcp_then out k)"
proof (cases out)
  case (Some res)
  obtain r c w' where res: "res = (r, c, w')" using prod_cases3 by blast
  have first: "R w w'" using assms(1) Some res by (simp add: mcp_moves_def)
  show ?thesis
  proof (cases r)
    case (Inl err)
    then show ?thesis using first Some res by (simp add: mcp_then_def mcp_movesI)
  next
    case (Inr v)
    then show ?thesis using mcp_moves_trans [OF first k] Some res by (simp add: mcp_then_def)
  qed
qed (simp add: mcp_then_def mcp_moves_def)

lemma mcp_request_R:
  "(\<And>c m i r w. mcp_moves R w (exchange c m i r w)) \<Longrightarrow> mcp_moves R w (mcp_request_with E exchange c method rid params w)"
  unfolding mcp_request_with_def
  by (rule mcp_then_R) (auto simp: mcp_moves_def R_refl Let_def split: option.splits)

lemma mcp_open_session_R:
  assumes "\<And>c m i r w. mcp_moves R w (exchange c m i r w)"
  shows "mcp_moves R w (mcp_open_session_with E exchange c w)"
  unfolding mcp_open_session_with_def Let_def
proof (rule mcp_then_R [OF mcp_request_R [OF assms]])
  show "mcp_moves R w (if v \<notin> V then Some (Inl e, c, w) else mcp_then (exchange c' m i r w) (\<lambda>_ c w. Some (Inr (), f c, w)))"
    for v V e c c' m i r f w
    by (cases "v \<in> V") (simp_all add: mcp_movesI R_refl mcp_then_R assms)
qed

lemma mcp_exchange_R: "net_moves R (me_net E) \<Longrightarrow> mcp_moves R w (mcp_exchange E fuel c request rid retry w)"
proof (induction fuel arbitrary: c request rid retry w)
  case 0
  then show ?case by (simp add: mcp_exchange.simps mcp_moves_def)
next
  case (Suc fuel)
  obtain result w1 where sent: "http_send (me_net E) (mcp_http_request c request) w = (result, w1)" by fastforce
  note first = http_send_R [OF Suc.prems sent]
  have again: "mcp_moves R w (mcp_then (mcp_open_session_with E (mcp_exchange E fuel) c' w1)
      (\<lambda>_ c w. mcp_exchange E fuel c request rid False w))" for c'
    by (intro mcp_moves_trans [OF first] mcp_then_R mcp_open_session_R Suc)
  show ?case
    using first again by (auto simp: mcp_exchange.simps sent Let_def intro: mcp_movesI split: http_end.splits)
qed

lemma mcp_client_open_R: "net_moves R (me_net E) \<Longrightarrow> mcp_moves R w (mcp_client_open E fuel c w)"
  by (auto simp: mcp_client_open_def intro: mcp_movesI R_refl mcp_open_session_R mcp_exchange_R)

lemma mcp_pages_R: "net_moves R (me_net E) \<Longrightarrow> mcp_moves R w (mcp_pages E fuel pages c cursor tools w)"
proof (induction pages arbitrary: c cursor tools w)
  case 0
  then show ?case by (simp add: mcp_moves_def)
next
  case (Suc pages)
  show ?case
    unfolding mcp_pages.simps Let_def
    by (intro mcp_then_R mcp_request_R mcp_exchange_R Suc.prems) (auto intro: mcp_movesI R_refl Suc)
qed

lemma mcp_client_tools_R: "net_moves R (me_net E) \<Longrightarrow> mcp_moves R w (mcp_client_tools E fuel c w)"
  unfolding mcp_client_tools_def by (intro mcp_then_R mcp_client_open_R mcp_pages_R)

lemma mcp_client_call_R: "net_moves R (me_net E) \<Longrightarrow> mcp_moves R w (mcp_client_call E fuel c name arguments w)"
  unfolding mcp_client_call_def Let_def
  by (intro mcp_then_R mcp_client_open_R mcp_request_R mcp_exchange_R) (auto intro: mcp_movesI R_refl)

lemma mcp_client_free_R: "net_moves R net \<Longrightarrow> R w (mcp_client_free net c w)"
proof -
  assume net: "net_moves R net"
  have "R w (snd (http_send net rq w))" for rq
    by (rule http_send_R [OF net surjective_pairing])
  then show ?thesis by (simp add: mcp_client_free_def R_refl)
qed

text \<open>Gathering and calling the tools.\<close>

lemma mcp_moves_map: "mcp_moves R w out \<Longrightarrow> mcp_moves R w (map_option (\<lambda>(r, rest, w). (r, g rest, w)) out)"
  by (auto simp: mcp_moves_def split: option.splits)

lemma gather_mcp_R: "net_moves R (ae_net E) \<Longrightarrow> mcp_moves R w (gather_mcp E fuel i agent tools slot w)"
proof (induction agent arbitrary: i tools slot w)
  case (Cons client clients)
  show ?case
  proof (cases client)
    case None
    then show ?thesis using Cons by (simp add: mcp_movesI R_refl mcp_moves_map)
  next
    case (Some cl)
    note first = mcp_client_tools_R [OF Cons.prems, of w fuel cl]
    show ?thesis
    proof (cases "mcp_client_tools (ae_mcp E) fuel cl w")
      case None
      then show ?thesis using Some by (simp add: mcp_moves_def)
    next
      case res: (Some res)
      obtain r cl' w' where r: "res = (r, cl', w')" using prod_cases3 by blast
      have w': "R w w'" using first res r by (simp add: mcp_moves_def)
      note rest = mcp_moves_map [OF mcp_moves_trans [OF w' Cons.IH [OF Cons.prems]]]
      show ?thesis using Some res r w' by (cases r) (simp_all add: mcp_movesI rest)
    qed
  qed
qed (simp add: mcp_movesI R_refl)

lemma llm_agent_gather_R:
  assumes "net_moves R (ae_net E)"
  shows "mcp_moves R w (llm_agent_gather E fuel agent builtins params slot w)"
proof (cases "gather_mcp E fuel 0 agent (builtin_tools builtins) slot w")
  case None
  then show ?thesis by (simp add: llm_agent_gather_def mcp_moves_def)
next
  case (Some res)
  obtain r agent' w' where res: "res = (r, agent', w')" using prod_cases3 by blast
  have w': "R w w'" using gather_mcp_R [OF assms, of w fuel 0 agent "builtin_tools builtins" slot] Some res by (simp add: mcp_moves_def)
  obtain own w'' where own: "llm_client_tools (ae_rd E) (ae_wr E) (ae_net E) params w' = (own, w'')" by fastforce
  have "R w w''" by (rule R_trans [OF w' llm_client_tools_R [OF assms own]])
  then show ?thesis
    using w' Some res own by (cases r; cases own) (simp_all add: llm_agent_gather_def mcp_movesI)
qed

lemma llm_agent_call_R:
  assumes net: "net_moves R (ae_net E)" and builtins: "builtins_move R builtins" and tools: "servers_ok (length builtins) tools"
  shows "mcp_moves R w (llm_agent_call E fuel tools agent builtins c name arguments w)"
proof (cases "List.find (\<lambda>entry. tool_name (at_tool entry) = name) tools")
  case None
  then show ?thesis by (simp add: llm_agent_call_def mcp_movesI R_refl)
next
  case (Some entry)
  then have "entry \<in> set tools" by (metis find_Some_iff nth_mem)
  show ?thesis
  proof (cases "at_server entry")
    case (By_Builtin i)
    then have "i < length builtins" using tools \<open>entry \<in> set tools\<close> by (auto simp: servers_ok_def list_all_iff)
    then have "R w (snd (bt_fn (builtins ! i) arguments w))" using builtins by (simp add: builtins_move_def list_all_length)
    then show ?thesis using Some By_Builtin by (simp add: llm_agent_call_def case_prod_beta Let_def mcp_movesI)
  next
    case (By_Mcp i)
    show ?thesis
    proof (cases "agent ! i")
      case None
      then show ?thesis using Some By_Mcp by (simp add: llm_agent_call_def mcp_movesI R_refl)
    next
      case (Some client)
      then show ?thesis
        using \<open>List.find _ tools = Some entry\<close> By_Mcp mcp_client_call_R [OF net, of w fuel client name arguments]
        by (auto simp: llm_agent_call_def mcp_moves_def split: option.splits)
    qed
  next
    case By_Endpoint
    obtain r w' where call: "llm_client_tool_call (ae_rd E) (ae_wr E) (ae_net E) c name arguments (ae_cancel E) w = (r, w')"
      by fastforce
    then show ?thesis using Some By_Endpoint llm_client_tool_call_R [OF net call] by (simp add: llm_agent_call_def mcp_movesI)
  qed
qed

text \<open>The calls of one answer.\<close>

lemma run_calls_R:
  assumes net: "net_moves R (ae_net E)" and builtins: "builtins_move R builtins" and tools: "servers_ok (length builtins) tools"
    and on_call: "\<And>n d k ms b w. R w (on_call n d k ms b w)"
  shows "run_moves R (ar_world st) (run_calls E fuel tools builtins c params on_call calls st)"
proof (induction calls arbitrary: st)
  case (Cons call calls)
  define w where "w = on_call (ac_name call) False False 0 0 (ar_world st)"
  have started: "R (ar_world st) w" by (simp add: w_def on_call)
  note called = llm_agent_call_R [OF net builtins tools, of w fuel "ar_agent st" c "ac_name call" "ac_arguments call"]
  show ?case
  proof (cases "llm_agent_call E fuel tools (ar_agent st) builtins c (ac_name call) (ac_arguments call) w")
    case None
    then show ?thesis by (simp add: run_moves_def Let_def w_def [symmetric])
  next
    case (Some res)
    obtain r agent w1 where res: "res = (r, agent, w1)" using prod_cases3 by blast
    have "R w w1" using called Some res by (simp add: mcp_moves_def)
    then have w1: "R (ar_world st) (on_call n d k ms b w1)" for n d k ms b
      using R_trans [OF R_trans [OF started] on_call] by blast
    have rest: "run_moves R (ar_world st) (run_calls E fuel tools builtins c params on_call calls st')"
      if "ar_world st' = on_call n d k ms b w1" for st' n d k ms b
      using Cons.IH [of st'] R_trans [OF w1 [of n d k ms b]] that by (auto simp: run_moves_def split: option.splits)
    show ?thesis
    proof (cases r)
      case (Inl err)
      then show ?thesis
        using Some res w1 by (simp add: Let_def w_def [symmetric] rest) (simp add: run_moves_def)
    next
      case (Inr result)
      then show ?thesis using Some res by (simp add: Let_def w_def [symmetric] rest)
    qed
  qed
qed (simp add: run_moves_def R_refl)

end

text \<open>The tap of a round rides along: a preorder on the worlds is one on the pairs.\<close>

lemma world_preorder_beside: "world_preorder R \<Longrightarrow> world_preorder (beside R)"
  unfolding world_preorder_def beside_def by blast

lemma tap_network_moves: "net_moves R net \<Longrightarrow> net_moves (beside R) (tap_network net)"
  by (auto simp: net_moves_def answer_moves_def tap_network_def beside_def Let_def list_all_iff split: prod.splits)
    fast

lemma llm_agent_tap_moves:
  assumes "world_preorder R" "cb_moves R cb"
  shows "cb_moves (beside R) (llm_agent_tap cb)"
proof -
  have one: "R w (snd (cb d w))" for d w using assms(2) by (simp add: cb_moves_def)
  then have two: "R w (snd (cb d (snd (cb d' w))))" for d d' w
    using world_preorder.R_trans [OF assms(1)] by blast
  show ?thesis
    using one two by (auto simp: cb_moves_def beside_def llm_agent_tap_def Let_def split_beta)
qed

lemma tapped_stream_R:
  assumes "world_preorder R" "net_moves R net" "cb_moves R cb"
    and "llm_client_stream rd wr (tap_network net) c messages (llm_agent_tap cb) cancel text (w, tap) = (res, w', tap')"
  shows "R w w'"
  using world_preorder.llm_client_stream_R
    [OF world_preorder_beside [OF assms(1)] tap_network_moves [OF assms(2)] llm_agent_tap_moves [OF assms(1, 3)] assms(4)]
  by (simp add: beside_def)

context world_preorder
begin

text \<open>The rounds of a turn, and the turn.\<close>

lemma run_moves_trans: "R u (ar_world st) \<Longrightarrow> run_moves R (ar_world st) out \<Longrightarrow> run_moves R u out"
  using R_trans by (auto simp: run_moves_def split: option.splits)

lemma turn_moves_trans: "R u w \<Longrightarrow> turn_moves R w out \<Longrightarrow> turn_moves R u out"
  using R_trans by (auto simp: turn_moves_def split: option.splits)

lemma run_rounds_R:
  assumes net: "net_moves R (ae_net E)" and builtins: "builtins_move R builtins" and tools: "servers_ok (length builtins) tools"
    and on_call: "\<And>n d k ms b w. R w (on_call n d k ms b w)" and cb: "cb_moves R cb"
  shows "turn_moves R (ar_world st) (run_rounds E fuel tools builtins params max_rounds cb on_call rounds c text st)"
proof (induction rounds arbitrary: c "text" st)
  case (Suc rounds)
  define tap where "tap = \<lparr>tap_separate = (text \<noteq> [] \<and> \<not> is_space (last text)), tap_spaced = False\<rparr>"
  obtain res w tap' where stream: "llm_client_stream (ae_rd E) (ae_wr E) (tap_network (ae_net E)) c (ar_messages st)
      (llm_agent_tap cb) (\<lambda>(w, _). ae_cancel E w) [] (ar_world st, tap) = (res, w, tap')"
    using prod_cases3 by blast
  have w: "R (ar_world st) w" by (rule tapped_stream_R [OF world_preorder_axioms net cb stream])
  have calls: "run_moves R w (run_calls E fuel tools builtins c params on_call calls (st\<lparr>ar_world := w, ar_messages := ms\<rparr>))"
    for c calls ms
    using run_calls_R [OF net builtins tools on_call, of "st\<lparr>ar_world := w, ar_messages := ms\<rparr>"] by simp
  have after: "turn_moves R w (run_rounds E fuel tools builtins params max_rounds cb on_call rounds c text st')"
    if "R w (ar_world st')" for c "text" st'
    by (rule turn_moves_trans [OF that Suc.IH])
  have on: "turn_moves R (ar_world st) (case run_calls E fuel tools builtins c params on_call calls
        (st\<lparr>ar_world := w, ar_messages := ms\<rparr>) of
      None \<Rightarrow> None
    | Some (Inl err, st) \<Rightarrow> Some (Some err, text, c, st)
    | Some (Inr _, st) \<Rightarrow> run_rounds E fuel tools builtins params max_rounds cb on_call rounds c text st)" for c calls ms "text"
    using calls [of c calls ms] after
    by (intro turn_moves_trans [OF w], cases "run_calls E fuel tools builtins c params on_call calls (st\<lparr>ar_world := w, ar_messages := ms\<rparr>)")
      (auto simp: run_moves_def turn_moves_def [of _ _ None] turn_moves_def [of _ _ "Some _"] split: sum.split)
  have stays: "turn_moves R (ar_world st) (Some (err, text, c, st\<lparr>ar_world := w\<rparr>))" for err :: "string option" and "text" :: string and c :: llm_client
    using w by (simp add: turn_moves_def)
  show ?case
  proof (cases "lr_error res")
    case (Some err)
    then show ?thesis using stays by (simp add: stream tap_def [symmetric])
  next
    case None
    then show ?thesis
    proof (cases "llm_agent_calls (ae_rd E) (c_str (lc_tool_calls (lr_client res))) = []")
      case True
      then show ?thesis using None stays by (simp add: stream tap_def [symmetric] Let_def)
    next
      case False
      show ?thesis
        unfolding run_rounds.simps tap_def [symmetric] stream Let_def split_conv None option.case if_not_P [OF False]
        using on by simp
    qed
  qed
qed (simp add: turn_moves_def R_refl)

lemma llm_agent_run_R:
  assumes net: "net_moves R (ae_net E)" and builtins: "builtins_move R builtins"
    and on_call: "\<And>n d k ms b w. R w (on_call n d k ms b w)" and cb: "cb_moves R cb"
  shows "turn_moves R (ar_world st) (llm_agent_run E fuel builtins params enabled max_rounds cb on_call c slot text st)"
proof (cases "llm_agent_gather E fuel (ar_agent st) builtins params slot (ar_world st)")
  case None
  then show ?thesis by (simp add: llm_agent_run_def turn_moves_def)
next
  case (Some out)
  obtain got agent w where out: "out = (got, agent, w)" using prod_cases3 by blast
  have w: "R (ar_world st) w"
    using llm_agent_gather_R [OF net, of "ar_world st"] Some out by (metis mcp_moves_def option.simps(5) split_conv)
  show ?thesis
  proof (cases got)
    case (Inl err)
    then show ?thesis using w Some out by (simp add: llm_agent_run_def turn_moves_def)
  next
    case (Inr available)
    then have "servers_ok (length builtins) available"
      using servers_ok_gather [of E fuel "ar_agent st" builtins params slot "ar_world st"] Some out by simp
    note rounds = run_rounds_R [OF net builtins this on_call cb]
    have rounds: "turn_moves R (ar_world st)
        (run_rounds E fuel available builtins params max_rounds cb on_call n c [] (st\<lparr>ar_agent := agent, ar_world := w\<rparr>))" for n c
      by (rule turn_moves_trans [OF w]) (use rounds [of "st\<lparr>ar_agent := agent, ar_world := w\<rparr>"] in simp)
    have "turn_moves R (ar_world st) (case llm_client_set_params (ae_net E) c tooled of
        Inl err \<Rightarrow> Some (Some err, text, c, st\<lparr>ar_agent := agent, ar_world := w\<rparr>)
      | Inr c \<Rightarrow> run_rounds E fuel available builtins params max_rounds cb on_call (nat max_rounds) c []
          (st\<lparr>ar_agent := agent, ar_world := w\<rparr>))" for tooled
      using w rounds
      by (cases "llm_client_set_params (ae_net E) c tooled")
        (simp_all add: turn_moves_def [of _ _ "Some _"] del: run_rounds.simps)
    then show ?thesis
      unfolding llm_agent_run_def Some out Inr Let_def split_beta option.case sum.case fst_conv snd_conv .
  qed
qed

lemma llm_agent_free_R: "net_moves R net \<Longrightarrow> R w (llm_agent_free net agent w)"
proof (induction agent arbitrary: w)
  case (Cons client agent)
  show ?case
  proof (cases client)
    case None
    then show ?thesis using Cons by (simp add: llm_agent_free_def)
  next
    case (Some c)
    then show ?thesis
      using Cons.IH [OF Cons.prems, of "mcp_client_free net c w"] mcp_client_free_R [OF Cons.prems, of w c] R_trans
      by (simp add: llm_agent_free_def)
  qed
qed (simp add: llm_agent_free_def R_refl)

text \<open>A synthesis.\<close>

lemma tts_chunks_R:
  assumes cb: "\<And>pcm w. R w (snd (cb pcm w))"
  shows "list_all (\<lambda>(f, _). \<forall>w. R w (f w)) chunks \<Longrightarrow> R w (snd (tts_chunks cb cancel chunks w))"
proof (induction chunks arbitrary: w)
  case (Cons chunk chunks)
  obtain f pcm where chunk: "chunk = (f, pcm)" by (cases chunk)
  have "R w (f w)" using Cons.prems chunk by simp
  moreover have "R v (snd (tts_bridge_chunk cb cancel pcm v))" for v by (simp add: tts_bridge_chunk_def cb R_refl)
  ultimately have first: "R w (snd (tts_bridge_chunk cb cancel pcm (f w)))" using R_trans by blast
  moreover have "R v (snd (tts_chunks cb cancel chunks v))" for v using Cons by simp
  ultimately show ?case using R_trans by (auto simp: chunk split_beta Let_def)
qed (simp add: R_refl)

lemma tts_bridge_speak_R:
  assumes "talker_moves R tk" "\<And>pcm w. R w (snd (cb pcm w))"
  shows "R w (snd (tts_bridge_speak tk b text request cb cancel w))"
proof -
  have "R w (snd (tts_chunks cb cancel (qr_chunks (tk_synthesize tk params w)) w))" for params
    using assms(1) by (intro tts_chunks_R [OF assms(2)]) (simp add: talker_moves_def Let_def)
  moreover have "R v (qr_after (tk_synthesize tk params w) v)" for params v
    using assms(1) by (simp add: talker_moves_def Let_def)
  ultimately have "R w (qr_after (tk_synthesize tk params w)
      (snd (tts_chunks cb cancel (qr_chunks (tk_synthesize tk params w)) w)))" for params
    using R_trans by blast
  then show ?thesis
    by (auto simp: tts_bridge_speak_def R_refl Let_def split_beta split: option.split qt_status.split)
qed

end

end
