(* ===== verification/Floor.thy ===== *)
theory Floor
  imports Connection World
begin

text \<open>
  Who may do what to a connection while an answer is in flight. The frames that have left for the client are
  its log; a relation between two states of a connection says what was added to it. \<open>lets_answer\<close> is what the
  responder relies on: no other thread opens, ends or voices an answer, touches the turn in flight, or takes
  a cancel back. \<open>answering\<close> is what the responder keeps in turn from the opening of an answer to its end.
  Both are preorders, and \<open>World\<close> carries them through the endpoint, the tools and the talker.
\<close>

section \<open>The log\<close>

text \<open>The frames given to the client and those queued for it.\<close>

definition cn_log :: "('v, 'a) Connection \<Rightarrow> rt_frame list" where
  "cn_log c = cn_wire c @ cn_out c"

text \<open>The frames \<open>xs\<close> were sent between the two states. Once the writer has stopped nothing leaves, and what
  the client was given is the start of what was sent.\<close>

definition told :: "('v, 'a) Connection \<Rightarrow> ('v, 'a) Connection \<Rightarrow> rt_frame list \<Rightarrow> bool" where
  "told c c' xs \<longleftrightarrow>
     prefix (cn_wire c) (cn_wire c') \<and> (cn_out_stop c \<longrightarrow> cn_out_stop c' \<and> cn_wire c' = cn_wire c) \<and>
     (if cn_out_stop c' then prefix (cn_wire c') (cn_log c @ xs) else cn_log c' = cn_log c @ xs)"

lemma told_same: "cn_wire c' = cn_wire c \<Longrightarrow> cn_out c' = cn_out c \<Longrightarrow> cn_out_stop c' = cn_out_stop c \<Longrightarrow> told c c' []"
  by (simp add: told_def cn_log_def)

lemma told_refl [simp]: "told c c []"
  by (simp add: told_same)

lemma told_trans:
  assumes "told u v xs" "told v w ys"
  shows "told u w (xs @ ys)"
proof (cases "cn_out_stop v")
  case True
  then have w: "cn_out_stop w" "cn_wire w = cn_wire v" using assms(2) by (simp_all add: told_def)
  have "prefix (cn_wire v) (cn_log u @ xs @ ys)"
    using assms(1) True unfolding told_def by (metis append_assoc prefix_append)
  then show ?thesis using assms(1) True w by (simp add: told_def)
next
  case False
  then show ?thesis using assms by (auto simp: told_def intro: prefix_order.trans)
qed

lemma told_send: "told c (conn_send c f) [f]"
  by (simp add: told_def cn_log_def conn_send_def)

lemma told_send_after: "told c c' xs \<Longrightarrow> told c (conn_send c' f) (xs @ [f])"
  by (rule told_trans [OF _ told_send])

lemma told_writer: "conn_writer send c = Some c' \<Longrightarrow> told c c' []"
  by (auto simp: told_def cn_log_def conn_writer_def conn_stop_def Let_def split: if_splits list.splits)

section \<open>Kinds of frames\<close>

definition frame_type :: "rt_frame \<Rightarrow> string" where
  "frame_type f = (case f of (_, JStr t) # _ \<Rightarrow> t | _ \<Rightarrow> [])"

definition RESPONSE_CREATED :: rt_frame where "RESPONSE_CREATED = rt_event ''response.created''"
definition RESPONSE_DONE :: rt_frame where "RESPONSE_DONE = rt_event ''response.done''"
definition RESPONSE_CANCELLED :: rt_frame where "RESPONSE_CANCELLED = rt_event ''response.cancelled''"

text \<open>A frame that opens or ends an answer, one that carries its sound, one that names what is spoken.\<close>

definition bounds :: "rt_frame \<Rightarrow> bool" where
  "bounds f \<longleftrightarrow> frame_type f \<in> {''response.created'', ''response.done'', ''response.cancelled''}"

definition sounds :: "rt_frame \<Rightarrow> bool" where
  "sounds f \<longleftrightarrow> frame_type f = ''response.output_audio.delta''"

definition names :: "rt_frame \<Rightarrow> bool" where
  "names f \<longleftrightarrow> frame_type f = ''response.output_audio_transcript.delta''"

lemma frame_types [simp]:
  "frame_type (rt_event t) = t" "frame_type (rt_event_voice v e) = ''session.updated''"
  "frame_type (rt_event_text t k d) = t" "frame_type (rt_event_spoken u n) = ''response.output_audio_transcript.delta''"
  "frame_type (rt_event_tool_started nm) = ''response.tool_call.started''"
  "frame_type (rt_event_tool_done nm ok ms b) = ''response.tool_call.done''"
  "frame_type (rt_event_transcript i t) = ''conversation.item.input_audio_transcription.completed''"
  "frame_type (rt_event_audio pcm) = ''response.output_audio.delta''" "frame_type (rt_event_error m) = ''error''"
  by (simp_all add: frame_type_def rt_event_def rt_event_voice_def rt_event_text_def rt_event_spoken_def
      rt_event_tool_started_def rt_event_tool_done_def rt_event_transcript_def rt_event_audio_def rt_event_error_def
      rt_frame_begin_def rt_frame_str_def add_field_def Let_def)

text \<open>A frame that is no part of an answer, and those the code sends.\<close>

definition aside :: "rt_frame \<Rightarrow> bool" where
  "aside f \<longleftrightarrow> \<not> bounds f \<and> \<not> sounds f \<and> \<not> names f"

lemma aside_frames [simp]:
  "aside (rt_event ''input_audio_buffer.speech_started'')" "aside (rt_event ''session.updated'')"
  "aside (rt_event_voice v e)" "aside (rt_event_text ''response.output_text.delta'' k d)"
  "aside (rt_event_tool_started nm)" "aside (rt_event_tool_done nm ok ms b)" "aside (rt_event_transcript i t)"
  "aside (rt_event_error m)"
  by (simp_all add: aside_def bounds_def sounds_def names_def)

lemma answer_frames [simp]:
  "\<not> bounds (rt_event_spoken u n)" "\<not> sounds (rt_event_spoken u n)" "names (rt_event_spoken u n)"
  "\<not> bounds (rt_event_audio pcm)" "sounds (rt_event_audio pcm)" "\<not> names (rt_event_audio pcm)"
  by (simp_all add: bounds_def sounds_def names_def)

lemma bound_frames: "bounds RESPONSE_CREATED" "bounds RESPONSE_DONE" "bounds RESPONSE_CANCELLED"
  by (simp_all add: bounds_def RESPONSE_CREATED_def RESPONSE_DONE_def RESPONSE_CANCELLED_def)

section \<open>What the responder relies on\<close>

text \<open>The answer in flight, as the responder published it.\<close>

definition same_answer :: "('v, 'a) Connection \<Rightarrow> ('v, 'a) Connection \<Rightarrow> bool" where
  "same_answer c c' \<longleftrightarrow> cn_answer_turn c' = cn_answer_turn c \<and> cn_answer_revision c' = cn_answer_revision c \<and>
     cn_speaking c' = cn_speaking c"

text \<open>What is never taken back while an answer is in flight.\<close>

definition onward :: "('v, 'a) Connection \<Rightarrow> ('v, 'a) Connection \<Rightarrow> bool" where
  "onward c c' \<longleftrightarrow> (cn_cancel c \<longrightarrow> cn_cancel c') \<and> (cn_stop c \<longrightarrow> cn_stop c') \<and> cn_final_turn c \<le> cn_final_turn c'"

definition lets_answer :: "('v, 'a) Connection \<Rightarrow> ('v, 'a) Connection \<Rightarrow> bool" where
  "lets_answer c c' \<longleftrightarrow>
     (\<exists>xs. told c c' xs \<and> list_all aside xs) \<and>
     same_answer c c' \<and> onward c c' \<and> cn_answer_released c' = cn_answer_released c"

lemma lets_answerI:
  "told c c' xs \<Longrightarrow> list_all aside xs \<Longrightarrow> same_answer c c' \<Longrightarrow> onward c c' \<Longrightarrow>
   cn_answer_released c' = cn_answer_released c \<Longrightarrow> lets_answer c c'"
  unfolding lets_answer_def by blast

lemma lets_answer_same:
  "cn_wire c' = cn_wire c \<Longrightarrow> cn_out c' = cn_out c \<Longrightarrow> cn_out_stop c' = cn_out_stop c \<Longrightarrow> same_answer c c' \<Longrightarrow> onward c c' \<Longrightarrow>
   cn_answer_released c' = cn_answer_released c \<Longrightarrow> lets_answer c c'"
  by (rule lets_answerI [where xs = "[]"]) (simp_all add: told_same)

interpretation rely: world_preorder "lets_answer :: ('v, 'a) Connection \<Rightarrow> ('v, 'a) Connection \<Rightarrow> bool"
proof
  show "lets_answer w w" for w :: "('v, 'a) Connection"
    by (rule lets_answer_same) (simp_all add: same_answer_def onward_def)
  fix u v w :: "('v, 'a) Connection"
  assume uv: "lets_answer u v" and vw: "lets_answer v w"
  obtain xs where xs: "told u v xs" "list_all aside xs"
    using uv by (auto simp: lets_answer_def)
  obtain ys where ys: "told v w ys" "list_all aside ys"
    using vw by (auto simp: lets_answer_def)
  show "lets_answer u w"
    using uv vw xs ys
    by (intro lets_answerI [OF told_trans [OF xs(1) ys(1)]]) (auto simp: lets_answer_def same_answer_def onward_def)
qed

section \<open>What the responder keeps\<close>

text \<open>An answer is only released once its turn is final.\<close>

definition floor_ok :: "('v, 'a) Connection \<Rightarrow> bool" where
  "floor_ok c \<longleftrightarrow> (cn_answer_released c \<longrightarrow> cn_answer_turn c \<le> cn_final_turn c)"

definition answering :: "('v, 'a) Connection \<Rightarrow> ('v, 'a) Connection \<Rightarrow> bool" where
  "answering c c' \<longleftrightarrow>
     (\<exists>xs. told c c' xs \<and> list_all (\<lambda>f. \<not> bounds f) xs \<and>
       (floor_ok c \<longrightarrow> floor_ok c' \<and> (list_ex sounds xs \<longrightarrow> cn_answer_turn c' \<le> cn_final_turn c'))) \<and>
     same_answer c c' \<and> onward c c'"

lemma answeringI:
  "told c c' xs \<Longrightarrow> list_all (\<lambda>f. \<not> bounds f) xs \<Longrightarrow> (floor_ok c \<Longrightarrow> floor_ok c') \<Longrightarrow>
   (floor_ok c \<Longrightarrow> list_ex sounds xs \<Longrightarrow> cn_answer_turn c' \<le> cn_final_turn c') \<Longrightarrow>
   same_answer c c' \<Longrightarrow> onward c c' \<Longrightarrow> answering c c'"
  unfolding answering_def by blast

lemma answering_same:
  "cn_wire c' = cn_wire c \<Longrightarrow> cn_out c' = cn_out c \<Longrightarrow> cn_out_stop c' = cn_out_stop c \<Longrightarrow> (floor_ok c \<Longrightarrow> floor_ok c') \<Longrightarrow>
   same_answer c c' \<Longrightarrow> onward c c' \<Longrightarrow> answering c c'"
  by (rule answeringI [where xs = "[]"]) (simp_all add: told_same)

interpretation kept: world_preorder "answering :: ('v, 'a) Connection \<Rightarrow> ('v, 'a) Connection \<Rightarrow> bool"
proof
  show "answering w w" for w :: "('v, 'a) Connection"
    by (rule answering_same) (simp_all add: same_answer_def onward_def)
  fix u v w :: "('v, 'a) Connection"
  assume uv: "answering u v" and vw: "answering v w"
  obtain xs where xs: "told u v xs" "list_all (\<lambda>f. \<not> bounds f) xs"
    "floor_ok u \<longrightarrow> floor_ok v \<and> (list_ex sounds xs \<longrightarrow> cn_answer_turn v \<le> cn_final_turn v)"
    using uv by (auto simp: answering_def)
  obtain ys where ys: "told v w ys" "list_all (\<lambda>f. \<not> bounds f) ys"
    "floor_ok v \<longrightarrow> floor_ok w \<and> (list_ex sounds ys \<longrightarrow> cn_answer_turn w \<le> cn_final_turn w)"
    using vw by (auto simp: answering_def)
  have keeps: "same_answer u v" "same_answer v w" "onward u v" "onward v w" using uv vw by (simp_all add: answering_def)
  then have "cn_answer_turn w \<le> cn_final_turn w" if "cn_answer_turn v \<le> cn_final_turn v"
    using that by (simp add: same_answer_def onward_def)
  then show "answering u w"
    using xs ys keeps
    by (intro answeringI [OF told_trans [OF xs(1) ys(1)]]) (auto simp: same_answer_def onward_def)
qed

lemma relied_kept: "lets_answer c c' \<Longrightarrow> answering c c'"
proof -
  assume c: "lets_answer c c'"
  then obtain xs where xs: "told c c' xs" "list_all aside xs"
    by (auto simp: lets_answer_def)
  have "list_all (\<lambda>f. \<not> bounds f) xs" "\<not> list_ex sounds xs" using xs(2) by (auto simp: list_all_iff list_ex_iff aside_def)
  moreover have "cn_answer_turn c' \<le> cn_final_turn c'" if "cn_answer_turn c \<le> cn_final_turn c"
    using that c by (simp add: lets_answer_def same_answer_def onward_def)
  ultimately show ?thesis
    using c by (intro answeringI [OF xs(1)]) (simp_all add: lets_answer_def floor_ok_def)
qed

lemma net_moves_mono: "(\<And>u v. R u v \<Longrightarrow> R' u v) \<Longrightarrow> net_moves R net \<Longrightarrow> net_moves R' net"
  by (auto simp: net_moves_def answer_moves_def list_all_iff split_beta)

lemma talker_moves_mono: "(\<And>u v. R u v \<Longrightarrow> R' u v) \<Longrightarrow> talker_moves R tk \<Longrightarrow> talker_moves R' tk"
  by (auto simp: talker_moves_def list_all_iff split_beta Let_def)

section \<open>The operations the threads share\<close>

text \<open>A frame that is no part of an answer.\<close>

lemma send_lets: "aside f \<Longrightarrow> lets_answer c (conn_send c f)"
  by (rule lets_answerI [OF told_send]) (simp_all add: same_answer_def onward_def conn_send_def)

lemma send_answering:
  "\<not> bounds f \<Longrightarrow> (floor_ok c \<Longrightarrow> sounds f \<Longrightarrow> cn_answer_turn c \<le> cn_final_turn c) \<Longrightarrow> answering c (conn_send c f)"
  by (rule answeringI [OF told_send]) (simp_all add: same_answer_def onward_def floor_ok_def conn_send_def)

lemma error_lets: "lets_answer c (conn_error c e)"
  unfolding conn_error_def by (simp add: send_lets)

lemma stop_lets: "lets_answer c (conn_stop c)"
  by (rule lets_answer_same) (simp_all add: same_answer_def onward_def conn_stop_def)

lemma writer_lets: "conn_writer send c = Some c' \<Longrightarrow> lets_answer c c'"
  using told_writer [of send c c']
  by (intro lets_answerI [where xs = "[]"])
    (auto simp: same_answer_def onward_def conn_writer_def conn_stop_def Let_def split: if_splits list.splits)

lemma opened_lets: "lets_answer c (conn_opened c i r)"
  by (rule lets_answer_same) (simp_all add: same_answer_def onward_def conn_opened_def Let_def)

lemma started_lets: "lets_answer c (conn_opened (conn_send c (rt_event ''input_audio_buffer.speech_started'')) i r)"
  by (rule rely.R_trans [OF send_lets opened_lets]) simp

lemma event_lets: "lets_answer c (conn_on_session_event c report)"
proof (cases "rep_event report")
  case S2S_EVENT_SPEECH_STARTED
  then show ?thesis using started_lets by (simp add: conn_on_session_event_def)
next
  case S2S_EVENT_TURN_RESUMED
  then show ?thesis using started_lets by (simp add: conn_on_session_event_def)
next
  case S2S_EVENT_TURN_FINAL
  then show ?thesis
    by (intro lets_answer_same) (simp_all add: conn_on_session_event_def same_answer_def onward_def)
next
  case S2S_EVENT_BARGE_IN
  then show ?thesis
    by (intro lets_answer_same) (simp_all add: conn_on_session_event_def same_answer_def onward_def)
next
  case S2S_EVENT_TURN_COMMITTED
  then show ?thesis
    by (intro lets_answer_same) (simp_all add: conn_on_session_event_def same_answer_def onward_def)
qed (simp_all add: conn_on_session_event_def rely.R_refl)

lemma events_lets:
  fixes c :: "('v, 'a) Connection"
  shows "lets_answer c (conn_events c res)"
proof -
  have "lets_answer c (foldl conn_on_session_event c reports)" for c :: "('v, 'a) Connection" and reports
  proof (induction reports arbitrary: c)
    case (Cons r reports)
    then show ?case using rely.R_trans [OF event_lets] by fastforce
  qed (simp add: rely.R_refl)
  note events = this
  have "lets_answer c (c\<lparr>cn_session := fst res\<rparr>)"
    by (rule lets_answer_same) (simp_all add: same_answer_def onward_def)
  then show ?thesis unfolding conn_events_def by (rule rely.R_trans [OF _ events])
qed

lemma release_lets: "lets_answer c (conn_release c i r)"
  unfolding conn_release_def by (rule events_lets)

end
