(* ===== verification/Answer.thy ===== *)
theory Answer
  imports Floor
begin

text \<open>
  An answer: \<open>conn_answer\<close> of \<open>src/s2s-conversation.cpp\<close> and what it calls on the thread of the responder. The
  other threads of the connection move between two of its accesses to what they share: \<open>ce_others\<close> is what
  they do in such a gap, and the network and the talker say what they do while one streams. A wait that does
  not end within \<open>ce_fuel\<close> such moves has not returned, and neither has the answer: \<^const>\<open>None\<close>.
\<close>

section \<open>The environment\<close>

text \<open>\<open>ce_slot\<close> and \<open>ce_tts_slot\<close> are what the error slots of the thread held before a call that records none.\<close>

record ('v, 'a) conn_env =
  ce_setup :: "('v, 'a) ConversationSetup"
  ce_lm :: libm
  ce_rd :: json_reader
  ce_wr :: json_writer
  ce_net :: "('v, 'a) Connection network"
  ce_talker :: "('v, 'a) Connection talker"
  ce_ms :: "('v, 'a) Connection \<Rightarrow> ('v, 'a) Connection \<Rightarrow> f64"
  ce_build :: string
  ce_slot :: "('v, 'a) Connection \<Rightarrow> string"
  ce_tts_slot :: "('v, 'a) Connection \<Rightarrow> string"
  ce_others :: "('v, 'a) Connection \<Rightarrow> ('v, 'a) Connection"
  ce_fuel :: nat

abbreviation "ce_tts E \<equiv> sm_tts (cs_models (ce_setup E))"

fun wait_until :: "nat \<Rightarrow> ('w \<Rightarrow> 'w) \<Rightarrow> ('w \<Rightarrow> bool) \<Rightarrow> 'w \<Rightarrow> 'w option" where
  "wait_until 0 others ready w = (if ready w then Some w else None)"
| "wait_until (Suc fuel) others ready w = (if ready w then Some w else wait_until fuel others ready (others w))"

section \<open>One unit\<close>

definition floor_known :: "('v, 'a) Connection \<Rightarrow> bool" where
  "floor_known c \<longleftrightarrow> cn_stop c \<or> cn_cancel c \<or> cn_answer_turn c \<le> cn_final_turn c \<or>
     conn_outdated c (cn_answer_turn c) (cn_answer_revision c)"

definition conn_wait_final :: "('v, 'a) conn_env \<Rightarrow> ('v, 'a) Connection \<Rightarrow> (bool \<times> ('v, 'a) Connection) option" where
  "conn_wait_final E c =
     (case wait_until (ce_fuel E) (ce_others E) floor_known c of
        None \<Rightarrow> None
      | Some c \<Rightarrow>
          let c = (if \<not> cn_cancel c \<and> conn_outdated c (cn_answer_turn c) (cn_answer_revision c)
                   then c\<lparr>cn_cancel := True\<rparr> else c)
          in Some (\<not> cn_stop c \<and> \<not> cn_cancel c, c))"

text \<open>The talker beside what is private to a call.\<close>

definition tap_talker :: "'w talker \<Rightarrow> ('w \<times> 'p) talker" where
  "tap_talker tk =
     \<lparr>tk_model = tk_model tk,
      tk_synthesize = (\<lambda>params (w, tap). let run = tk_synthesize tk params w in
        \<lparr>qr_chunks = map (\<lambda>(others, pcm). (map_prod others id, pcm)) (qr_chunks run),
         qr_after = map_prod (qr_after run) id, qr_status = qr_status run\<rparr>),
      tk_draw = (\<lambda>(w, _). tk_draw tk w)\<rparr>"

text \<open>The chunk callback; the samples of the unit so far ride along.\<close>

definition speak_chunk ::
  "('v, 'a) conn_env \<Rightarrow> SentenceUnit \<Rightarrow> bool \<Rightarrow> (('v, 'a) Connection \<times> nat) tts_chunk_cb" where
  "speak_chunk E unit jarvis pcm st =
     (case st of (c, samples) \<Rightarrow>
        let c = (if samples = 0 \<and> 0 < length pcm
                 then ce_others E (conn_send c (rt_event_spoken (unit_text unit) (unit_end unit))) else c);
            (pcm', c) = (if jarvis then let (out, fx) = jarvis_fx_process (ce_lm E) (cn_fx c) pcm in (out, c\<lparr>cn_fx := fx\<rparr>)
                         else (pcm, c));
            c = ce_others E (conn_send c (rt_event_audio pcm'))
        in (\<not> cn_cancel c, c, samples + length pcm))"

text \<open>The floor, taken once per answer.\<close>

definition take_floor :: "('v, 'a) conn_env \<Rightarrow> ('v, 'a) Connection \<Rightarrow> (bool \<times> ('v, 'a) Connection) option" where
  "take_floor E c =
     (if cn_answer_released c then Some (True, c)
      else case conn_wait_final E (ce_others E (conn_release (ce_others E c) (cn_answer_turn c) (cn_answer_revision c))) of
          None \<Rightarrow> None
        | Some (final, c) \<Rightarrow> Some (final, if final then c\<lparr>cn_answer_released := True\<rparr> else c))"

definition speak_unit ::
  "('v, 'a) conn_env \<Rightarrow> SentenceUnit \<Rightarrow> tts_request \<Rightarrow> ('v, 'a) Connection \<Rightarrow> bool \<times> ('v, 'a) Connection" where
  "speak_unit E unit tts c =
     (let (outcome, c, samples) = tts_bridge_speak (tap_talker (ce_talker E)) (ce_tts E) (unit_text unit) tts
            (speak_chunk E unit (tr_effect tts = ''jarvis'')) (\<lambda>(c, _). cn_cancel c) (c, 0);
          c = ce_others E c
      in (outcome = Spoken,
          if outcome = Spoken \<or> cn_cancel c then c
          else conn_send c (rt_event_error (c_str (case outcome of Tts_Failed err \<Rightarrow> err | _ \<Rightarrow> ce_tts_slot E c)))))"

definition conn_speak ::
  "('v, 'a) conn_env \<Rightarrow> SentenceUnit \<Rightarrow> tts_request \<Rightarrow> ('v, 'a) Connection \<Rightarrow> (bool \<times> ('v, 'a) Connection) option" where
  "conn_speak E unit tts c =
     (case take_floor E c of
        None \<Rightarrow> None
      | Some (False, c) \<Rightarrow> Some (False, c)
      | Some (True, c) \<Rightarrow> Some (speak_unit E unit tts c))"

section \<open>The built-in tools\<close>

text \<open>What the callbacks of a stream own: the voice of the answer, the splitter, whether one of them never
  returned.\<close>

record StreamTap =
  st_tts :: tts_request
  st_splitter :: SentenceSplitter
  st_hung :: bool

definition quoted :: "string \<Rightarrow> string" where
  "quoted s = CHR 0x22 # s @ [CHR 0x22]"

definition conn_set_voice ::
  "('v, 'a) conn_env \<Rightarrow> string \<Rightarrow> ('v, 'a) Connection \<times> StreamTap
     \<Rightarrow> (string + string) \<times> ('v, 'a) Connection \<times> StreamTap" where
  "conn_set_voice E arguments st =
     (case st of (c, tap) \<Rightarrow>
        let (voice, effect) = (case ce_rd E arguments of
              None \<Rightarrow> ([], [])
            | Some top_val \<Rightarrow> (rt_json_str (Some top_val) ''voice'', rt_json_str (Some top_val) ''effect''))
        in if voice \<notin> set (tb_labels (ce_tts E)) then
             (Inl (s2s_format (''[Agent] set_voice knows no voice named '' @ quoted (c_str voice))), c, tap)
           else if effect \<noteq> [] \<and> \<not> conn_effect_known effect then
             (Inl (s2s_format (''[Agent] set_voice knows no effect named '' @ quoted (c_str effect))), c, tap)
           else
             let effect = (if effect = [] then tr_effect (st_tts tap) else effect);
                 tap = tap\<lparr>st_tts := (st_tts tap)\<lparr>tr_voice := voice, tr_effect := effect\<rparr>\<rparr>;
                 c = update_client (cl_tts_update (\<lambda>t. t\<lparr>tr_voice := voice, tr_effect := effect\<rparr>)) (ce_others E c);
                 c = conn_send (ce_others E c) (rt_event_voice voice effect)
             in (Inr (''Voice set to '' @ voice @ '', effect '' @ effect), ce_others E c, tap))"

definition conn_sleep ::
  "('v, 'a) conn_env \<Rightarrow> string \<Rightarrow> ('v, 'a) Connection \<times> StreamTap
     \<Rightarrow> (string + string) \<times> ('v, 'a) Connection \<times> StreamTap" where
  "conn_sleep E arguments st =
     (case st of (c, tap) \<Rightarrow>
        let c = (ce_others E c)\<lparr>cn_awake := False\<rparr>;
            off = (wake_mode (cl_wake (cn_client c)) = ''off'')
        in (Inr (if off then ''Asleep for the rest of the conversation'' else ''Asleep until the user says a wake phrase''),
            ce_others E c, tap))"

definition answer_builtins :: "('v, 'a) conn_env \<Rightarrow> (('v, 'a) Connection \<times> StreamTap) llm_agent_builtin list" where
  "answer_builtins E =
     [\<lparr>bt_tool = conn_voice_tool (ce_wr E) (tb_labels (ce_tts E)), bt_fn = conn_set_voice E\<rparr>,
      \<lparr>bt_tool = conn_sleep_tool (ce_wr E), bt_fn = conn_sleep E\<rparr>]"

section \<open>The stream of the model\<close>

definition conn_llm ::
  "('v, 'a) conn_env \<Rightarrow> ('v, 'a) Connection \<Rightarrow> llm_client_params \<Rightarrow> (string + llm_client) \<times> ('v, 'a) Connection" where
  "conn_llm E c params =
     (case (case cn_llm c of
              None \<Rightarrow> llm_client_new (ce_net E) params
            | Some llm \<Rightarrow> llm_client_set_params (ce_net E) llm params) of
        Inl err \<Rightarrow> (Inl err, c)
      | Inr llm \<Rightarrow> (Inr llm, c\<lparr>cn_llm := Some llm\<rparr>))"

text \<open>The units a delta completed, until one is not spoken.\<close>

fun speak_units ::
  "('v, 'a) conn_env \<Rightarrow> tts_request \<Rightarrow> SentenceUnit list \<Rightarrow> ('v, 'a) Connection \<Rightarrow> (bool \<times> ('v, 'a) Connection) option" where
  "speak_units E tts [] c = Some (True, c)"
| "speak_units E tts (unit # units) c =
     (case conn_speak E unit tts c of
        None \<Rightarrow> None
      | Some (False, c) \<Rightarrow> Some (False, c)
      | Some (True, c) \<Rightarrow> speak_units E tts units c)"

definition on_delta :: "('v, 'a) conn_env \<Rightarrow> (('v, 'a) Connection \<times> StreamTap) llm_delta_cb" where
  "on_delta E delta st =
     (case st of (c, tap) \<Rightarrow>
        let c = ce_others E (conn_send c (rt_event_text ''response.output_text.delta'' ''delta'' delta));
            (splitter, units) = sentence_split_push (st_splitter tap) delta;
            tap = tap\<lparr>st_splitter := splitter\<rparr>
        in (case speak_units E (st_tts tap) units c of
              None \<Rightarrow> (False, c, tap\<lparr>st_hung := True\<rparr>)
            | Some (False, c) \<Rightarrow> (False, c, tap)
            | Some (True, c) \<Rightarrow> (let c = ce_others E c in (\<not> cn_cancel c, c, tap))))"

definition on_call :: "('v, 'a) conn_env \<Rightarrow> (('v, 'a) Connection \<times> StreamTap) llm_agent_call_cb" where
  "on_call E name done ok ms bytes st =
     (case st of (c, tap) \<Rightarrow>
        (ce_others E (conn_send c (if done then rt_event_tool_done name ok ms bytes else rt_event_tool_started name)), tap))"

text \<open>The MCP sessions follow the list of servers of the settings and their timeout.\<close>

definition answer_agent ::
  "('v, 'a) conn_env \<Rightarrow> ClientSettings \<Rightarrow> ('v, 'a) Connection \<Rightarrow> ('v, 'a) Connection" where
  "answer_agent E client c =
     (if cl_mode client \<noteq> ''agentic'' then c
      else
        let servers = map (mcp_timeout_sec_update (\<lambda>_. lp_tool_timeout_sec (cl_llm client))) (cl_mcp client)
        in if cn_agent c = None \<or> \<not> list_all2 mcp_server_params_eq (cn_agent_servers c) servers
           then let c = (case cn_agent c of None \<Rightarrow> c | Some agent \<Rightarrow> llm_agent_free (ce_net E) agent c)
                in c\<lparr>cn_agent := Some (llm_agent_new (ce_net E) servers), cn_agent_servers := servers\<rparr>
           else c)"

definition answer_env :: "('v, 'a) conn_env \<Rightarrow> (('v, 'a) Connection \<times> StreamTap) agent_env" where
  "answer_env E =
     \<lparr>ae_mcp = \<lparr>me_rd = ce_rd E, me_wr = ce_wr E, me_net = tap_network (ce_net E), me_cancel = (\<lambda>(c, _). cn_cancel c),
        me_build = ce_build E\<rparr>,
      ae_ms = (\<lambda>(c, _) (c', _). ce_ms E c c')\<rparr>"

text \<open>The request: how it failed, if it did, its text, what the callbacks own, and the connection with the
  client and the sessions the request leaves behind.\<close>

definition answer_request ::
  "('v, 'a) conn_env \<Rightarrow> ClientSettings \<Rightarrow> llm_client \<Rightarrow> llm_message list \<Rightarrow> ('v, 'a) Connection
     \<Rightarrow> (string option \<times> string \<times> StreamTap \<times> ('v, 'a) Connection) option" where
  "answer_request E client llm messages c =
     (let w = (c, \<lparr>st_tts = cl_tts client, st_splitter = sentence_new, st_hung = False\<rparr>) in
      if cl_mode client = ''agentic'' then
        map_option (\<lambda>(err, text, llm, run). case ar_world run of (c, tap) \<Rightarrow>
            (err, text, tap, c\<lparr>cn_llm := Some llm, cn_agent := Some (ar_agent run)\<rparr>))
          (llm_agent_run (answer_env E) (ce_fuel E) (answer_builtins E) (cl_llm client) (cl_tools client)
            (cl_max_rounds client) (on_delta E) (on_call E) llm (ce_slot E c) []
            \<lparr>ar_agent = (case cn_agent c of None \<Rightarrow> [] | Some agent \<Rightarrow> agent), ar_messages = messages, ar_world = w\<rparr>)
      else
        (case llm_client_stream (ce_rd E) (ce_wr E) (tap_network (ce_net E)) llm messages (on_delta E)
                (\<lambda>(c, _). cn_cancel c) [] w of
           (res, c, tap) \<Rightarrow> Some (lr_error res, lr_text res, tap, c\<lparr>cn_llm := Some (lr_client res)\<rparr>)))"

section \<open>The answer\<close>

text \<open>In loopback the transcript is the answer, unless it is too short to be speech.\<close>

definition answer_loopback ::
  "('v, 'a) conn_env \<Rightarrow> ClientSettings \<Rightarrow> string \<Rightarrow> ('v, 'a) Connection \<Rightarrow> ('v, 'a) Connection option" where
  "answer_loopback E client transcript c =
     (if int (utf8_chars transcript) < tg_min_chars (tr_guards (cl_tts client)) then Some c
      else map_option snd
        (conn_speak E \<lparr>unit_text = transcript, unit_end = sentence_utf16_len transcript\<rparr> (cl_tts client) c))"

definition answer_model ::
  "('v, 'a) conn_env \<Rightarrow> ClientSettings \<Rightarrow> string \<Rightarrow> string \<Rightarrow> ('v, 'a) Connection
     \<Rightarrow> (tts_request \<times> ('v, 'a) Connection) option" where
  "answer_model E client item transcript c =
     (let messages = request_messages client item transcript in
      if lp_base_url (cl_llm client) = [] then
        Some (cl_tts client,
          conn_error c ''[Realtime] No endpoint: name one in the session, or start the server with --llm-url'')
      else case conn_llm E c (cl_llm client) of
          (Inl err, c) \<Rightarrow> Some (cl_tts client, conn_error c err)
        | (Inr llm, c) \<Rightarrow>
            (case answer_request E client llm messages (answer_agent E client c) of
               None \<Rightarrow> None
             | Some (err, text, tap, c) \<Rightarrow>
                 if st_hung tap then None
                 else
                   let tail = snd (sentence_split_flush (st_splitter tap)) in
                   (case (if err = None \<and> unit_text tail \<noteq> [] then map_option snd (conn_speak E tail (st_tts tap) c)
                          else Some c) of
                      None \<Rightarrow> None
                    | Some c \<Rightarrow>
                        let c = ce_others E c in
                        Some (st_tts tap,
                          case err of
                            Some reason \<Rightarrow> if cn_cancel c then c else conn_error c reason
                          | None \<Rightarrow> if text = [] then conn_error c ''[LLM] The model answered nothing'' else c))))"

text \<open>The opening: the settings of the turn and the answer in flight, void already when the user spoke again.\<close>

definition answer_begin ::
  "('v, 'a) conn_env \<Rightarrow> AnswerJob \<Rightarrow> ('v, 'a) Connection \<Rightarrow> ClientSettings \<times> ('v, 'a) Connection" where
  "answer_begin E job c =
     (let c = c\<lparr>cn_cancel := False, cn_fx := jarvis_fx_reset (ce_lm E) (cn_fx c)\<rparr>;
          c = ce_others E c; client = cn_client c;
          c = ce_others E c;
          c = c\<lparr>cn_answer_turn := aj_turn_id job, cn_answer_revision := aj_revision job, cn_answer_released := False,
                cn_speaking := True\<rparr>;
          c = (if conn_outdated c (aj_turn_id job) (aj_revision job) then c\<lparr>cn_cancel := True\<rparr> else c)
      in (client, conn_send (ce_others E c) (rt_event ''response.created'')))"

text \<open>The end: the echo of an answer that ends on its own, and the frame that closes it.\<close>

definition answer_end :: "('v, 'a) conn_env \<Rightarrow> tts_request \<Rightarrow> ('v, 'a) Connection \<Rightarrow> ('v, 'a) Connection" where
  "answer_end E tts c =
     (let c = ce_others E c;
          c = (if tr_effect tts = ''jarvis'' \<and> cn_answer_released c \<and> \<not> cn_cancel c
               then let (tail, fx) = jarvis_fx_process (ce_lm E) (cn_fx c) (replicate (jarvis_fx_tail (cn_fx c)) 0)
                    in ce_others E (conn_send (c\<lparr>cn_fx := fx\<rparr>) (rt_event_audio tail))
               else c);
          c = ce_others E (c\<lparr>cn_speaking := False\<rparr>)
      in conn_send c (rt_event (if cn_cancel c then ''response.cancelled'' else ''response.done'')))"

definition conn_answer :: "('v, 'a) conn_env \<Rightarrow> AnswerJob \<Rightarrow> ('v, 'a) Connection \<Rightarrow> ('v, 'a) Connection option" where
  "conn_answer E job c =
     (let release = (\<lambda>c. conn_release (ce_others E c) (aj_turn_id job) (aj_revision job)) in
      if cn_stop c then Some (release c)
      else
        let (client, c) = answer_begin E job (ce_others E c); c = ce_others E c;
            out = (if cn_cancel c then Some (cl_tts client, c)
                   else if cl_mode client = ''loopback''
                   then map_option (Pair (cl_tts client)) (answer_loopback E client (aj_transcript job) c)
                   else answer_model E client (''turn_'' @ int_str (aj_turn_id job)) (aj_transcript job) c)
        in map_option (\<lambda>(tts, c). release (answer_end E tts c)) out)"

text \<open>One turn of the responder: \<^const>\<open>False\<close> once it has returned.\<close>

definition conn_responder :: "('v, 'a) conn_env \<Rightarrow> ('v, 'a) Connection \<Rightarrow> (bool \<times> ('v, 'a) Connection) option" where
  "conn_responder E c =
     (case wait_until (ce_fuel E) (ce_others E) (\<lambda>c. cn_stop c \<or> cn_answers c \<noteq> []) c of
        None \<Rightarrow> None
      | Some c \<Rightarrow>
          if cn_stop c then Some (False, c)
          else map_option (Pair True) (conn_answer E (hd (cn_answers c)) (ce_others E (c\<lparr>cn_answers := tl (cn_answers c)\<rparr>))))"

section \<open>What an answer keeps\<close>

text \<open>The other threads let the answer go on, whatever they do: in the gaps, while the network or the talker
  streams.\<close>

definition others_let :: "('v, 'a) conn_env \<Rightarrow> bool" where
  "others_let E \<longleftrightarrow> (\<forall>c. lets_answer c (ce_others E c)) \<and> net_moves lets_answer (ce_net E) \<and>
     talker_moves lets_answer (ce_talker E)"

lemma gap_lets: "others_let E \<Longrightarrow> lets_answer c (ce_others E c)"
  by (simp add: others_let_def)

lemma gap_kept: "others_let E \<Longrightarrow> answering c (ce_others E c)"
  by (simp add: gap_lets relied_kept)

lemma gap_released [simp]: "others_let E \<Longrightarrow> cn_answer_released (ce_others E c) = cn_answer_released c"
  using gap_lets [of E c] by (simp add: lets_answer_def)

lemma then_gap: "others_let E \<Longrightarrow> answering c c' \<Longrightarrow> answering c (ce_others E c')"
  by (rule kept.R_trans [OF _ gap_kept])

lemma wait_until_kept: "others_let E \<Longrightarrow> wait_until fuel (ce_others E) ready c = Some c' \<Longrightarrow> lets_answer c c' \<and> ready c'"
proof (induction fuel arbitrary: c)
  case 0
  then show ?case by (simp add: rely.R_refl split: if_splits)
next
  case (Suc fuel)
  then show ?case using rely.R_trans [OF gap_lets] by (fastforce simp: rely.R_refl split: if_splits)
qed

lemma wait_final_kept:
  assumes "others_let E" "conn_wait_final E c = Some (final, c')"
  shows "answering c c' \<and> cn_answer_released c' = cn_answer_released c \<and>
    (final \<longrightarrow> cn_answer_turn c' \<le> cn_final_turn c')"
proof -
  obtain c1 where wait: "wait_until (ce_fuel E) (ce_others E) floor_known c = Some c1"
    using assms(2) by (auto simp: conn_wait_final_def split: option.splits)
  have c1: "lets_answer c c1" "floor_known c1" using wait_until_kept [OF assms(1) wait] by simp_all
  define void where "void \<longleftrightarrow> \<not> cn_cancel c1 \<and> conn_outdated c1 (cn_answer_turn c1) (cn_answer_revision c1)"
  have c': "c' = (if void then c1\<lparr>cn_cancel := True\<rparr> else c1)" "final \<longleftrightarrow> \<not> cn_stop c' \<and> \<not> cn_cancel c'"
    using assms(2) wait by (auto simp: conn_wait_final_def Let_def void_def)
  have "answering c1 c'"
    unfolding c'(1) by (rule answering_same) (simp_all add: same_answer_def onward_def floor_ok_def)
  then have "answering c c'" using relied_kept [OF c1(1)] kept.R_trans by blast
  moreover have "cn_answer_released c' = cn_answer_released c" using c1(1) by (simp add: c'(1) lets_answer_def)
  moreover have "cn_answer_turn c' \<le> cn_final_turn c'" if "final"
    using that c1(2) by (auto simp: c' void_def floor_known_def split: if_splits)
  ultimately show ?thesis by blast
qed

lemma take_floor_kept:
  assumes "others_let E" "take_floor E c = Some (final, c')"
  shows "answering c c' \<and> (final \<longrightarrow> cn_answer_released c')"
proof (cases "cn_answer_released c")
  case True
  then show ?thesis using assms(2) by (auto simp: take_floor_def kept.R_refl)
next
  case False
  define c1 where "c1 = ce_others E (conn_release (ce_others E c) (cn_answer_turn c) (cn_answer_revision c))"
  have c1: "answering c c1"
    unfolding c1_def
    by (intro then_gap [OF assms(1)] kept.R_trans [OF gap_kept [OF assms(1)] relied_kept] release_lets)
  obtain c2 where c2: "conn_wait_final E c1 = Some (final, c2)" "c' = (if final then c2\<lparr>cn_answer_released := True\<rparr> else c2)"
    using assms(2) False by (auto simp: take_floor_def c1_def split: option.splits)
  note wait = wait_final_kept [OF assms(1) c2(1)]
  then have "answering c2 c'"
    unfolding c2(2) by (intro answering_same) (simp_all add: same_answer_def onward_def floor_ok_def)
  then have "answering c c'" using c1 wait kept.R_trans by blast
  then show ?thesis by (simp add: c2(2))
qed

section \<open>One unit\<close>

text \<open>While an answer that has the floor is voiced.\<close>

definition voicing :: "('v, 'a) Connection \<Rightarrow> ('v, 'a) Connection \<Rightarrow> bool" where
  "voicing c c' \<longleftrightarrow> (cn_answer_released c \<longrightarrow> answering c c' \<and> cn_answer_released c')"

interpretation voice: world_preorder "voicing :: ('v, 'a) Connection \<Rightarrow> ('v, 'a) Connection \<Rightarrow> bool"
proof
  show "voicing w w" for w :: "('v, 'a) Connection" by (simp add: voicing_def kept.R_refl)
  show "voicing u v \<Longrightarrow> voicing v w \<Longrightarrow> voicing u w" for u v w :: "('v, 'a) Connection"
    by (auto simp: voicing_def intro: kept.R_trans)
qed

lemma gap_voicing: "others_let E \<Longrightarrow> voicing c (ce_others E c)"
  by (simp add: voicing_def gap_kept)

lemma lets_voicing: "lets_answer c c' \<Longrightarrow> voicing c c'"
  by (simp add: voicing_def relied_kept) (simp add: lets_answer_def)

lemma send_released [simp]: "cn_answer_released (conn_send c f) = cn_answer_released c"
  by (simp add: conn_send_def)

lemma send_voicing: "\<not> bounds f \<Longrightarrow> voicing c (conn_send c f)"
  by (auto simp: voicing_def floor_ok_def intro: send_answering)

lemma fx_voicing: "voicing c (c\<lparr>cn_fx := fx\<rparr>)"
  by (auto simp: voicing_def same_answer_def onward_def floor_ok_def intro: answering_same)

lemma speak_chunk_voicing:
  fixes E :: "('v, 'a) conn_env"
  assumes "others_let E"
  shows "beside voicing st (snd (speak_chunk E unit jarvis pcm st))"
proof -
  obtain c n where st: "st = (c, n)" by (cases st)
  define c1 where "c1 = (if n = 0 \<and> 0 < length pcm
    then ce_others E (conn_send c (rt_event_spoken (unit_text unit) (unit_end unit))) else c)"
  have c1: "voicing c c1"
    by (simp add: c1_def voice.R_refl voice.R_trans [OF send_voicing gap_voicing [OF assms]])
  have "voicing c1 (ce_others E (conn_send (if jarvis then c1\<lparr>cn_fx := fx\<rparr> else c1) (rt_event_audio out)))" for fx out
    by (simp add: voice.R_trans [OF fx_voicing voice.R_trans [OF send_voicing gap_voicing [OF assms]]]
      voice.R_trans [OF send_voicing gap_voicing [OF assms]])
  from voice.R_trans [OF c1 this]
  show ?thesis
    unfolding speak_chunk_def st split_conv Let_def c1_def [symmetric] by (cases jarvis) (simp_all add: beside_def split_beta)
qed

lemma tap_talker_lift:
  assumes "\<And>w w' p. R w w' \<Longrightarrow> S (w, p) (w', p)" "talker_moves R tk"
  shows "talker_moves S (tap_talker tk)"
  using assms(2)
  by (auto simp: talker_moves_def tap_talker_def Let_def list_all_iff split: prod.splits intro!: assms(1)) fast

lemma tap_talker_moves: "talker_moves R tk \<Longrightarrow> talker_moves (beside R) (tap_talker tk)"
  by (rule tap_talker_lift) (simp_all add: beside_def)

lemma speak_unit_voicing:
  fixes E :: "('v, 'a) conn_env"
  assumes "others_let E"
  shows "voicing c (snd (speak_unit E unit tts c))"
proof -
  define said where "said = tts_bridge_speak (tap_talker (ce_talker E)) (ce_tts E) (unit_text unit) tts
      (speak_chunk E unit (tr_effect tts = ''jarvis'')) (\<lambda>(c, _). cn_cancel c) (c, 0)"
  have talker: "talker_moves (beside voicing) (tap_talker (ce_talker E))"
    using assms talker_moves_mono lets_voicing unfolding others_let_def by (metis tap_talker_moves)
  have "beside voicing (c, 0) (snd said)"
    unfolding said_def
    by (rule world_preorder.tts_bridge_speak_R [OF world_preorder_beside [OF voice.world_preorder_axioms] talker])
      (rule speak_chunk_voicing [OF assms])
  then have "voicing c (ce_others E (fst (snd said)))"
    using voice.R_trans [OF _ gap_voicing [OF assms]] by (simp add: beside_def)
  moreover have "voicing (ce_others E (fst (snd said))) (conn_send (ce_others E (fst (snd said))) (rt_event_error e))" for e
    by (rule lets_voicing) (simp add: send_lets)
  ultimately show ?thesis
    using voice.R_trans by (simp add: speak_unit_def said_def [symmetric] Let_def split_beta) blast
qed

lemma conn_speak_kept:
  assumes "others_let E" "conn_speak E unit tts c = Some (spoke, c')"
  shows "answering c c'"
proof -
  obtain final c1 where floor: "take_floor E c = Some (final, c1)"
    using assms(2) by (auto simp: conn_speak_def split: option.splits)
  note c1 = take_floor_kept [OF assms(1) floor]
  show ?thesis
  proof (cases "final")
    case True
    then have "speak_unit E unit tts c1 = (spoke, c')" using assms(2) floor by (simp add: conn_speak_def)
    then show ?thesis
      using speak_unit_voicing [OF assms(1), of c1 unit tts] c1 True kept.R_trans by (auto simp: voicing_def)
  next
    case False
    then show ?thesis using assms(2) floor c1 by (simp add: conn_speak_def)
  qed
qed

lemma speak_units_kept:
  "others_let E \<Longrightarrow> speak_units E tts units c = Some (spoke, c') \<Longrightarrow> answering c c'"
proof (induction units arbitrary: c)
  case (Cons unit units)
  obtain go c1 where one: "conn_speak E unit tts c = Some (go, c1)"
    using Cons.prems(2) by (auto split: option.splits)
  note first = conn_speak_kept [OF Cons.prems(1) one]
  show ?case
    using Cons one first kept.R_trans by (cases go) auto
qed (simp add: kept.R_refl)

section \<open>The callbacks\<close>

lemma on_delta_kept:
  fixes E :: "('v, 'a) conn_env"
  assumes "others_let E"
  shows "cb_moves (beside answering) (on_delta E)"
  unfolding cb_moves_def
proof (intro allI)
  fix delta and st :: "('v, 'a) Connection \<times> StreamTap"
  obtain c tap where st: "st = (c, tap)" by (cases st)
  define c1 where "c1 = ce_others E (conn_send c (rt_event_text ''response.output_text.delta'' ''delta'' delta))"
  have c1: "answering c c1"
    unfolding c1_def by (intro then_gap [OF assms] relied_kept send_lets) simp
  obtain splitter units where split: "sentence_split_push (st_splitter tap) delta = (splitter, units)" by fastforce
  have spoken: "answering c c'" if "speak_units E (st_tts tap) units c1 = Some (go, c')" for go c'
    using kept.R_trans [OF c1 speak_units_kept [OF assms that]] .
  show "beside answering st (snd (on_delta E delta st))"
  proof (cases "speak_units E (st_tts tap) units c1")
    case None
    then show ?thesis using c1 by (simp add: on_delta_def beside_def st c1_def [symmetric] split Let_def)
  next
    case (Some out)
    obtain go c2 where out: "out = (go, c2)" by (cases out)
    then have "answering c c2" "answering c (ce_others E c2)" using spoken Some then_gap [OF assms] by blast+
    then show ?thesis
      using Some out by (cases go) (simp_all add: on_delta_def beside_def st c1_def [symmetric] split Let_def)
  qed
qed

lemma on_call_kept:
  fixes E :: "('v, 'a) conn_env"
  assumes "others_let E"
  shows "beside answering st (on_call E name done ok ms bytes st)"
proof -
  have "answering c (ce_others E (conn_send c f))" if "aside f" for c :: "('v, 'a) Connection" and f
    by (intro then_gap [OF assms] relied_kept send_lets that)
  then show ?thesis by (cases st) (simp add: on_call_def beside_def)
qed

lemma set_voice_kept:
  fixes E :: "('v, 'a) conn_env"
  assumes "others_let E"
  shows "beside answering st (snd (conn_set_voice E arguments st))"
proof -
  obtain c tap where st: "st = (c, tap)" by (cases st)
  obtain voice effect where asked: "(case ce_rd E arguments of None \<Rightarrow> ([], [])
      | Some top_val \<Rightarrow> (rt_json_str (Some top_val) ''voice'', rt_json_str (Some top_val) ''effect'')) = (voice, effect)"
    by fastforce
  have "answering c' (update_client f c')" for f and c' :: "('v, 'a) Connection"
    by (rule answering_same) (simp_all add: update_client_def same_answer_def onward_def floor_ok_def)
  note set = kept.R_trans [OF gap_kept [OF assms] this]
  have "answering c (conn_send (ce_others E (update_client f (ce_others E c))) (rt_event_voice v e))" for f v e
    by (rule kept.R_trans [OF then_gap [OF assms set] relied_kept [OF send_lets]]) simp
  from then_gap [OF assms this]
  show ?thesis
    by (simp add: conn_set_voice_def st asked beside_def Let_def kept.R_refl)
qed

lemma sleep_kept:
  fixes E :: "('v, 'a) conn_env"
  assumes "others_let E"
  shows "beside answering st (snd (conn_sleep E arguments st))"
proof -
  have "answering c' (c'\<lparr>cn_awake := False\<rparr>)" for c' :: "('v, 'a) Connection"
    by (rule answering_same) (simp_all add: same_answer_def onward_def floor_ok_def)
  then have "answering c (ce_others E ((ce_others E c)\<lparr>cn_awake := False\<rparr>))" for c :: "('v, 'a) Connection"
    by (rule then_gap [OF assms kept.R_trans [OF gap_kept [OF assms]]])
  then show ?thesis by (cases st) (simp add: conn_sleep_def beside_def Let_def)
qed

lemma builtins_kept: "others_let E \<Longrightarrow> builtins_move (beside answering) (answer_builtins E)"
  by (simp add: builtins_move_def answer_builtins_def set_voice_kept sleep_kept)

lemma network_kept: "others_let E \<Longrightarrow> net_moves (beside answering) (tap_network (ce_net E))"
  using net_moves_mono relied_kept by (metis others_let_def tap_network_moves)

section \<open>The request\<close>

interpretation tapped: world_preorder
  "beside answering :: ('v, 'a) Connection \<times> StreamTap \<Rightarrow> ('v, 'a) Connection \<times> StreamTap \<Rightarrow> bool"
  by (rule world_preorder_beside [OF kept.world_preorder_axioms])

lemma keeps_clients: "answering c c' \<Longrightarrow> answering c (c'\<lparr>cn_llm := l\<rparr>)" "answering c c' \<Longrightarrow> answering c (c'\<lparr>cn_agent := a\<rparr>)"
  "answering c c' \<Longrightarrow> answering c (c'\<lparr>cn_agent_servers := s\<rparr>)"
  by (auto simp: same_answer_def onward_def floor_ok_def elim!: kept.R_trans intro!: answering_same)

lemma answer_request_kept:
  fixes E :: "('v, 'a) conn_env"
  assumes "others_let E" "answer_request E client llm messages c = Some (err, text, tap, c')"
  shows "answering c c'"
proof (cases "cl_mode client = ''agentic''")
  case False
  then obtain res c1 tap1 where stream: "llm_client_stream (ce_rd E) (ce_wr E) (tap_network (ce_net E)) llm messages (on_delta E)
      (\<lambda>(c, _). cn_cancel c) [] (c, \<lparr>st_tts = cl_tts client, st_splitter = sentence_new, st_hung = False\<rparr>) = (res, c1, tap1)"
    and c': "c' = c1\<lparr>cn_llm := Some (lr_client res)\<rparr>"
    using assms(2) by (auto simp: answer_request_def split: prod.splits)
  have "answering c c1"
    using tapped.llm_client_stream_R [OF network_kept [OF assms(1)] on_delta_kept [OF assms(1)] stream]
    by (simp add: beside_def)
  then show ?thesis unfolding c' by (rule keeps_clients)
next
  case True
  define run where "run = \<lparr>ar_agent = (case cn_agent c of None \<Rightarrow> [] | Some agent \<Rightarrow> agent), ar_messages = messages,
      ar_world = (c, \<lparr>st_tts = cl_tts client, st_splitter = sentence_new, st_hung = False\<rparr>)\<rparr>"
  define out where "out = llm_agent_run (answer_env E) (ce_fuel E) (answer_builtins E) (cl_llm client) (cl_tools client)
      (cl_max_rounds client) (on_delta E) (on_call E) llm (ce_slot E c) [] run"
  have net: "net_moves (beside answering) (ae_net (answer_env E))"
    using network_kept [OF assms(1)] by (simp add: answer_env_def)
  have "turn_moves (beside answering) (ar_world run) out"
    unfolding out_def
    by (rule tapped.llm_agent_run_R [OF net builtins_kept [OF assms(1)] on_call_kept [OF assms(1)] on_delta_kept [OF assms(1)]])
  moreover obtain llm' run' where out': "out = Some (err, text, llm', run')" "ar_world run' = (fst (ar_world run'), tap)"
    "c' = (fst (ar_world run'))\<lparr>cn_llm := Some llm', cn_agent := Some (ar_agent run')\<rparr>"
  proof -
    have "map_option (\<lambda>(err, text, llm, run). case ar_world run of (c, tap) \<Rightarrow>
        (err, text, tap, c\<lparr>cn_llm := Some llm, cn_agent := Some (ar_agent run)\<rparr>)) out = Some (err, text, tap, c')"
      using assms(2) True by (simp add: answer_request_def out_def run_def)
    then obtain err' text' llm' run' where "out = Some (err', text', llm', run')"
      "(case ar_world run' of (c, tap) \<Rightarrow> (err', text', tap, c\<lparr>cn_llm := Some llm', cn_agent := Some (ar_agent run')\<rparr>)) =
        (err, text, tap, c')" by auto
    then show thesis using that by (cases "ar_world run'") simp
  qed
  ultimately have "answering c (fst (ar_world run'))" by (simp add: turn_moves_def beside_def run_def)
  then show ?thesis unfolding out'(3) by (intro keeps_clients)
qed

lemma answer_agent_kept:
  fixes E :: "('v, 'a) conn_env"
  assumes "others_let E"
  shows "answering c (answer_agent E client c)"
proof -
  have net: "net_moves answering (ce_net E)" using assms net_moves_mono relied_kept by (metis others_let_def)
  have "answering c (case cn_agent c of None \<Rightarrow> c | Some agent \<Rightarrow> llm_agent_free (ce_net E) agent c)"
    using kept.llm_agent_free_R [OF net] by (simp add: kept.R_refl split: option.split)
  then show ?thesis by (auto simp: answer_agent_def Let_def kept.R_refl intro!: keeps_clients)
qed

lemma conn_llm_kept: "conn_llm E c params = (out, c') \<Longrightarrow> answering c c'"
  by (auto simp: conn_llm_def kept.R_refl intro: keeps_clients split: sum.splits)

lemma error_kept: "answering c c' \<Longrightarrow> answering c (conn_error c' e)"
  by (rule kept.R_trans [OF _ relied_kept [OF error_lets]])

lemma answer_loopback_kept: "others_let E \<Longrightarrow> answer_loopback E client transcript c = Some c' \<Longrightarrow> answering c c'"
  by (auto simp: answer_loopback_def kept.R_refl dest: conn_speak_kept split: if_splits)

lemma answer_model_kept:
  fixes E :: "('v, 'a) conn_env"
  assumes E: "others_let E" and run: "answer_model E client item transcript c = Some (tts, c')"
  shows "answering c c'"
proof (cases "lp_base_url (cl_llm client) = []")
  case True
  then show ?thesis using run by (auto simp: answer_model_def intro: error_kept kept.R_refl)
next
  case False
  obtain got c1 where llm: "conn_llm E c (cl_llm client) = (got, c1)" by fastforce
  note c1 = conn_llm_kept [OF llm]
  show ?thesis
  proof (cases got)
    case (Inl err)
    then show ?thesis using run False llm c1 by (auto simp: answer_model_def intro: error_kept)
  next
    case (Inr llm1)
    obtain err "text" tap c2 where req: "answer_request E client llm1 (request_messages client item transcript)
        (answer_agent E client c1) = Some (err, text, tap, c2)"
      using run False llm Inr by (auto simp: answer_model_def split: option.splits)
    have c2: "answering c c2"
      by (rule kept.R_trans [OF c1 kept.R_trans [OF answer_agent_kept [OF E] answer_request_kept [OF E req]]])
    define tail where "tail = snd (sentence_split_flush (st_splitter tap))"
    obtain c3 where c3: "(if err = None \<and> unit_text tail \<noteq> [] then map_option snd (conn_speak E tail (st_tts tap) c2)
        else Some c2) = Some c3"
      and c': "c' = (case err of Some reason \<Rightarrow> if cn_cancel (ce_others E c3) then ce_others E c3 else conn_error (ce_others E c3) reason
        | None \<Rightarrow> if text = [] then conn_error (ce_others E c3) ''[LLM] The model answered nothing'' else ce_others E c3)"
    proof (cases "if err = None \<and> unit_text tail \<noteq> [] then map_option snd (conn_speak E tail (st_tts tap) c2) else Some c2")
      case None
      then show thesis using run False llm Inr req by (simp add: answer_model_def Let_def tail_def split: if_splits)
    next
      case (Some c3)
      then show thesis
        using run False llm Inr req that [OF Some]
        by (simp add: answer_model_def Let_def tail_def [symmetric] split: if_splits)
    qed
    have "answering c2 c3" using c3 conn_speak_kept [OF E] by (auto simp: kept.R_refl split: if_splits)
    then have "answering c (ce_others E c3)" using then_gap [OF E kept.R_trans [OF c2]] by blast
    then show ?thesis unfolding c' by (auto intro: error_kept split: option.split)
  qed
qed

end
