(* ===== verification/Answer_Life.thy ===== *)
theory Answer_Life
  imports Answer
begin

text \<open>
  What the client and the session may count on of an answer of \<open>src/s2s-conversation.cpp\<close>: it opens and
  closes once, its sound waits for its turn to be final, it waits no longer than the floor is unknown, and
  each unit is named before it is heard.
\<close>

section \<open>The frames of an answer\<close>

lemma lets_told:
  assumes "lets_answer c c'"
  obtains xs where "told c c' xs" "list_all aside xs" "same_answer c c'" "onward c c'"
    "cn_answer_released c' = cn_answer_released c"
  using assms that unfolding lets_answer_def by blast

lemma told_lets:
  assumes "told c c1 xs" "lets_answer c1 c2"
  obtains ys where "told c c2 (xs @ ys)" "list_all aside ys"
  using assms lets_told told_trans by (metis (no_types))

lemma aside_filter: "list_all aside xs \<Longrightarrow> filter bounds xs = [] \<and> \<not> list_ex sounds xs"
  by (auto simp: list_all_iff list_ex_iff aside_def filter_empty_conv)

lemma plain_filter: "list_all (\<lambda>f. \<not> bounds f) xs \<Longrightarrow> filter bounds xs = []"
  by (auto simp: list_all_iff filter_empty_conv)

text \<open>From the moment an answer is published to the one it stops speaking.\<close>

definition answer_body ::
  "('v, 'a) conn_env \<Rightarrow> AnswerJob \<Rightarrow> ClientSettings \<Rightarrow> ('v, 'a) Connection \<Rightarrow> (tts_request \<times> ('v, 'a) Connection) option" where
  "answer_body E job client c =
     (if cn_cancel c then Some (cl_tts client, c)
      else if cl_mode client = ''loopback''
      then map_option (Pair (cl_tts client)) (answer_loopback E client (aj_transcript job) c)
      else answer_model E client (''turn_'' @ int_str (aj_turn_id job)) (aj_transcript job) c)"

lemma answer_body_kept: "others_let E \<Longrightarrow> answer_body E job client c = Some (tts, c') \<Longrightarrow> answering c c'"
  by (auto simp: answer_body_def kept.R_refl intro: answer_loopback_kept answer_model_kept split: if_splits)

text \<open>The echo, while the answer still speaks.\<close>

lemma answer_echo_kept:
  fixes E :: "('v, 'a) conn_env"
  assumes E: "others_let E"
  obtains c1 where "answering c c1"
    "answer_end E tts c = (let c = ce_others E (c1\<lparr>cn_speaking := False\<rparr>)
       in conn_send c (rt_event (if cn_cancel c then ''response.cancelled'' else ''response.done'')))"
proof -
  define c0 where "c0 = ce_others E c"
  define fx where "fx = jarvis_fx_process (ce_lm E) (cn_fx c0) (replicate (jarvis_fx_tail (cn_fx c0)) 0)"
  define c1 where "c1 = (if tr_effect tts = ''jarvis'' \<and> cn_answer_released c0 \<and> \<not> cn_cancel c0
    then ce_others E (conn_send (c0\<lparr>cn_fx := snd fx\<rparr>) (rt_event_audio (fst fx))) else c0)"
  have "voicing c0 (ce_others E (conn_send (c0\<lparr>cn_fx := snd fx\<rparr>) (rt_event_audio (fst fx))))"
    by (rule voice.R_trans [OF fx_voicing voice.R_trans [OF send_voicing gap_voicing [OF E]]]) simp
  then have "answering c0 c1" by (simp add: c1_def voicing_def kept.R_refl)
  then have "answering c c1" using gap_kept [OF E] kept.R_trans unfolding c0_def by blast
  moreover have "answer_end E tts c = (let c = ce_others E (c1\<lparr>cn_speaking := False\<rparr>)
       in conn_send c (rt_event (if cn_cancel c then ''response.cancelled'' else ''response.done'')))"
    unfolding answer_end_def c0_def [symmetric] fx_def [symmetric] Let_def split_beta c1_def ..
  ultimately show thesis by (rule that)
qed

text \<open>The states an answer goes through, the published one first.\<close>

lemma conn_answer_stages:
  fixes E :: "('v, 'a) conn_env"
  assumes E: "others_let E" and run: "conn_answer E job c = Some c'" and live: "\<not> cn_stop c"
  obtains before c1 c2 body c3 after closing where
    "told c c1 before" "list_all aside before" "cn_answer_turn c1 = aj_turn_id job" "floor_ok c1"
    "answering (conn_send c1 RESPONSE_CREATED) c2"
    "told c2 c3 body" "list_all aside body" "onward c2 c3"
    "closing = (if cn_cancel c3 then RESPONSE_CANCELLED else RESPONSE_DONE)"
    "told (conn_send c3 closing) c' after" "list_all aside after" "onward c3 c'"
proof -
  define a where "a = ce_others E c"
  define b where "b = ce_others E (ce_others E (a\<lparr>cn_cancel := False, cn_fx := jarvis_fx_reset (ce_lm E) (cn_fx a)\<rparr>))"
  define client where "client = cn_client (ce_others E (a\<lparr>cn_cancel := False, cn_fx := jarvis_fx_reset (ce_lm E) (cn_fx a)\<rparr>))"
  define d where "d = b\<lparr>cn_answer_turn := aj_turn_id job, cn_answer_revision := aj_revision job, cn_answer_released := False,
      cn_speaking := True\<rparr>"
  define e where "e = (if conn_outdated d (aj_turn_id job) (aj_revision job) then d\<lparr>cn_cancel := True\<rparr> else d)"
  have published: "answer_begin E job a = (client, conn_send (ce_others E e) RESPONSE_CREATED)"
    by (simp add: answer_begin_def Let_def b_def d_def e_def client_def RESPONSE_CREATED_def)
  obtain tts g where g: "answer_body E job client (ce_others E (conn_send (ce_others E e) RESPONSE_CREATED)) = Some (tts, g)"
    and c': "c' = conn_release (ce_others E (answer_end E tts g)) (aj_turn_id job) (aj_revision job)"
    using run live by (auto simp: conn_answer_def Let_def answer_body_def [symmetric] a_def [symmetric] published)
  obtain h where h: "answering g h" "answer_end E tts g = (let c = ce_others E (h\<lparr>cn_speaking := False\<rparr>)
      in conn_send c (rt_event (if cn_cancel c then ''response.cancelled'' else ''response.done'')))"
    using answer_echo_kept [OF E] by blast
  define i where "i = ce_others E (h\<lparr>cn_speaking := False\<rparr>)"
  define closing where "closing = (if cn_cancel i then RESPONSE_CANCELLED else RESPONSE_DONE)"
  have closed: "answer_end E tts g = conn_send i closing"
    by (simp add: h(2) i_def [symmetric] closing_def RESPONSE_CANCELLED_def RESPONSE_DONE_def)
  text \<open>Up to the opening.\<close>
  have "lets_answer c a" by (simp add: a_def gap_lets [OF E])
  then obtain xs where xs: "told c a xs" "list_all aside xs" by (auto elim: lets_told)
  have "told a (a\<lparr>cn_cancel := False, cn_fx := fx\<rparr>) []" for fx by (simp add: told_same)
  from told_trans [OF xs(1) this] have "told c (a\<lparr>cn_cancel := False, cn_fx := fx\<rparr>) xs" for fx by simp
  moreover have "lets_answer u (ce_others E (ce_others E u))" for u
    by (rule rely.R_trans [OF gap_lets [OF E] gap_lets [OF E]])
  ultimately obtain ys where ys: "told c b (xs @ ys)" "list_all aside ys"
    unfolding b_def using told_lets by metis
  have "told b e []" by (simp add: told_same e_def d_def)
  from told_trans [OF ys(1) this] have "told c e (xs @ ys)" by simp
  then obtain zs where zs: "told c (ce_others E e) ((xs @ ys) @ zs)" "list_all aside zs"
    using told_lets gap_lets [OF E] by metis
  have e: "lets_answer e (ce_others E e)" by (rule gap_lets [OF E])
  have "lets_answer (h\<lparr>cn_speaking := False\<rparr>) i" unfolding i_def by (rule gap_lets [OF E])
  then obtain us where us: "told (h\<lparr>cn_speaking := False\<rparr>) i us" "list_all aside us" "onward (h\<lparr>cn_speaking := False\<rparr>) i"
    by (auto elim: lets_told)
  have "told h (h\<lparr>cn_speaking := False\<rparr>) []" by (simp add: told_same)
  from told_trans [OF this us(1)] have body: "told h i us" by simp
  have "lets_answer (conn_send i closing) c'"
    unfolding c' closed by (rule rely.R_trans [OF gap_lets [OF E] release_lets])
  then obtain vs where vs: "told (conn_send i closing) c' vs" "list_all aside vs" "onward (conn_send i closing) c'"
    by (auto elim: lets_told)
  show thesis
  proof (rule that [OF zs(1) _ _ _ _ body us(2) _ closing_def vs(1,2)])
    show "list_all aside ((xs @ ys) @ zs)" using xs ys zs by simp
    show "cn_answer_turn (ce_others E e) = aj_turn_id job" "floor_ok (ce_others E e)"
      using e by (simp_all add: lets_answer_def same_answer_def e_def d_def floor_ok_def)
    show "answering (conn_send (ce_others E e) RESPONSE_CREATED) h"
      by (rule kept.R_trans [OF gap_kept [OF E] kept.R_trans [OF answer_body_kept [OF E g] h(1)]])
    show "onward h i" using us(3) by (simp add: onward_def)
    show "onward i c'" using vs(3) by (simp add: onward_def conn_send_def split: if_splits)
  qed
qed

text \<open>The other threads of the environment below are still, the endpoint answers nothing and the talker says
  nothing: the least a connection can have around it.\<close>

definition still_network :: "'w network" where
  "still_network = \<lparr>net_open = (\<lambda>_. True),
     net_request = (\<lambda>_ _. \<lparr>an_chunks = [], an_after = id, an_end = No_Response [], an_silent = False\<rparr>)\<rparr>"

definition still_talker :: "'w talker" where
  "still_talker =
     \<lparr>tk_model = \<lparr>qm_type = ''base'', qm_languages = [], qm_sampling = tts_sampling_default, qm_tokens = (\<lambda>_. 0)\<rparr>,
      tk_synthesize = (\<lambda>_ _. \<lparr>qr_chunks = [(id, [1 / 2])], qr_after = id, qr_status = QT_STATUS_OK\<rparr>),
      tk_draw = (\<lambda>_. (0, 0))\<rparr>"

definition still_voices :: tts_bridge where
  "still_voices =
     \<lparr>tb_voices = [\<lparr>tv_name = ''a'', tv_spk = [], tv_codes = [], tv_n_frames = 0, tv_text = []\<rparr>],
      tb_entries = [\<lparr>te_label = ''a'', te_voice = 0, te_reference = False\<rparr>], tb_labels = [''a''], tb_languages = [],
      tb_defaults = tts_request_default\<lparr>tr_voice := ''a''\<rparr>, tb_sampling_defaults = tts_sampling_default\<rparr>"

definition still_setup :: "(unit, unit) ConversationSetup" where
  "still_setup =
     \<lparr>cs_models =
        \<lparr>sm_session = \<lparr>m_window = 512, m_sample_rate = 16000, m_sv_state_new = (), m_sv_prob = (\<lambda>_ _. (0, ())),
           m_st_window = 128000, m_st_predict = (\<lambda>_. 0)\<rparr>,
         sm_asr = (\<lambda>_. Inr []), sm_tts = still_voices, sm_lv_hop = 256, sm_lv_new = None, sm_lv_process = (\<lambda>_ _ _. ((None, []), ()))\<rparr>,
      cs_defaults = ClientSettings_default, cs_llm_fixed = False, cs_mcp_fixed = False, cs_llm_hosts = []\<rparr>"

definition still_libm :: libm where
  "still_libm = \<lparr>lm_cos = (\<lambda>_. 1), lm_sin = (\<lambda>_. 0), lm_sqrt = (\<lambda>_. 1), lm_pow = (\<lambda>_ _. 1), lm_cosf = (\<lambda>_. 1),
     lm_sinf = (\<lambda>_. 0), lm_sqrtf = (\<lambda>_. 1), lm_powf = (\<lambda>_ _. 1)\<rparr>"

definition still_env :: "(unit, unit) conn_env" where
  "still_env =
     \<lparr>ce_setup = still_setup, ce_lm = still_libm, ce_rd = (\<lambda>_. None), ce_wr = (\<lambda>_. None), ce_net = still_network,
      ce_talker = still_talker, ce_ms = (\<lambda>_ _. 0), ce_build = [], ce_slot = (\<lambda>_. []), ce_tts_slot = (\<lambda>_. []),
      ce_others = id, ce_fuel = 0\<rparr>"

abbreviation "still_connection \<equiv> conn_open still_libm still_setup"

lemma still_others_let: "others_let still_env"
  by (simp add: others_let_def still_env_def rely.R_refl net_moves_def answer_moves_def still_network_def
      talker_moves_def still_talker_def)

section \<open>An answer opens and closes once\<close>

lemma stopped_answer_told:
  assumes E: "others_let E" and run: "conn_answer E job c = Some c'" and stop: "cn_stop c"
  obtains xs where "told c c' xs" "list_all aside xs"
proof -
  have "lets_answer c c'"
    using run stop rely.R_trans [OF gap_lets [OF E] release_lets] by (auto simp: conn_answer_def)
  then show thesis using that by (auto elim: lets_told)
qed

text \<open>C4: Every answer the responder gives opens with one \<open>response.created\<close> and closes with exactly one of
  \<open>response.done\<close> and \<open>response.cancelled\<close>, in that order and with no other such frame between or around them,
  whatever the endpoint, the tools, the talker and the other threads do meanwhile; it is done when no cancel
  was raised by the time the answer is over. A connection that has stopped opens none.\<close>

theorem answer_opens_and_closes_once:
  assumes "others_let E"
  shows "case conn_answer E job c of
      None \<Rightarrow> True
    | Some c' \<Rightarrow> \<exists>xs. told c c' xs \<and>
        (if cn_stop c then filter bounds xs = []
         else filter bounds xs = [RESPONSE_CREATED, RESPONSE_DONE] \<or>
              filter bounds xs = [RESPONSE_CREATED, RESPONSE_CANCELLED] \<and> cn_cancel c')"
proof (cases "conn_answer E job c")
  case (Some c')
  show ?thesis
  proof (cases "cn_stop c")
    case True
    obtain xs where "told c c' xs" "list_all aside xs" by (rule stopped_answer_told [OF assms Some True])
    then show ?thesis using Some True aside_filter by auto
  next
    case False
    obtain before c1 c2 body c3 after closing where parts:
      "told c c1 before" "list_all aside before" "cn_answer_turn c1 = aj_turn_id job" "floor_ok c1"
      "answering (conn_send c1 RESPONSE_CREATED) c2"
      "told c2 c3 body" "list_all aside body" "onward c2 c3"
      "closing = (if cn_cancel c3 then RESPONSE_CANCELLED else RESPONSE_DONE)"
      "told (conn_send c3 closing) c' after" "list_all aside after" "onward c3 c'"
      by (rule conn_answer_stages [OF assms Some False])
    obtain mid where mid: "told (conn_send c1 RESPONSE_CREATED) c2 mid" "list_all (\<lambda>f. \<not> bounds f) mid"
      using parts(5) by (auto simp: answering_def)
    define xs where "xs = (((before @ [RESPONSE_CREATED]) @ mid) @ body @ [closing]) @ after"
    have "told c c' xs"
      unfolding xs_def
      by (rule told_trans [OF told_trans [OF told_trans [OF told_send_after [OF parts(1)] mid(1)] told_send_after [OF parts(6)]] parts(10)])
    moreover have "filter bounds xs = [RESPONSE_CREATED, closing]"
      using parts(2,7,9,11) mid(2) bound_frames by (simp add: xs_def aside_filter plain_filter)
    moreover have "cn_cancel c'" if "cn_cancel c3" using that parts(12) by (simp add: onward_def)
    ultimately show ?thesis using Some False parts(9) by (cases "cn_cancel c3") auto
  qed
qed simp


section \<open>The wait for the floor\<close>

lemma wait_until_exact:
  "case wait_until fuel others ready w of
     None \<Rightarrow> list_all (\<lambda>k. \<not> ready ((others ^^ k) w)) [0..<Suc fuel]
   | Some w' \<Rightarrow> \<exists>n\<le>fuel. w' = (others ^^ n) w \<and> ready w' \<and> list_all (\<lambda>k. \<not> ready ((others ^^ k) w)) [0..<n]"
proof (induction fuel arbitrary: w)
  case 0
  then show ?case by simp
next
  case (Suc fuel)
  have shift: "list_all (\<lambda>k. \<not> ready ((others ^^ k) w)) [0..<Suc n] \<longleftrightarrow>
      \<not> ready w \<and> list_all (\<lambda>k. \<not> ready ((others ^^ k) (others w))) [0..<n]" for n
    by (simp only: upt_conv_Cons [OF zero_less_Suc] map_Suc_upt [symmetric] list.pred_map list.pred_inject)
      (simp add: comp_def funpow_swap1)
  show ?case
  proof (cases "ready w")
    case True
    then show ?thesis by (auto intro!: exI [of _ 0])
  next
    case False
    show ?thesis
    proof (cases "wait_until fuel others ready (others w)")
      case None
      then show ?thesis using False Suc [of "others w"] by (simp del: upt_Suc add: shift)
    next
      case (Some w')
      then obtain n where n: "n \<le> fuel" "w' = (others ^^ n) (others w)" "ready w'"
        "list_all (\<lambda>k. \<not> ready ((others ^^ k) (others w))) [0..<n]"
        using Suc [of "others w"] by auto
      then show ?thesis
        using False Some by (auto simp del: upt_Suc simp add: shift funpow_swap1 intro!: exI [of _ "Suc n"])
    qed
  qed
qed


section \<open>A unit is named before it is heard\<close>

text \<open>The frames of one unit: it is named once, and before its first samples.\<close>

fun unit_run :: "rt_frame \<Rightarrow> bool \<Rightarrow> rt_frame list \<Rightarrow> bool option" where
  "unit_run u said [] = Some said"
| "unit_run u said (f # fs) =
     (if names f then if f = u \<and> \<not> said then unit_run u True fs else None
      else if sounds f then if said \<or> f = rt_event_audio [] then unit_run u said fs else None
      else unit_run u said fs)"

lemma unit_run_append: "unit_run u said (xs @ ys) = Option.bind (unit_run u said xs) (\<lambda>said. unit_run u said ys)"
  by (induction xs arbitrary: said) auto

lemma unit_run_asides: "list_all aside xs \<Longrightarrow> unit_run u said xs = Some said"
  by (induction xs arbitrary: said) (simp_all add: aside_def)

definition unit_told :: "rt_frame \<Rightarrow> ('v, 'a) Connection \<times> nat \<Rightarrow> ('v, 'a) Connection \<times> nat \<Rightarrow> bool" where
  "unit_told u st st' \<longleftrightarrow> (\<exists>xs. told (fst st) (fst st') xs \<and> unit_run u (0 < snd st) xs = Some (0 < snd st'))"

interpretation unit: world_preorder "unit_told u :: ('v, 'a) Connection \<times> nat \<Rightarrow> ('v, 'a) Connection \<times> nat \<Rightarrow> bool"
proof
  show "unit_told u w w" for w :: "('v, 'a) Connection \<times> nat"
    unfolding unit_told_def by (rule exI [of _ "[]"]) simp
  show "unit_told u r t" if "unit_told u r s" "unit_told u s t" for r s t :: "('v, 'a) Connection \<times> nat"
    using that told_trans unfolding unit_told_def by (fastforce simp: unit_run_append)
qed

lemma lets_unit_told: "lets_answer c c' \<Longrightarrow> unit_told u (c, n) (c', n)"
  unfolding unit_told_def by (auto elim!: lets_told intro: unit_run_asides)

lemma send_unit_told:
  assumes "unit_run u (0 < n) [f] = Some (0 < n')" "lets_answer (conn_send c f) c'"
  shows "unit_told u (c, n) (c', n')"
proof -
  have "unit_told u (c, n) (conn_send c f, n')"
    unfolding unit_told_def using told_send [of c f] assms(1) by (intro exI [of _ "[f]"]) (simp del: unit_run.simps)
  then show ?thesis by (rule unit.R_trans [OF _ lets_unit_told [OF assms(2)]])
qed

lemma speak_chunk_told:
  fixes E :: "('v, 'a) conn_env"
  assumes E: "others_let E"
  shows "unit_told (rt_event_spoken (unit_text unit) (unit_end unit)) st (snd (speak_chunk E unit jarvis pcm st))"
proof -
  define u where "u = rt_event_spoken (unit_text unit) (unit_end unit)"
  obtain c n where st: "st = (c, n)" by (cases st)
  define c1 where "c1 = (if n = 0 \<and> 0 < length pcm then ce_others E (conn_send c u) else c)"
  define n1 where "n1 = (if n = 0 \<and> 0 < length pcm then length pcm else n)"
  have named: "unit_told u (c, n) (c1, n1)"
    by (auto simp: c1_def n1_def u_def unit.R_refl intro!: send_unit_told gap_lets [OF E])
  define c2 where "c2 = (if jarvis then c1\<lparr>cn_fx := snd (jarvis_fx_process (ce_lm E) (cn_fx c1) pcm)\<rparr> else c1)"
  define out where "out = (if jarvis then fst (jarvis_fx_process (ce_lm E) (cn_fx c1) pcm) else pcm)"
  have out: "pcm = [] \<Longrightarrow> out = []"
    using process_same [of "cn_fx c1" "ce_lm E" pcm] by (auto simp: out_def)
  have "told c1 c2 []" by (simp add: c2_def told_same)
  then have fx: "unit_told u (c1, n1) (c2, n1)" unfolding unit_told_def by (intro exI [of _ "[]"]) simp
  have sound: "unit_told u (c2, n1) (ce_others E (conn_send c2 (rt_event_audio out)), n + length pcm)"
    by (rule send_unit_told [OF _ gap_lets [OF E]]) (use out in \<open>auto simp: n1_def\<close>)
  have "snd (speak_chunk E unit jarvis pcm st) = (ce_others E (conn_send c2 (rt_event_audio out)), n + length pcm)"
    unfolding speak_chunk_def st split_conv Let_def u_def [symmetric] c1_def [symmetric]
    by (simp add: c2_def out_def split_beta)
  then show ?thesis
    using unit.R_trans [OF named unit.R_trans [OF fx sound]] by (simp add: st u_def)
qed

lemma take_floor_told:
  assumes E: "others_let E" and floor: "take_floor E c = Some (final, c')"
  obtains xs where "told c c' xs" "list_all aside xs"
proof (cases "cn_answer_released c")
  case True
  then show thesis using floor that [of "[]"] by (simp add: take_floor_def)
next
  case False
  define c1 where "c1 = ce_others E (conn_release (ce_others E c) (cn_answer_turn c) (cn_answer_revision c))"
  have c1: "lets_answer c c1"
    unfolding c1_def by (rule rely.R_trans [OF gap_lets [OF E] rely.R_trans [OF release_lets gap_lets [OF E]]])
  obtain c2 where c2: "conn_wait_final E c1 = Some (final, c2)" "told c2 c' []"
    using floor False by (auto simp: take_floor_def c1_def told_same split: option.splits)
  obtain u where u: "wait_until (ce_fuel E) (ce_others E) floor_known c1 = Some u" "told u c2 []"
    using c2(1) by (auto simp: conn_wait_final_def Let_def told_same split: option.splits)
  have "lets_answer c u" using rely.R_trans [OF c1] wait_until_kept [OF E u(1)] by blast
  then obtain xs where xs: "told c u xs" "list_all aside xs" by (auto elim: lets_told)
  show thesis using that [OF _ xs(2)] told_trans [OF told_trans [OF xs(1) u(2)] c2(2)] by simp
qed



section \<open>An answer on a still connection\<close>

lemma still_release: "\<not> ss_committed (cn_session c) \<Longrightarrow> conn_release c i r = c"
  by (simp add: conn_release_def conn_events_def s2s_session_release_def)

lemma still_fields:
  obtains s m f where "\<not> ss_committed s"
    "still_connection =
       \<lparr>cn_session = s, cn_params = s2s_session_params_default, cn_echo = ''client'', cn_client = ClientSettings_default,
        cn_awake = True, cn_admitted_turn = - 1, cn_out = [], cn_out_stop = False, cn_wire = [],
        cn_llm = None, cn_agent = None, cn_agent_servers = [], cn_queue = [], cn_answers = [],
        cn_stop = False, cn_cancel = False, cn_final_turn = 0, cn_open_turn = 0, cn_open_revision = 0,
        cn_answer_turn = 0, cn_answer_revision = 0, cn_answer_released = False, cn_speaking = False,
        cn_fx = f, cn_mic_resample = m, cn_ref_resample = m,
        cn_aec = None, cn_aec_mic = [], cn_aec_ref = [], cn_aec_failing = False\<rparr>"
proof
  show "\<not> ss_committed (cn_session still_connection)"
    by (simp add: conn_open_def Let_def s2s_session_new_def s2s_session_set_params_def session_members_def)
qed (simp add: conn_open_def Let_def still_setup_def)

lemma still_speaks: "conn_speak still_env \<lparr>unit_text = ''hello'', unit_end = 5\<rparr> tts_request_default still_connection \<noteq> None"
  by (rule still_fields) (simp add: still_env_def conn_outdated_def conn_speak_def take_floor_def conn_wait_final_def
      floor_known_def still_release split_beta Let_def)

definition still_job :: AnswerJob where
  "still_job = \<lparr>aj_transcript = ''hello there'', aj_turn_id = 0, aj_revision = 0\<rparr>"

lemma still_answers: "conn_answer still_env still_job still_connection \<noteq> None" "\<not> cn_stop still_connection"
proof -
  obtain s m f where s: "\<not> ss_committed s" and c: "still_connection =
       \<lparr>cn_session = s, cn_params = s2s_session_params_default, cn_echo = ''client'', cn_client = ClientSettings_default,
        cn_awake = True, cn_admitted_turn = - 1, cn_out = [], cn_out_stop = False, cn_wire = [],
        cn_llm = None, cn_agent = None, cn_agent_servers = [], cn_queue = [], cn_answers = [],
        cn_stop = False, cn_cancel = False, cn_final_turn = 0, cn_open_turn = 0, cn_open_revision = 0,
        cn_answer_turn = 0, cn_answer_revision = 0, cn_answer_released = False, cn_speaking = False,
        cn_fx = f, cn_mic_resample = m, cn_ref_resample = m,
        cn_aec = None, cn_aec_mic = [], cn_aec_ref = [], cn_aec_failing = False\<rparr>"
    by (rule still_fields)
  have long: "\<not> int (utf8_chars ''hello there'') < tg_min_chars (tr_guards (cl_tts ClientSettings_default))"
    by code_simp
  have modes: "cl_mode ClientSettings_default = ''loopback''" "tr_effect (cl_tts ClientSettings_default) = ''off''"
    by (simp_all add: ClientSettings_default_def tts_request_default_def)
  show "conn_answer still_env still_job still_connection \<noteq> None"
    unfolding c using s long modes
    by (simp add: still_job_def conn_answer_def answer_begin_def Let_def still_env_def conn_outdated_def conn_send_def
       answer_loopback_def conn_speak_def take_floor_def conn_wait_final_def floor_known_def still_release
       speak_unit_def split_beta)
  show "\<not> cn_stop still_connection" by (simp add: c)
qed

lemma answer_opens_and_closes_once_witness:
  "case conn_answer still_env still_job still_connection of
      None \<Rightarrow> False
    | Some c' \<Rightarrow> \<exists>xs. told still_connection c' xs \<and>
        (filter bounds xs = [RESPONSE_CREATED, RESPONSE_DONE] \<or>
         filter bounds xs = [RESPONSE_CREATED, RESPONSE_CANCELLED] \<and> cn_cancel c')"
  using answer_opens_and_closes_once [OF still_others_let, where job = still_job and c = still_connection] still_answers
  by (auto split: option.splits)



end
