(* ===== verification/Patch.thy ===== *)
theory Patch
  imports Connection
begin

text \<open>
  \<open>conn_apply_patch\<close> of \<open>src/s2s-conversation.cpp\<close>: a session update describes the whole session, so the
  settings restart from the defaults of the server and every field the update carries replaces one. One
  definition per run of fields, in the order of the source, which is the order of the errors it sends.
\<close>

section \<open>The fields\<close>

text \<open>The defaults back, but for the conversation; the thresholds back.\<close>

definition patch_reset :: "('v, 'a) ConversationSetup \<Rightarrow> ('v, 'a) Connection \<Rightarrow> ('v, 'a) Connection" where
  "patch_reset setup c =
     c\<lparr>cn_client := (cs_defaults setup)\<lparr>cl_history := cl_history (cn_client c)\<rparr>,
       cn_params := s2s_session_params_default\<rparr>"

definition patch_mcp ::
  "('v, 'a) ConversationSetup \<Rightarrow> rt_session_patch \<Rightarrow> ('v, 'a) Connection \<Rightarrow> ('v, 'a) Connection" where
  "patch_mcp setup patch c =
     (let c = (if p_mode patch \<noteq> [] then update_client (cl_mode_update (\<lambda>_. p_mode patch)) c else c);
          c = update_client (cl_tools_update (\<lambda>_. p_tools patch)) c;
          c = (if cs_mcp_fixed setup then
                 if p_mcp patch \<noteq> [] then conn_error c ''[Realtime] The MCP servers are set by the server'' else c
               else
                 foldl (\<lambda>c server.
                   if host_allowed (cs_llm_hosts setup) (mcp_url server)
                   then update_client (cl_mcp_update (\<lambda>servers. servers @ [server])) c
                   else conn_error c (''[Realtime] MCP host '' @ url_host (mcp_url server) @ '' is not allowed''))
                   (update_client (cl_mcp_update (\<lambda>_. [])) c) (p_mcp patch))
      in if 0 < p_max_rounds patch then update_client (cl_max_rounds_update (\<lambda>_. p_max_rounds patch)) c else c)"

definition wake_fields :: "rt_session_patch \<Rightarrow> WakeSettings \<Rightarrow> WakeSettings" where
  "wake_fields patch w =
     w\<lparr>wake_mode := (if conn_wake_known (p_wake_mode patch) then p_wake_mode patch else wake_mode w),
       wake_phrases := (if p_wake_phrases patch \<noteq> [] then p_wake_phrases patch else wake_phrases w),
       wake_sleep_phrases := (if p_sleep_phrases patch \<noteq> [] then p_sleep_phrases patch else wake_sleep_phrases w)\<rparr>"

text \<open>\<open>waking\<close> is the mode before the update.\<close>

definition patch_wake :: "string \<Rightarrow> rt_session_patch \<Rightarrow> ('v, 'a) Connection \<Rightarrow> ('v, 'a) Connection" where
  "patch_wake waking patch c =
     (let c = (if conn_wake_known (p_wake_mode patch) \<or> p_wake_mode patch = [] then c
               else conn_error c (''[Realtime] Unknown wake mode '' @ p_wake_mode patch @ '', every turn is answered''));
          c = update_client (cl_wake_update (wake_fields patch)) c;
          c = (if wake_mode (cl_wake (cn_client c)) \<noteq> waking
               then c\<lparr>cn_awake := (wake_mode (cl_wake (cn_client c)) = ''off'')\<rparr> else c)
      in if 0 < p_tool_timeout_sec patch
         then update_client (cl_llm_update (lp_tool_timeout_sec_update (\<lambda>_. p_tool_timeout_sec patch))) c else c)"

definition patch_echo ::
  "libm \<Rightarrow> ('v, 'a) ConversationSetup \<Rightarrow> rt_session_patch \<Rightarrow> ('v, 'a) Connection \<Rightarrow> ('v, 'a) Connection" where
  "patch_echo lm setup patch c =
     (if p_echo patch \<noteq> [] \<and> p_echo patch \<noteq> cn_echo c then
        c\<lparr>cn_echo := p_echo patch,
          cn_aec := (if p_echo patch = ''server'' \<or> p_echo patch = ''both'' then sm_lv_new (cs_models setup) else None),
          cn_aec_mic := [], cn_aec_ref := [],
          cn_mic_resample := audio_resample_stream_init lm S2S_INPUT_RATE S2S_MODEL_RATE,
          cn_ref_resample := audio_resample_stream_init lm S2S_INPUT_RATE S2S_MODEL_RATE,
          cn_aec_failing := False\<rparr>
      else c)"

definition patch_endpoint ::
  "('v, 'a) ConversationSetup \<Rightarrow> rt_session_patch \<Rightarrow> ('v, 'a) Connection \<Rightarrow> ('v, 'a) Connection" where
  "patch_endpoint setup patch c =
     (if cs_llm_fixed setup then
        if p_llm_url patch \<noteq> [] \<or> p_llm_model patch \<noteq> [] \<or> p_llm_key patch \<noteq> []
        then conn_error c ''[Realtime] The endpoint is set by the server'' else c
      else
        let c = (if p_llm_url patch \<noteq> [] then
                   if host_allowed (cs_llm_hosts setup) (p_llm_url patch) then
                     update_client (cl_llm_update (\<lambda>p. p\<lparr>lp_base_url := p_llm_url patch, lp_api_key := p_llm_key patch\<rparr>)) c
                   else conn_error c (''[Realtime] Endpoint host '' @ url_host (p_llm_url patch) @ '' is not allowed'')
                 else c)
        in if p_llm_model patch \<noteq> []
           then update_client (cl_llm_update (lp_model_update (\<lambda>_. p_llm_model patch))) c else c)"

text \<open>The sampling of the endpoint. The seed, 64 bits, is cast to an \<open>int\<close>.\<close>

definition patch_sampling :: "rt_session_patch \<Rightarrow> llm_sampling \<Rightarrow> llm_sampling" where
  "patch_sampling patch s =
     s\<lparr>ls_temperature := (if 0 \<le> p_temperature patch then p_temperature patch else ls_temperature s),
       ls_top_p := (if 0 \<le> p_top_p patch then p_top_p patch else ls_top_p s),
       ls_top_k := (if 0 \<le> p_top_k patch then p_top_k patch else ls_top_k s),
       ls_min_p := (if 0 \<le> p_min_p patch then p_min_p patch else ls_min_p s),
       ls_max_tokens := (if 0 \<le> p_max_tokens patch then p_max_tokens patch else ls_max_tokens s),
       ls_presence_penalty := (if - 3 < p_presence_penalty patch then p_presence_penalty patch else ls_presence_penalty s),
       ls_frequency_penalty := (if - 3 < p_frequency_penalty patch then p_frequency_penalty patch else ls_frequency_penalty s),
       ls_seed := (if 0 \<le> p_seed patch then sint (word_of_int (p_seed patch) :: 32 word) else ls_seed s),
       ls_reasoning_effort := (if p_reasoning_effort patch \<noteq> [] then p_reasoning_effort patch else ls_reasoning_effort s)\<rparr>"

definition tts_fields :: "rt_session_patch \<Rightarrow> tts_request \<Rightarrow> tts_request" where
  "tts_fields patch r =
     r\<lparr>tr_language := (if p_tts_language patch \<noteq> [] then p_tts_language patch else tr_language r),
       tr_browser_languages :=
         (if p_tts_browser_languages patch \<noteq> [] then p_tts_browser_languages patch else tr_browser_languages r),
       tr_guards := (tr_guards r)
         \<lparr>tg_min_chars := (if 0 \<le> p_tts_min_chars patch then p_tts_min_chars patch else tg_min_chars (tr_guards r)),
          tg_chars_per_second :=
            (if 0 < p_tts_chars_per_second patch then p_tts_chars_per_second patch else tg_chars_per_second (tr_guards r)),
          tg_margin_seconds :=
            (if 0 \<le> p_tts_margin_seconds patch then p_tts_margin_seconds patch else tg_margin_seconds (tr_guards r))\<rparr>\<rparr>"

definition patch_tts :: "rt_session_patch \<Rightarrow> ('v, 'a) Connection \<Rightarrow> ('v, 'a) Connection" where
  "patch_tts patch c =
     (let c = (if p_tts_voice patch \<noteq> []
               then update_client (cl_tts_update (tr_voice_update (\<lambda>_. p_tts_voice patch))) c else c);
          c = (if conn_effect_known (p_tts_effect patch)
               then update_client (cl_tts_update (tr_effect_update (\<lambda>_. p_tts_effect patch))) c
               else if p_tts_effect patch \<noteq> [] then
                 conn_error c (''[Realtime] Unknown effect '' @ p_tts_effect patch @ '', the voice keeps none'')
               else c);
          c = update_client (cl_tts_update (tts_fields patch)) c
      in if 0 < p_llm_timeout_sec patch
         then update_client (cl_llm_update (lp_timeout_sec_update (\<lambda>_. p_llm_timeout_sec patch))) c else c)"

definition patch_tts_sampling :: "rt_session_patch \<Rightarrow> tts_sampling \<Rightarrow> tts_sampling" where
  "patch_tts_sampling patch s =
     s\<lparr>ts_temperature := (if 0 \<le> p_tts_temperature patch then p_tts_temperature patch else ts_temperature s),
       ts_top_k := (if 0 \<le> p_tts_top_k patch then p_tts_top_k patch else ts_top_k s),
       ts_top_p := (if 0 \<le> p_tts_top_p patch then p_tts_top_p patch else ts_top_p s),
       ts_repetition_penalty := (if 0 \<le> p_tts_repetition_penalty patch then p_tts_repetition_penalty patch else ts_repetition_penalty s),
       ts_subtalker_temperature := (if 0 \<le> p_tts_subtalker_temperature patch then p_tts_subtalker_temperature patch else ts_subtalker_temperature s),
       ts_subtalker_top_k := (if 0 \<le> p_tts_subtalker_top_k patch then p_tts_subtalker_top_k patch else ts_subtalker_top_k s),
       ts_subtalker_top_p := (if 0 \<le> p_tts_subtalker_top_p patch then p_tts_subtalker_top_p patch else ts_subtalker_top_p s),
       ts_max_new_tokens := (if 0 \<le> p_tts_max_new_tokens patch then p_tts_max_new_tokens patch else ts_max_new_tokens s),
       ts_seed := (if 0 \<le> p_tts_seed patch then p_tts_seed patch else ts_seed s)\<rparr>"

definition patch_listening :: "rt_session_patch \<Rightarrow> s2s_session_params \<Rightarrow> s2s_session_params" where
  "patch_listening patch s =
     s\<lparr>sp_vad_neg_threshold := (if 0 \<le> p_vad_neg_threshold patch then p_vad_neg_threshold patch else sp_vad_neg_threshold s),
       sp_vad_threshold := (if 0 \<le> p_vad_threshold patch then p_vad_threshold patch else sp_vad_threshold s),
       sp_min_speech_ms := (if 0 \<le> p_min_speech_ms patch then p_min_speech_ms patch else sp_min_speech_ms s),
       sp_barge_in_ms := (if 0 \<le> p_barge_in_ms patch then p_barge_in_ms patch else sp_barge_in_ms s),
       sp_min_silence_ms := (if 0 \<le> p_min_silence_ms patch then p_min_silence_ms patch else sp_min_silence_ms s),
       sp_min_speech_continuation_ms := (if 0 \<le> p_min_speech_continuation_ms patch then p_min_speech_continuation_ms patch else sp_min_speech_continuation_ms s),
       sp_speech_pad_ms := (if 0 \<le> p_speech_pad_ms patch then p_speech_pad_ms patch else sp_speech_pad_ms s),
       sp_turn_threshold := (if 0 \<le> p_turn_threshold patch then p_turn_threshold patch else sp_turn_threshold s),
       sp_incomplete_delay_ms := (if 0 \<le> p_incomplete_delay_ms patch then p_incomplete_delay_ms patch else sp_incomplete_delay_ms s),
       sp_turn_max_wait_ms := (if 0 \<le> p_turn_max_wait_ms patch then p_turn_max_wait_ms patch else sp_turn_max_wait_ms s),
       sp_reopen_grace_ms := (if 0 \<le> p_reopen_grace_ms patch then p_reopen_grace_ms patch else sp_reopen_grace_ms s)\<rparr>"

section \<open>The update\<close>

definition conn_apply_patch ::
  "libm \<Rightarrow> ('v, 'a) ConversationSetup \<Rightarrow> rt_session_patch \<Rightarrow> ('v, 'a) Connection \<Rightarrow> ('v, 'a) Connection" where
  "conn_apply_patch lm setup patch c =
     (let waking = wake_mode (cl_wake (cn_client c)); listening = cn_params c;
          c = patch_reset setup c;
          c = patch_mcp setup patch c;
          c = patch_wake waking patch c;
          c = patch_echo lm setup patch c;
          c = patch_endpoint setup patch c;
          c = (if p_system_prompt patch \<noteq> []
               then update_client (cl_system_prompt_update (\<lambda>_. p_system_prompt patch)) c else c);
          c = update_client (cl_llm_update (lp_sampling_update (patch_sampling patch))) c;
          c = patch_tts patch c;
          c = update_client (cl_tts_update (tr_sampling_update (patch_tts_sampling patch))) c;
          c = c\<lparr>cn_params := patch_listening patch (cn_params c)\<rparr>
      in if listening \<noteq> cn_params c
         then c\<lparr>cn_session := s2s_session_set_params (cn_session c) (cn_params c)\<rparr> else c)"

section \<open>What an update leaves alone\<close>

text \<open>The stages one by one: a run of conditional updates keeps what each of them keeps.\<close>

lemma send_keeps [simp]:
  "cn_client (conn_send c f) = cn_client c" "cn_params (conn_send c f) = cn_params c"
  "cn_session (conn_send c f) = cn_session c" "cn_awake (conn_send c f) = cn_awake c"
  "cn_client (conn_error c e) = cn_client c" "cn_params (conn_error c e) = cn_params c"
  "cn_session (conn_error c e) = cn_session c" "cn_awake (conn_error c e) = cn_awake c"
  by (simp_all add: conn_error_def conn_send_def)

lemma update_client_simps [simp]:
  "cn_client (update_client f c) = f (cn_client c)" "cn_params (update_client f c) = cn_params c"
  "cn_session (update_client f c) = cn_session c" "cn_awake (update_client f c) = cn_awake c"
  by (simp_all add: update_client_def)

text \<open>The settings an update describes: a field it carries, the default of the server for every other.\<close>

definition described :: "('v, 'a) ConversationSetup \<Rightarrow> rt_session_patch \<Rightarrow> rt_message list \<Rightarrow> ClientSettings" where
  "described setup patch history =
     (let d = cs_defaults setup; text = (\<lambda>(v :: string) fallback. if v = [] then fallback else v);
          count = (\<lambda>(v :: int) fallback. if 0 < v then v else fallback);
          named = (\<not> cs_llm_fixed setup \<and> p_llm_url patch \<noteq> [] \<and> host_allowed (cs_llm_hosts setup) (p_llm_url patch))
      in \<lparr>cl_mode = text (p_mode patch) (cl_mode d),
          cl_tts = tts_fields patch ((cl_tts d)
            \<lparr>tr_voice := text (p_tts_voice patch) (tr_voice (cl_tts d)),
             tr_effect := (if conn_effect_known (p_tts_effect patch) then p_tts_effect patch else tr_effect (cl_tts d)),
             tr_sampling := patch_tts_sampling patch (tr_sampling (cl_tts d))\<rparr>),
          cl_llm = \<lparr>lp_base_url = (if named then p_llm_url patch else lp_base_url (cl_llm d)),
                    lp_model = (if cs_llm_fixed setup then lp_model (cl_llm d)
                                else text (p_llm_model patch) (lp_model (cl_llm d))),
                    lp_api_key = (if named then p_llm_key patch else lp_api_key (cl_llm d)),
                    lp_sampling = patch_sampling patch (lp_sampling (cl_llm d)),
                    lp_timeout_sec = count (p_llm_timeout_sec patch) (lp_timeout_sec (cl_llm d)),
                    lp_tool_timeout_sec = count (p_tool_timeout_sec patch) (lp_tool_timeout_sec (cl_llm d)),
                    lp_tools = lp_tools (cl_llm d)\<rparr>,
          cl_system_prompt = text (p_system_prompt patch) (cl_system_prompt d),
          cl_history = history,
          cl_wake = wake_fields patch (cl_wake d),
          cl_tools = p_tools patch,
          cl_mcp = (if cs_mcp_fixed setup then cl_mcp d
                    else filter (\<lambda>s. host_allowed (cs_llm_hosts setup) (mcp_url s)) (p_mcp patch)),
          cl_max_rounds = count (p_max_rounds patch) (cl_max_rounds d)\<rparr>)"

text \<open>The stages, each on the settings.\<close>

lemma mcp_loop:
  "cn_client (foldl (\<lambda>c server. if host_allowed hosts (mcp_url server)
       then update_client (cl_mcp_update (\<lambda>servers. servers @ [server])) c
       else conn_error c (err server)) c servers) =
     (cn_client c)\<lparr>cl_mcp := cl_mcp (cn_client c) @ filter (\<lambda>s. host_allowed hosts (mcp_url s)) servers\<rparr> \<and>
   cn_params (foldl (\<lambda>c server. if host_allowed hosts (mcp_url server)
       then update_client (cl_mcp_update (\<lambda>servers. servers @ [server])) c
       else conn_error c (err server)) c servers) = cn_params c \<and>
   cn_session (foldl (\<lambda>c server. if host_allowed hosts (mcp_url server)
       then update_client (cl_mcp_update (\<lambda>servers. servers @ [server])) c
       else conn_error c (err server)) c servers) = cn_session c \<and>
   cn_awake (foldl (\<lambda>c server. if host_allowed hosts (mcp_url server)
       then update_client (cl_mcp_update (\<lambda>servers. servers @ [server])) c
       else conn_error c (err server)) c servers) = cn_awake c"
  by (induction servers arbitrary: c) simp_all

lemma patch_mcp_client:
  "cn_client (patch_mcp setup patch c) =
     (cn_client c)\<lparr>cl_mode := (if p_mode patch = [] then cl_mode (cn_client c) else p_mode patch),
        cl_tools := p_tools patch,
        cl_mcp := (if cs_mcp_fixed setup then cl_mcp (cn_client c)
                   else filter (\<lambda>s. host_allowed (cs_llm_hosts setup) (mcp_url s)) (p_mcp patch)),
        cl_max_rounds := (if 0 < p_max_rounds patch then p_max_rounds patch else cl_max_rounds (cn_client c))\<rparr>"
  "cn_params (patch_mcp setup patch c) = cn_params c" "cn_session (patch_mcp setup patch c) = cn_session c"
  "cn_awake (patch_mcp setup patch c) = cn_awake c"
  by (simp_all add: patch_mcp_def Let_def mcp_loop)

lemma patch_wake_client:
  "cn_client (patch_wake waking patch c) =
     (cn_client c)\<lparr>cl_wake := wake_fields patch (cl_wake (cn_client c)),
        cl_llm := (cl_llm (cn_client c))\<lparr>lp_tool_timeout_sec :=
          (if 0 < p_tool_timeout_sec patch then p_tool_timeout_sec patch else lp_tool_timeout_sec (cl_llm (cn_client c)))\<rparr>\<rparr>"
  "cn_params (patch_wake waking patch c) = cn_params c" "cn_session (patch_wake waking patch c) = cn_session c"
  "cn_awake (patch_wake waking patch c) =
     (let mode = wake_mode (wake_fields patch (cl_wake (cn_client c))) in if mode = waking then cn_awake c else mode = ''off'')"
proof -
  define d where "d = (if conn_wake_known (p_wake_mode patch) \<or> p_wake_mode patch = [] then c
     else conn_error c (''[Realtime] Unknown wake mode '' @ p_wake_mode patch @ '', every turn is answered''))"
  have d: "cn_client d = cn_client c" "cn_params d = cn_params c" "cn_session d = cn_session c" "cn_awake d = cn_awake c"
    by (simp_all add: d_def)
  note wake = patch_wake_def [of waking patch c, folded d_def, unfolded Let_def]
  show "cn_client (patch_wake waking patch c) =
      (cn_client c)\<lparr>cl_wake := wake_fields patch (cl_wake (cn_client c)),
        cl_llm := (cl_llm (cn_client c))\<lparr>lp_tool_timeout_sec :=
          (if 0 < p_tool_timeout_sec patch then p_tool_timeout_sec patch else lp_tool_timeout_sec (cl_llm (cn_client c)))\<rparr>\<rparr>"
    "cn_params (patch_wake waking patch c) = cn_params c" "cn_session (patch_wake waking patch c) = cn_session c"
    "cn_awake (patch_wake waking patch c) =
      (let mode = wake_mode (wake_fields patch (cl_wake (cn_client c))) in if mode = waking then cn_awake c else mode = ''off'')"
    unfolding wake Let_def by (simp_all add: d)
qed

lemma patch_echo_client [simp]:
  "cn_client (patch_echo lm setup patch c) = cn_client c" "cn_params (patch_echo lm setup patch c) = cn_params c"
  "cn_session (patch_echo lm setup patch c) = cn_session c" "cn_awake (patch_echo lm setup patch c) = cn_awake c"
  by (simp_all add: patch_echo_def)

lemma patch_endpoint_client:
  "cn_client (patch_endpoint setup patch c) =
     (let l = cl_llm (cn_client c);
          named = (\<not> cs_llm_fixed setup \<and> p_llm_url patch \<noteq> [] \<and> host_allowed (cs_llm_hosts setup) (p_llm_url patch))
      in (cn_client c)\<lparr>cl_llm := l\<lparr>lp_base_url := (if named then p_llm_url patch else lp_base_url l),
             lp_model := (if cs_llm_fixed setup \<or> p_llm_model patch = [] then lp_model l else p_llm_model patch),
             lp_api_key := (if named then p_llm_key patch else lp_api_key l)\<rparr>\<rparr>)"
  "cn_params (patch_endpoint setup patch c) = cn_params c" "cn_session (patch_endpoint setup patch c) = cn_session c"
  "cn_awake (patch_endpoint setup patch c) = cn_awake c"
  by (cases "cs_llm_fixed setup"; cases "p_llm_url patch = []"; cases "host_allowed (cs_llm_hosts setup) (p_llm_url patch)";
      simp add: patch_endpoint_def Let_def)+

lemma patch_tts_client:
  "cn_client (patch_tts patch c) =
     (cn_client c)\<lparr>cl_tts := tts_fields patch ((cl_tts (cn_client c))
          \<lparr>tr_voice := (if p_tts_voice patch = [] then tr_voice (cl_tts (cn_client c)) else p_tts_voice patch),
           tr_effect := (if conn_effect_known (p_tts_effect patch) then p_tts_effect patch
                         else tr_effect (cl_tts (cn_client c)))\<rparr>),
        cl_llm := (cl_llm (cn_client c))\<lparr>lp_timeout_sec :=
          (if 0 < p_llm_timeout_sec patch then p_llm_timeout_sec patch else lp_timeout_sec (cl_llm (cn_client c)))\<rparr>\<rparr>"
  "cn_params (patch_tts patch c) = cn_params c" "cn_session (patch_tts patch c) = cn_session c"
  "cn_awake (patch_tts patch c) = cn_awake c"
  by (simp_all add: patch_tts_def Let_def)

lemma apply_patch_client:
  "cn_client (conn_apply_patch lm setup patch c) = described setup patch (cl_history (cn_client c))"
  "cn_params (conn_apply_patch lm setup patch c) = patch_listening patch s2s_session_params_default"
  "cn_session (conn_apply_patch lm setup patch c) =
     (if cn_params c = patch_listening patch s2s_session_params_default then cn_session c
      else s2s_session_set_params (cn_session c) (patch_listening patch s2s_session_params_default))"
  "cn_awake (conn_apply_patch lm setup patch c) =
     (let mode = wake_mode (cl_wake (described setup patch [])) in
      if mode = wake_mode (cl_wake (cn_client c)) then cn_awake c else mode = ''off'')"
proof -
  define waking where "waking = wake_mode (cl_wake (cn_client c))"
  define c1 where "c1 = patch_mcp setup patch (patch_reset setup c)"
  define c2 where "c2 = patch_echo lm setup patch (patch_wake waking patch c1)"
  define c3 where "c3 = patch_endpoint setup patch c2"
  define c4 where "c4 = update_client (cl_llm_update (lp_sampling_update (patch_sampling patch)))
    (if p_system_prompt patch \<noteq> [] then update_client (cl_system_prompt_update (\<lambda>_. p_system_prompt patch)) c3 else c3)"
  define c5 where "c5 = update_client (cl_tts_update (tr_sampling_update (patch_tts_sampling patch))) (patch_tts patch c4)"
  have r: "cn_client (patch_reset setup c) = (cs_defaults setup)\<lparr>cl_history := cl_history (cn_client c)\<rparr>"
    "cn_params (patch_reset setup c) = s2s_session_params_default" "cn_session (patch_reset setup c) = cn_session c"
    "cn_awake (patch_reset setup c) = cn_awake c"
    by (simp_all add: patch_reset_def)
  note s1 = patch_mcp_client [of "setup" patch "patch_reset setup c", folded c1_def, unfolded r]
  note s2 = patch_wake_client [of waking patch c1, unfolded s1]
  have s2': "cn_client c2 = cn_client (patch_wake waking patch c1)" "cn_params c2 = s2s_session_params_default"
    "cn_session c2 = cn_session c" "cn_awake c2 = cn_awake (patch_wake waking patch c1)"
    by (simp_all add: c2_def s2)
  note s3 = patch_endpoint_client [of "setup" patch c2, folded c3_def, unfolded s2']
  have s4: "cn_client c4 = (cn_client c3)\<lparr>cl_system_prompt :=
      (if p_system_prompt patch \<noteq> [] then p_system_prompt patch else cl_system_prompt (cn_client c3)),
      cl_llm := (cl_llm (cn_client c3))\<lparr>lp_sampling := patch_sampling patch (lp_sampling (cl_llm (cn_client c3)))\<rparr>\<rparr>"
    "cn_params c4 = cn_params c3" "cn_session c4 = cn_session c3" "cn_awake c4 = cn_awake c3"
    by (simp_all add: c4_def)
  note s5 = patch_tts_client [of patch c4]
  have s5': "cn_client c5 = (cn_client (patch_tts patch c4))\<lparr>cl_tts := (cl_tts (cn_client (patch_tts patch c4)))
      \<lparr>tr_sampling := patch_tts_sampling patch (tr_sampling (cl_tts (cn_client (patch_tts patch c4))))\<rparr>\<rparr>"
    "cn_params c5 = s2s_session_params_default" "cn_session c5 = cn_session c" "cn_awake c5 = cn_awake c2"
    by (simp_all add: c5_def s5 s4 s3 s2')
  have run: "conn_apply_patch lm setup patch c =
      (let d = c5\<lparr>cn_params := patch_listening patch (cn_params c5)\<rparr>
       in if cn_params c \<noteq> cn_params d then d\<lparr>cn_session := s2s_session_set_params (cn_session d) (cn_params d)\<rparr> else d)"
    by (simp only: conn_apply_patch_def Let_def c5_def c4_def c3_def c2_def c1_def waking_def)
  have client: "cn_client c5 = described setup patch (cl_history (cn_client c))"
    unfolding s5' s5 s4 s3 s2 described_def Let_def tts_fields_def by (rule ClientSettings.equality) simp_all
  show "cn_client (conn_apply_patch lm setup patch c) = described setup patch (cl_history (cn_client c))"
    "cn_params (conn_apply_patch lm setup patch c) = patch_listening patch s2s_session_params_default"
    "cn_session (conn_apply_patch lm setup patch c) =
       (if cn_params c = patch_listening patch s2s_session_params_default then cn_session c
        else s2s_session_set_params (cn_session c) (patch_listening patch s2s_session_params_default))"
    unfolding run Let_def by (simp_all add: s5'(2,3) client)
  have "cl_wake (described setup patch []) = wake_fields patch (cl_wake (cs_defaults setup))"
    by (simp add: described_def Let_def)
  moreover have "cn_awake c5 = (let mode = wake_mode (wake_fields patch (cl_wake (cs_defaults setup)))
      in if mode = waking then cn_awake c else mode = ''off'')"
    by (simp add: s5'(4) s2'(4) s2(4) Let_def)
  ultimately show "cn_awake (conn_apply_patch lm setup patch c) =
       (let mode = wake_mode (cl_wake (described setup patch [])) in
        if mode = wake_mode (cl_wake (cn_client c)) then cn_awake c else mode = ''off'')"
    unfolding run Let_def waking_def by simp
qed

section \<open>What an update means\<close>

text \<open>A session update describes the whole session: whatever was set before, the settings after it are
  those it carries, the defaults of the server for every other field, and the conversation as it was; the
  listening thresholds likewise, from their own defaults.\<close>

theorem update_describes_the_session:
  "cn_client (conn_apply_patch lm setup patch c) = described setup patch (cl_history (cn_client c)) \<and>
   cn_params (conn_apply_patch lm setup patch c) = patch_listening patch s2s_session_params_default"
  by (simp add: apply_patch_client)

text \<open>C29: A key travels with its URL: after an update the endpoint and its key are both the ones the update
  named, when the server has none of its own and the host is an allowed one, or both the defaults of the
  server, so no key is ever paired with a host it was not given for; and every MCP server of a session is
  one of the server's own, or one of the update on an allowed host.\<close>

theorem key_travels_with_its_url:
  "let l = cl_llm (cn_client (conn_apply_patch lm setup patch c)); d = cs_defaults setup in
   (if \<not> cs_llm_fixed setup \<and> p_llm_url patch \<noteq> [] \<and> host_allowed (cs_llm_hosts setup) (p_llm_url patch)
    then (lp_base_url l, lp_api_key l) = (p_llm_url patch, p_llm_key patch)
    else (lp_base_url l, lp_api_key l) = (lp_base_url (cl_llm d), lp_api_key (cl_llm d))) \<and>
   cl_mcp (cn_client (conn_apply_patch lm setup patch c)) =
     (if cs_mcp_fixed setup then cl_mcp d
      else filter (\<lambda>s. host_allowed (cs_llm_hosts setup) (mcp_url s)) (p_mcp patch))"
  by (simp add: apply_patch_client described_def Let_def)

lemma set_params_life [simp]:
  "ss_phase (s2s_session_set_params s p) = ss_phase s" "ss_turn_pcm (s2s_session_set_params s p) = ss_turn_pcm s"
  "ss_turn_id (s2s_session_set_params s p) = ss_turn_id s" "ss_revision (s2s_session_set_params s p) = ss_revision s"
  "ss_committed (s2s_session_set_params s p) = ss_committed s" "ss_partial (s2s_session_set_params s p) = ss_partial s"
  by (simp_all add: s2s_session_set_params_def Let_def)

text \<open>An update never cuts the turn in the middle of being heard: phase, number, revision and audio of the
  turn stay, with the samples that wait for a window; the session is left alone unless a threshold
  changed; and the assistant stays awake or asleep unless the mode of its gate changed, when it is awake
  exactly with the gate off.\<close>

theorem update_keeps_the_turn:
  "let c' = conn_apply_patch lm setup patch c; s = cn_session c; s' = cn_session c';
       mode = wake_mode (cl_wake (cn_client c')) in
   ss_phase s' = ss_phase s \<and> ss_turn_id s' = ss_turn_id s \<and> ss_revision s' = ss_revision s \<and>
   ss_turn_pcm s' = ss_turn_pcm s \<and> ss_committed s' = ss_committed s \<and> ss_partial s' = ss_partial s \<and>
   (if cn_params c' = cn_params c then s' = s else s' = s2s_session_set_params s (cn_params c')) \<and>
   cn_awake c' = (if mode = wake_mode (cl_wake (cn_client c)) then cn_awake c else mode = ''off'')"
  by (simp add: apply_patch_client described_def Let_def)

end
