(* ===== verification/Conversation.thy ===== *)
theory Conversation
  imports Answer Patch Turn_Life
begin

text \<open>
  The other threads of a connection of \<open>src/s2s-conversation.cpp\<close>: the reader, which takes the frames of the
  client, the recognizer, and the close. They keep what the responder relies on, the floor of the connection
  follows the life of the turn in its session, and the two streams of the echo canceller stay aligned.
\<close>

section \<open>The recognizer\<close>

definition conn_admit :: "('v, 'a) Connection \<Rightarrow> int \<Rightarrow> string \<Rightarrow> bool \<times> ('v, 'a) Connection" where
  "conn_admit c turn_id transcript =
     (let (through, awake, admitted) = wake_gate (cn_client c) (cn_awake c) (cn_admitted_turn c) turn_id transcript
      in (through, c\<lparr>cn_awake := awake, cn_admitted_turn := admitted\<rparr>))"

definition conn_recognize :: "('v, 'a) conn_env \<Rightarrow> TurnAudio \<Rightarrow> ('v, 'a) Connection \<Rightarrow> ('v, 'a) Connection" where
  "conn_recognize E turn c =
     (let release = (\<lambda>c. conn_release (ce_others E c) (ta_turn_id turn) (ta_revision turn)) in
      if conn_revised c (ta_turn_id turn) (ta_revision turn) then release c
      else case sm_asr (cs_models (ce_setup E)) (ta_pcm turn) of
          Inl reason \<Rightarrow> release (conn_error (ce_others E c) reason)
        | Inr text \<Rightarrow>
            let transcript = c_str text in
            if transcript = [] then release c
            else
              let (through, c) = conn_admit (ce_others E c) (ta_turn_id turn) transcript in
              if \<not> through then release c
              else
                let c = conn_send (ce_others E c) (rt_event_transcript (''turn_'' @ int_str (ta_turn_id turn)) transcript);
                    c = ce_others E c
                in c\<lparr>cn_answers := cn_answers c @
                       [\<lparr>aj_transcript = transcript, aj_turn_id = ta_turn_id turn, aj_revision = ta_revision turn\<rparr>]\<rparr>)"

text \<open>One turn of the recognizer: \<^const>\<open>False\<close> once it has returned, \<^const>\<open>None\<close> while it waits.\<close>

definition conn_recognizer :: "('v, 'a) conn_env \<Rightarrow> ('v, 'a) Connection \<Rightarrow> (bool \<times> ('v, 'a) Connection) option" where
  "conn_recognizer E c =
     (case wait_until (ce_fuel E) (ce_others E) (\<lambda>c. cn_stop c \<or> cn_queue c \<noteq> []) c of
        None \<Rightarrow> None
      | Some c \<Rightarrow>
          if cn_stop c then Some (False, c)
          else Some (True, conn_recognize E (hd (cn_queue c)) (ce_others E (c\<lparr>cn_queue := tl (cn_queue c)\<rparr>))))"

section \<open>The reader\<close>

definition frame_update :: "('v, 'a) conn_env \<Rightarrow> rt_session_patch \<Rightarrow> ('v, 'a) Connection \<Rightarrow> ('v, 'a) Connection" where
  "frame_update E patch c =
     (let c = conn_apply_patch (ce_lm E) (ce_setup E) patch c;
          c = (if p_invalid patch \<noteq> []
               then conn_error c (''[Realtime] Session update: '' @ p_invalid patch @
                 '' is not a number in its range, it keeps the server default'') else c)
      in conn_send c (rt_event ''session.updated''))"

text \<open>The microphone at the rate of the models, the echo taken out.\<close>

definition frame_hear ::
  "('v, 'a) conn_env \<Rightarrow> rt_client_message \<Rightarrow> ('v, 'a) Connection \<Rightarrow> f32 list \<times> ('v, 'a) Connection" where
  "frame_hear E message c =
     (let (mic, resampled) = audio_resample_stream_push (cn_mic_resample c) (rc_audio message);
          c = c\<lparr>cn_mic_resample := mic\<rparr>
      in case cn_aec c of
          None \<Rightarrow> (resampled, c)
        | Some st \<Rightarrow>
            let played = (if length (rc_reference message) = length (rc_audio message) then rc_reference message
                  else replicate (length (rc_audio message)) 0);
                (ref, reference) = audio_resample_stream_push (cn_ref_resample c) played
            in conn_cancel_echo (cs_models (ce_setup E)) (c\<lparr>cn_ref_resample := ref\<rparr>) st resampled reference)"

definition frame_audio :: "('v, 'a) conn_env \<Rightarrow> rt_client_message \<Rightarrow> ('v, 'a) Connection \<Rightarrow> ('v, 'a) Connection" where
  "frame_audio E message c =
     (let (pcm, c) = frame_hear E message c;
          s = s2s_session_set_speaking (cn_session c) (cn_speaking c)
      in conn_events c (s2s_session_push (sm_session (cs_models (ce_setup E))) s pcm))"

definition conn_frame :: "('v, 'a) conn_env \<Rightarrow> string \<Rightarrow> ('v, 'a) Connection \<Rightarrow> ('v, 'a) Connection" where
  "conn_frame E frame c =
     (let message = rt_parse (ce_rd E) frame in
      case rc_type message of
        RT_CLIENT_SESSION_UPDATE \<Rightarrow> frame_update E (rc_patch message) c
      | RT_CLIENT_AUDIO_APPEND \<Rightarrow> frame_audio E message c
      | RT_CLIENT_RESPONSE_CANCEL \<Rightarrow> c\<lparr>cn_cancel := True\<rparr>
      | RT_CLIENT_HISTORY \<Rightarrow> update_client (cl_history_update (\<lambda>_. rc_messages message)) c
      | RT_CLIENT_UNKNOWN \<Rightarrow> conn_send c (rt_event_error ''unsupported event''))"

text \<open>\<open>conn_close\<close> once the other threads have joined, to the point where everything is freed.\<close>

definition conn_close :: "('v, 'a) conn_env \<Rightarrow> ('v, 'a) Connection \<Rightarrow> ('v, 'a) Connection" where
  "conn_close E c =
     (let c = ce_others E (conn_stop c);
          c = (case cn_agent c of None \<Rightarrow> c | Some agent \<Rightarrow> llm_agent_free (ce_net E) agent c)
      in c\<lparr>cn_out_stop := True\<rparr>)"

section \<open>Steps\<close>

text \<open>What the reader, the recognizer, the writer and the server may do to a connection, at the grain of the
  locks the threads share.\<close>

inductive other_step :: "('v, 'a) conn_env \<Rightarrow> ('v, 'a) Connection \<Rightarrow> ('v, 'a) Connection \<Rightarrow> bool" for E where
  reads: "other_step E c (conn_frame E frame c)"
| writes: "conn_writer deliver c = Some c' \<Longrightarrow> other_step E c c'"
| stops: "other_step E c (conn_stop c)"
| takes: "other_step E c (c\<lparr>cn_queue := tl (cn_queue c)\<rparr>)"
| fails: "other_step E c (conn_error c reason)"
| releases: "other_step E c (conn_release c i r)"
| admits: "other_step E c (snd (conn_admit c i transcript))"
| transcribes: "other_step E c (conn_send c (rt_event_transcript item transcript))"
| asks: "other_step E c (c\<lparr>cn_answers := cn_answers c @ [job]\<rparr>)"

lemma steps_then: "(other_step E)\<^sup>*\<^sup>* c c' \<Longrightarrow> other_step E c' c'' \<Longrightarrow> (other_step E)\<^sup>*\<^sup>* c c''"
  by (rule rtranclp.rtrancl_into_rtrancl)

text \<open>The recognizer takes such steps, whatever the reader and the writer do between them.\<close>

lemma conn_recognize_steps:
  assumes others: "\<And>c. (other_step E)\<^sup>*\<^sup>* c (ce_others E c)"
  shows "(other_step E)\<^sup>*\<^sup>* c (conn_recognize E turn c)"
proof -
  have gap: "(other_step E)\<^sup>*\<^sup>* u (ce_others E v)" if "(other_step E)\<^sup>*\<^sup>* u v" for u v
    using that others by (rule rtranclp_trans)
  have release: "(other_step E)\<^sup>*\<^sup>* u (conn_release (ce_others E v) i r)" if "(other_step E)\<^sup>*\<^sup>* u v" for u v i r
    by (rule steps_then [OF gap [OF that] releases])
  have admit: "(other_step E)\<^sup>*\<^sup>* c v" if "conn_admit (ce_others E c) i transcript = (b, v)" for i transcript b v
    using steps_then [OF gap [OF rtranclp.rtrancl_refl] admits] that by (metis snd_conv)
  have ask: "(other_step E)\<^sup>*\<^sup>* u ((ce_others E (conn_send (ce_others E v) (rt_event_transcript item transcript)))
      \<lparr>cn_answers := cn_answers (ce_others E (conn_send (ce_others E v) (rt_event_transcript item transcript))) @ [job]\<rparr>)"
    if "(other_step E)\<^sup>*\<^sup>* u v" for u v item transcript job
    by (rule steps_then [OF gap [OF steps_then [OF gap [OF that] transcribes]] asks])
  show ?thesis
    by (auto simp: conn_recognize_def Let_def admit ask release
        intro!: release steps_then [OF gap [OF rtranclp.rtrancl_refl] fails] dest: admit
        split: sum.split prod.split)
qed

section \<open>What the other threads leave to the responder\<close>

text \<open>A call of the reader that lets the answer go on and leaves the floor and the session alone.\<close>

definition tidy :: "('v, 'a) Connection \<Rightarrow> ('v, 'a) Connection \<Rightarrow> bool" where
  "tidy c c' \<longleftrightarrow> lets_answer c c' \<and> cn_session c' = cn_session c \<and> cn_open_turn c' = cn_open_turn c \<and>
     cn_open_revision c' = cn_open_revision c \<and> cn_final_turn c' = cn_final_turn c"

text \<open>One that leaves the ears alone: the resamplers and the canceller.\<close>

definition same_ears :: "('v, 'a) Connection \<Rightarrow> ('v, 'a) Connection \<Rightarrow> bool" where
  "same_ears c c' \<longleftrightarrow> cn_aec c' = cn_aec c \<and> cn_aec_mic c' = cn_aec_mic c \<and> cn_aec_ref c' = cn_aec_ref c \<and>
     cn_mic_resample c' = cn_mic_resample c \<and> cn_ref_resample c' = cn_ref_resample c"

definition settles :: "('v, 'a) Connection \<Rightarrow> ('v, 'a) Connection \<Rightarrow> bool" where
  "settles c c' \<longleftrightarrow> tidy c c' \<and> same_ears c c'"

lemma tidy_trans: "tidy u v \<Longrightarrow> tidy v w \<Longrightarrow> tidy u w"
  by (auto simp: tidy_def intro: rely.R_trans)

lemma settles_refl [simp]: "settles c c"
  by (simp add: settles_def tidy_def same_ears_def rely.R_refl)

lemma settles_trans: "settles u v \<Longrightarrow> settles v w \<Longrightarrow> settles u w"
  by (auto simp: settles_def same_ears_def intro: tidy_trans)

lemma settles_send: "aside f \<Longrightarrow> settles c (conn_send c f)"
  by (simp add: settles_def tidy_def same_ears_def send_lets) (simp add: conn_send_def)

lemma settles_error: "settles c (conn_error c e)"
  unfolding conn_error_def by (rule settles_send) simp

lemma settles_client: "settles c (update_client f c)"
  by (auto simp: settles_def tidy_def same_ears_def update_client_def same_answer_def onward_def intro: lets_answer_same)

lemma settles_error_then: "settles c c' \<Longrightarrow> settles c (conn_error c' e)"
  by (rule settles_trans [OF _ settles_error])

lemma settles_client_then: "settles c c' \<Longrightarrow> settles c (update_client f c')"
  by (rule settles_trans [OF _ settles_client])

lemma settles_quiet:
  "cn_wire c' = cn_wire c \<Longrightarrow> cn_out c' = cn_out c \<Longrightarrow> cn_out_stop c' = cn_out_stop c \<Longrightarrow> same_answer c c' \<Longrightarrow> onward c c' \<Longrightarrow>
   cn_answer_released c' = cn_answer_released c \<Longrightarrow> cn_session c' = cn_session c \<Longrightarrow> cn_open_turn c' = cn_open_turn c \<Longrightarrow>
   cn_open_revision c' = cn_open_revision c \<Longrightarrow> cn_final_turn c' = cn_final_turn c \<Longrightarrow> tidy c c'"
  by (auto simp: tidy_def intro: lets_answer_same)

lemma settles_reset: "settles c (patch_reset setup c)"
  unfolding settles_def
  by (intro conjI settles_quiet) (simp_all add: patch_reset_def same_answer_def onward_def same_ears_def)

lemma settles_mcp: "settles c (patch_mcp setup patch c)"
proof -
  have servers: "settles u (foldl (\<lambda>c server. if host_allowed (cs_llm_hosts setup) (mcp_url server)
      then update_client (f server) c else conn_error c (g server)) v ss)" if "settles u v" for u v ss f g
    using that by (induction ss arbitrary: v) (simp_all add: settles_error_then settles_client_then)
  show ?thesis
    by (simp add: patch_mcp_def Let_def settles_client_then settles_error_then servers)
qed

lemma settles_wake: "settles c (patch_wake waking patch c)"
proof -
  have awake: "settles u (v\<lparr>cn_awake := b\<rparr>)" if "settles u v" for u v b
  proof (rule settles_trans [OF that])
    show "settles v (v\<lparr>cn_awake := b\<rparr>)"
      unfolding settles_def by (intro conjI settles_quiet) (simp_all add: same_answer_def onward_def same_ears_def)
  qed
  show ?thesis
    by (simp add: patch_wake_def Let_def settles_client_then settles_error_then awake)
qed

lemma settles_endpoint: "settles c (patch_endpoint setup patch c)"
  by (simp add: patch_endpoint_def Let_def settles_client_then settles_error_then)

lemma settles_tts: "settles c (patch_tts patch c)"
  by (simp add: patch_tts_def Let_def settles_client_then settles_error_then)

lemma tidy_echo: "tidy c (patch_echo lm setup patch c)"
  by (intro settles_quiet) (simp_all add: patch_echo_def same_answer_def onward_def)

text \<open>An update, but for its echo and the thresholds of the session.\<close>

lemma apply_patch_parts:
  obtains u v w params where "settles c u" "v = patch_echo lm setup patch u" "settles v w"
    "conn_apply_patch lm setup patch c =
       (let w = w\<lparr>cn_params := params\<rparr> in
        if cn_params c \<noteq> params then w\<lparr>cn_session := s2s_session_set_params (cn_session w) params\<rparr> else w)"
proof -
  define u where "u = patch_wake (wake_mode (cl_wake (cn_client c))) patch (patch_mcp setup patch (patch_reset setup c))"
  define v where "v = patch_echo lm setup patch u"
  define a where "a = patch_endpoint setup patch v"
  define b where "b = (if p_system_prompt patch \<noteq> [] then update_client (cl_system_prompt_update (\<lambda>_. p_system_prompt patch)) a else a)"
  define d where "d = patch_tts patch (update_client (cl_llm_update (lp_sampling_update (patch_sampling patch))) b)"
  define w where "w = update_client (cl_tts_update (tr_sampling_update (patch_tts_sampling patch))) d"
  have "settles v b" by (simp add: b_def a_def settles_client_then settles_endpoint)
  then have w: "settles v w"
    unfolding w_def d_def by (intro settles_client_then settles_trans [OF _ settles_tts])
  have u: "settles c u"
    unfolding u_def by (rule settles_trans [OF settles_reset settles_trans [OF settles_mcp settles_wake]])
  show thesis
  proof (rule that [OF u v_def w])
    show "conn_apply_patch lm setup patch c = (let x = w\<lparr>cn_params := patch_listening patch (cn_params w)\<rparr> in
        if cn_params c \<noteq> patch_listening patch (cn_params w)
        then x\<lparr>cn_session := s2s_session_set_params (cn_session x) (patch_listening patch (cn_params w))\<rparr> else x)"
      unfolding conn_apply_patch_def u_def [symmetric] v_def [symmetric] a_def [symmetric] b_def [symmetric]
        Let_def d_def [symmetric] w_def [symmetric] by simp
  qed
qed

lemma tidy_settles: "settles c c' \<Longrightarrow> tidy c c'"
  by (simp add: settles_def)

lemma apply_patch_lets: "lets_answer c (conn_apply_patch lm setup patch c)"
proof -
  obtain u v w params where parts: "settles c u" "v = patch_echo lm setup patch u" "settles v w"
    and patched: "conn_apply_patch lm setup patch c =
       (let w = w\<lparr>cn_params := params\<rparr> in
        if cn_params c \<noteq> params then w\<lparr>cn_session := s2s_session_set_params (cn_session w) params\<rparr> else w)"
    by (rule apply_patch_parts)
  have "tidy c w"
    using tidy_trans [OF tidy_settles [OF parts(1)] tidy_trans [OF tidy_echo tidy_settles]] parts(2,3) by blast
  moreover have "lets_answer w (w\<lparr>cn_params := p\<rparr>)" "lets_answer w (w\<lparr>cn_params := p, cn_session := s\<rparr>)" for p s
    by (rule lets_answer_same; simp add: same_answer_def onward_def)+
  ultimately show ?thesis
    unfolding patched tidy_def Let_def by (auto intro: rely.R_trans)
qed

lemma tidy_hops: "tidy c (snd (echo_hops m c st mic reference pcm))"
proof (induction m c st mic reference pcm rule: echo_hops.induct)
  case (1 m c st mic reference pcm)
  show ?case
  proof (cases "0 < sm_lv_hop m \<and> sm_lv_hop m \<le> length mic")
    case False
    have "tidy c (c\<lparr>cn_aec := Some st, cn_aec_mic := mic, cn_aec_ref := reference\<rparr>)"
      by (rule settles_quiet) (simp_all add: same_answer_def onward_def)
    then show ?thesis using False by (subst echo_hops.simps) (auto simp: Let_def)
  next
    case True
    obtain failure out st' where run: "sm_lv_process m st (take (sm_lv_hop m) mic) (take (sm_lv_hop m) reference) = ((failure, out), st')"
      by (metis prod.exhaust)
    define d where "d = (case failure of
        Some reason \<Rightarrow> if cn_aec_failing c then c else conn_send c (rt_event_error (c_str reason)) | None \<Rightarrow> c)"
    have "tidy c d" by (auto simp: d_def intro!: tidy_settles settles_send split: option.split)
    moreover have "tidy d (d\<lparr>cn_aec_failing := b\<rparr>)" for b
      by (rule settles_quiet) (simp_all add: same_answer_def onward_def)
    ultimately have "tidy c (d\<lparr>cn_aec_failing := (failure \<noteq> None)\<rparr>)" by (rule tidy_trans)
    moreover have "echo_hops m c st mic reference pcm = echo_hops m (d\<lparr>cn_aec_failing := (failure \<noteq> None)\<rparr>) st'
        (drop (sm_lv_hop m) mic) (drop (sm_lv_hop m) reference) (pcm @ take (sm_lv_hop m) (out @ replicate (sm_lv_hop m) 0))"
      using True by (subst echo_hops.simps) (simp add: Let_def run d_def)
    ultimately show ?thesis
      using 1 True run by (simp add: d_def tidy_trans)
  qed
qed

lemma tidy_hear: "tidy c (snd (frame_hear E message c))"
proof -
  define mic where "mic = fst (audio_resample_stream_push (cn_mic_resample c) (rc_audio message))"
  have set: "tidy c (c\<lparr>cn_mic_resample := mic\<rparr>)" "tidy c (c\<lparr>cn_mic_resample := mic, cn_ref_resample := r\<rparr>)" for r
    by (rule settles_quiet; simp add: same_answer_def onward_def)+
  have "tidy c (snd (echo_hops m (c\<lparr>cn_mic_resample := mic, cn_ref_resample := r\<rparr>) st xs ys zs))" for m r st xs ys zs
    by (rule tidy_trans [OF set(2) tidy_hops])
  then show ?thesis
    using set(1) by (auto simp: frame_hear_def conn_cancel_echo_def mic_def Let_def split_beta split: option.split)
qed

lemma frame_lets: "lets_answer c (conn_frame E frame c)"
proof -
  define message where "message = rt_parse (ce_rd E) frame"
  have "lets_answer c (if p_invalid patch \<noteq> [] then conn_error (conn_apply_patch lm setup patch c) e
      else conn_apply_patch lm setup patch c)" for lm "setup" patch e
    by (simp add: rely.R_trans [OF apply_patch_lets error_lets] apply_patch_lets)
  then have update: "lets_answer c (frame_update E patch c)" for patch
    unfolding frame_update_def Let_def by (rule rely.R_trans [OF _ send_lets]) simp
  have "lets_answer c (snd (frame_hear E message c))" using tidy_hear [of c E message] by (simp add: tidy_def)
  then have audio: "lets_answer c (frame_audio E message c)"
    unfolding frame_audio_def Let_def split_beta by (rule rely.R_trans [OF _ events_lets])
  have cancel: "lets_answer c (c\<lparr>cn_cancel := True\<rparr>)"
    by (rule lets_answer_same) (simp_all add: same_answer_def onward_def)
  have history: "lets_answer c (update_client f c)" for f
    using tidy_settles [OF settles_client [of c f]] by (simp add: tidy_def)
  show ?thesis
    using update audio cancel history
    by (simp add: conn_frame_def message_def [symmetric] Let_def send_lets split: rt_client_event.split)
qed

lemma admit_lets: "lets_answer c (snd (conn_admit c i transcript))"
  by (rule lets_answer_same) (simp_all add: conn_admit_def same_answer_def onward_def split_beta)

text \<open>C7: Whatever the client sends and however the reader, the recognizer, the writer and the end of the
  connection interleave, they let an answer go on: they open, end and voice none, and send nothing in its
  name; the turn in flight stays published; no cancel and no stop is taken back; a final turn stays final.\<close>

theorem others_let_the_answer_go_on: "(other_step E)\<^sup>*\<^sup>* \<le> lets_answer"
proof (rule predicate2I)
  fix c c' assume "(other_step E)\<^sup>*\<^sup>* c c'"
  then show "lets_answer c c'"
  proof (induction rule: rtranclp_induct)
    case (step u v)
    have "lets_answer u v"
      using step(2)
      by cases (auto simp: frame_lets writer_lets stop_lets error_lets release_lets admit_lets send_lets
          same_answer_def onward_def intro!: lets_answer_same)
    with step.IH show ?case by (rule rely.R_trans)
  qed (rule rely.R_refl)
qed

section \<open>The floor follows the session\<close>

text \<open>The turn that opened last, and whether it is final, as the session has them.\<close>

definition floor_at :: "('v, 'a) Connection \<Rightarrow> life \<Rightarrow> bool" where
  "floor_at c a \<longleftrightarrow>
     (case a of (l, i, r) \<Rightarrow> cn_open_turn c = i \<and> cn_open_revision c = r \<and> cn_final_turn c \<le> i \<and>
       (l = Closed \<longleftrightarrow> cn_final_turn c = i))"

definition floor_tracks :: "('v, 'a) Connection \<Rightarrow> bool" where
  "floor_tracks c \<longleftrightarrow> life_ok (cn_session c) \<and> floor_at c (life_of (cn_session c))"

text \<open>Every move of a connection, as far as the floor goes: a step of the other threads, or anything the
  responder does to what it owns. The responder reaches the session by releasing a turn alone.\<close>

inductive floor_step :: "('v, 'a) conn_env \<Rightarrow> ('v, 'a) Connection \<Rightarrow> ('v, 'a) Connection \<Rightarrow> bool" for E where
  others: "other_step E c c' \<Longrightarrow> floor_step E c c'"
| responder: "cn_session c' = cn_session c \<Longrightarrow> cn_open_turn c' = cn_open_turn c \<Longrightarrow>
    cn_open_revision c' = cn_open_revision c \<Longrightarrow> cn_final_turn c' = cn_final_turn c \<Longrightarrow> floor_step E c c'"

lemma send_floor [simp]:
  "floor_at (conn_send c f) a = floor_at c a" "floor_tracks (conn_send c f) = floor_tracks c"
  by (simp_all add: floor_at_def floor_tracks_def conn_send_def)

lemma floor_same:
  "floor_tracks c \<Longrightarrow> cn_session c' = cn_session c \<Longrightarrow> cn_open_turn c' = cn_open_turn c \<Longrightarrow>
   cn_open_revision c' = cn_open_revision c \<Longrightarrow> cn_final_turn c' = cn_final_turn c \<Longrightarrow> floor_tracks c'"
  by (simp add: floor_tracks_def floor_at_def)

lemma event_floor:
  "floor_at c a \<Longrightarrow> life_step a (report_key report) = Some b \<Longrightarrow> floor_at (conn_on_session_event c report) b"
  by (cases "(a, report_key report)" rule: life_step.cases)
    (auto simp: floor_at_def conn_on_session_event_def conn_opened_def conn_send_def report_key_def Let_def split: if_splits)

lemma events_floor:
  "floor_at c a \<Longrightarrow> life_run a reports = Some b \<Longrightarrow> floor_at (foldl conn_on_session_event c reports) b"
  by (induction reports arbitrary: a c) (auto dest: event_floor split: option.splits)

lemma event_session [simp]:
  fixes c :: "('v, 'a) Connection"
  shows "cn_session (foldl conn_on_session_event c reports) = cn_session c"
proof -
  have "cn_session (conn_on_session_event c r) = cn_session c" for c :: "('v, 'a) Connection" and r
    by (rule event_fields)
  note event = this
  show ?thesis by (induction reports arbitrary: c) (simp_all add: event)
qed

lemma conn_events_floor:
  assumes "floor_tracks c" "simulates s res" "life_of s = life_of (cn_session c)"
  shows "floor_tracks (conn_events c res)"
proof -
  have "floor_at (c\<lparr>cn_session := fst res\<rparr>) (life_of s)"
    using assms(1,3) by (simp add: floor_tracks_def floor_at_def)
  then have "floor_at (conn_events c res) (life_of (fst res))"
    using assms(2) unfolding conn_events_def simulates_def by (blast intro: events_floor)
  then show ?thesis using assms(2) by (simp add: floor_tracks_def conn_events_def simulates_def)
qed

lemma tidy_floor: "tidy c c' \<Longrightarrow> floor_tracks c \<Longrightarrow> floor_tracks c'"
  by (simp add: tidy_def floor_tracks_def floor_at_def)

lemma release_floor: "floor_tracks c \<Longrightarrow> floor_tracks (conn_release c i r)"
  unfolding conn_release_def
  by (rule conn_events_floor [where s = "cn_session c"]) (simp_all add: release_simulates floor_tracks_def)

lemma set_params_floor:
  fixes c :: "('a, 'b) Connection"
  shows "floor_tracks c \<Longrightarrow> floor_tracks (c\<lparr>cn_session := s2s_session_set_params (cn_session c) p\<rparr>)"
proof -
  have "life_ok (s2s_session_set_params s p) = life_ok s" "life_of (s2s_session_set_params s p) = life_of s" for s :: "'a s2s_session"
    by (simp_all add: life_ok_def life_of_def s2s_session_set_params_def Let_def)
  then show "floor_tracks c \<Longrightarrow> floor_tracks (c\<lparr>cn_session := s2s_session_set_params (cn_session c) p\<rparr>)" by (simp add: floor_tracks_def floor_at_def)
qed

lemma update_floor: "floor_tracks c \<Longrightarrow> floor_tracks (conn_apply_patch lm setup patch c)"
proof -
  assume c: "floor_tracks c"
  obtain u v w params where parts: "settles c u" "v = patch_echo lm setup patch u" "settles v w"
    and patched: "conn_apply_patch lm setup patch c =
       (let w = w\<lparr>cn_params := params\<rparr> in
        if cn_params c \<noteq> params then w\<lparr>cn_session := s2s_session_set_params (cn_session w) params\<rparr> else w)"
    by (rule apply_patch_parts)
  have "floor_tracks w"
    using c tidy_floor tidy_settles [OF parts(1)] tidy_echo tidy_settles [OF parts(3)] parts(2) by blast
  then have "floor_tracks (w\<lparr>cn_params := params\<rparr>)" by (simp add: floor_tracks_def floor_at_def)
  then show ?thesis
    using set_params_floor [of "w\<lparr>cn_params := params\<rparr>"] unfolding patched Let_def by simp
qed

lemma frame_floor: "floor_tracks c \<Longrightarrow> floor_tracks (conn_frame E frame c)"
proof -
  assume c: "floor_tracks c"
  define message where "message = rt_parse (ce_rd E) frame"
  have update: "floor_tracks (frame_update E patch c)" for patch
    using update_floor [OF c] by (simp add: frame_update_def Let_def conn_error_def)
  define h where "h = snd (frame_hear E message c)"
  have h: "floor_tracks h" unfolding h_def by (rule tidy_floor [OF tidy_hear c])
  define s where "s = s2s_session_set_speaking (cn_session h) (cn_speaking h)"
  have s: "life_ok s" "life_of s = life_of (cn_session h)"
    using h by (simp_all add: s_def s2s_session_set_speaking_def floor_tracks_def life_ok_def life_of_def)
  have "floor_tracks (frame_audio E message c)"
    unfolding frame_audio_def Let_def split_beta h_def [symmetric] s_def [symmetric]
    by (rule conn_events_floor [OF h life.R_push [OF s(1)] s(2)])
  moreover have "floor_tracks (c\<lparr>cn_cancel := True\<rparr>)" "floor_tracks (update_client f c)" for f
    by (rule floor_same [OF c]; simp add: update_client_def)+
  ultimately show ?thesis
    using c update by (simp add: conn_frame_def message_def [symmetric] Let_def split: rt_client_event.split)
qed

lemma other_floor: "other_step E c c' \<Longrightarrow> floor_tracks c \<Longrightarrow> floor_tracks c'"
proof (induction rule: other_step.induct)
  case (writes deliver c c')
  then show ?case
    by (elim floor_same) (auto simp: conn_writer_def conn_stop_def Let_def split: if_splits list.splits)
next
  case (admits c i transcript)
  then show ?case by (elim floor_same) (simp_all add: conn_admit_def split_beta)
next
  case (stops c)
  then show ?case by (elim floor_same) (simp_all add: conn_stop_def)
next
  case (takes c)
  then show ?case by (elim floor_same) simp_all
next
  case (asks c job)
  then show ?case by (elim floor_same) simp_all
qed (simp_all add: frame_floor release_floor conn_error_def)

text \<open>C6: The floor answers are judged by is the one of the session, from the first frame to the last, however
  the threads interleave: the turn and the revision that opened last are those of the session, and they are
  final exactly when the session holds the turn closed. So an answer is outdated when the session has gone
  past its turn or revision and never before, and one that may sound belongs to no turn still open.\<close>

theorem floor_follows_the_session: "(floor_step E)\<^sup>*\<^sup>* (conn_open (ce_lm E) (ce_setup E)) \<le> floor_tracks"
proof (rule predicate1I)
  fix c assume "(floor_step E)\<^sup>*\<^sup>* (conn_open (ce_lm E) (ce_setup E)) c"
  then show "floor_tracks c"
  proof (induction rule: rtranclp_induct)
    case base
    show ?case by (simp add: floor_tracks_def floor_at_def conn_open_def Let_def)
  next
    case (step u v)
    from step(2) show ?case
      by cases (use step.IH in \<open>blast intro: other_floor floor_same\<close>)+
  qed
qed

section \<open>The two streams of the echo canceller\<close>

text \<open>Two resamplers of one kernel shape that hold as many samples.\<close>

definition same_shape :: "AudioResampleStream \<Rightarrow> AudioResampleStream \<Rightarrow> bool" where
  "same_shape s t \<longleftrightarrow> rs_orig s = rs_orig t \<and> rs_newf s = rs_newf t \<and> rs_K s = rs_K t \<and>
     length (rs_history s) = length (rs_history t)"

definition ears_aligned :: "('v, 'a) Connection \<Rightarrow> bool" where
  "ears_aligned c \<longleftrightarrow>
     (case cn_aec c of None \<Rightarrow> True
      | Some _ \<Rightarrow> same_shape (cn_mic_resample c) (cn_ref_resample c) \<and> length (cn_aec_mic c) = length (cn_aec_ref c))"

lemma resample_loop_length:
  "length h = length h' \<Longrightarrow>
   length (fst (resample_loop orig newf K ker h)) = length (fst (resample_loop orig newf K ker' h')) \<and>
   length (snd (resample_loop orig newf K ker h)) = length (snd (resample_loop orig newf K ker' h'))"
proof (induction orig newf K ker h arbitrary: h' rule: resample_loop.induct)
  case (1 orig newf K ker h)
  show ?case
  proof (cases "0 < orig \<and> orig \<le> K \<and> K \<le> length h")
    case True
    then show ?thesis
      using "1.IH" [of "drop orig h'"] "1.prems"
      by (subst (1 2 3 4) resample_loop.simps) (simp add: split_beta)
  next
    case False
    then show ?thesis using "1.prems" by (subst (1 2 3 4) resample_loop.simps) auto
  qed
qed

lemma push_same_shape:
  assumes "same_shape s t" "length xs = length ys"
  shows "same_shape (fst (audio_resample_stream_push s xs)) (fst (audio_resample_stream_push t ys)) \<and>
    length (snd (audio_resample_stream_push s xs)) = length (snd (audio_resample_stream_push t ys))"
  using assms resample_loop_length [of "rs_history s @ xs" "rs_history t @ ys"]
  by (simp add: same_shape_def audio_resample_stream_push_def split_beta)

lemma hops_aligned:
  "length mic = length reference \<Longrightarrow> same_shape (cn_mic_resample c) (cn_ref_resample c) \<Longrightarrow>
   ears_aligned (snd (echo_hops m c st mic reference pcm))"
proof (induction m c st mic reference pcm rule: echo_hops.induct)
  case (1 m c st mic reference pcm)
  show ?case
  proof (cases "0 < sm_lv_hop m \<and> sm_lv_hop m \<le> length mic")
    case True
    then show ?thesis
      using 1 by (subst echo_hops.simps) (simp add: Let_def conn_send_def split: prod.split option.split)
  next
    case False
    then show ?thesis using 1(2,3) by (subst echo_hops.simps) (auto simp: Let_def ears_aligned_def)
  qed
qed

lemma hear_aligned: "ears_aligned c \<Longrightarrow> ears_aligned (snd (frame_hear E message c))"
proof (cases "cn_aec c")
  case None
  then show ?thesis by (simp add: frame_hear_def ears_aligned_def split_beta Let_def)
next
  case (Some st)
  assume "ears_aligned c"
  then have c: "same_shape (cn_mic_resample c) (cn_ref_resample c)" "length (cn_aec_mic c) = length (cn_aec_ref c)"
    using Some by (simp_all add: ears_aligned_def)
  define played where "played = (if length (rc_reference message) = length (rc_audio message) then rc_reference message
    else replicate (length (rc_audio message)) 0)"
  have "length (rc_audio message) = length played" by (simp add: played_def)
  note pushed = push_same_shape [OF c(1) this]
  show ?thesis
    using Some c(2) pushed
    by (simp add: frame_hear_def conn_cancel_echo_def split_beta Let_def played_def [symmetric] hops_aligned)
qed

lemma ears_same: "ears_aligned c \<Longrightarrow> same_ears c c' \<Longrightarrow> ears_aligned c'"
  by (auto simp: ears_aligned_def same_ears_def split: option.splits)

lemma events_ears:
  fixes c :: "('v, 'a) Connection"
  shows "same_ears c (conn_events c res)"
proof -
  have send: "same_ears c (conn_send c f)" for c :: "('v, 'a) Connection" and f
    by (simp add: same_ears_def conn_send_def)
  have event: "same_ears c (conn_on_session_event c r)" for c :: "('v, 'a) Connection" and r
    by (cases "rep_event r"; simp add: same_ears_def conn_on_session_event_def conn_opened_def conn_send_def Let_def)
  have "same_ears c (foldl conn_on_session_event c reports)" for c :: "('v, 'a) Connection" and reports
  proof (induction reports arbitrary: c)
    case (Cons r reports)
    then show ?case using event [of c r] by (fastforce simp: same_ears_def)
  qed (simp add: same_ears_def)
  from this [of "c\<lparr>cn_session := fst res\<rparr>" "snd res"] show ?thesis by (simp add: conn_events_def same_ears_def)
qed

lemma update_aligned: "ears_aligned c \<Longrightarrow> ears_aligned (conn_apply_patch lm setup patch c)"
proof -
  assume c: "ears_aligned c"
  obtain u v w params where parts: "settles c u" "v = patch_echo lm setup patch u" "settles v w"
    and patched: "conn_apply_patch lm setup patch c =
       (let w = w\<lparr>cn_params := params\<rparr> in
        if cn_params c \<noteq> params then w\<lparr>cn_session := s2s_session_set_params (cn_session w) params\<rparr> else w)"
    by (rule apply_patch_parts)
  have "ears_aligned u" using ears_same [OF c] parts(1) by (simp add: settles_def)
  then have "ears_aligned v"
    by (simp add: parts(2) patch_echo_def ears_aligned_def same_shape_def split: option.split)
  then have "ears_aligned w" by (rule ears_same) (use parts(3) in \<open>simp add: settles_def\<close>)
  then show ?thesis unfolding patched Let_def by (auto simp: ears_aligned_def split: option.split)
qed

lemma frame_aligned: "ears_aligned c \<Longrightarrow> ears_aligned (conn_frame E frame c)"
proof -
  assume c: "ears_aligned c"
  define message where "message = rt_parse (ce_rd E) frame"
  have send: "ears_aligned (conn_send u f) = ears_aligned u" for u :: "('a, 'b) Connection" and f
    by (auto simp: ears_aligned_def conn_send_def split: option.splits)
  have update: "ears_aligned (frame_update E patch c)" for patch
    using update_aligned [OF c] by (simp add: frame_update_def Let_def conn_error_def send)
  have audio: "ears_aligned (frame_audio E message c)"
    unfolding frame_audio_def Let_def split_beta by (rule ears_same [OF hear_aligned [OF c] events_ears])
  have "ears_aligned (c\<lparr>cn_cancel := True\<rparr>)" "ears_aligned (update_client f c)" for f
    by (rule ears_same [OF c]; simp add: update_client_def same_ears_def)+
  then show ?thesis
    using c update audio by (simp add: conn_frame_def message_def [symmetric] Let_def send split: rt_client_event.split)
qed

lemma other_aligned: "other_step E c c' \<Longrightarrow> ears_aligned c \<Longrightarrow> ears_aligned c'"
proof (induction rule: other_step.induct)
  case (reads c frame)
  then show ?case by (rule frame_aligned)
next
  case (releases c i r)
  then show ?case unfolding conn_release_def by (rule ears_same) (rule events_ears)
qed (auto elim!: ears_same simp: same_ears_def conn_writer_def conn_stop_def conn_error_def conn_send_def conn_admit_def
    Let_def split_beta split: if_splits list.splits)

text \<open>A canceller that would answer nothing to anything but two whole hops.\<close>

definition guarded :: "('v, 'a) conn_env \<Rightarrow> ('v, 'a) conn_env" where
  "guarded E =
     (let m = cs_models (ce_setup E); hop = sm_lv_hop m;
          m = m\<lparr>sm_lv_process := (\<lambda>st mic reference.
                  if length mic = hop \<and> length reference = hop then sm_lv_process m st mic reference else ((None, []), st))\<rparr>
      in E\<lparr>ce_setup := (ce_setup E)\<lparr>cs_models := m\<rparr>\<rparr>)"

lemma guarded_models:
  "cs_models (ce_setup (guarded E)) = (cs_models (ce_setup E))\<lparr>sm_lv_process := (\<lambda>st mic reference.
     if length mic = sm_lv_hop (cs_models (ce_setup E)) \<and> length reference = sm_lv_hop (cs_models (ce_setup E))
     then sm_lv_process (cs_models (ce_setup E)) st mic reference else ((None, []), st))\<rparr>"
  by (simp add: guarded_def Let_def)

lemma guarded_hops:
  "length mic = length reference \<Longrightarrow>
   echo_hops (cs_models (ce_setup (guarded E))) c st mic reference pcm = echo_hops (cs_models (ce_setup E)) c st mic reference pcm"
proof (induction "length mic" arbitrary: c st mic reference pcm rule: less_induct)
  case less
  define m where "m = cs_models (ce_setup E)"
  show ?case
  proof (cases "0 < sm_lv_hop m \<and> sm_lv_hop m \<le> length mic")
    case True
    have IH: "echo_hops (cs_models (ce_setup (guarded E))) c' st' (drop (sm_lv_hop m) mic) (drop (sm_lv_hop m) reference) pcm' =
        echo_hops m c' st' (drop (sm_lv_hop m) mic) (drop (sm_lv_hop m) reference) pcm'" for c' st' pcm'
      unfolding m_def by (rule less.hyps) (use True less.prems in \<open>auto simp: m_def\<close>)
    show ?thesis
      using True less.prems IH
      by (subst (1 2) echo_hops.simps) (simp add: guarded_models m_def [symmetric] Let_def split_beta)
  next
    case False
    then show ?thesis by (subst (1 2) echo_hops.simps) (auto simp: guarded_models m_def Let_def)
  qed
qed

lemma guarded_hear: "ears_aligned c \<Longrightarrow> frame_hear (guarded E) message c = frame_hear E message c"
proof (cases "cn_aec c")
  case (Some st)
  assume "ears_aligned c"
  then have c: "same_shape (cn_mic_resample c) (cn_ref_resample c)" "length (cn_aec_mic c) = length (cn_aec_ref c)"
    using Some by (simp_all add: ears_aligned_def)
  define played where "played = (if length (rc_reference message) = length (rc_audio message) then rc_reference message
    else replicate (length (rc_audio message)) 0)"
  have "length (rc_audio message) = length played" by (simp add: played_def)
  note pushed = push_same_shape [OF c(1) this]
  then show ?thesis
    using Some c(2)
    by (simp add: frame_hear_def conn_cancel_echo_def split_beta Let_def played_def [symmetric] guarded_hops)
qed (simp add: frame_hear_def)

text \<open>C10: The microphone and the reference of the echo canceller stay aligned from the first frame to the last,
  whatever the client sends, references of another length included, and whenever it turns the canceller on or
  off: as many samples of each wait for a hop, and every hop the canceller is given is a whole hop of both.\<close>

theorem echo_streams_stay_aligned:
  "(other_step E)\<^sup>*\<^sup>* (conn_open (ce_lm E) (ce_setup E)) \<le>
     (\<lambda>c. ears_aligned c \<and> frame_hear (guarded E) message c = frame_hear E message c)"
proof (rule predicate1I)
  fix c assume "(other_step E)\<^sup>*\<^sup>* (conn_open (ce_lm E) (ce_setup E)) c"
  then have "ears_aligned c"
  proof (induction rule: rtranclp_induct)
    case base
    show ?case by (simp add: ears_aligned_def conn_open_def Let_def)
  qed (rule other_aligned)
  then show "ears_aligned c \<and> frame_hear (guarded E) message c = frame_hear E message c"
    by (simp add: guarded_hear)
qed

end
