(* ===== verification/Settings_Life.thy ===== *)
theory Settings_Life
  imports Conversation
begin

text \<open>
  What the settings of a connection stay, whatever its client sends: the text of a frame, its parser, the
  update and the session thresholds, composed.
\<close>

section \<open>Valid settings\<close>

text \<open>The thresholds the turn detector can run with.\<close>

definition listening_ok :: "s2s_session_params \<Rightarrow> bool" where
  "listening_ok p \<longleftrightarrow>
     list_all (\<lambda>v. 0 \<le> v \<and> v \<le> 1) [sp_vad_neg_threshold p, sp_vad_threshold p, sp_turn_threshold p] \<and>
     list_all (\<lambda>ms. 0 \<le> ms \<and> ms \<le> RT_MAX_MS)
       [sp_min_speech_ms p, sp_barge_in_ms p, sp_min_silence_ms p, sp_min_speech_continuation_ms p,
        sp_speech_pad_ms p, sp_incomplete_delay_ms p, sp_turn_max_wait_ms p, sp_reopen_grace_ms p]"

text \<open>A named mode and effect, bounds that bound, and no host but the server's own and the allowed ones.\<close>

definition reach_ok :: "('v, 'a) ConversationSetup \<Rightarrow> ClientSettings \<Rightarrow> bool" where
  "reach_ok setup cl \<longleftrightarrow>
     (let d = cs_defaults setup; hosts = cs_llm_hosts setup in
      (if cs_llm_fixed setup \<or> \<not> host_allowed hosts (lp_base_url (cl_llm cl))
       then lp_base_url (cl_llm cl) = lp_base_url (cl_llm d) \<and> lp_api_key (cl_llm cl) = lp_api_key (cl_llm d) else True) \<and>
      (if cs_mcp_fixed setup then cl_mcp cl = cl_mcp d
       else cl_mcp cl = cl_mcp d \<or> list_all (\<lambda>s. host_allowed hosts (mcp_url s)) (cl_mcp cl)))"

definition settings_ok :: "ClientSettings \<Rightarrow> bool" where
  "settings_ok cl \<longleftrightarrow>
     conn_wake_known (wake_mode (cl_wake cl)) \<and> conn_effect_known (tr_effect (cl_tts cl)) \<and> 0 < cl_max_rounds cl \<and>
     0 < lp_timeout_sec (cl_llm cl) \<and> 0 < lp_tool_timeout_sec (cl_llm cl)"

lemma default_listening_ok: "listening_ok s2s_session_params_default"
  by code_simp

lemma keep_ms: "ms_ok v \<Longrightarrow> 0 \<le> w \<Longrightarrow> w \<le> RT_MAX_MS \<Longrightarrow>
    0 \<le> (if 0 \<le> v then v else w) \<and> (if 0 \<le> v then v else w) \<le> RT_MAX_MS"
  by (auto simp: ms_ok_def)

lemma keep_unit: "unit_ok v \<Longrightarrow> 0 \<le> w \<Longrightarrow> w \<le> 1 \<Longrightarrow> 0 \<le> (if 0 \<le> v then v else w) \<and> (if 0 \<le> v then v else w) \<le> 1"
  by (auto simp: unit_ok_def)

lemma patched_listening_ok:
  assumes "patch_in_range patch" "listening_ok s"
  shows "listening_ok (patch_listening patch s)"
proof -
  show ?thesis
    unfolding listening_ok_def patch_listening_def
    using assms [unfolded patch_in_range_def listening_ok_def] by (simp add: keep_ms keep_unit split del: if_split)
qed

lemma described_ok: "settings_ok (cs_defaults setup) \<Longrightarrow> settings_ok (described setup patch history)"
  by (simp add: settings_ok_def described_def Let_def wake_fields_def tts_fields_def)

lemma described_reach: "reach_ok setup (described setup patch history)"
  by (auto simp: reach_ok_def described_def Let_def list_all_iff)

lemma history_ok:
  "reach_ok setup (cl_history_update f cl) = reach_ok setup cl" "settings_ok (cl_history_update f cl) = settings_ok cl"
  by (simp_all add: reach_ok_def settings_ok_def)

section \<open>Every step keeps them\<close>

lemma events_settings [simp]:
  fixes c :: "('v, 'a) Connection"
  shows "cn_client (conn_events c res) = cn_client c" "cn_params (conn_events c res) = cn_params c"
proof -
  have one: "cn_client (conn_on_session_event c r) = cn_client c" "cn_params (conn_on_session_event c r) = cn_params c"
    for c :: "('v, 'a) Connection" and r
    by (simp_all add: event_fields)
  have "cn_client (foldl conn_on_session_event c rs) = cn_client c \<and> cn_params (foldl conn_on_session_event c rs) = cn_params c"
    for c :: "('v, 'a) Connection" and rs
    by (induction rs arbitrary: c) (simp_all add: one)
  then show "cn_client (conn_events c res) = cn_client c" "cn_params (conn_events c res) = cn_params c"
    by (simp_all add: conn_events_def)
qed

lemma hops_settings:
  "cn_client (snd (echo_hops m c st mic reference pcm)) = cn_client c \<and>
   cn_params (snd (echo_hops m c st mic reference pcm)) = cn_params c"
proof (induction m c st mic reference pcm rule: echo_hops.induct)
  case (1 m c st mic reference pcm)
  then show ?case by (subst (1 2) echo_hops.simps) (simp add: Let_def split: prod.split option.split)
qed

lemma hear_settings [simp]:
  "cn_client (snd (frame_hear E message c)) = cn_client c" "cn_params (snd (frame_hear E message c)) = cn_params c"
  by (simp_all add: frame_hear_def conn_cancel_echo_def hops_settings Let_def split_beta split: option.split)

definition valid_settings :: "('v, 'a) conn_env \<Rightarrow> ('v, 'a) Connection \<Rightarrow> bool" where
  "valid_settings E c \<longleftrightarrow>
     listening_ok (cn_params c) \<and> reach_ok (ce_setup E) (cn_client c) \<and>
     (if settings_ok (cs_defaults (ce_setup E)) then settings_ok (cn_client c) else True)"

lemma valid_same:
  "valid_settings E c \<Longrightarrow> cn_client c' = cn_client c \<Longrightarrow> cn_params c' = cn_params c \<Longrightarrow> valid_settings E c'"
  by (simp add: valid_settings_def)

lemma other_valid:
  assumes "other_step E c c'" "valid_settings E c"
  shows "valid_settings E c'"
  using assms
proof (induction rule: other_step.induct)
  case (reads c frame)
  define message where "message = rt_parse (ce_rd E) frame"
  have patch: "patch_in_range (rc_patch message)" by (simp add: message_def rt_parse_patch_ok)
  have update: "valid_settings E (frame_update E (rc_patch message) c)"
    using patched_listening_ok [OF patch default_listening_ok]
    by (simp add: frame_update_def Let_def valid_settings_def conn_error_def apply_patch_client described_reach described_ok)
  have audio: "valid_settings E (frame_audio E message c)"
    by (rule valid_same [OF reads]) (simp_all add: frame_audio_def Let_def split_beta)
  have history: "valid_settings E (update_client (cl_history_update f) c)" for f
    using reads by (simp add: valid_settings_def update_client_def history_ok)
  have cancel: "valid_settings E (c\<lparr>cn_cancel := True\<rparr>)" "valid_settings E (conn_send c g)" for g
    by (rule valid_same [OF reads]; simp)+
  show ?case
    using update audio history cancel
    by (simp add: conn_frame_def message_def [symmetric] Let_def split: rt_client_event.split)
next
  case (writes deliver c c')
  then show ?case
    by (elim valid_same) (auto simp: conn_writer_def conn_stop_def Let_def split: if_splits list.splits)
next
  case (admits c i transcript)
  then show ?case by (elim valid_same) (simp_all add: conn_admit_def split_beta)
next
  case (stops c)
  then show ?case by (elim valid_same) (simp_all add: conn_stop_def)
next
  case (takes c)
  then show ?case by (elim valid_same) simp_all
next
  case (asks c job)
  then show ?case by (elim valid_same) simp_all
next
  case (releases c i r)
  then show ?case by (elim valid_same) (simp_all add: conn_release_def)
qed (auto elim!: valid_same simp: conn_error_def)

text \<open>C18: Whatever frames the client sends, the settings of its connection stay of their kind: a wake mode and an
  effect that have a name, positive rounds and timeouts, thresholds within 0 .. 1 and durations within a
  minute, for the turn detector; and the process is never made to reach another host than the allowed ones
  and those of its own defaults, the default endpoint with its own key.\<close>

theorem settings_stay_valid:
  "(other_step E)\<^sup>*\<^sup>* (conn_open (ce_lm E) (ce_setup E)) \<le> valid_settings E"
proof (rule predicate1I)
  fix c assume "(other_step E)\<^sup>*\<^sup>* (conn_open (ce_lm E) (ce_setup E)) c"
  then show "valid_settings E c"
  proof (induction rule: rtranclp_induct)
    case base
    show ?case by (simp add: valid_settings_def conn_open_def Let_def default_listening_ok reach_ok_def)
  qed (rule other_valid)
qed

end
