(* ===== verification/Model_Find.thy ===== *)
theory Model_Find
  imports Connection "HOL-Library.Product_Lexorder"
begin

text \<open>
  \<open>src/model-find.h\<close>, \<open>src/s2s-models.h\<close> and \<open>src/s2s-models.cpp\<close>: the files the server loads, picked by name
  in a directory, and the models they become. The directory, the number reader of the C library and the
  loaders of the models are parameters.
\<close>

section \<open>Picking a file\<close>

text \<open>\<open>strtof\<close> on a text: the number it starts with and where it stops, at the text itself when there is none.\<close>

type_synonym number_reader = "string \<Rightarrow> f32 \<times> string"

fun model_size :: "number_reader \<Rightarrow> string \<Rightarrow> f32" where
  "model_size strtof [] = 0"
| "model_size strtof (c # rest) =
     (if c \<noteq> CHR ''-'' then model_size strtof rest
      else let (size, stop) = strtof rest in
        if stop \<noteq> rest \<and> prefix ''b-'' stop then size else model_size strtof rest)"

definition quants :: "string list" where
  "quants = [''Q8_0'', ''Q6_K'', ''Q5_K_M'', ''Q4_K_M'']"

definition quant_rank :: "string \<Rightarrow> nat" where
  "quant_rank name =
     (case find (\<lambda>i. find_sub (quants ! i) name \<noteq> None) [0..<length quants] of Some i \<Rightarrow> i | None \<Rightarrow> length quants)"

text \<open>The order of \<open>std::string\<close>, byte by byte.\<close>

definition string_less :: "string \<Rightarrow> string \<Rightarrow> bool" where
  "string_less a b \<longleftrightarrow> map byte_of a < map byte_of b"

definition model_candidate :: "string \<Rightarrow> string \<Rightarrow> string \<Rightarrow> bool" where
  "model_candidate pre variant name \<longleftrightarrow>
     \<not> (\<not> prefix pre name \<or> find_sub variant name = None \<or> length name \<le> 5 \<or> drop (length name - 5) name \<noteq> ''.gguf'')"

text \<open>The path of an entry of a directory.\<close>

definition path_join :: "string \<Rightarrow> string \<Rightarrow> string" where
  "path_join dir name = (if dir = [] \<or> last dir = CHR ''/'' then dir @ name else dir @ ''/'' @ name)"

text \<open>One turn of the loop, on the best path and its name so far.\<close>

definition find_model_step ::
  "number_reader \<Rightarrow> string \<Rightarrow> string \<Rightarrow> string \<Rightarrow> string \<times> string \<Rightarrow> string \<Rightarrow> string \<times> string" where
  "find_model_step strtof dir pre variant best name =
     (let (best, best_name) = best; taken = (path_join dir name, name) in
      if \<not> model_candidate pre variant name then (best, best_name)
      else if best = [] then taken
      else
        let size = model_size strtof name; best_size = model_size strtof best_name in
        if size < best_size then (best, best_name)
        else if size = best_size then
          (let rank = quant_rank name; best_rank = quant_rank best_name in
           if best_rank < rank \<or> rank = best_rank \<and> string_less best_name name then (best, best_name) else taken)
        else taken)"

text \<open>The names of a directory in the order it gives them, none when it cannot be read.\<close>

definition find_model :: "number_reader \<Rightarrow> (string \<Rightarrow> string list) \<Rightarrow> string \<Rightarrow> string \<Rightarrow> string \<Rightarrow> string" where
  "find_model strtof ls dir pre variant = fst (foldl (find_model_step strtof dir pre variant) ([], []) (ls dir))"

section \<open>Loading\<close>

definition S2S_TTS_MAX_NEW_TOKENS :: int where "S2S_TTS_MAX_NEW_TOKENS = 1536"

record ModelFiles =
  mf_vad :: string
  mf_turn :: string
  mf_asr :: string
  mf_talker :: string
  mf_codec :: string
  mf_aec :: string

record tts_engine =
  eng_max_batch :: int
  eng_use_fa :: bool
  eng_clamp_fp16 :: bool
  eng_codec_chunk_sec :: f32

definition tts_engine_default :: tts_engine where
  "tts_engine_default = \<lparr>eng_max_batch = 1, eng_use_fa = True, eng_clamp_fp16 = False, eng_codec_chunk_sec = 0\<rparr>"

text \<open>What the loaders give, each its model or the reason it failed: the voice detector, with its window, its
  rate, its fresh state and its step; the turn classifier; the recognizer, the talker and the canceller, on a
  device by name or the best one.\<close>

record ('v, 'a) loaders =
  ld_ls :: "string \<Rightarrow> string list"
  ld_strtof :: number_reader
  ld_sv_init :: "string \<Rightarrow> string + nat \<times> nat \<times> 'v \<times> ('v \<Rightarrow> f32 list \<Rightarrow> f32 \<times> 'v)"
  ld_st_init :: "string \<Rightarrow> string + nat \<times> (f32 list \<Rightarrow> f32)"
  ld_pk_init :: "string \<Rightarrow> string option \<Rightarrow> string + (f32 list \<Rightarrow> string + string)"
  ld_qt_init :: "string \<Rightarrow> string \<Rightarrow> string \<Rightarrow> tts_engine \<Rightarrow> string + qt_model"
  ld_voices :: "string \<Rightarrow> (string \<times> voice_files) list"
  ld_lv_init :: "string \<Rightarrow> string option \<Rightarrow> string + nat \<times> 'a option \<times> ('a \<Rightarrow> f32 list \<Rightarrow> f32 list \<Rightarrow> (string option \<times> f32 list) \<times> 'a)"

definition find_files :: "('v, 'a) loaders \<Rightarrow> string \<Rightarrow> ModelFiles" where
  "find_files L models_dir =
     (let pick = find_model (ld_strtof L) (ld_ls L) models_dir; asr = pick ''parakeet-ultra'' []
      in \<lparr>mf_vad = pick ''silero-vad'' [], mf_turn = pick ''smart-turn'' [],
          mf_asr = (if asr = [] then pick ''parakeet-tdt'' [] else asr),
          mf_talker = pick ''qwen-talker'' ''-base-'', mf_codec = pick ''qwen-tokenizer'' [],
          mf_aec = pick ''localvqe'' []\<rparr>)"

definition fatal :: "string \<Rightarrow> string" where
  "fatal reason = s2s_format (''[Load] FATAL: '' @ c_str reason)"

text \<open>\<open>models_load\<close>: the files, the models and the voice request of the defaults, or the line it logs.\<close>

definition models_load ::
  "('v, 'a) loaders \<Rightarrow> string \<Rightarrow> string \<Rightarrow> string \<Rightarrow> tts_engine \<Rightarrow> string + ModelFiles \<times> ('v, 'a) ServerModels \<times> tts_request" where
  "models_load L models_dir voices_dir device engine =
     (let files = find_files L models_dir; named = (if device = [] then None else Some (c_str device)) in
      if mf_vad files = [] \<or> mf_turn files = [] \<or> mf_asr files = [] \<or> mf_talker files = [] \<or> mf_codec files = [] \<or> mf_aec files = []
      then Inl (s2s_format (''[Load] FATAL: missing models in '' @ c_str models_dir @ '', run ./models.sh''))
      else case ld_sv_init L (c_str (mf_vad files)) of
        Inl err \<Rightarrow> Inl (fatal err)
      | Inr (window, rate, fresh, prob) \<Rightarrow>
      (case ld_st_init L (c_str (mf_turn files)) of
        Inl err \<Rightarrow> Inl (fatal err)
      | Inr (turn_window, predict) \<Rightarrow>
      (case ld_pk_init L (c_str (mf_asr files)) named of
        Inl err \<Rightarrow> Inl (fatal err)
      | Inr asr \<Rightarrow>
      (case tts_bridge_load (ld_qt_init L (mf_talker files) (mf_codec files) device engine) (mf_talker files) (mf_codec files)
              voices_dir (ld_voices L voices_dir) (tts_sampling_default\<lparr>ts_max_new_tokens := S2S_TTS_MAX_NEW_TOKENS\<rparr>)
              tts_guards_default of
        Inl err \<Rightarrow> Inl (fatal err)
      | Inr tts \<Rightarrow>
      (case ld_lv_init L (c_str (mf_aec files)) named of
        Inl err \<Rightarrow> Inl (fatal err)
      | Inr (hop, aec, process) \<Rightarrow>
          Inr (files,
            \<lparr>sm_session = \<lparr>m_window = window, m_sample_rate = rate, m_sv_state_new = fresh, m_sv_prob = prob,
               m_st_window = turn_window, m_st_predict = predict\<rparr>,
             sm_asr = asr, sm_tts = tts, sm_lv_hop = hop, sm_lv_new = aec, sm_lv_process = process\<rparr>,
            tb_defaults tts))))))"

section \<open>The best of a directory\<close>

text \<open>What a pick prefers: the largest size, then the best rank, then the first name.\<close>

definition preference :: "number_reader \<Rightarrow> string \<Rightarrow> rat \<times> nat \<times> nat list" where
  "preference strtof name = (- model_size strtof name, quant_rank name, map byte_of name)"

lemma preference_inj: "preference strtof a = preference strtof b \<longleftrightarrow> a = b"
  by (auto simp: preference_def inj_map_eq_map [OF inj_of_char])

lemma path_join_name: "name \<noteq> [] \<Longrightarrow> path_join dir name \<noteq> []"
  by (simp add: path_join_def)

lemma candidate_nonempty: "model_candidate pre variant name \<Longrightarrow> name \<noteq> []"
  by (auto simp: model_candidate_def)

lemma find_model_step_keeps:
  "\<not> model_candidate pre variant name \<Longrightarrow> find_model_step strtof dir pre variant best name = best"
  by (cases best) (simp add: find_model_step_def)

lemma find_model_step_takes:
  assumes "model_candidate pre variant name" "best \<noteq> []"
  shows "find_model_step strtof dir pre variant (path_join dir best, best) name =
    (let b = (if preference strtof best < preference strtof name then best else name) in (path_join dir b, b))"
  using assms path_join_name [of best dir] preference_inj [of strtof best name]
  by (auto simp: find_model_step_def preference_def string_less_def Let_def)

text \<open>The best of a list, the first one found being the best so far.\<close>

lemma find_model_loop:
  assumes "b \<noteq> []"
  shows "\<exists>a. foldl (find_model_step strtof dir pre variant) (path_join dir b, b) names = (path_join dir a, a) \<and>
     a \<in> set (b # filter (model_candidate pre variant) names) \<and>
     list_all (\<lambda>n. preference strtof a \<le> preference strtof n) (b # filter (model_candidate pre variant) names)"
  using assms
proof (induction names arbitrary: b)
  case (Cons name names)
  show ?case
  proof (cases "model_candidate pre variant name")
    case False
    then show ?thesis using Cons by (simp add: find_model_step_keeps)
  next
    case True
    define c where "c = (if preference strtof b < preference strtof name then b else name)"
    have "c \<noteq> []" using Cons.prems True by (auto simp: c_def candidate_nonempty)
    moreover have "find_model_step strtof dir pre variant (path_join dir b, b) name = (path_join dir c, c)"
      using find_model_step_takes [OF True Cons.prems] by (simp add: c_def Let_def)
    moreover have "preference strtof c \<le> preference strtof b" "preference strtof c \<le> preference strtof name" "c \<in> {b, name}"
      by (auto simp: c_def)
    ultimately show ?thesis
      using Cons.IH [of c] True by (fastforce simp: list_all_iff intro: order.trans)
  qed
qed simp

text \<open>C23: A model is found exactly when the directory holds a file of its name, and it is the best of them all,
  the largest, then the best quantised, then the first by name, in whatever order the directory lists them.\<close>

theorem best_model_is_found:
  "(let candidates = filter (model_candidate pre variant) (ls dir) in
    find_model strtof ls dir pre variant =
      (if candidates = [] then [] else path_join dir (hd (sort_key (preference strtof) candidates))))"
proof -
  have none: "filter (model_candidate pre variant) names = [] \<Longrightarrow>
      foldl (find_model_step strtof dir pre variant) best names = best" for names best
    by (induction names arbitrary: best) (auto simp: find_model_step_keeps split: if_splits)
  have best: "a = hd (sort_key (preference strtof) xs)"
    if "a \<in> set xs" "list_all (\<lambda>n. preference strtof a \<le> preference strtof n) xs" for a xs
  proof -
    have "sort_key (preference strtof) xs \<noteq> []" using that(1) by (metis empty_iff list.set(1) set_sort)
    then obtain m ms where ms: "sort_key (preference strtof) xs = m # ms" by (meson list.exhaust)
    then have "m \<in> set xs" by (metis list.set_intros(1) set_sort)
    moreover have "sorted (map (preference strtof) (m # ms))" using sorted_sort_key [of "preference strtof" xs] by (simp add: ms)
    moreover have "a \<in> set (m # ms)" using that(1) ms by (metis set_sort)
    ultimately have "preference strtof m = preference strtof a" using that(2) by (auto simp: list_all_iff intro: order.antisym)
    then show ?thesis using ms by (simp add: preference_inj)
  qed
  show ?thesis
  proof (cases "filter (model_candidate pre variant) (ls dir)")
    case Nil
    then show ?thesis by (simp add: find_model_def none)
  next
    case (Cons b rest)
    then obtain us vs where split: "ls dir = us @ b # vs" "filter (model_candidate pre variant) us = []"
      "model_candidate pre variant b" "rest = filter (model_candidate pre variant) vs"
      by (auto simp: filter_eq_Cons_iff filter_empty_conv)
    then have "foldl (find_model_step strtof dir pre variant) ([], []) (ls dir) =
        foldl (find_model_step strtof dir pre variant) (path_join dir b, b) vs"
      using none [of us] by (simp add: find_model_step_def)
    then obtain a where "find_model strtof ls dir pre variant = path_join dir a" "a \<in> set (b # rest)"
      "list_all (\<lambda>n. preference strtof a \<le> preference strtof n) (b # rest)"
      using find_model_loop [of b strtof dir pre variant vs] candidate_nonempty [OF split(3)] split(4)
      by (auto simp: find_model_def)
    then have "find_model strtof ls dir pre variant = path_join dir (hd (sort_key (preference strtof) (b # rest)))"
      using best [of a "b # rest"] by simp
    then show ?thesis unfolding Cons Let_def by (simp only: list.distinct if_False)
  qed
qed

end
