(* ===== verification/Logs.thy ===== *)
theory Logs
  imports Http
begin

text \<open>
  The log: the naming of its lines, \<open>src/s2s-error.h\<close>, and its capture, \<open>src/log-capture.h\<close>. What the process
  writes to stderr goes through a pipe; a reader thread forwards it to the terminal and keeps the latest lines
  in a ring, which \<open>GET /logs\<close> replays and then follows. The number of lines is a \<^typ>\<open>nat\<close>: its 64 bits
  are out of reach.
\<close>

section \<open>Naming\<close>

text \<open>The name of the calling thread and the name of those without one are arguments.\<close>

definition s2s_log_named :: "string \<Rightarrow> string \<Rightarrow> string \<Rightarrow> string" where
  "s2s_log_named own default_name msg =
     (let thread = (if own = [] then default_name else own)
      in if thread = [] then msg
         else if msg \<noteq> [] \<and> msg ! 0 = CHR ''['' then ''['' @ thread @ ''-'' @ drop 1 msg
         else ''['' @ thread @ ''] '' @ msg)"

text \<open>What \<open>s2s_log\<close> writes to stderr, no sink being set.\<close>

definition s2s_log :: "string \<Rightarrow> string \<Rightarrow> string \<Rightarrow> string" where
  "s2s_log own default_name text = c_str (s2s_log_named own default_name (s2s_format text)) @ [LF]"

section \<open>The ring\<close>

definition LOG_RING_BITS :: nat where "LOG_RING_BITS = 9"
definition LOG_RING_SIZE :: nat where "LOG_RING_SIZE = push_bit LOG_RING_BITS 1"
definition LOG_RING_MASK :: nat where "LOG_RING_MASK = LOG_RING_SIZE - 1"

record log_ring =
  log_lines :: "string list"
  log_seq :: nat

definition log_empty :: log_ring where
  "log_empty = \<lparr>log_lines = replicate LOG_RING_SIZE [], log_seq = 0\<rparr>"

definition log_push :: "log_ring \<Rightarrow> string \<Rightarrow> log_ring" where
  "log_push lg line =
     \<lparr>log_lines = (log_lines lg)[log_seq lg AND LOG_RING_MASK := line], log_seq = log_seq lg + 1\<rparr>"

text \<open>The line a position of the stream is read from.\<close>

definition log_at :: "log_ring \<Rightarrow> nat \<Rightarrow> string" where
  "log_at lg cursor = log_lines lg ! (cursor AND LOG_RING_MASK)"

section \<open>The reader\<close>

function log_cut :: "string \<Rightarrow> log_ring \<Rightarrow> string \<times> log_ring" where
  "log_cut partial lg =
     (case find_sub [LF] partial of
        None \<Rightarrow> (partial, lg)
      | Some pos \<Rightarrow> log_cut (drop (pos + 1) partial) (log_push lg (take pos partial)))"
  by auto
termination
  by (relation "measure (\<lambda>(partial, lg). length partial)") (auto dest: find_char_Some)

declare log_cut.simps [simp del]

text \<open>One read of the loop of \<open>log_reader_main\<close>: the bytes go to the terminal, then into lines.\<close>

definition log_reader_read :: "string \<times> log_ring \<Rightarrow> string \<Rightarrow> (string \<times> log_ring) \<times> string" where
  "log_reader_read st buf = (case st of (partial, lg) \<Rightarrow> (log_cut (partial @ buf) lg, buf))"

text \<open>The end of the pipe.\<close>

definition log_reader_end :: "string \<times> log_ring \<Rightarrow> log_ring" where
  "log_reader_end st = (case st of (partial, lg) \<Rightarrow> if partial \<noteq> [] then log_push lg partial else lg)"

text \<open>The whole thread, on what its reads give: the ring it leaves and what the terminal received.\<close>

definition log_reader_main :: "log_ring \<Rightarrow> string list \<Rightarrow> log_ring \<times> string" where
  "log_reader_main lg reads =
     (let (st, terminal) = feed_all log_reader_read ([], lg) reads in (log_reader_end st, terminal))"

section \<open>The capture\<close>

text \<open>The process and its pipe: whether stderr is captured (\<open>g_real_stderr_fd\<close> is set), whether the descriptor
  of stderr still writes to the pipe, what the pipe holds, what the terminal received, the reader thread while
  it runs, the ring.\<close>

record log_capture =
  cap_on :: bool
  cap_piped :: bool
  cap_pipe :: string
  cap_terminal :: string
  cap_partial :: "string option"
  cap_log :: log_ring

definition log_capture_none :: log_capture where
  "log_capture_none = \<lparr>cap_on = False, cap_piped = False, cap_pipe = [], cap_terminal = [],
     cap_partial = None, cap_log = log_empty\<rparr>"

text \<open>\<open>setup_log_capture\<close>; the pipe may be refused.\<close>

definition setup_log_capture :: "bool \<Rightarrow> log_capture \<Rightarrow> log_capture" where
  "setup_log_capture piped cap = (if \<not> piped then cap\<lparr>cap_on := False\<rparr>
     else cap\<lparr>cap_on := True, cap_piped := True, cap_pipe := [], cap_partial := Some []\<rparr>)"

definition stderr_write :: "log_capture \<Rightarrow> string \<Rightarrow> log_capture" where
  "stderr_write cap text =
     (if cap_piped cap then cap\<lparr>cap_pipe := cap_pipe cap @ text\<rparr> else cap\<lparr>cap_terminal := cap_terminal cap @ text\<rparr>)"

text \<open>One turn of the loop of the reader: a read of up to 4096 bytes, or the end once no one can write to the
  pipe. On an empty pipe it waits.\<close>

definition log_reader_turn :: "log_capture \<Rightarrow> log_capture" where
  "log_reader_turn cap =
     (case cap_partial cap of
        None \<Rightarrow> cap
      | Some partial \<Rightarrow>
          if cap_pipe cap \<noteq> [] then
            (case log_reader_read (partial, cap_log cap) (take 4096 (cap_pipe cap)) of
               ((partial', lg), terminal) \<Rightarrow>
                 cap\<lparr>cap_pipe := drop 4096 (cap_pipe cap), cap_terminal := cap_terminal cap @ terminal,
                   cap_partial := Some partial', cap_log := lg\<rparr>)
          else if cap_piped cap then cap
          else cap\<lparr>cap_partial := None, cap_log := log_reader_end (partial, cap_log cap)\<rparr>)"

text \<open>\<open>g_log_reader.join()\<close>: the reader runs to its end, which comes once the pipe is empty.\<close>

function log_reader_join :: "log_capture \<Rightarrow> log_capture" where
  "log_reader_join cap =
     (if cap_pipe cap = [] \<or> cap_partial cap = None then log_reader_turn cap else log_reader_join (log_reader_turn cap))"
  by auto
termination
  by (relation "measure (\<lambda>cap. length (cap_pipe cap))") (auto simp: log_reader_turn_def split_beta)

declare log_reader_join.simps [simp del]

definition log_capture_stop :: "log_capture \<Rightarrow> log_capture" where
  "log_capture_stop cap =
     (if \<not> cap_on cap then cap else (log_reader_join (cap\<lparr>cap_piped := False\<rparr>))\<lparr>cap_on := False\<rparr>)"

text \<open>\<open>log_capture_crash\<close>: the name of the thread that crashed and of those without one, whether it is the
  reader, what happened, and how many turns the reader makes in the second it is given.\<close>

definition log_capture_crash :: "string \<Rightarrow> string \<Rightarrow> bool \<Rightarrow> string \<Rightarrow> nat \<Rightarrow> log_capture \<Rightarrow> log_capture" where
  "log_capture_crash own default_name on_reader what turns cap =
     (let line = take 511 (c_str (s2s_log_named own default_name (''[Server] FATAL: '' @ what)) @ [LF]) in
      if \<not> cap_on cap then stderr_write cap line
      else if on_reader then cap\<lparr>cap_terminal := cap_terminal cap @ line\<rparr>
      else (log_reader_turn ^^ turns) ((stderr_write cap line)\<lparr>cap_piped := False\<rparr>))"

section \<open>The stream of a client\<close>

definition log_event :: "string \<Rightarrow> string" where
  "log_event line = ''data: '' @ line @ [LF, LF]"

record log_client =
  lcl_cursor :: nat
  lcl_init :: bool

definition log_client_new :: log_client where
  "log_client_new = \<lparr>lcl_cursor = 0, lcl_init = False\<rparr>"

text \<open>One write to the sink, the lock released: whether the sink took it, and the lines the reader thread
  kept meanwhile.\<close>

type_synonym sink_write = "bool \<times> string list"

text \<open>The loop \<open>while (cursor < log_seq)\<close>. It ends when the client has every line or its sink fails, and gives
  the ring, the cursor, the events written, whether the sink held and the writes it has not come to.
  \<^const>\<open>None\<close>: the writes are used up, the loop is still running.\<close>

fun log_drain :: "log_ring \<Rightarrow> nat \<Rightarrow> sink_write list \<Rightarrow> (log_ring \<times> nat \<times> string list \<times> bool \<times> sink_write list) option" where
  "log_drain lg cursor writes =
     (if \<not> cursor < log_seq lg then Some (lg, cursor, [], True, writes)
      else let ev = log_event (log_at lg cursor) in
        (case writes of
           [] \<Rightarrow> None
         | (taken, lines) # rest \<Rightarrow>
             let lg' = foldl log_push lg lines in
             if taken then
               map_option (\<lambda>(lg, cursor, evs, ok, rest). (lg, cursor, ev # evs, ok, rest)) (log_drain lg' (cursor + 1) rest)
             else Some (lg', cursor + 1, [ev], False, rest)))"

declare log_drain.simps [simp del]

text \<open>One call of the content provider: the replay the first time, a wait, during which \<open>waited\<close> is kept,
  and what came.\<close>

definition handle_logs ::
  "log_ring \<Rightarrow> log_client \<Rightarrow> string list \<Rightarrow> sink_write list \<Rightarrow> (log_ring \<times> log_client \<times> string list \<times> bool) option" where
  "handle_logs lg cl waited writes =
     (let avail = (if log_seq lg < LOG_RING_SIZE then log_seq lg else LOG_RING_SIZE);
          replay = (if lcl_init cl then Some (lg, lcl_cursor cl, [], True, writes)
                    else log_drain lg (log_seq lg - avail) writes)
      in case replay of
           None \<Rightarrow> None
         | Some (lg1, cursor1, evs1, ok1, writes1) \<Rightarrow>
             if \<not> ok1 then Some (lg1, \<lparr>lcl_cursor = cursor1, lcl_init = lcl_init cl\<rparr>, evs1, False)
             else map_option (\<lambda>(lg2, cursor2, evs2, ok2, _).
                 (lg2, \<lparr>lcl_cursor = cursor2, lcl_init = True\<rparr>, evs1 @ evs2, ok2))
               (log_drain (foldl log_push lg1 waited) cursor1 writes1))"

text \<open>The response: the provider is called until it fails or the server ends the stream.\<close>

fun log_stream ::
  "log_ring \<Rightarrow> log_client \<Rightarrow> (string list \<times> sink_write list) list \<Rightarrow> (log_ring \<times> log_client \<times> string list \<times> bool) option" where
  "log_stream lg cl [] = Some (lg, cl, [], True)"
| "log_stream lg cl ((waited, writes) # calls) =
     (case handle_logs lg cl waited writes of
        None \<Rightarrow> None
      | Some (lg1, cl1, evs1, ok) \<Rightarrow>
          if ok then map_option (\<lambda>(lg2, cl2, evs2, ok2). (lg2, cl2, evs1 @ evs2, ok2)) (log_stream lg1 cl1 calls)
          else Some (lg1, cl1, evs1, False))"

section \<open>What the ring holds\<close>

definition log_ok :: "log_ring \<Rightarrow> bool" where
  "log_ok lg \<longleftrightarrow> length (log_lines lg) = LOG_RING_SIZE"

definition log_held :: "log_ring \<Rightarrow> string list" where
  "log_held lg = map (log_at lg) [log_seq lg - min (log_seq lg) LOG_RING_SIZE..<log_seq lg]"

lemma LOG_RING_SIZE_eq: "LOG_RING_SIZE = 512"
  by (simp add: LOG_RING_SIZE_def LOG_RING_BITS_def push_bit_eq_mult)

lemma log_slot: "(k :: nat) AND LOG_RING_MASK = k mod LOG_RING_SIZE"
  using take_bit_eq_mask [of 9 k] by (simp add: LOG_RING_MASK_def LOG_RING_SIZE_eq take_bit_eq_mod mask_eq_exp_minus_1)

lemma log_at_push:
  assumes "log_ok lg" "log_seq lg < k + LOG_RING_SIZE" "k \<le> log_seq lg"
  shows "log_at (log_push lg x) k = (if k = log_seq lg then x else log_at lg k)"
proof -
  have slot: "log_seq lg mod LOG_RING_SIZE < LOG_RING_SIZE" by (simp add: LOG_RING_SIZE_eq)
  moreover have "log_seq lg mod LOG_RING_SIZE \<noteq> k mod LOG_RING_SIZE" if "k \<noteq> log_seq lg"
  proof
    assume "log_seq lg mod LOG_RING_SIZE = k mod LOG_RING_SIZE"
    then have "LOG_RING_SIZE dvd log_seq lg - k" by (simp add: mod_eq_dvd_iff_nat assms)
    moreover have "0 < log_seq lg - k" "log_seq lg - k < LOG_RING_SIZE" using assms that by linarith+
    ultimately show False by (meson nat_dvd_not_less)
  qed
  ultimately show ?thesis using assms by (simp add: log_at_def log_push_def log_slot log_ok_def)
qed

lemma log_held_push: "log_ok lg \<Longrightarrow> log_held (log_push lg x) = lastn LOG_RING_SIZE (log_held lg @ [x])"
proof -
  assume ok: "log_ok lg"
  define n where "n = log_seq lg"
  define a where "a = n - min n LOG_RING_SIZE"
  define b where "b = n + 1 - min (n + 1) LOG_RING_SIZE"
  have ab: "a \<le> b" "b \<le> n" "n < b + LOG_RING_SIZE" "n - a + 1 - LOG_RING_SIZE = b - a"
    by (auto simp: a_def b_def LOG_RING_SIZE_eq)
  have "log_held (log_push lg x) = map (log_at (log_push lg x)) [b..<n] @ [log_at (log_push lg x) n]"
    using ab by (simp add: log_held_def log_push_def b_def n_def)
  also have "\<dots> = map (log_at lg) [b..<n] @ [x]"
    using ab by (auto simp: log_at_push [OF ok] n_def [symmetric])
  also have "\<dots> = lastn LOG_RING_SIZE (map (log_at lg) [a..<n] @ [x])"
    using ab by (simp add: lastn_def drop_map)
  finally show ?thesis by (simp add: log_held_def a_def n_def)
qed

interpretation kept: recent log_push log_held "\<lambda>_. LOG_RING_SIZE" log_ok
  by unfold_locales (simp_all add: log_held_push, simp_all add: log_ok_def log_push_def log_held_def)

lemma log_seq_pushes [simp]: "log_seq (foldl log_push lg lines) = log_seq lg + length lines"
  by (induction lines arbitrary: lg) (simp_all add: log_push_def)

text \<open>The log after a history.\<close>

abbreviation log_of :: "string list \<Rightarrow> log_ring" where
  "log_of h \<equiv> foldl log_push log_empty h"

lemma log_empty_ok [simp]: "log_ok log_empty" "log_seq log_empty = 0" "log_held log_empty = []"
  by (simp_all add: log_empty_def log_ok_def log_held_def)

lemma log_of_held: "log_held (log_of h) = lastn LOG_RING_SIZE h"
  by (simp add: kept.pushes_content)

lemma log_of_at:
  assumes "k < length h" "length h \<le> k + LOG_RING_SIZE"
  shows "log_at (log_of h) k = h ! k"
proof -
  define a where "a = length h - min (length h) LOG_RING_SIZE"
  have "log_held (log_of h) ! (k - a) = log_at (log_of h) k"
    using assms by (auto simp: log_held_def a_def min_def)
  moreover have "lastn LOG_RING_SIZE h ! (k - a) = h ! k"
    using assms by (auto simp: lastn_def a_def min_def)
  ultimately show ?thesis by (simp add: log_of_held)
qed

text \<open>A position the ring has gone past is read from the last line with its place.\<close>

lemma log_of_lapped:
  assumes "k < length h"
  shows "log_at (log_of h) k = h ! (k + LOG_RING_SIZE * ((length h - 1 - k) div LOG_RING_SIZE))"
proof -
  define q where "q = (length h - 1 - k) div LOG_RING_SIZE"
  define j where "j = k + LOG_RING_SIZE * q"
  have "LOG_RING_SIZE * q \<le> length h - 1 - k" "length h - 1 - k < LOG_RING_SIZE * q + LOG_RING_SIZE"
    using times_div_less_eq_dividend [of LOG_RING_SIZE "length h - 1 - k"]
      dividend_less_times_div [of LOG_RING_SIZE "length h - 1 - k"]
    by (simp_all only: q_def LOG_RING_SIZE_eq add.commute [of 512] zero_less_numeral simp_thms)
  then have "log_at (log_of h) j = h ! j" using assms unfolding j_def by (intro log_of_at) linarith+
  moreover have "log_at (log_of h) j = log_at (log_of h) k" by (simp add: log_at_def log_slot j_def)
  ultimately show ?thesis by (simp add: j_def q_def)
qed

section \<open>From bytes to lines\<close>

text \<open>The lines of a text: what each line feed ends, and what is left at its end.\<close>

fun text_lines :: "string \<Rightarrow> string \<Rightarrow> string list" where
  "text_lines line [] = (if line = [] then [] else [line])"
| "text_lines line (c # cs) = (if c = LF then line # text_lines [] cs else text_lines (line @ [c]) cs)"

lemma text_lines_append: "LF \<notin> set xs \<Longrightarrow> text_lines line (xs @ ys) = text_lines (line @ xs) ys"
  by (induction xs arbitrary: line) auto

lemma log_cut_none: "LF \<notin> set partial \<Longrightarrow> log_cut partial lg = (partial, lg)"
  by (subst log_cut.simps) (simp add: find_char_None [symmetric])

lemma log_cut_line: "LF \<notin> set line \<Longrightarrow> log_cut (line @ LF # rest) lg = log_cut rest (log_push lg line)"
proof -
  assume "LF \<notin> set line"
  then have "find_sub [LF] line = None" by (simp only: find_char_None) simp
  then have "find_sub [LF] (line @ LF # rest) = Some (length line)" by (simp add: find_char_append)
  then show ?thesis by (subst log_cut.simps) simp
qed

text \<open>A text is its first line and the rest, or has no line feed.\<close>

lemma text_cases:
  obtains (open_line) "LF \<notin> set xs" | (line) line rest where "xs = line @ LF # rest" "LF \<notin> set line"
  using split_list_first [of LF xs] by blast

lemma log_cut_append: "log_cut (xs @ ys) lg = log_cut (fst (log_cut xs lg) @ ys) (snd (log_cut xs lg))"
proof (induction "length xs" arbitrary: xs lg rule: less_induct)
  case less
  show ?case
  proof (cases xs rule: text_cases)
    case open_line
    then show ?thesis by (simp add: log_cut_none)
  next
    case (line line rest)
    then show ?thesis using less [of rest "log_push lg line"] by (simp add: log_cut_line)
  qed
qed

lemma log_cut_open: "LF \<notin> set (fst (log_cut xs lg))"
proof (induction "length xs" arbitrary: xs lg rule: less_induct)
  case less
  show ?case
  proof (cases xs rule: text_cases)
    case (line line rest)
    then show ?thesis using less [of rest "log_push lg line"] by (simp add: log_cut_line)
  qed (simp add: log_cut_none)
qed

lemma log_cut_lines: "log_reader_end (log_cut xs lg) = foldl log_push lg (text_lines [] xs)"
proof (induction "length xs" arbitrary: xs lg rule: less_induct)
  case less
  show ?case
  proof (cases xs rule: text_cases)
    case open_line
    then show ?thesis using text_lines_append [of xs "[]" "[]"] by (simp add: log_cut_none log_reader_end_def)
  next
    case (line line rest)
    then show ?thesis
      using less [of rest "log_push lg line"] by (simp add: log_cut_line text_lines_append)
  qed
qed

interpretation reader: chunked log_reader_read "\<lambda>(partial, lg). LF \<notin> set partial"
proof
  fix st :: "string \<times> log_ring" and xs ys :: string
  assume "case st of (partial, lg) \<Rightarrow> LF \<notin> set partial"
  then show "log_reader_read st [] = (st, [])"
    by (auto simp: log_reader_read_def log_cut_none)
  show "case fst (log_reader_read st xs) of (partial, lg) \<Rightarrow> LF \<notin> set partial"
    using log_cut_open by (auto simp: log_reader_read_def split_beta)
  show "log_reader_read st (xs @ ys) = (fst (log_reader_read (fst (log_reader_read st xs)) ys),
      snd (log_reader_read st xs) @ snd (log_reader_read (fst (log_reader_read st xs)) ys))"
    using log_cut_append [of "fst st @ xs" ys "snd st"] by (simp add: log_reader_read_def split_beta)
qed

text \<open>Whatever the reads, the terminal receives every byte and the ring keeps the latest lines of the text, one
  left open at the end included.\<close>

theorem log_keeps_the_latest_lines:
  "(let (lg, terminal) = log_reader_main log_empty reads; lines = text_lines [] (concat reads)
    in terminal = concat reads \<and> log_seq lg = length lines \<and> log_held lg = lastn LOG_RING_SIZE lines)"
proof -
  have "log_reader_main log_empty reads = (log_of (text_lines [] (concat reads)), concat reads)"
    using log_cut_lines [of "concat reads" log_empty]
    by (simp add: log_reader_main_def reader.feed_all_concat log_reader_read_def)
  then show ?thesis by (simp add: log_of_held)
qed

section \<open>What the capture keeps\<close>

text \<open>What happens to a capture between its start and its end: a write, by any thread, or a turn of the reader.\<close>

datatype capture_step = Wrote string | Reader_Turn

fun capture_do :: "log_capture \<Rightarrow> capture_step \<Rightarrow> log_capture" where
  "capture_do cap (Wrote text) = stderr_write cap text"
| "capture_do cap Reader_Turn = log_reader_turn cap"

fun wrote :: "capture_step \<Rightarrow> string" where
  "wrote (Wrote text) = text"
| "wrote Reader_Turn = []"

text \<open>While it runs: the terminal and the pipe hold what was written, the ring and the open line what the terminal received.\<close>

definition capturing :: "string \<Rightarrow> log_capture \<Rightarrow> bool" where
  "capturing text cap \<longleftrightarrow> cap_on cap \<and> cap_terminal cap @ cap_pipe cap = text \<and>
     (\<exists>partial. cap_partial cap = Some partial \<and> (partial, cap_log cap) = log_cut (cap_terminal cap) log_empty)"

lemma piped_write [simp]: "cap_piped (stderr_write cap new) = cap_piped cap"
  by (simp add: stderr_write_def)

lemma capturing_write: "capturing text cap \<Longrightarrow> cap_piped cap \<Longrightarrow> capturing (text @ new) (stderr_write cap new)"
  by (auto simp: capturing_def stderr_write_def)

lemma capturing_turn:
  assumes "capturing text cap" "cap_pipe cap \<noteq> [] \<or> cap_piped cap"
  shows "capturing text (log_reader_turn cap)" "cap_piped (log_reader_turn cap) = cap_piped cap"
proof -
  obtain partial where p: "cap_partial cap = Some partial" "(partial, cap_log cap) = log_cut (cap_terminal cap) log_empty"
    using assms(1) by (auto simp: capturing_def)
  have "log_cut (partial @ xs) (cap_log cap) = log_cut (cap_terminal cap @ xs) log_empty" for xs
    using log_cut_append [of "cap_terminal cap" xs log_empty] by (simp flip: p(2))
  then show "capturing text (log_reader_turn cap)"
    using assms p by (auto simp: capturing_def log_reader_turn_def log_reader_read_def split: prod.splits)
  show "cap_piped (log_reader_turn cap) = cap_piped cap"
    by (simp add: log_reader_turn_def split: option.splits prod.splits)
qed

lemma capturing_run:
  assumes "capturing t cap" "cap_piped cap"
  shows "capturing (t @ concat (map wrote steps)) (foldl capture_do cap steps) \<and> cap_piped (foldl capture_do cap steps)"
  using assms
proof (induction steps arbitrary: t cap)
  case (Cons step steps)
  have "capturing (t @ wrote step) (capture_do cap step) \<and> cap_piped (capture_do cap step)"
    using Cons.prems by (cases step) (simp_all add: capturing_write capturing_turn)
  then show ?case using Cons.IH by force
qed simp

lemma capturing_join:
  assumes "capturing text cap" "\<not> cap_piped cap"
  shows "cap_terminal (log_reader_join cap) = text \<and> cap_log (log_reader_join cap) = log_of (text_lines [] text)"
  using assms
proof (induction cap rule: log_reader_join.induct)
  case (1 cap)
  then obtain partial where p: "cap_partial cap = Some partial" "(partial, cap_log cap) = log_cut (cap_terminal cap) log_empty"
    by (auto simp: capturing_def)
  show ?case
  proof (cases "cap_pipe cap = []")
    case True
    then show ?thesis
      using 1(2,3) p log_cut_lines [of "cap_terminal cap" log_empty]
      by (subst (1 2) log_reader_join.simps) (simp add: log_reader_turn_def capturing_def)
  next
    case False
    then show ?thesis
      using 1 p capturing_turn [OF 1(2)] by (subst (1 2) log_reader_join.simps) simp
  qed
qed

text \<open>Nothing written to stderr is lost: however the writes and the reader interleave, a capture that stops has
  given the terminal every byte in order and left the latest lines in the ring. Stopping twice is stopping once.\<close>

theorem capture_loses_nothing:
  "(let cap = log_capture_stop (foldl capture_do (setup_log_capture True log_capture_none) steps);
        text = concat (map wrote steps)
    in cap_terminal cap = text \<and> cap_log cap = log_of (text_lines [] text) \<and> log_capture_stop cap = cap)"
proof -
  define cap where "cap = foldl capture_do (setup_log_capture True log_capture_none) steps"
  have "capturing [] (setup_log_capture True log_capture_none)" "cap_piped (setup_log_capture True log_capture_none)"
    by (simp_all add: capturing_def setup_log_capture_def log_capture_none_def log_cut_none)
  then have cap: "capturing (concat (map wrote steps)) cap"
    using capturing_run [of "[]" "setup_log_capture True log_capture_none" steps] by (simp add: cap_def)
  then have "capturing (concat (map wrote steps)) (cap\<lparr>cap_piped := False\<rparr>)" "cap_on cap" by (simp_all add: capturing_def)
  with capturing_join show ?thesis
    unfolding cap_def [symmetric] by (simp add: log_capture_stop_def Let_def)
qed

section \<open>What a client is sent\<close>

text \<open>The ring is never more than its size ahead of the client when a line is read.\<close>

fun drain_keeps_up :: "nat \<Rightarrow> nat \<Rightarrow> sink_write list \<Rightarrow> bool" where
  "drain_keeps_up seq cursor writes \<longleftrightarrow> \<not> cursor < seq \<or> seq \<le> cursor + LOG_RING_SIZE \<and>
     (case writes of [] \<Rightarrow> True | (taken, lines) # rest \<Rightarrow> taken \<longrightarrow> drain_keeps_up (seq + length lines) (cursor + 1) rest)"

declare drain_keeps_up.simps [simp del]

text \<open>The log grew from \<open>h\<close> to \<open>h'\<close> while one event per line was sent from \<open>start\<close> up to \<open>cursor\<close>: the lines
  themselves, if the client kept up.\<close>

definition sent :: "string list \<Rightarrow> nat \<Rightarrow> bool \<Rightarrow> string list \<Rightarrow> nat \<Rightarrow> string list \<Rightarrow> bool" where
  "sent h start keeps h' cursor evs \<longleftrightarrow> prefix h h' \<and> start \<le> cursor \<and> cursor \<le> length h' \<and>
     length evs = cursor - start \<and> (keeps \<longrightarrow> evs = map log_event (drop start (take cursor h')))"

text \<open>What a loop over the history \<open>h\<close> gives: the history after it, the lines from the cursor on, all of them
  unless the sink failed.\<close>

definition drained :: "string list \<Rightarrow> nat \<Rightarrow> sink_write list \<Rightarrow> log_ring \<times> nat \<times> string list \<times> bool \<times> sink_write list \<Rightarrow> bool" where
  "drained h cursor writes = (\<lambda>(lg, cursor', evs, ok, rest). \<exists>h'. lg = log_of h' \<and> (ok \<longrightarrow> cursor' = length h') \<and>
     sent h cursor (drain_keeps_up (length h) cursor writes) h' cursor' evs)"

lemma log_drain_drained:
  assumes "cursor \<le> length h" "log_drain (log_of h) cursor writes = Some r"
  shows "drained h cursor writes r"
  using assms
proof (induction writes arbitrary: h cursor r)
  case Nil
  then show ?case by (subst (asm) log_drain.simps) (auto simp: drained_def sent_def Let_def split: if_splits)
next
  case (Cons w writes)
  obtain taken lines where w: "w = (taken, lines)" by force
  show ?case
  proof (cases "cursor < length h")
    case False
    then show ?thesis using Cons.prems by (subst (asm) log_drain.simps) (auto simp: drained_def sent_def)
  next
    case True
    have upto: "length h \<le> length h'" "h' ! cursor = h ! cursor" if "prefix h h'" for h'
      using that True by (auto simp: prefix_def nth_append)
    have at: "log_at (log_of h) cursor = h ! cursor" if "drain_keeps_up (length h) cursor (w # writes)"
      using that True by (subst (asm) drain_keeps_up.simps) (auto intro: log_of_at)
    show ?thesis
    proof (cases taken)
      case False
      then have "r = (log_of (h @ lines), cursor + 1, [log_event (log_at (log_of h) cursor)], False, writes)"
        using Cons.prems True w by (subst (asm) log_drain.simps) (simp add: Let_def)
      then show ?thesis using True at
        by (auto simp: drained_def sent_def intro!: exI [of _ "h @ lines"] simp: take_Suc_conv_app_nth nth_append)
    next
      case taken: True
      then obtain lg' c' evs' ok' rest' where rest: "log_drain (log_of (h @ lines)) (cursor + 1) writes = Some (lg', c', evs', ok', rest')"
        and r: "r = (lg', c', log_event (log_at (log_of h) cursor) # evs', ok', rest')"
        using Cons.prems True w by (subst (asm) log_drain.simps) (auto simp: Let_def)
      have "drained (h @ lines) (cursor + 1) writes (lg', c', evs', ok', rest')"
        using Cons.IH [OF _ rest] True by simp
      then obtain h' where h': "prefix (h @ lines) h'" "lg' = log_of h'" "cursor + 1 \<le> c'" "c' \<le> length h'"
          "length evs' = c' - (cursor + 1)" "ok' \<longrightarrow> c' = length h'"
        and evs: "drain_keeps_up (length h + length lines) (cursor + 1) writes \<Longrightarrow> evs' = map log_event (drop (cursor + 1) (take c' h'))"
        by (auto simp: drained_def sent_def)
      have "prefix h h'" using h'(1) by (rule append_prefixD)
      moreover have "drop cursor (take c' h') = h ! cursor # drop (cursor + 1) (take c' h')"
        using upto(2) [OF \<open>prefix h h'\<close>] h'(3,4) by (subst Cons_nth_drop_Suc [symmetric]) auto
      moreover have "drain_keeps_up (length h + length lines) (cursor + 1) writes" if "drain_keeps_up (length h) cursor (w # writes)"
        using that True w taken by (subst (asm) drain_keeps_up.simps) simp
      ultimately show ?thesis unfolding drained_def sent_def r using h' evs at by (auto intro!: exI [of _ h'])
    qed
  qed
qed

text \<open>Where a client starts: the oldest line of the ring.\<close>

definition client_start :: "nat \<Rightarrow> log_client \<Rightarrow> nat" where
  "client_start seq cl = (if lcl_init cl then lcl_cursor cl else seq - LOG_RING_SIZE)"

text \<open>A call, and a stream, in which no write lets the ring go past a line not sent.\<close>

definition call_keeps_up :: "log_ring \<Rightarrow> log_client \<Rightarrow> string list \<Rightarrow> sink_write list \<Rightarrow> bool" where
  "call_keeps_up lg cl waited writes \<longleftrightarrow>
     (if lcl_init cl then drain_keeps_up (log_seq lg + length waited) (lcl_cursor cl) writes
      else drain_keeps_up (log_seq lg) (client_start (log_seq lg) cl) writes \<and>
        (case log_drain lg (client_start (log_seq lg) cl) writes of
           Some (lg1, cursor1, _, _, writes1) \<Rightarrow> drain_keeps_up (log_seq lg1 + length waited) cursor1 writes1
         | None \<Rightarrow> True))"

fun stream_keeps_up :: "log_ring \<Rightarrow> log_client \<Rightarrow> (string list \<times> sink_write list) list \<Rightarrow> bool" where
  "stream_keeps_up lg cl [] \<longleftrightarrow> True"
| "stream_keeps_up lg cl ((waited, writes) # calls) \<longleftrightarrow> call_keeps_up lg cl waited writes \<and>
     (case handle_logs lg cl waited writes of Some (lg1, cl1, _, True) \<Rightarrow> stream_keeps_up lg1 cl1 calls | _ \<Rightarrow> True)"

lemma segments_append:
  assumes "a \<le> b" "b \<le> c" "prefix h h'" "b \<le> length h"
  shows "drop a (take b h) @ drop b (take c h') = drop a (take c h')"
proof -
  have "take b h = take b h'" using assms by (auto simp: prefix_def)
  moreover have "take c h' = take b h' @ drop b (take c h')"
    using assms(2) by (metis append_take_drop_id min.absorb1 take_take)
  moreover have "a \<le> length (take b h')" using assms by (auto dest: prefix_length_le)
  ultimately show ?thesis by (metis drop_append diff_is_0_eq drop_0)
qed

lemma sent_then:
  assumes "sent h a k1 h1 b xs" "prefix h1 g" "sent g b k2 h2 c ys"
  shows "sent h a (k1 \<and> k2) h2 c (xs @ ys)"
proof -
  have ab: "prefix h h1" "a \<le> b" "b \<le> length h1" "length xs = b - a"
    and xs: "k1 \<Longrightarrow> xs = map log_event (drop a (take b h1))" using assms(1) by (auto simp: sent_def)
  have bc: "prefix g h2" "b \<le> c" "c \<le> length h2" "length ys = c - b"
    and ys: "k2 \<Longrightarrow> ys = map log_event (drop b (take c h2))" using assms(3) by (auto simp: sent_def)
  have "prefix h1 h2" using assms(2) bc(1) by (rule prefix_order.trans)
  moreover from this have "drop a (take b h1) @ drop b (take c h2) = drop a (take c h2)"
    using ab(2,3) bc(2) by (intro segments_append)
  ultimately show ?thesis
    using ab bc xs ys prefix_order.trans [of h h1 h2] by (auto simp: sent_def simp flip: map_append)
qed

lemma sent_nothing: "cursor \<le> length h \<Longrightarrow> sent h cursor k h cursor []"
  by (simp add: sent_def)

lemma sent_weaken: "sent h a k h' c evs \<Longrightarrow> (k' \<Longrightarrow> k) \<Longrightarrow> sent h a k' h' c evs"
  by (simp add: sent_def)

lemma handle_logs_sent:
  assumes "lcl_init cl \<Longrightarrow> lcl_cursor cl \<le> length h"
    and "handle_logs (log_of h) cl waited writes = Some (lg, cl', evs, ok)"
  obtains h' where "lg = log_of h'" "ok \<longrightarrow> lcl_init cl' \<and> lcl_cursor cl' = length h'"
    "sent h (client_start (length h) cl) (call_keeps_up (log_of h) cl waited writes) h' (lcl_cursor cl') evs"
proof -
  have start: "log_seq (log_of h) - (if log_seq (log_of h) < LOG_RING_SIZE then log_seq (log_of h) else LOG_RING_SIZE) = length h - LOG_RING_SIZE"
    by simp
  show ?thesis
  proof (cases "lcl_init cl")
    case True
    then obtain cursor2 rest where r: "log_drain (log_of (h @ waited)) (lcl_cursor cl) writes = Some (lg, cursor2, evs, ok, rest)"
      and cl': "cl' = \<lparr>lcl_cursor = cursor2, lcl_init = True\<rparr>"
      using assms(2) by (auto simp: handle_logs_def)
    have "drained (h @ waited) (lcl_cursor cl) writes (lg, cursor2, evs, ok, rest)"
      using r assms(1) True by (intro log_drain_drained) auto
    then obtain h' where "lg = log_of h'" "ok \<longrightarrow> cursor2 = length h'"
      "sent (h @ waited) (lcl_cursor cl) (drain_keeps_up (length h + length waited) (lcl_cursor cl) writes) h' cursor2 evs"
      by (auto simp: drained_def)
    moreover have "sent h (lcl_cursor cl) True h (lcl_cursor cl) []" using assms(1) True by (intro sent_nothing) simp
    ultimately have "sent h (lcl_cursor cl) (drain_keeps_up (length h + length waited) (lcl_cursor cl) writes) h' cursor2 evs"
      using sent_then [OF _ prefixI, of h "lcl_cursor cl" True h "lcl_cursor cl" "[]" "h @ waited" waited] by simp
    with \<open>lg = log_of h'\<close> \<open>ok \<longrightarrow> cursor2 = length h'\<close> show ?thesis
      using True cl' by (intro that) (simp_all add: client_start_def call_keeps_up_def)
  next
    case False
    then obtain lg1 c1 evs1 ok1 writes1 where r1: "log_drain (log_of h) (length h - LOG_RING_SIZE) writes = Some (lg1, c1, evs1, ok1, writes1)"
      using assms(2) start by (auto simp: handle_logs_def split: option.splits)
    then have "drained h (length h - LOG_RING_SIZE) writes (lg1, c1, evs1, ok1, writes1)"
      by (intro log_drain_drained) simp_all
    then obtain h1 where h1: "lg1 = log_of h1" "ok1 \<longrightarrow> c1 = length h1"
      "sent h (length h - LOG_RING_SIZE) (drain_keeps_up (length h) (length h - LOG_RING_SIZE) writes) h1 c1 evs1"
      by (auto simp: drained_def)
    show ?thesis
    proof (cases ok1)
      case False
      then have "lg = lg1" "evs = evs1" "lcl_cursor cl' = c1" "\<not> ok"
        using assms(2) r1 start \<open>\<not> lcl_init cl\<close> by (auto simp: handle_logs_def)
      then show ?thesis
        using h1 \<open>\<not> lcl_init cl\<close> by (intro that [of h1]) (auto simp: client_start_def call_keeps_up_def elim: sent_weaken)
    next
      case True
      then obtain c2 evs2 rest where r2: "log_drain (log_of (h1 @ waited)) c1 writes1 = Some (lg, c2, evs2, ok, rest)"
        and cl': "cl' = \<lparr>lcl_cursor = c2, lcl_init = True\<rparr>" "evs = evs1 @ evs2"
        using assms(2) r1 start h1(1) \<open>\<not> lcl_init cl\<close> by (auto simp: handle_logs_def)
      have "drained (h1 @ waited) c1 writes1 (lg, c2, evs2, ok, rest)"
        using r2 True h1(2) by (intro log_drain_drained) simp_all
      then obtain h2 where h2: "lg = log_of h2" "ok \<longrightarrow> c2 = length h2"
        "sent (h1 @ waited) c1 (drain_keeps_up (length h1 + length waited) c1 writes1) h2 c2 evs2"
        by (auto simp: drained_def)
      have "sent h (length h - LOG_RING_SIZE) (drain_keeps_up (length h) (length h - LOG_RING_SIZE) writes \<and>
          drain_keeps_up (length h1 + length waited) c1 writes1) h2 c2 (evs1 @ evs2)"
        using h1(3) prefixI [of "h1 @ waited" h1 waited] h2(3) by (rule sent_then) simp
      then show ?thesis
        using h2(1,2) cl' r1 h1(1) \<open>\<not> lcl_init cl\<close>
        by (intro that [of h2]) (auto simp: client_start_def call_keeps_up_def elim: sent_weaken)
    qed
  qed
qed

lemma log_stream_sent:
  assumes "lcl_init cl \<Longrightarrow> lcl_cursor cl \<le> length h"
    and "log_stream (log_of h) cl calls = Some (lg, cl', evs, ok)" "calls \<noteq> [] \<or> lcl_init cl"
  shows "\<exists>h'. lg = log_of h' \<and> (ok \<and> (calls \<noteq> [] \<or> lcl_cursor cl = length h) \<longrightarrow> lcl_cursor cl' = length h') \<and>
    sent h (client_start (length h) cl) (stream_keeps_up (log_of h) cl calls) h' (lcl_cursor cl') evs"
  using assms
proof (induction calls arbitrary: h cl evs)
  case Nil
  then show ?case by (auto simp: client_start_def intro!: sent_nothing)
next
  case (Cons call calls)
  obtain waited writes where call: "call = (waited, writes)" by force
  then obtain lg1 cl1 evs1 ok1 where step: "handle_logs (log_of h) cl waited writes = Some (lg1, cl1, evs1, ok1)"
    using Cons.prems(2) by (auto split: option.splits)
  obtain h1 where h1: "lg1 = log_of h1" "ok1 \<longrightarrow> lcl_init cl1 \<and> lcl_cursor cl1 = length h1"
    "sent h (client_start (length h) cl) (call_keeps_up (log_of h) cl waited writes) h1 (lcl_cursor cl1) evs1"
    using handle_logs_sent [OF Cons.prems(1) step] by blast
  show ?case
  proof (cases ok1)
    case False
    then show ?thesis using Cons.prems(2) call step h1 by (auto elim: sent_weaken)
  next
    case True
    then obtain evs2 where rest: "log_stream (log_of h1) cl1 calls = Some (lg, cl', evs2, ok)" and evs: "evs = evs1 @ evs2"
      using Cons.prems(2) call step h1(1) by auto
    have "lcl_cursor cl1 \<le> length h1" using h1(3) by (simp add: sent_def)
    then obtain h2 where "lg = log_of h2" "ok \<longrightarrow> lcl_cursor cl' = length h2" "sent h1 (lcl_cursor cl1) (stream_keeps_up (log_of h1) cl1 calls) h2 (lcl_cursor cl') evs2"
      using Cons.IH [OF _ rest] h1(2) True by (auto simp: client_start_def)
    then show ?thesis
      using sent_then [OF h1(3) prefix_order.refl] True call step h1(1) evs by (auto elim: sent_weaken)
  qed
qed

text \<open>C20: A client of \<open>GET /logs\<close> that is never a whole ring behind is sent every line once and in order, from the
  oldest line the ring held when it came on: up to the last line while its sink holds, to the one its sink
  failed at otherwise.\<close>

theorem log_client_follows:
  "(case log_stream (log_of h) log_client_new (call # calls) of
      None \<Rightarrow> True
    | Some (lg, cl, evs, ok) \<Rightarrow>
        if stream_keeps_up (log_of h) log_client_new (call # calls) then
          (\<exists>h'. prefix h h' \<and> lg = log_of h' \<and>
             evs = map log_event (drop (length h - LOG_RING_SIZE) (take (if ok then length h' else lcl_cursor cl) h')))
        else True)"
proof (cases "log_stream (log_of h) log_client_new (call # calls)")
  case (Some r)
  obtain lg cl evs ok where r: "r = (lg, cl, evs, ok)" by (cases r) auto
  have "\<exists>h'. lg = log_of h' \<and> (ok \<longrightarrow> lcl_cursor cl = length h') \<and> sent h (length h - LOG_RING_SIZE)
      (stream_keeps_up (log_of h) log_client_new (call # calls)) h' (lcl_cursor cl) evs"
    using log_stream_sent [OF _ Some [unfolded r]] by (simp add: log_client_new_def client_start_def)
  then show ?thesis unfolding Some r by (auto simp: sent_def)
qed simp

end
