(* ===== verification/Server.thy ===== *)
theory Server
  imports Conversation Model_Find Logs
begin

text \<open>
  \<open>tools/s2s-server.cpp\<close>: the command line, the state of the server, its HTTP routes and the WebSocket that
  carries a conversation. httplib dispatches a request to its route; a reply it has not been told otherwise
  has status 200. The files the command line names, the number reader, the loaders, the devices, the version
  and the embedded pages are parameters.
\<close>

section \<open>The command line\<close>

record server_args =
  sa_models_dir :: string
  sa_voices_dir :: string
  sa_host :: string
  sa_port :: int
  sa_origins :: "string list"
  sa_llm_hosts :: "string list"
  sa_engine :: tts_engine
  sa_device :: string
  sa_llm :: llm_client_params
  sa_llm_fixed :: bool
  sa_mcp :: "mcp_server_params list"
  sa_mcp_fixed :: bool

definition server_args_default :: server_args where
  "server_args_default =
     \<lparr>sa_models_dir = ''models'', sa_voices_dir = ''voices'', sa_host = ''127.0.0.1'', sa_port = 8088,
      sa_origins = [], sa_llm_hosts = [], sa_engine = tts_engine_default, sa_device = [],
      sa_llm = llm_client_params_default, sa_llm_fixed = False, sa_mcp = [], sa_mcp_fixed = False\<rparr>"

text \<open>How the process ends before it serves: the usage, or a line of the log.\<close>

datatype server_exit = Usage | Fatal string

text \<open>\<open>atoi\<close>, of a number that fits an \<open>int\<close>.\<close>

definition atoi :: "string \<Rightarrow> int" where
  "atoi s =
     (let t = dropWhile is_space s;
          negative = (t \<noteq> [] \<and> hd t = CHR ''-'');
          digits = takeWhile is_digit (if t \<noteq> [] \<and> (hd t = CHR ''-'' \<or> hd t = CHR ''+'') then tl t else t);
          n = foldl (\<lambda>n d. 10 * n + (int (byte_of d) - 48)) 0 digits
      in if negative then - n else n)"

text \<open>The first line of a file, \<^const>\<open>None\<close> when it cannot be read or is empty.\<close>

definition file_line :: "(string \<Rightarrow> string option) \<Rightarrow> string \<Rightarrow> string option" where
  "file_line read_file path =
     (case read_file path of
        None \<Rightarrow> None
      | Some bytes \<Rightarrow> (let line = takeWhile (\<lambda>c. c \<noteq> LF) bytes in if line = [] then None else Some line))"

definition no_key :: "string \<Rightarrow> server_exit" where
  "no_key path = Fatal (s2s_format (''[Server] FATAL: no key in '' @ path))"

text \<open>An option and its value; \<^const>\<open>None\<close> for what is not one.\<close>

definition server_option ::
  "(string \<Rightarrow> string option) \<Rightarrow> (string \<Rightarrow> f32) \<Rightarrow> string \<Rightarrow> string \<Rightarrow> server_args \<Rightarrow> (server_exit + server_args) option" where
  "server_option read_file atof arg v a =
     (if arg = ''--models'' then Some (Inr (a\<lparr>sa_models_dir := v\<rparr>))
      else if arg = ''--voices'' then Some (Inr (a\<lparr>sa_voices_dir := v\<rparr>))
      else if arg = ''--host'' then Some (Inr (a\<lparr>sa_host := v\<rparr>))
      else if arg = ''--port'' then Some (Inr (a\<lparr>sa_port := atoi v\<rparr>))
      else if arg = ''--origin'' then Some (Inr (a\<lparr>sa_origins := sa_origins a @ [v]\<rparr>))
      else if arg = ''--llm-host'' then Some (Inr (a\<lparr>sa_llm_hosts := sa_llm_hosts a @ [v]\<rparr>))
      else if arg = ''--llm-url'' then Some (Inr (a\<lparr>sa_llm := (sa_llm a)\<lparr>lp_base_url := v\<rparr>, sa_llm_fixed := True\<rparr>))
      else if arg = ''--llm-model'' then Some (Inr (a\<lparr>sa_llm := (sa_llm a)\<lparr>lp_model := v\<rparr>\<rparr>))
      else if arg = ''--llm-key-file'' then
        Some (case file_line read_file v of
            None \<Rightarrow> Inl (no_key v)
          | Some key \<Rightarrow> Inr (a\<lparr>sa_llm := (sa_llm a)\<lparr>lp_api_key := key\<rparr>, sa_llm_fixed := True\<rparr>))
      else if arg = ''--mcp'' then
        Some (Inr (a\<lparr>sa_mcp := sa_mcp a @ [mcp_server_params_default\<lparr>mcp_url := v\<rparr>], sa_mcp_fixed := True\<rparr>))
      else if arg = ''--mcp-key-file'' then
        Some (if sa_mcp a = [] then Inl (Fatal ''[Server] FATAL: --mcp-key-file needs an --mcp before it'')
          else case file_line read_file v of
              None \<Rightarrow> Inl (no_key v)
            | Some key \<Rightarrow> Inr (a\<lparr>sa_mcp := butlast (sa_mcp a) @ [(last (sa_mcp a))\<lparr>mcp_api_key := key\<rparr>]\<rparr>))
      else if arg = ''--device'' then Some (Inr (a\<lparr>sa_device := v\<rparr>))
      else if arg = ''--max-batch'' then Some (Inr (a\<lparr>sa_engine := (sa_engine a)\<lparr>eng_max_batch := atoi v\<rparr>\<rparr>))
      else if arg = ''--codec-chunk-dur'' then Some (Inr (a\<lparr>sa_engine := (sa_engine a)\<lparr>eng_codec_chunk_sec := atof v\<rparr>\<rparr>))
      else None)"

definition server_flag :: "string \<Rightarrow> server_args \<Rightarrow> server_args option" where
  "server_flag arg a =
     (if arg = ''--no-fa'' then Some (a\<lparr>sa_engine := (sa_engine a)\<lparr>eng_use_fa := False\<rparr>\<rparr>)
      else if arg = ''--clamp-fp16'' then Some (a\<lparr>sa_engine := (sa_engine a)\<lparr>eng_clamp_fp16 := True\<rparr>\<rparr>)
      else None)"

function server_parse ::
  "(string \<Rightarrow> string option) \<Rightarrow> (string \<Rightarrow> f32) \<Rightarrow> server_args \<Rightarrow> string list \<Rightarrow> server_exit + server_args" where
  "server_parse read_file atof a [] = Inr a"
| "server_parse read_file atof a (arg # rest) =
     (case (case rest of [] \<Rightarrow> None | v # _ \<Rightarrow> server_option read_file atof arg v a) of
        Some (Inl ended) \<Rightarrow> Inl ended
      | Some (Inr a) \<Rightarrow> server_parse read_file atof a (drop 1 rest)
      | None \<Rightarrow> (case server_flag arg a of
            Some a \<Rightarrow> server_parse read_file atof a rest
          | None \<Rightarrow> Inl Usage))"
  by pat_completeness auto
termination by (relation "measure (\<lambda>(_, _, _, args). length args)") auto

section \<open>The server\<close>

record ('v, 'a) server =
  sv_setup :: "('v, 'a) ConversationSetup"
  sv_files :: ModelFiles
  sv_origins :: "string list"
  sv_llm_hosts :: "string list"
  sv_llm_defaults :: llm_client_params
  sv_version :: string
  sv_index :: string
  sv_script :: string

text \<open>From the command line to the server that listens: the arguments after the name of the program.\<close>

definition server_start ::
  "('v, 'a) loaders \<Rightarrow> (string \<Rightarrow> string option) \<Rightarrow> (string \<Rightarrow> f32) \<Rightarrow> (string \<Rightarrow> bool) \<Rightarrow> string \<Rightarrow> string \<Rightarrow> string
     \<Rightarrow> string list \<Rightarrow> server_exit + ('v, 'a) server" where
  "server_start L read_file atof device_known version index script args =
     (if args = [] then Inl Usage
      else case server_parse read_file atof server_args_default args of
        Inl ended \<Rightarrow> Inl ended
      | Inr a \<Rightarrow>
          if sa_device a \<noteq> [] \<and> \<not> device_known (sa_device a) then Inl Usage
          else (case models_load L (sa_models_dir a) (sa_voices_dir a) (sa_device a) (sa_engine a) of
            Inl err \<Rightarrow> Inl (Fatal err)
          | Inr (files, models, voice) \<Rightarrow>
              Inr \<lparr>sv_setup = \<lparr>cs_models = models,
                     cs_defaults = ClientSettings_default\<lparr>cl_tts := voice, cl_mcp := sa_mcp a, cl_llm := sa_llm a\<rparr>,
                     cs_llm_fixed = sa_llm_fixed a, cs_mcp_fixed = sa_mcp_fixed a, cs_llm_hosts = sa_llm_hosts a\<rparr>,
                   sv_files = files, sv_origins = sa_origins a, sv_llm_hosts = sa_llm_hosts a,
                   sv_llm_defaults = sa_llm a, sv_version = version, sv_index = index, sv_script = script\<rparr>))"

section \<open>Requests and replies\<close>

record server_request =
  sq_headers :: "(string \<times> string) list"
  sq_body :: string

record server_reply =
  rp_status :: int
  rp_headers :: "(string \<times> string) list"
  rp_type :: string
  rp_body :: string
  rp_logs :: bool

text \<open>A reply as a handler finds it; \<open>rp_logs\<close> is the content provider of \<open>Logs\<close>.\<close>

definition reply_new :: server_reply where
  "reply_new = \<lparr>rp_status = 200, rp_headers = [], rp_type = [], rp_body = [], rp_logs = False\<rparr>"

definition reply_status :: "int \<Rightarrow> server_reply" where
  "reply_status status = reply_new\<lparr>rp_status := status\<rparr>"

definition reply_text :: "int \<Rightarrow> string \<Rightarrow> string \<Rightarrow> server_reply" where
  "reply_text status body content = reply_new\<lparr>rp_status := status, rp_body := body, rp_type := content\<rparr>"

definition get_header_value :: "server_request \<Rightarrow> string \<Rightarrow> string" where
  "get_header_value req key =
     (case map_of (map (\<lambda>(k, v). (map to_lower k, v)) (sq_headers req)) (map to_lower key) of Some v \<Rightarrow> v | None \<Rightarrow> [])"

definition origin_allowed :: "string list \<Rightarrow> server_request \<Rightarrow> bool" where
  "origin_allowed origins req =
     (let origin = get_header_value req ''Origin'' in origins = [] \<or> origin = [] \<or> origin \<in> set origins)"

definition json_write :: "json_writer \<Rightarrow> json \<Rightarrow> string" where
  "json_write wr doc = (case wr doc of Some json \<Rightarrow> json | None \<Rightarrow> ''{}'')"

definition json_string :: "json_writer \<Rightarrow> string \<Rightarrow> string \<Rightarrow> string" where
  "json_string wr key v = json_write wr (JObj [(key, JStr v)])"

section \<open>The defaults\<close>

text \<open>The last component of a path.\<close>

definition file_name :: "string \<Rightarrow> string" where
  "file_name path = rev (takeWhile (\<lambda>c. c \<noteq> CHR ''/'') (rev path))"

definition props_models :: "ModelFiles \<Rightarrow> json" where
  "props_models files =
     JObj [(''vad'', JStr (file_name (mf_vad files))), (''turn'', JStr (file_name (mf_turn files))),
           (''asr'', JStr (file_name (mf_asr files))), (''talker'', JStr (file_name (mf_talker files))),
           (''codec'', JStr (file_name (mf_codec files))), (''aec'', JStr (file_name (mf_aec files)))]"

definition props_strs :: "string list \<Rightarrow> json" where
  "props_strs vs = JArr (map JStr vs)"

definition props_client :: "('v, 'a) ConversationSetup \<Rightarrow> (string \<times> json) list" where
  "props_client setup =
     (let d = cs_defaults setup in
      [(''mode'', JStr (cl_mode d)), (''llm_fixed'', JBool (cs_llm_fixed setup)), (''mcp_fixed'', JBool (cs_mcp_fixed setup)),
       (''instructions'', JStr (cl_system_prompt d)), (''wake_mode'', JStr (wake_mode (cl_wake d))),
       (''wake_modes'', props_strs conn_wake_modes), (''wake_phrases'', props_strs (wake_phrases (cl_wake d))),
       (''sleep_phrases'', props_strs (wake_sleep_phrases (cl_wake d)))])"

definition props_voice :: "tts_bridge \<Rightarrow> (string \<times> json) list" where
  "props_voice b =
     (let voice = tb_defaults b; guards = tr_guards voice in
      [(''voice'', JStr (tr_voice voice)), (''tts_effect'', JStr (tr_effect voice)),
       (''tts_effects'', props_strs conn_effects), (''language'', JStr (tr_language voice)),
       (''tts_voices'', props_strs (tb_labels b)), (''tts_languages'', props_strs (tb_languages b)),
       (''tts_min_chars'', JInt (tg_min_chars guards)), (''tts_chars_per_second'', JReal (tg_chars_per_second guards)),
       (''tts_margin_seconds'', JReal (tg_margin_seconds guards))])"

definition props_endpoint :: "llm_client_params \<Rightarrow> int \<Rightarrow> (string \<times> json) list" where
  "props_endpoint llm max_rounds =
     [(''llm_timeout_sec'', JInt (lp_timeout_sec llm)), (''max_rounds'', JInt max_rounds),
      (''tool_timeout_sec'', JInt (lp_tool_timeout_sec llm)),
      (''reasoning_effort'', JStr (ls_reasoning_effort (lp_sampling llm)))]"

definition props_sampling :: "tts_sampling \<Rightarrow> (string \<times> json) list" where
  "props_sampling tts =
     [(''tts_temperature'', JReal (ts_temperature tts)), (''tts_top_k'', JInt (ts_top_k tts)),
      (''tts_top_p'', JReal (ts_top_p tts)), (''tts_repetition_penalty'', JReal (ts_repetition_penalty tts)),
      (''tts_subtalker_temperature'', JReal (ts_subtalker_temperature tts)),
      (''tts_subtalker_top_k'', JInt (ts_subtalker_top_k tts)), (''tts_subtalker_top_p'', JReal (ts_subtalker_top_p tts)),
      (''tts_max_new_tokens'', JInt S2S_TTS_MAX_NEW_TOKENS)]"

definition props_turn :: "s2s_session_params \<Rightarrow> (string \<times> json) list" where
  "props_turn turn =
     [(''vad_neg_threshold'', JReal (sp_vad_neg_threshold turn)), (''vad_threshold'', JReal (sp_vad_threshold turn)),
      (''min_speech_ms'', JInt (sp_min_speech_ms turn)), (''barge_in_ms'', JInt (sp_barge_in_ms turn)),
      (''min_silence_ms'', JInt (sp_min_silence_ms turn)),
      (''min_speech_continuation_ms'', JInt (sp_min_speech_continuation_ms turn)),
      (''speech_pad_ms'', JInt (sp_speech_pad_ms turn)), (''turn_threshold'', JReal (sp_turn_threshold turn)),
      (''incomplete_delay_ms'', JInt (sp_incomplete_delay_ms turn)), (''turn_max_wait_ms'', JInt (sp_turn_max_wait_ms turn)),
      (''reopen_grace_ms'', JInt (sp_reopen_grace_ms turn))]"

definition props_json :: "('v, 'a) server \<Rightarrow> json" where
  "props_json S =
     (let tts = sm_tts (cs_models (sv_setup S)) in
      JObj [(''version'', JStr (c_str (sv_version S))), (''sample_rate'', JInt (int S2S_INPUT_RATE)),
        (''models'', props_models (sv_files S)),
        (''defaults'', JObj (props_client (sv_setup S) @ props_voice tts @
           props_endpoint (sv_llm_defaults S) (cl_max_rounds (cs_defaults (sv_setup S))) @
           props_sampling (tb_sampling_defaults tts) @ props_turn s2s_session_params_default))])"

section \<open>The routes\<close>

definition route_logs :: "('v, 'a) server \<Rightarrow> server_request \<Rightarrow> server_reply" where
  "route_logs S req =
     (if \<not> origin_allowed (sv_origins S) req then reply_status 403
      else reply_new\<lparr>rp_headers := [(''Cache-Control'', ''no-cache''), (''X-Accel-Buffering'', ''no'')],
        rp_type := ''text/event-stream'', rp_logs := True\<rparr>)"

definition route_health :: server_reply where
  "route_health = reply_text 200 ''{\"status\":\"ok\"}'' ''application/json''"

definition route_props :: "json_writer \<Rightarrow> ('v, 'a) server \<Rightarrow> server_request \<Rightarrow> server_reply" where
  "route_props wr_float S req =
     (if \<not> origin_allowed (sv_origins S) req then reply_status 403
      else reply_text 200 (json_write wr_float (props_json S)) ''application/json'')"

definition accepts_gzip :: "server_request \<Rightarrow> bool" where
  "accepts_gzip req \<longleftrightarrow> find_sub ''gzip'' (get_header_value req ''Accept-Encoding'') \<noteq> None"

definition route_index :: "('v, 'a) server \<Rightarrow> server_request \<Rightarrow> server_reply" where
  "route_index S req =
     (if \<not> accepts_gzip req then reply_text 200 ''Error: gzip is not supported by this browser'' ''text/plain''
      else (reply_text 200 (sv_index S) ''text/html; charset=utf-8'')\<lparr>rp_headers := [(''Content-Encoding'', ''gzip'')]\<rparr>)"

definition route_script :: "('v, 'a) server \<Rightarrow> server_request \<Rightarrow> server_reply" where
  "route_script S req =
     (if \<not> accepts_gzip req then reply_text 406 ''gzip required'' ''text/plain''
      else (reply_text 200 (sv_script S) ''text/javascript; charset=utf-8'')
        \<lparr>rp_headers := [(''Content-Encoding'', ''gzip''), (''Access-Control-Allow-Origin'', ''*'')]\<rparr>)"

definition route_realtime :: server_reply where
  "route_realtime = reply_text 426 ''{\"error\":\"websocket upgrade required\"}'' ''application/json''"

text \<open>The endpoint a list is asked of: the body of the request names another one, unless it may not.\<close>

definition named_endpoint :: "json_reader \<Rightarrow> llm_client_params \<Rightarrow> string \<Rightarrow> llm_client_params" where
  "named_endpoint rd params body =
     (case rd body of
        None \<Rightarrow> params
      | Some top_val \<Rightarrow>
          let url = rt_json_str (Some top_val) ''url''; key = rt_json_str (Some top_val) ''key'';
              params = (if url \<noteq> [] then params\<lparr>lp_base_url := url\<rparr> else params)
          in if key \<noteq> [] then params\<lparr>lp_api_key := key\<rparr> else params)"

definition route_models ::
  "json_reader \<Rightarrow> json_writer \<Rightarrow> 'w network \<Rightarrow> ('v, 'a) server \<Rightarrow> server_request \<Rightarrow> 'w \<Rightarrow> server_reply \<times> 'w" where
  "route_models rd wr net S req w =
     (if \<not> origin_allowed (sv_origins S) req \<or> cs_llm_fixed (sv_setup S) then (reply_status 403, w)
      else let params = named_endpoint rd (sv_llm_defaults S) (sq_body req) in
        if \<not> host_allowed (sv_llm_hosts S) (lp_base_url params)
        then (reply_text 403 ''{\"error\":\"endpoint host not allowed\"}'' ''application/json'', w)
        else (case llm_client_models rd net params w of
            (Inl err, w) \<Rightarrow> (reply_text 502 (json_string wr ''error'' (c_str err)) ''application/json'', w)
          | (Inr models, w) \<Rightarrow>
              (reply_text 200 (json_write wr (JObj [(''data'', JArr (map (\<lambda>m. JObj [(''id'', JStr m)]) models))]))
                 ''application/json'', w)))"

text \<open>The endpoint and the MCP servers of a tool list.\<close>

definition tools_endpoint :: "json_reader \<Rightarrow> ('v, 'a) server \<Rightarrow> string \<Rightarrow> llm_client_params" where
  "tools_endpoint rd S body =
     (if cs_llm_fixed (sv_setup S) then sv_llm_defaults S else named_endpoint rd (sv_llm_defaults S) body)"

definition tools_servers :: "json_reader \<Rightarrow> ('v, 'a) server \<Rightarrow> string \<Rightarrow> mcp_server_params list" where
  "tools_servers rd S body =
     (let servers = cl_mcp (cs_defaults (sv_setup S)); params = tools_endpoint rd S body in
      case rd body of
        None \<Rightarrow> servers
      | Some top_val \<Rightarrow>
          servers @ List.map_filter (\<lambda>entry.
            let named = \<lparr>mcp_url = rt_json_str (Some entry) ''url'', mcp_api_key = rt_json_str (Some entry) ''key'',
                         mcp_timeout_sec = lp_tool_timeout_sec params\<rparr>
            in if \<not> cs_mcp_fixed (sv_setup S) \<and> mcp_url named \<noteq> [] then Some named else None)
            (arr_items (yyjson_obj_get (Some top_val) ''mcp'')))"

text \<open>The built-in tools of a list are only shown.\<close>

definition shown_builtins :: "json_writer \<Rightarrow> ('v, 'a) server \<Rightarrow> 'w llm_agent_builtin list" where
  "shown_builtins wr S =
     [\<lparr>bt_tool = conn_voice_tool wr (tb_labels (sm_tts (cs_models (sv_setup S)))), bt_fn = (\<lambda>_ w. (Inl [], w))\<rparr>,
      \<lparr>bt_tool = conn_sleep_tool wr, bt_fn = (\<lambda>_ w. (Inl [], w))\<rparr>]"

text \<open>What a list stands on; nothing cancels it, and it is not timed.\<close>

definition tools_env :: "json_reader \<Rightarrow> json_writer \<Rightarrow> 'w network \<Rightarrow> ('v, 'a) server \<Rightarrow> 'w agent_env" where
  "tools_env rd wr net S =
     \<lparr>ae_mcp = \<lparr>me_rd = rd, me_wr = wr, me_net = net, me_cancel = (\<lambda>_. False), me_build = sv_version S\<rparr>,
      ae_ms = (\<lambda>_ _. 0)\<rparr>"

definition group_json :: "('v, 'a) server \<Rightarrow> llm_agent_group \<Rightarrow> json" where
  "group_json S g =
     JObj [(''title'', JStr (if gr_url g = [] \<or> cs_mcp_fixed (sv_setup S) then gr_name g else gr_url g)),
           (''tools'', JArr (map JStr (gr_tools g)))]"

definition tools_reply :: "json_writer \<Rightarrow> ('v, 'a) server \<Rightarrow> string + llm_agent_group list \<Rightarrow> server_reply" where
  "tools_reply wr S listed =
     (case listed of
        Inl err \<Rightarrow> reply_text 502 (json_string wr ''error'' (c_str err)) ''application/json''
      | Inr groups \<Rightarrow> reply_text 200 (json_write wr (JObj [(''data'', JArr (map (group_json S) groups))])) ''application/json'')"

text \<open>\<open>slot\<close> is the error slot of the thread; \<^const>\<open>None\<close> is a list whose MCP servers have not answered yet.\<close>

definition route_tools ::
  "json_reader \<Rightarrow> json_writer \<Rightarrow> 'w network \<Rightarrow> nat \<Rightarrow> string \<Rightarrow> ('v, 'a) server \<Rightarrow> server_request \<Rightarrow> 'w
     \<Rightarrow> (server_reply \<times> 'w) option" where
  "route_tools rd wr net fuel slot S req w =
     (if \<not> origin_allowed (sv_origins S) req then Some (reply_status 403, w)
      else
        let params = tools_endpoint rd S (sq_body req); servers = tools_servers rd S (sq_body req);
            allowed = host_allowed (sv_llm_hosts S) (lp_base_url params) \<and>
              list_all (\<lambda>server. host_allowed (sv_llm_hosts S) (mcp_url server)) servers
        in if \<not> allowed then Some (reply_text 403 ''{\"error\":\"host not allowed\"}'' ''application/json'', w)
          else (case llm_agent_tools (tools_env rd wr net S) fuel (llm_agent_new net servers) (shown_builtins wr S) params slot w of
              None \<Rightarrow> None
            | Some (listed, agent, w) \<Rightarrow> Some (tools_reply wr S listed, llm_agent_free net agent w)))"

section \<open>The WebSocket\<close>

datatype ws_read = Ws_Fail | Ws_Text string | Ws_Binary string

text \<open>What the thread of a connection does: what its reads give, each after what the other threads did while it
  waited. \<^const>\<open>None\<close> while it waits for a frame.\<close>

fun ws_frames ::
  "('v, 'a) conn_env \<Rightarrow> ((('v, 'a) Connection \<Rightarrow> ('v, 'a) Connection) \<times> ws_read) list \<Rightarrow> ('v, 'a) Connection
     \<Rightarrow> ('v, 'a) Connection option" where
  "ws_frames E [] c = None"
| "ws_frames E ((others, result) # reads) c =
     (let c = others c in
      if result = Ws_Fail \<or> conn_stopped c then Some (conn_close E c)
      else case result of
          Ws_Text frame \<Rightarrow> ws_frames E reads (conn_frame E frame c)
        | _ \<Rightarrow> ws_frames E reads c)"

text \<open>The route: a page that is not allowed is closed without a conversation.\<close>

definition ws_realtime ::
  "('v, 'a) conn_env \<Rightarrow> ('v, 'a) server \<Rightarrow> server_request \<Rightarrow>
     ((('v, 'a) Connection \<Rightarrow> ('v, 'a) Connection) \<times> ws_read) list \<Rightarrow> string + ('v, 'a) Connection option" where
  "ws_realtime E S req reads =
     (if \<not> origin_allowed (sv_origins S) req then Inl ''origin not allowed''
      else Inr (ws_frames (E\<lparr>ce_setup := sv_setup S\<rparr>) reads (conn_open (ce_lm E) (sv_setup S))))"

section \<open>Who may do what\<close>

datatype server_route = Logs_Route | Health | Props | Index | Models_Route | Tools_Route | Script | Realtime

text \<open>A request on a route; the two pages are not there when the build embeds none.\<close>

definition server_handle ::
  "json_reader \<Rightarrow> json_writer \<Rightarrow> json_writer \<Rightarrow> 'w network \<Rightarrow> nat \<Rightarrow> string \<Rightarrow> ('v, 'a) server \<Rightarrow> server_route \<Rightarrow> server_request \<Rightarrow> 'w
     \<Rightarrow> (server_reply \<times> 'w) option" where
  "server_handle rd wr wr_float net fuel slot S route req w =
     (case route of
        Logs_Route \<Rightarrow> Some (route_logs S req, w)
      | Health \<Rightarrow> Some (route_health, w)
      | Props \<Rightarrow> Some (route_props wr_float S req, w)
      | Index \<Rightarrow> Some (if 0 < length (sv_index S) then route_index S req else reply_status 404, w)
      | Models_Route \<Rightarrow> Some (route_models rd wr net S req w)
      | Tools_Route \<Rightarrow> route_tools rd wr net fuel slot S req w
      | Script \<Rightarrow> Some (if 0 < length (sv_script S) then route_script S req else reply_status 404, w)
      | Realtime \<Rightarrow> Some (route_realtime, w))"

section \<open>What belongs to the server\<close>

text \<open>A command line that names no endpoint leaves no URL and no key, one that names no MCP server leaves none.\<close>

definition args_ok :: "server_args \<Rightarrow> bool" where
  "args_ok a \<longleftrightarrow> (sa_llm_fixed a \<or> lp_base_url (sa_llm a) = [] \<and> lp_api_key (sa_llm a) = []) \<and> (sa_mcp_fixed a \<or> sa_mcp a = [])"

lemma server_option_ok: "server_option read_file atof arg v a = Some (Inr a') \<Longrightarrow> args_ok a \<Longrightarrow> args_ok a'"
  by (auto simp: server_option_def args_ok_def split: if_splits option.splits)

lemma server_flag_ok: "server_flag arg a = Some a' \<Longrightarrow> args_ok a \<Longrightarrow> args_ok a'"
  by (auto simp: server_flag_def args_ok_def split: if_splits)

lemma server_parse_ok: "server_parse read_file atof a args = Inr a' \<Longrightarrow> args_ok a \<Longrightarrow> args_ok a'"
proof (induction read_file atof a args rule: server_parse.induct)
  case (2 read_file atof a arg rest)
  show ?case
  proof (cases "case rest of [] \<Rightarrow> None | v # _ \<Rightarrow> server_option read_file atof arg v a")
    case None
    then show ?thesis using 2 server_flag_ok by (auto split: option.splits)
  next
    case (Some r)
    then obtain v where "server_option read_file atof arg v a = Some r" by (cases rest) auto
    then show ?thesis using 2 Some server_option_ok by (cases r) auto
  qed
qed simp

lemma server_start_ok:
  assumes "server_start L read_file atof device_known version index script args = Inr S"
  obtains a where "args_ok a" "sv_llm_defaults S = sa_llm a" "cs_llm_fixed (sv_setup S) = sa_llm_fixed a"
    "cs_mcp_fixed (sv_setup S) = sa_mcp_fixed a" "cl_mcp (cs_defaults (sv_setup S)) = sa_mcp a"
proof -
  obtain a where a: "server_parse read_file atof server_args_default args = Inr a"
    using assms by (auto simp: server_start_def split: if_splits sum.splits)
  have "args_ok server_args_default" by (simp add: args_ok_def server_args_default_def llm_client_params_default_def)
  then have "args_ok a" using server_parse_ok [OF a] by blast
  moreover have "sv_llm_defaults S = sa_llm a" "cs_llm_fixed (sv_setup S) = sa_llm_fixed a"
    "cs_mcp_fixed (sv_setup S) = sa_mcp_fixed a" "cl_mcp (cs_defaults (sv_setup S)) = sa_mcp a"
    using assms a by (auto simp: server_start_def split: if_splits sum.splits prod.splits)
  ultimately show ?thesis by (rule that)
qed

text \<open>What the body of a request names: its own endpoint and key, its own MCP servers and their keys.\<close>

definition body_field :: "json_reader \<Rightarrow> string \<Rightarrow> string \<Rightarrow> string" where
  "body_field rd body key = rt_json_str (rd body) key"

definition body_servers :: "json_reader \<Rightarrow> string \<Rightarrow> (string \<times> string) list" where
  "body_servers rd body = map (\<lambda>entry. (rt_json_str (Some entry) ''url'', rt_json_str (Some entry) ''key''))
     (arr_items (yyjson_obj_get (rd body) ''mcp''))"

text \<open>C19: The keys of the server stay home: whatever the command line, a list a client asks for is asked of the
  server's own endpoint and MCP servers, or of those the client names with the keys it gives, never of the one
  with the keys of the other; and the models of the server's own endpoint are not listed at all.\<close>

theorem keys_stay_home:
  "(case server_start L read_file atof device_known version index script args of
      Inl _ \<Rightarrow> True
    | Inr S \<Rightarrow>
        (if cs_llm_fixed (sv_setup S)
         then tools_endpoint rd S (sq_body req) = sv_llm_defaults S \<and> route_models rd wr net S req w = (reply_status 403, w)
         else lp_base_url (tools_endpoint rd S (sq_body req)) = body_field rd (sq_body req) ''url'' \<and>
              lp_api_key (tools_endpoint rd S (sq_body req)) = body_field rd (sq_body req) ''key'' \<and>
              tools_endpoint rd S (sq_body req) = named_endpoint rd (sv_llm_defaults S) (sq_body req)) \<and>
        (if cs_mcp_fixed (sv_setup S)
         then tools_servers rd S (sq_body req) = cl_mcp (cs_defaults (sv_setup S))
         else set (map (\<lambda>s. (mcp_url s, mcp_api_key s)) (tools_servers rd S (sq_body req))) \<subseteq> set (body_servers rd (sq_body req))))"
proof (cases "server_start L read_file atof device_known version index script args")
  case (Inr S)
  obtain a where a: "args_ok a" "sv_llm_defaults S = sa_llm a" "cs_llm_fixed (sv_setup S) = sa_llm_fixed a"
    "cs_mcp_fixed (sv_setup S) = sa_mcp_fixed a" "cl_mcp (cs_defaults (sv_setup S)) = sa_mcp a"
    using Inr by (rule server_start_ok)
  have none: "rt_json_str None key = []" for key by (simp add: rt_json_str_def)
  have endpoint: "lp_base_url (tools_endpoint rd S body) = body_field rd body ''url'' \<and>
      lp_api_key (tools_endpoint rd S body) = body_field rd body ''key'' \<and>
      tools_endpoint rd S body = named_endpoint rd (sv_llm_defaults S) body" if "\<not> sa_llm_fixed a" for body
    using a that by (cases "rd body") (auto simp: tools_endpoint_def named_endpoint_def body_field_def args_ok_def none Let_def)
  have fixed: "List.map_filter (\<lambda>_. None) xs = []" for xs :: "json list" by (simp add: List.map_filter_def)
  have servers: "if sa_mcp_fixed a then tools_servers rd S body = sa_mcp a
      else set (map (\<lambda>s. (mcp_url s, mcp_api_key s)) (tools_servers rd S body)) \<subseteq> set (body_servers rd body)" for body
    using a by (cases "rd body")
      (auto simp: tools_servers_def body_servers_def args_ok_def fixed map_filter_def Let_def split: if_splits)
  show ?thesis
    unfolding Inr using endpoint [of "sq_body req"] servers [of "sq_body req"] a(3-5)
    by (auto simp: tools_endpoint_def route_models_def split: if_splits)
qed simp

text \<open>What \<open>/props\<close> and the lists must not tell: the server without its endpoint, its keys, its MCP servers, its
  allowlists and its directories.\<close>

definition redacted :: "('v, 'a) server \<Rightarrow> ('v, 'a) server" where
  "redacted S = S
     \<lparr>sv_llm_defaults := (sv_llm_defaults S)\<lparr>lp_base_url := [], lp_model := [], lp_api_key := [], lp_tools := []\<rparr>,
      sv_llm_hosts := [], sv_origins := [],
      sv_files := (let f = sv_files S in
        \<lparr>mf_vad = file_name (mf_vad f), mf_turn = file_name (mf_turn f), mf_asr = file_name (mf_asr f),
         mf_talker = file_name (mf_talker f), mf_codec = file_name (mf_codec f), mf_aec = file_name (mf_aec f)\<rparr>),
      sv_setup := (sv_setup S)\<lparr>cs_llm_hosts := [],
        cs_defaults := (cs_defaults (sv_setup S))
          \<lparr>cl_mcp := [], cl_llm := (cl_llm (cs_defaults (sv_setup S)))\<lparr>lp_base_url := [], lp_model := [], lp_api_key := []\<rparr>\<rparr>\<rparr>\<rparr>"

lemma file_name_idem [simp]: "file_name (file_name path) = file_name path"
  by (simp add: file_name_def)

text \<open>The published defaults are the same for two servers that differ in nothing else: they carry no secret.\<close>

theorem props_tell_no_secret:
  "props_json (redacted S) = props_json S"
  by (simp add: props_json_def redacted_def props_models_def props_client_def props_endpoint_def Let_def)

text \<open>A page the server does not allow gets nothing: its requests change nothing and are answered with a bare
  403, the two pages, the health check and the notice of a missing upgrade apart, which tell nothing of the
  server, and no conversation opens for it.\<close>

theorem foreign_page_gets_nothing:
  "(if origin_allowed (sv_origins S) req then True
    else ws_realtime E S req reads = Inl ''origin not allowed'' \<and>
      server_handle rd wr wr_float net fuel slot S route req w =
        (if route \<in> {Health, Index, Script, Realtime} then server_handle rd wr wr_float net fuel slot (redacted S) route req w
         else Some (reply_status 403, w)))"
  by (cases route)
    (simp_all add: ws_realtime_def server_handle_def route_logs_def route_props_def route_models_def route_tools_def
      redacted_def route_index_def route_script_def)

text \<open>A list is asked only of hosts the allowlist names: when one of those it would reach is not, the reply is a
  403, nothing is sent to anyone and the network is not even opened.\<close>

theorem lists_reach_allowed_hosts:
  "(if host_allowed (sv_llm_hosts S) (lp_base_url (named_endpoint rd (sv_llm_defaults S) (sq_body req))) then True
    else rp_status (fst (route_models rd wr net S req w)) = 403 \<and> snd (route_models rd wr net S req w) = w) \<and>
   (if host_allowed (sv_llm_hosts S) (lp_base_url (tools_endpoint rd S (sq_body req))) \<and>
       list_all (\<lambda>s. host_allowed (sv_llm_hosts S) (mcp_url s)) (tools_servers rd S (sq_body req)) then True
    else map_option (\<lambda>(reply, w'). rp_status reply = 403 \<and> w' = w) (route_tools rd wr net fuel slot S req w) = Some True)"
  by (simp add: route_models_def route_tools_def reply_status_def reply_text_def reply_new_def Let_def)

end
