(* ===== verification/Recognizer.thy ===== *)
theory Recognizer
  imports Jarvis Http
begin

text \<open>
  The speech recognizer: \<open>src/sp-detok.h\<close>, \<open>src/tdt-decoder.h\<close>, \<open>src/parakeet-mel.h\<close> and the run of
  \<open>src/pipeline-asr.cpp\<close>. The graphs GGML computes are parameters: the log mel of padded audio, the encoder,
  the prediction and the joint of the transducer. Dumps and timings are left out.
\<close>

section \<open>Pieces\<close>

definition SP_SPACE_MARKER :: string where "SP_SPACE_MARKER = [CHR 0xE2, CHR 0x96, CHR 0x81]"

record SpDetok =
  sp_pieces :: "string list"
  sp_special :: "bool list"

text \<open>The table of a model file, \<^const>\<open>None\<close> when it has none.\<close>

definition sp_detok_load :: "string \<Rightarrow> string list option \<Rightarrow> string + SpDetok" where
  "sp_detok_load key table =
     (case table of
        None \<Rightarrow> Inl (s2s_format (''[SP] Key '' @ [SQUOTE] @ key @ [SQUOTE] @ '' not found''))
      | Some pieces \<Rightarrow>
          Inr \<lparr>sp_pieces = pieces,
               sp_special = map (\<lambda>p. 2 \<le> length p \<and> hd p = CHR ''<'' \<and> last p = CHR ''>'') pieces\<rparr>)"

text \<open>The bytes of a piece, the marker of a word as a space, but for the first of a text.\<close>

function detok_piece :: "string \<Rightarrow> string \<Rightarrow> string" where
  "detok_piece [] text = text"
| "detok_piece (c # rest) text =
     (if prefix SP_SPACE_MARKER (c # rest)
      then detok_piece (drop (length SP_SPACE_MARKER) (c # rest)) (if text \<noteq> [] then text @ [SPC] else text)
      else detok_piece rest (text @ [c]))"
  by pat_completeness auto
termination by (relation "measure (\<lambda>(piece, _). length piece)") (auto simp: SP_SPACE_MARKER_def)

definition sp_detok_append :: "SpDetok \<Rightarrow> int \<Rightarrow> string \<Rightarrow> string + string" where
  "sp_detok_append sp i text =
     (if i < 0 \<or> int (length (sp_pieces sp)) \<le> i then
        Inl (s2s_format (''[SP] Id '' @ int_str i @ '' outside the '' @ nat_str (length (sp_pieces sp)) @ '' piece table''))
      else if sp_special sp ! nat i then Inr text
      else Inr (detok_piece (sp_pieces sp ! nat i) text))"

section \<open>The transducer\<close>

text \<open>The prediction network on its LSTM state and a token, the joint on a frame and a prediction: the places of
  the best token and of the best duration. \<^const>\<open>None\<close> is a computation that failed.\<close>

record ('f, 'h, 'p) tdt_decoder =
  tdt_blank_id :: int
  tdt_max_symbols :: int
  tdt_durations :: "int list"
  tdt_start :: 'h
  tdt_predict :: "int \<Rightarrow> 'h \<Rightarrow> ('h \<times> 'p) option"
  tdt_joint :: "'f \<Rightarrow> 'p \<Rightarrow> (int \<times> nat) option"

text \<open>\<open>on_token\<close>: the text of a piece, and whether to go on. It may be NULL.\<close>

type_synonym 'w token_cb = "(string \<Rightarrow> 'w \<Rightarrow> bool \<times> 'w) option"

record ('h, 'p, 'w) tdt_state =
  td_frame :: int
  td_symbols :: int
  td_lstm :: 'h
  td_prediction :: 'p
  td_text :: string
  td_tokens :: nat
  td_steps :: nat
  td_world :: 'w

datatype pk_status = PK_STATUS_OK | PK_STATUS_INVALID_PARAMS string | PK_STATUS_DECODE_FAILED string | PK_STATUS_CANCELLED

text \<open>One turn of the loop: the state after it, and the status if it ends there. An exception ends the run as a
  failed decode.\<close>

definition tdt_step ::
  "('f, 'h, 'p) tdt_decoder \<Rightarrow> SpDetok \<Rightarrow> 'w token_cb \<Rightarrow> 'f list \<Rightarrow> ('h, 'p, 'w) tdt_state \<Rightarrow> pk_status option \<times> ('h, 'p, 'w) tdt_state" where
  "tdt_step D sp on_token frames s0 =
     (let s = s0\<lparr>td_steps := td_steps s0 + 1\<rparr> in
      case tdt_joint D (frames ! nat (td_frame s)) (td_prediction s) of
        None \<Rightarrow> (Some (PK_STATUS_DECODE_FAILED ''[TDT] Joint graph compute failed''), s)
      | Some (token, duration_id) \<Rightarrow>
          let duration = tdt_durations D ! duration_id in
          if token = tdt_blank_id D then
            (None, s\<lparr>td_frame := td_frame s + (if 0 < duration then duration else 1), td_symbols := 0\<rparr>)
          else (case sp_detok_append sp token (td_text s) of
              Inl err \<Rightarrow> (Some (PK_STATUS_DECODE_FAILED err), s)
            | Inr text \<Rightarrow>
                let written = length (td_text s);
                    (go, w) = (case on_token of None \<Rightarrow> (True, td_world s) | Some f \<Rightarrow> f (c_str (drop written text)) (td_world s));
                    s = s\<lparr>td_text := text, td_world := w\<rparr>
                in if \<not> go then (Some PK_STATUS_CANCELLED, s)
                  else (case tdt_predict D token (td_lstm s) of
                      None \<Rightarrow> (Some (PK_STATUS_DECODE_FAILED ''[TDT] Prediction graph compute failed''), s)
                    | Some (h, p) \<Rightarrow>
                        let s = s\<lparr>td_lstm := h, td_prediction := p, td_tokens := td_tokens s + 1,
                                  td_symbols := td_symbols s + 1, td_frame := td_frame s + duration\<rparr>
                        in (None, if duration = 0 \<and> tdt_max_symbols D \<le> td_symbols s
                                  then s\<lparr>td_frame := td_frame s + 1, td_symbols := 0\<rparr> else s))))"

partial_function (option) tdt_loop ::
  "('f, 'h, 'p) tdt_decoder \<Rightarrow> SpDetok \<Rightarrow> 'w token_cb \<Rightarrow> 'f list \<Rightarrow> ('h, 'p, 'w) tdt_state
     \<Rightarrow> (pk_status \<times> ('h, 'p, 'w) tdt_state) option" where
  "tdt_loop D sp on_token frames s =
     (if td_frame s < int (length frames) then
        (case tdt_step D sp on_token frames s of
           (Some status, s) \<Rightarrow> Some (status, s)
         | (None, s) \<Rightarrow> tdt_loop D sp on_token frames s)
      else Some (PK_STATUS_OK, s))"

text \<open>The decode of one utterance: its status, its text, what the callbacks did, the tokens and the steps.\<close>

definition parakeet_tdt_decode ::
  "('f, 'h, 'p) tdt_decoder \<Rightarrow> SpDetok \<Rightarrow> 'w token_cb \<Rightarrow> 'f list \<Rightarrow> 'w \<Rightarrow> (pk_status \<times> string \<times> 'w \<times> nat \<times> nat) option" where
  "parakeet_tdt_decode D sp on_token frames w =
     (case tdt_predict D (tdt_blank_id D) (tdt_start D) of
        None \<Rightarrow> Some (PK_STATUS_DECODE_FAILED ''[TDT] Prediction graph compute failed'', [], w, 0, 0)
      | Some (h, p) \<Rightarrow>
          map_option (\<lambda>(status, s). (status, td_text s, td_world s, td_tokens s, td_steps s))
            (tdt_loop D sp on_token frames
               \<lparr>td_frame = 0, td_symbols = 0, td_lstm = h, td_prediction = p, td_text = [], td_tokens = 0, td_steps = 0,
                td_world = w\<rparr>))"

section \<open>The front end\<close>

definition PARAKEET_MEL_EPS :: f32 where "PARAKEET_MEL_EPS = to_f32 (1 / 100000)"

text \<open>The padded audio and the number of frames the encoder sees.\<close>

definition parakeet_mel_prepare :: "f32 list \<Rightarrow> nat \<Rightarrow> nat \<Rightarrow> f32 \<Rightarrow> f32 list \<times> nat" where
  "parakeet_mel_prepare pcm n_fft hop preemphasis =
     (let half = n_fft div 2;
          shaped = map (\<lambda>i. if i = 0 then pcm ! 0 else f_sub (pcm ! i) (f_mul preemphasis (pcm ! (i - 1)))) [0..<length pcm]
      in (replicate half 0 @ shaped @ replicate half 0, length pcm div hop))"

definition mel_bin :: "f32 list \<Rightarrow> nat \<Rightarrow> nat \<Rightarrow> nat \<Rightarrow> f32 list" where
  "mel_bin mel n_mels n_frames bin = map (\<lambda>f. mel ! (f * n_mels + bin)) [0..<n_frames]"

text \<open>The mean and the deviation of a bin over the utterance.\<close>

definition mel_stats :: "libm \<Rightarrow> f32 list \<Rightarrow> f64 \<times> f64" where
  "mel_stats lm values =
     (let n = to_f64 (of_nat (length values));
          mean = d_div (foldl d_add 0 values) n;
          sq = foldl (\<lambda>sq v. let d = d_sub v mean in d_add sq (d_mul d d)) 0 values
      in (mean, lm_sqrt lm (d_div sq (to_f64 (of_nat (length values - 1))))))"

definition parakeet_mel_normalize :: "libm \<Rightarrow> f32 list \<Rightarrow> nat \<Rightarrow> nat \<Rightarrow> f32 list" where
  "parakeet_mel_normalize lm mel n_mels n_frames =
     (let stats = map (\<lambda>bin. mel_stats lm (mel_bin mel n_mels n_frames bin)) [0..<n_mels] in
      map (\<lambda>i. let (mean, deviation) = stats ! (i mod n_mels)
               in to_f32 (d_div (d_sub (mel ! i) mean) (d_add deviation PARAKEET_MEL_EPS)))
        [0..<n_frames * n_mels])"

text \<open>The sinusoids of the relative positions, from the farthest ahead.\<close>

definition parakeet_positions :: "libm \<Rightarrow> nat \<Rightarrow> nat \<Rightarrow> f32 list" where
  "parakeet_positions lm n_tokens d_model =
     concat (map (\<lambda>p. let position = to_f64 (of_int (int n_tokens - 1 - int p)) in
         concat (map (\<lambda>i. let inv_freq = lm_pow lm 10000 (d_div (- to_f64 (of_nat (2 * i))) (to_f64 (of_nat d_model)));
                              angle = d_mul position inv_freq
                          in [to_f32 (lm_sin lm angle), to_f32 (lm_cos lm angle)]) [0..<d_model div 2])
         @ replicate (d_model mod 2) 0)
       [0..<2 * n_tokens - 1])"

section \<open>A run\<close>

record ('f, 'h, 'p) asr_model =
  am_sample_rate :: nat
  am_n_fft :: nat
  am_hop :: nat
  am_n_mels :: nat
  am_preemphasis :: f32
  am_d_model :: nat
  am_sub_factor :: nat
  am_mel :: "f32 list \<Rightarrow> f32 list option"
  am_encoder :: "f32 list \<Rightarrow> nat \<Rightarrow> f32 list \<Rightarrow> 'f list option"
  am_decoder :: "('f, 'h, 'p) tdt_decoder"
  am_sp :: SpDetok

text \<open>The tokens the encoder gives for so many frames.\<close>

definition asr_tokens :: "('f, 'h, 'p) asr_model \<Rightarrow> nat \<Rightarrow> nat" where
  "asr_tokens M n_frames = (n_frames + am_sub_factor M - 1) div am_sub_factor M"

text \<open>\<open>pipeline_asr_run\<close>: the status, the transcript, what the callbacks did. The allocations succeed.\<close>

definition pipeline_asr_run ::
  "libm \<Rightarrow> ('f, 'h, 'p) asr_model \<Rightarrow> f32 list \<Rightarrow> nat \<Rightarrow> 'w token_cb \<Rightarrow> 'w \<Rightarrow> (pk_status \<times> string \<times> 'w) option" where
  "pipeline_asr_run lm M pcm sample_rate on_token w =
     (if pcm = [] then Some (PK_STATUS_INVALID_PARAMS ''[ASR] Empty input'', [], w)
      else case (if sample_rate \<noteq> am_sample_rate M then map_option hd (audio_resample lm [pcm] (length pcm) sample_rate (am_sample_rate M))
                 else Some pcm) of
        None \<Rightarrow> Some (PK_STATUS_DECODE_FAILED (s2s_format (''[ASR] Resample '' @ nat_str sample_rate @ '' -> '' @
                  nat_str (am_sample_rate M) @ '' failed'')), [], w)
      | Some samples \<Rightarrow>
          let (audio, n_frames) = parakeet_mel_prepare samples (am_n_fft M) (am_hop M) (am_preemphasis M) in
          if n_frames < 2 then Some (PK_STATUS_INVALID_PARAMS ''[ASR] Audio shorter than one frame'', [], w)
          else
            let n_tokens = asr_tokens M n_frames in
            (case am_mel M audio of
              None \<Rightarrow> Some (PK_STATUS_DECODE_FAILED ''[ASR] Mel graph failed'', [], w)
            | Some mel_full \<Rightarrow>
                let mel = parakeet_mel_normalize lm (take (n_frames * am_n_mels M) mel_full) (am_n_mels M) n_frames in
                (case am_encoder M mel n_frames (parakeet_positions lm n_tokens (am_d_model M)) of
                  None \<Rightarrow> Some (PK_STATUS_DECODE_FAILED ''[ASR] Encoder graph failed'', [], w)
                | Some frames \<Rightarrow>
                    map_option (\<lambda>(status, text, w, _). (status, text, w))
                      (parakeet_tdt_decode (am_decoder M) (am_sp M) on_token (take n_tokens frames) w))))"

text \<open>\<open>pk_transcribe\<close>: the transcript or the reason there is none, which a cancelled run does not set.\<close>

definition pk_transcribe ::
  "libm \<Rightarrow> ('f, 'h, 'p) asr_model \<Rightarrow> f32 list \<Rightarrow> int \<Rightarrow> 'w token_cb \<Rightarrow> 'w \<Rightarrow> (pk_status \<times> string option \<times> 'w) option" where
  "pk_transcribe lm M samples sample_rate on_token w =
     (if sample_rate \<le> 0 then Some (PK_STATUS_INVALID_PARAMS ''[ASR] Invalid transcribe arguments'', None, w)
      else map_option (\<lambda>(status, text, w). (status, if status = PK_STATUS_OK then Some (c_str text) else None, w))
        (pipeline_asr_run lm M samples (nat sample_rate) on_token w))"

section \<open>The decode ends\<close>

text \<open>What the model file promises: durations that are not negative and a joint that picks one of them.\<close>

definition tdt_ok :: "('f, 'h, 'p) tdt_decoder \<Rightarrow> bool" where
  "tdt_ok D \<longleftrightarrow> list_all ((\<le>) 0) (tdt_durations D) \<and>
     (\<forall>f p. case tdt_joint D f p of None \<Rightarrow> True | Some (_, i) \<Rightarrow> i < length (tdt_durations D))"

text \<open>The steps left: each frame may take as many as the bound on its symbols, less those already emitted.\<close>

definition tdt_width :: "('f, 'h, 'p) tdt_decoder \<Rightarrow> nat" where
  "tdt_width D = max 1 (nat (tdt_max_symbols D))"

definition tdt_left :: "('f, 'h, 'p) tdt_decoder \<Rightarrow> 'f list \<Rightarrow> ('h, 'p, 'w) tdt_state \<Rightarrow> int" where
  "tdt_left D frames s =
     (int (length frames) - td_frame s) * int (tdt_width D) - min (td_symbols s) (int (tdt_width D) - 1)"

lemma tdt_left_forward:
  assumes "td_frame s + 1 \<le> td_frame s'" "td_frame s < int (length frames)" "0 \<le> td_symbols s'"
  shows "tdt_left D frames s' < tdt_left D frames s"
proof -
  have w: "1 \<le> int (tdt_width D)" by (simp add: tdt_width_def)
  have "(int (length frames) - td_frame s') * int (tdt_width D) \<le> (int (length frames) - td_frame s - 1) * int (tdt_width D)"
    using assms(1) w by (intro mult_right_mono) linarith+
  moreover have "(int (length frames) - td_frame s - 1) * int (tdt_width D) =
      (int (length frames) - td_frame s) * int (tdt_width D) - int (tdt_width D)" by (simp add: left_diff_distrib)
  moreover have "min (td_symbols s) (int (tdt_width D) - 1) < int (tdt_width D)" "0 \<le> min (td_symbols s') (int (tdt_width D) - 1)"
    using w assms(3) by linarith+
  ultimately show ?thesis unfolding tdt_left_def by linarith
qed

lemma tdt_left_pos: "td_frame s < int (length frames) \<Longrightarrow> 0 < tdt_left D frames s"
proof -
  assume "td_frame s < int (length frames)"
  then have "1 * int (tdt_width D) \<le> (int (length frames) - td_frame s) * int (tdt_width D)"
    by (intro mult_right_mono) linarith+
  then show ?thesis unfolding tdt_left_def by linarith
qed

lemma tdt_step_left:
  assumes "tdt_ok D" "td_frame s < int (length frames)" "0 \<le> td_symbols s" "tdt_step D sp on_token frames s = (None, s')"
  shows "tdt_left D frames s' < tdt_left D frames s \<and> 0 \<le> td_symbols s' \<and> td_steps s' = td_steps s + 1 \<and>
    td_tokens s' \<le> td_tokens s + 1"
proof -
  obtain token i where joint: "tdt_joint D (frames ! nat (td_frame s)) (td_prediction s) = Some (token, i)"
    using assms(4) by (auto simp: tdt_step_def Let_def split: option.splits)
  define duration where "duration = tdt_durations D ! i"
  have "case tdt_joint D (frames ! nat (td_frame s)) (td_prediction s) of None \<Rightarrow> True | Some (_, i) \<Rightarrow> i < length (tdt_durations D)"
    using assms(1) unfolding tdt_ok_def by blast
  then have duration: "0 \<le> duration" using assms(1) joint by (auto simp: tdt_ok_def list_all_length duration_def)
  show ?thesis
  proof (cases "token = tdt_blank_id D")
    case True
    then have "td_frame s' = td_frame s + (if 0 < duration then duration else 1)" "td_symbols s' = 0"
      "td_steps s' = td_steps s + 1" "td_tokens s' = td_tokens s"
      using assms(4) joint by (auto simp: tdt_step_def Let_def duration_def)
    moreover have "tdt_left D frames s' < tdt_left D frames s"
      using calculation assms(2) by (intro tdt_left_forward) auto
    ultimately show ?thesis by simp
  next
    case False
    then have s': "td_steps s' = td_steps s + 1" "td_tokens s' = td_tokens s + 1"
      "td_frame s' = (if duration = 0 \<and> tdt_max_symbols D \<le> td_symbols s + 1 then td_frame s + 1 else td_frame s + duration)"
      "td_symbols s' = (if duration = 0 \<and> tdt_max_symbols D \<le> td_symbols s + 1 then 0 else td_symbols s + 1)"
      using assms(4) joint
      by (auto simp: tdt_step_def Let_def duration_def split: sum.splits prod.splits if_splits option.splits)
    have "tdt_left D frames s' < tdt_left D frames s"
    proof (cases "duration = 0 \<and> \<not> tdt_max_symbols D \<le> td_symbols s + 1")
      case True
      then have "min (td_symbols s) (int (tdt_width D) - 1) < min (td_symbols s + 1) (int (tdt_width D) - 1)"
        using assms(3) by (auto simp: tdt_width_def)
      then show ?thesis using s' True by (simp add: tdt_left_def)
    next
      case False
      then show ?thesis using s' duration assms(2,3) by (intro tdt_left_forward) auto
    qed
    then show ?thesis using s' assms(3) by auto
  qed
qed

lemma tdt_step_steps: "tdt_step D sp on_token frames s = (r, s') \<Longrightarrow> td_steps s' = td_steps s + 1 \<and> td_tokens s' \<le> td_tokens s + 1"
  by (auto simp: tdt_step_def Let_def split: option.splits sum.splits prod.splits if_splits)

lemma tdt_loop_ends:
  assumes "tdt_ok D" "0 \<le> td_symbols s" "td_tokens s \<le> td_steps s"
  shows "\<exists>status s'. tdt_loop D sp on_token frames s = Some (status, s') \<and> td_tokens s' \<le> td_steps s' \<and>
    int (td_steps s') \<le> int (td_steps s) + max 0 (tdt_left D frames s)"
  using assms(2,3)
proof (induction "nat (tdt_left D frames s)" arbitrary: s rule: less_induct)
  case less
  show ?case
  proof (cases "td_frame s < int (length frames)")
    case False
    then show ?thesis using less.prems by (subst tdt_loop.simps) simp
  next
    case go: True
    obtain r s1 where step: "tdt_step D sp on_token frames s = (r, s1)" by force
    note steps = tdt_step_steps [OF step] and pos = tdt_left_pos [OF go, of D]
    show ?thesis
    proof (cases r)
      case (Some status)
      then show ?thesis using go step steps pos less.prems by (subst tdt_loop.simps) auto
    next
      case None
      note s1 = tdt_step_left [OF assms(1) go less.prems(1) step [unfolded None]]
      have "\<exists>status s'. tdt_loop D sp on_token frames s1 = Some (status, s') \<and> td_tokens s' \<le> td_steps s' \<and>
          int (td_steps s') \<le> int (td_steps s1) + max 0 (tdt_left D frames s1)"
        using s1 less.prems(2) pos by (intro less.hyps) auto
      then show ?thesis using go step None s1 pos by (subst tdt_loop.simps) auto
    qed
  qed
qed

text \<open>C21: The greedy decode of any utterance ends, whatever the networks answer and the callback decides: it takes at
  most as many steps as there are frames, times the bound on the symbols of a frame, and emits no more pieces
  than steps.\<close>

theorem decode_ends:
  "(if tdt_ok D then
      (\<exists>status text w' tokens steps. parakeet_tdt_decode D sp on_token frames w = Some (status, text, w', tokens, steps) \<and>
         tokens \<le> steps \<and> steps \<le> length frames * max 1 (nat (tdt_max_symbols D)))
    else True)"
proof (cases "tdt_ok D")
  case ok: True
  show ?thesis
  proof (cases "tdt_predict D (tdt_blank_id D) (tdt_start D)")
    case (Some hp)
    obtain h p where hp: "hp = (h, p)" by force
    define s where "s = \<lparr>td_frame = 0, td_symbols = 0, td_lstm = h, td_prediction = p, td_text = [], td_tokens = 0,
      td_steps = 0, td_world = w\<rparr>"
    have left: "tdt_left D frames s = int (length frames * max 1 (nat (tdt_max_symbols D)))"
      by (simp add: s_def tdt_left_def tdt_width_def)
    obtain status s' where "tdt_loop D sp on_token frames s = Some (status, s')" "td_tokens s' \<le> td_steps s'"
      "int (td_steps s') \<le> int (td_steps s) + max 0 (tdt_left D frames s)"
      using tdt_loop_ends [OF ok, of s sp on_token frames] by (auto simp: s_def)
    moreover from this(3) have "int (td_steps s') \<le> int (length frames * max 1 (nat (tdt_max_symbols D)))"
      unfolding left by (simp del: of_nat_mult add: s_def)
    ultimately show ?thesis using ok Some hp by (simp only: of_nat_le_iff) (simp add: parakeet_tdt_decode_def s_def)
  qed (simp add: parakeet_tdt_decode_def)
qed simp

text \<open>The count of a frame's symbols starts again at a blank and at a forced move, not when a token moves on its
  own. Here the token of frame 0 moves to frame 1, and counts there: the frame, which may give two, gives one.\<close>

definition moving_decoder :: "(unit, nat, nat) tdt_decoder" where
  "moving_decoder =
     \<lparr>tdt_blank_id = 9, tdt_max_symbols = 2, tdt_durations = [0, 1], tdt_start = 0,
      tdt_predict = (\<lambda>_ h. Some (h + 1, h)), tdt_joint = (\<lambda>_ p. Some (0, if p = 0 then 1 else 0))\<rparr>"

lemma moving_token_counts_twice:
  "tdt_ok moving_decoder \<and>
   parakeet_tdt_decode moving_decoder \<lparr>sp_pieces = [''a''], sp_special = [False]\<rparr> (None :: unit token_cb) [(), ()] () =
     Some (PK_STATUS_OK, ''aa'', (), 2, 2)"
  by (simp add: tdt_ok_def moving_decoder_def parakeet_tdt_decode_def tdt_loop.simps tdt_step_def sp_detok_append_def
      SP_SPACE_MARKER_def)

section \<open>The streamed pieces\<close>

lemma detok_piece_appends: "\<exists>t. detok_piece piece xs = xs @ t \<and> set t \<subseteq> insert SPC (set piece)"
proof (induction piece xs rule: detok_piece.induct)
  case (2 c rest xs)
  show ?case
  proof (cases "prefix SP_SPACE_MARKER (c # rest)")
    case True
    then obtain t where "detok_piece (c # rest) xs = (if xs \<noteq> [] then xs @ [SPC] else xs) @ t"
      "set t \<subseteq> insert SPC (set (drop (length SP_SPACE_MARKER) (c # rest)))"
      using 2(1) by auto
    moreover have "set (drop (length SP_SPACE_MARKER) (c # rest)) \<subseteq> set (c # rest)" by (rule set_drop_subset)
    ultimately show ?thesis by (intro exI [of _ "(if xs \<noteq> [] then [SPC] else []) @ t"]) auto
  next
    case False
    then obtain t where "detok_piece rest (xs @ [c]) = (xs @ [c]) @ t" "set t \<subseteq> insert SPC (set rest)"
      using 2(2) by blast
    then show ?thesis using False by (intro exI [of _ "c # t"]) auto
  qed
qed simp

lemma detok_append_appends:
  assumes "list_all (\<lambda>p. CHR 0x00 \<notin> set p) (sp_pieces sp)" "sp_detok_append sp i xs = Inr ys"
  shows "\<exists>t. ys = xs @ t \<and> c_str t = t"
proof (cases "sp_special sp ! nat i")
  case False
  then have "nat i < length (sp_pieces sp)" "ys = detok_piece (sp_pieces sp ! nat i) xs"
    using assms(2) by (auto simp: sp_detok_append_def split: if_splits)
  moreover obtain t where "detok_piece (sp_pieces sp ! nat i) xs = xs @ t" "set t \<subseteq> insert SPC (set (sp_pieces sp ! nat i))"
    using detok_piece_appends by blast
  moreover have "CHR 0x00 \<notin> set (sp_pieces sp ! nat i)" using assms(1) calculation(1) by (simp add: list_all_length)
  ultimately have "ys = xs @ t" "CHR 0x00 \<notin> set t" by auto
  moreover have "byte_of c \<noteq> 0 \<longleftrightarrow> c \<noteq> CHR 0x00" for c
    using of_char_eq_iff [of c "CHR 0x00", where 'a = nat] by simp
  ultimately show ?thesis by (auto simp: c_str_no_nul list_all_iff)
qed (use assms in \<open>auto simp: sp_detok_append_def split: if_splits\<close>)

text \<open>A callback that keeps what it is given.\<close>

definition keeping :: "(string \<Rightarrow> string list \<Rightarrow> bool) \<Rightarrow> string list token_cb" where
  "keeping go = Some (\<lambda>piece heard. (go piece heard, heard @ [piece]))"

lemma tdt_step_heard:
  assumes "list_all (\<lambda>p. CHR 0x00 \<notin> set p) (sp_pieces sp)" "tdt_step D sp (keeping go) frames s = (r, s')"
    and "concat (td_world s) = td_text s"
  shows "concat (td_world s') = td_text s'"
proof -
  have appended: "concat (td_world s @ [c_str (drop (length (td_text s)) ys)]) = ys" if "sp_detok_append sp i (td_text s) = Inr ys" for i ys
    using detok_append_appends [OF assms(1) that] assms(3) by auto
  show ?thesis
    using assms(2,3) appended
    by (auto simp: tdt_step_def keeping_def Let_def split: option.splits sum.splits prod.splits if_splits)
qed

definition heard_all :: "SpDetok \<Rightarrow> string list token_cb \<Rightarrow> ('h, 'p, string list) tdt_state \<Rightarrow> bool" where
  "heard_all sp on_token s \<longleftrightarrow> (\<exists>go. on_token = keeping go) \<and>
     list_all (\<lambda>p. CHR 0x00 \<notin> set p) (sp_pieces sp) \<and> concat (td_world s) = td_text s"

lemma tdt_loop_heard:
  assumes "tdt_loop D sp on_token frames s = Some r" "heard_all sp on_token s"
  shows "concat (td_world (snd r)) = td_text (snd r)"
proof -
  have "heard_all sp on_token s \<longrightarrow> concat (td_world (snd r)) = td_text (snd r)"
  proof (rule tdt_loop.raw_induct [where P = "\<lambda>D sp on_token frames s r.
      heard_all sp on_token s \<longrightarrow> concat (td_world (snd r)) = td_text (snd r)", OF _ assms(1)], intro impI, goal_cases)
    case (1 loop D sp on_token frames s r)
    note IH = 1(1) and body = 1(2) and heard = 1(3)
    obtain o1 s1 where step: "tdt_step D sp on_token frames s = (o1, s1)" by force
    have "heard_all sp on_token s1" using heard tdt_step_heard step unfolding heard_all_def by metis
    then show ?case
      using IH [of D sp on_token frames s1 r] body heard step
      by (cases o1) (auto simp: heard_all_def split: if_splits)
  qed
  then show ?thesis using assms(2) by blast
qed


section \<open>Bounds\<close>

text \<open>What the transform makes of padded audio: one frame of bins every hop, as long as a window fits.\<close>

definition mel_shape :: "('f, 'h, 'p) asr_model \<Rightarrow> bool" where
  "mel_shape M \<longleftrightarrow> (\<forall>audio. case am_mel M audio of None \<Rightarrow> True
     | Some mel \<Rightarrow> length mel = am_n_mels M * ((length audio - am_n_fft M) div am_hop M + 1))"

text \<open>The frames a run keeps are frames the transform made: no bin is read past its output, and the encoder is
  given exactly one value per bin and frame and one sinusoid per position and feature.\<close>

theorem kept_frames_exist:
  "(if mel_shape M \<and> even (am_n_fft M) then
      let (audio, n_frames) = parakeet_mel_prepare pcm (am_n_fft M) (am_hop M) pre in
      length audio = length pcm + am_n_fft M \<and>
      (case am_mel M audio of None \<Rightarrow> True | Some mel \<Rightarrow> n_frames * am_n_mels M \<le> length mel) \<and>
      length (parakeet_mel_normalize lm mel (am_n_mels M) n_frames) = n_frames * am_n_mels M \<and>
      length (parakeet_positions lm n_tokens d_model) = (2 * n_tokens - 1) * d_model
    else True)"
proof -
  have positions: "length (concat (map f [0..<n])) = n * d" if "\<And>p. length (f p) = d" for f :: "nat \<Rightarrow> f32 list" and n d
    using that by (induction n) simp_all
  have pair: "length (concat (map (\<lambda>i. [g i, k i]) [0..<n])) = 2 * n" for g k :: "nat \<Rightarrow> f32" and n
    by (induction n) simp_all
  have "length (parakeet_positions lm n_tokens d_model) = (2 * n_tokens - 1) * d_model"
    unfolding parakeet_positions_def Let_def
    by (intro positions) (simp only: length_append length_replicate pair mult_div_mod_eq)
  moreover have "length pcm div am_hop M * am_n_mels M \<le> length mel"
    if "mel_shape M" "even (am_n_fft M)" "am_mel M (fst (parakeet_mel_prepare pcm (am_n_fft M) (am_hop M) pre)) = Some mel" for mel
  proof -
    have "case am_mel M (fst (parakeet_mel_prepare pcm (am_n_fft M) (am_hop M) pre)) of None \<Rightarrow> True
      | Some mel \<Rightarrow> length mel = am_n_mels M * ((length (fst (parakeet_mel_prepare pcm (am_n_fft M) (am_hop M) pre)) - am_n_fft M) div am_hop M + 1)"
      using that(1) unfolding mel_shape_def by blast
    then show ?thesis using that(2,3) by (auto simp: parakeet_mel_prepare_def Let_def algebra_simps)
  qed
  ultimately show ?thesis
    by (auto simp: parakeet_mel_prepare_def parakeet_mel_normalize_def Let_def split: option.splits)
qed

end
