(* ===== verification/Sound_Ring.thy ===== *)
theory Sound_Ring
  imports Prelude
begin

text \<open>
  \<open>ma_pcm_rb\<close> of \<open>vendor/miniaudio/miniaudio.h\<close>, the ring between the audio callback and the others in
  \<open>tools/s2s-cli.cpp\<close>, and the loops that go through it. Offsets and sizes are counted in frames; those of
  the program are far from the 2 GB where the flag of an offset begins.
\<close>

section \<open>The ring\<close>

text \<open>An encoded offset is a position and the flag of its loop.\<close>

record 'a ma_pcm_rb =
  rb_data :: "'a list"
  rb_read :: nat
  rb_read_flag :: bool
  rb_write :: nat
  rb_write_flag :: bool

definition ma_pcm_rb_init :: "'a \<Rightarrow> nat \<Rightarrow> 'a ma_pcm_rb" where
  "ma_pcm_rb_init zero frames =
     \<lparr>rb_data = replicate frames zero, rb_read = 0, rb_read_flag = False, rb_write = 0, rb_write_flag = False\<rparr>"

definition rb_size :: "'a ma_pcm_rb \<Rightarrow> nat" where
  "rb_size rb = length (rb_data rb)"

definition ma_pcm_rb_acquire_read :: "'a ma_pcm_rb \<Rightarrow> nat \<Rightarrow> nat" where
  "ma_pcm_rb_acquire_read rb n =
     (let available = (if rb_read_flag rb = rb_write_flag rb then rb_write rb - rb_read rb else rb_size rb - rb_read rb)
      in if available < n then available else n)"

definition ma_pcm_rb_commit_read :: "'a ma_pcm_rb \<Rightarrow> nat \<Rightarrow> 'a ma_pcm_rb" where
  "ma_pcm_rb_commit_read rb n =
     (let offset = rb_read rb + n in
      if rb_size rb < offset then rb
      else if offset = rb_size rb then rb\<lparr>rb_read := 0, rb_read_flag := \<not> rb_read_flag rb\<rparr>
      else rb\<lparr>rb_read := offset\<rparr>)"

definition ma_pcm_rb_acquire_write :: "'a ma_pcm_rb \<Rightarrow> nat \<Rightarrow> nat" where
  "ma_pcm_rb_acquire_write rb n =
     (let available = (if rb_write_flag rb = rb_read_flag rb then rb_size rb - rb_write rb else rb_read rb - rb_write rb)
      in if available < n then available else n)"

definition ma_pcm_rb_commit_write :: "'a ma_pcm_rb \<Rightarrow> nat \<Rightarrow> 'a ma_pcm_rb" where
  "ma_pcm_rb_commit_write rb n =
     (let offset = rb_write rb + n in
      if rb_size rb < offset then rb
      else if offset = rb_size rb then rb\<lparr>rb_write := 0, rb_write_flag := \<not> rb_write_flag rb\<rparr>
      else rb\<lparr>rb_write := offset\<rparr>)"

definition ma_pcm_rb_seek_read :: "'a ma_pcm_rb \<Rightarrow> nat \<Rightarrow> 'a ma_pcm_rb" where
  "ma_pcm_rb_seek_read rb n =
     (if rb_size rb < n then rb
      else if rb_read_flag rb = rb_write_flag rb then
        rb\<lparr>rb_read := (if rb_write rb < rb_read rb + n then rb_write rb else rb_read rb + n)\<rparr>
      else if rb_size rb \<le> rb_read rb + n then
        rb\<lparr>rb_read := rb_read rb + n - rb_size rb, rb_read_flag := \<not> rb_read_flag rb\<rparr>
      else rb\<lparr>rb_read := rb_read rb + n\<rparr>)"

definition ma_pcm_rb_available_read :: "'a ma_pcm_rb \<Rightarrow> nat" where
  "ma_pcm_rb_available_read rb =
     (if rb_read_flag rb = rb_write_flag rb then rb_write rb - rb_read rb
      else rb_write rb + (rb_size rb - rb_read rb))"

text \<open>What a caller does with a section: reads it all and commits it, or fills it and commits it.\<close>

definition rb_take :: "'a ma_pcm_rb \<Rightarrow> nat \<Rightarrow> 'a list \<times> 'a ma_pcm_rb" where
  "rb_take rb n =
     (let n = ma_pcm_rb_acquire_read rb n
      in (take n (drop (rb_read rb) (rb_data rb)), ma_pcm_rb_commit_read rb n))"

definition rb_give :: "'a ma_pcm_rb \<Rightarrow> 'a list \<Rightarrow> nat \<times> 'a ma_pcm_rb" where
  "rb_give rb xs =
     (let n = ma_pcm_rb_acquire_write rb (length xs);
          filled = rb\<lparr>rb_data := take (rb_write rb) (rb_data rb) @ take n xs @ drop (rb_write rb + n) (rb_data rb)\<rparr>
      in (n, ma_pcm_rb_commit_write filled n))"

section \<open>The loops over its sections\<close>

text \<open>Until all is there, or a section is empty.\<close>

function take_loop :: "('q \<Rightarrow> nat \<Rightarrow> 'a list \<times> 'q) \<Rightarrow> 'q \<Rightarrow> nat \<Rightarrow> 'a list \<times> 'q" where
  "take_loop step q n =
     (if n = 0 then ([], q)
      else case step q n of (xs, q) \<Rightarrow>
        if xs = [] then ([], q)
        else case take_loop step q (n - length xs) of (ys, q) \<Rightarrow> (xs @ ys, q))"
  by pat_completeness auto
termination by (relation "measure (\<lambda>(_, _, n). n)") auto

function give_loop :: "('q \<Rightarrow> 'a list \<Rightarrow> nat \<times> 'q) \<Rightarrow> 'q \<Rightarrow> 'a list \<Rightarrow> nat \<times> 'q" where
  "give_loop step q xs =
     (if xs = [] then (0, q)
      else case step q xs of (n, q) \<Rightarrow>
        if n = 0 then (0, q)
        else case give_loop step q (drop n xs) of (m, q) \<Rightarrow> (n + m, q))"
  by pat_completeness auto
termination by (relation "measure (\<lambda>(_, _, xs). length xs)") auto

declare take_loop.simps [simp del] give_loop.simps [simp del]

section \<open>A bounded queue\<close>

text \<open>What the loops rely on: a step takes the first items, or gives the first of those offered, and takes or
  gives none only when there is none, or no room.\<close>

locale frame_queue =
  fixes taking :: "'q \<Rightarrow> nat \<Rightarrow> 'a list \<times> 'q" and giving :: "'q \<Rightarrow> 'a list \<Rightarrow> nat \<times> 'q"
    and items :: "'q \<Rightarrow> 'a list" and cap :: "'q \<Rightarrow> nat" and ok :: "'q \<Rightarrow> bool"
  assumes bounded: "ok q \<Longrightarrow> length (items q) \<le> cap q"
    and takes: "ok q \<Longrightarrow> taking q n = (xs, q') \<Longrightarrow>
      ok q' \<and> cap q' = cap q \<and> items q = xs @ items q' \<and> length xs \<le> n"
    and takes_some: "ok q \<Longrightarrow> 0 < n \<Longrightarrow> items q \<noteq> [] \<Longrightarrow> fst (taking q n) \<noteq> []"
    and gives: "ok q \<Longrightarrow> giving q xs = (n, q') \<Longrightarrow>
      ok q' \<and> cap q' = cap q \<and> items q' = items q @ take n xs \<and> n \<le> length xs"
    and gives_some: "ok q \<Longrightarrow> xs \<noteq> [] \<Longrightarrow> length (items q) < cap q \<Longrightarrow> 0 < fst (giving q xs)"
begin

lemma take_loop_queue:
  "ok q \<Longrightarrow> take_loop taking q n = (xs, q') \<Longrightarrow>
   ok q' \<and> cap q' = cap q \<and> xs = take n (items q) \<and> items q' = drop n (items q)"
proof (induction n arbitrary: q xs q' rule: less_induct)
  case (less n)
  show ?case
  proof (cases "n = 0")
    case True
    then show ?thesis using less.prems by (simp add: take_loop.simps)
  next
    case False
    obtain ys r where step: "taking q n = (ys, r)" by force
    from takes [OF less.prems(1) this]
    have r: "ok r" "cap r = cap q" "items q = ys @ items r" "length ys \<le> n" by auto
    show ?thesis
    proof (cases "ys = []")
      case True
      then have "items q = []" using takes_some [OF less.prems(1), of n] False step by auto
      then show ?thesis using less.prems r step False True by (simp add: take_loop.simps)
    next
      case ys: False
      obtain zs s where rest: "take_loop taking r (n - length ys) = (zs, s)" by force
      have "n - length ys < n" using ys False by simp
      from less.IH [OF this r(1) rest] show ?thesis
        using less.prems(2) step rest False ys r by (simp add: take_loop.simps [of _ q])
    qed
  qed
qed

lemma give_loop_queue:
  "ok q \<Longrightarrow> give_loop giving q xs = (n, q') \<Longrightarrow>
   ok q' \<and> cap q' = cap q \<and> n = min (length xs) (cap q - length (items q)) \<and> items q' = items q @ take n xs"
proof (induction xs arbitrary: q n q' rule: length_induct)
  case (1 xs)
  show ?case
  proof (cases "xs = []")
    case True
    then show ?thesis using "1.prems" by (simp add: give_loop.simps)
  next
    case False
    obtain m r where step: "giving q xs = (m, r)" by force
    from gives [OF "1.prems"(1) this]
    have r: "ok r" "cap r = cap q" "items r = items q @ take m xs" "m \<le> length xs" by auto
    show ?thesis
    proof (cases "m = 0")
      case True
      then have "cap q \<le> length (items q)" using gives_some [OF "1.prems"(1) False] step by fastforce
      then show ?thesis using "1.prems" r step False True by (simp add: give_loop.simps)
    next
      case m: False
      obtain k s where rest: "give_loop giving r (drop m xs) = (k, s)" by force
      have "length (drop m xs) < length xs" using m False by simp
      moreover have "length (items r) \<le> cap r" by (rule bounded) (rule r)
      ultimately have s: "ok s" "cap s = cap r" "k = min (length xs - m) (cap r - length (items r))"
        "items s = items r @ take k (drop m xs)" "length (items r) \<le> cap r"
        using "1.IH" [rule_format, OF _ r(1) rest] by auto
      have n: "n = m + k" "q' = s"
        using "1.prems"(2) step rest False m by (simp_all add: give_loop.simps [of _ q])
      then have "items q' = items q @ take n xs" using s r by (simp add: take_add)
      moreover have "length (items q) + m \<le> cap q" using s r by simp
      then have "n = min (length xs) (cap q - length (items q))" using n s r by (auto simp: min_def)
      ultimately show ?thesis using n s r by simp
    qed
  qed
qed

end

section \<open>The ring is one\<close>

definition rb_ok :: "'a ma_pcm_rb \<Rightarrow> bool" where
  "rb_ok rb \<longleftrightarrow> rb_read rb < rb_size rb \<and> rb_write rb < rb_size rb \<and>
     (if rb_read_flag rb = rb_write_flag rb then rb_read rb \<le> rb_write rb else rb_write rb \<le> rb_read rb)"

definition rb_items :: "'a ma_pcm_rb \<Rightarrow> 'a list" where
  "rb_items rb =
     (if rb_read_flag rb = rb_write_flag rb then take (rb_write rb - rb_read rb) (drop (rb_read rb) (rb_data rb))
      else drop (rb_read rb) (rb_data rb) @ take (rb_write rb) (rb_data rb))"

lemma rb_init: "0 < frames \<Longrightarrow> rb_ok (ma_pcm_rb_init zero frames)" "rb_items (ma_pcm_rb_init zero frames) = []"
  "rb_size (ma_pcm_rb_init zero frames) = frames"
  by (simp_all add: ma_pcm_rb_init_def rb_ok_def rb_size_def rb_items_def)

lemma length_rb_items: "rb_ok rb \<Longrightarrow> length (rb_items rb) = ma_pcm_rb_available_read rb"
  by (auto simp: rb_ok_def rb_items_def ma_pcm_rb_available_read_def rb_size_def)

lemma rb_take_queue:
  assumes "rb_ok rb" "rb_take rb n = (xs, rb')"
  shows "rb_ok rb' \<and> rb_size rb' = rb_size rb \<and> rb_items rb = xs @ rb_items rb' \<and> length xs \<le> n"
proof -
  obtain d r f w g where rb: "rb = \<lparr>rb_data = d, rb_read = r, rb_read_flag = f, rb_write = w, rb_write_flag = g\<rparr>"
    by (cases rb)
  define k where "k = ma_pcm_rb_acquire_read rb n"
  have xs: "xs = take k (drop r d)" "rb' = ma_pcm_rb_commit_read rb k"
    using assms(2) by (simp_all add: rb_take_def k_def Let_def rb)
  have split: "take m ys = take k ys @ take (m - k) (drop k ys)" if "k \<le> m" for m and ys :: "'a list"
    using that take_add [of k "m - k" ys] by simp
  show ?thesis
  proof (cases "f = g")
    case True
    then have "r \<le> w" "w < length d" "k \<le> w - r" "k \<le> n"
      using assms(1) by (auto simp: rb_ok_def rb_size_def k_def ma_pcm_rb_acquire_read_def Let_def rb)
    moreover from this have "rb' = rb\<lparr>rb_read := r + k\<rparr>"
      by (simp add: xs(2) ma_pcm_rb_commit_read_def Let_def rb_size_def rb)
    ultimately show ?thesis
      using True split [of "w - r" "drop r d"] by (auto simp: xs(1) rb rb_ok_def rb_size_def rb_items_def add.commute)
  next
    case False
    then have "w \<le> r" "r < length d" "k \<le> length d - r" "k \<le> n"
      using assms(1) by (auto simp: rb_ok_def rb_size_def k_def ma_pcm_rb_acquire_read_def Let_def rb)
    moreover from this have "rb' = (if r + k = length d then rb\<lparr>rb_read := 0, rb_read_flag := \<not> f\<rparr> else rb\<lparr>rb_read := r + k\<rparr>)"
      by (simp add: xs(2) ma_pcm_rb_commit_read_def Let_def rb_size_def rb)
    moreover have "drop r d = take k (drop r d) @ drop (r + k) d" by (metis append_take_drop_id drop_drop add.commute)
    ultimately show ?thesis
      using False by (auto simp: xs(1) rb rb_ok_def rb_size_def rb_items_def)
  qed
qed

lemma rb_give_queue:
  assumes "rb_ok rb" "rb_give rb xs = (n, rb')"
  shows "rb_ok rb' \<and> rb_size rb' = rb_size rb \<and> rb_items rb' = rb_items rb @ take n xs \<and> n \<le> length xs"
proof -
  obtain d r f w g where rb: "rb = \<lparr>rb_data = d, rb_read = r, rb_read_flag = f, rb_write = w, rb_write_flag = g\<rparr>"
    by (cases rb)
  have n: "n = ma_pcm_rb_acquire_write rb (length xs)"
    and rb': "rb' = ma_pcm_rb_commit_write (rb\<lparr>rb_data := take w d @ take n xs @ drop (w + n) d\<rparr>) n"
    using assms(2) by (auto simp: rb_give_def Let_def rb)
  show ?thesis
  proof (cases "f = g")
    case True
    then have "r \<le> w" "w < length d" "n \<le> length d - w" "n \<le> length xs"
      using assms(1) by (auto simp: rb_ok_def rb_size_def n ma_pcm_rb_acquire_write_def Let_def rb)
    then show ?thesis
      using True by (auto simp: rb' rb drop_take rb_ok_def rb_size_def rb_items_def ma_pcm_rb_commit_write_def Let_def)
  next
    case False
    then have "w \<le> r" "r < length d" "n \<le> r - w" "n \<le> length xs"
      using assms(1) by (auto simp: rb_ok_def rb_size_def n ma_pcm_rb_acquire_write_def Let_def rb)
    then show ?thesis
      using False by (auto simp: rb' rb rb_ok_def rb_size_def rb_items_def ma_pcm_rb_commit_write_def Let_def)
  qed
qed

interpretation rb: frame_queue rb_take rb_give rb_items rb_size rb_ok
proof unfold_locales
  fix q :: "'a ma_pcm_rb"
  assume q: "rb_ok q"
  show "length (rb_items q) \<le> rb_size q"
    using q by (auto simp: length_rb_items ma_pcm_rb_available_read_def rb_ok_def split: if_splits)
  show "fst (rb_take q n) \<noteq> []" if "0 < n" "rb_items q \<noteq> []" for n
    using q that by (auto simp: rb_take_def rb_items_def rb_ok_def rb_size_def ma_pcm_rb_acquire_read_def Let_def)
  show "0 < fst (rb_give q xs)" if "xs \<noteq> []" "length (rb_items q) < rb_size q" for xs
    using q that by (auto simp: rb_give_def rb_items_def rb_ok_def rb_size_def ma_pcm_rb_acquire_write_def Let_def)
qed (use rb_take_queue rb_give_queue in blast)+

text \<open>Seeking past what is held empties the ring.\<close>

lemma rb_seek_all:
  assumes "rb_ok rb"
  shows "rb_ok (ma_pcm_rb_seek_read rb (ma_pcm_rb_available_read rb))"
    "rb_items (ma_pcm_rb_seek_read rb (ma_pcm_rb_available_read rb)) = []"
    "rb_size (ma_pcm_rb_seek_read rb (ma_pcm_rb_available_read rb)) = rb_size rb"
  using assms by (auto simp: rb_ok_def rb_size_def rb_items_def ma_pcm_rb_seek_read_def ma_pcm_rb_available_read_def
      split: if_splits)

end
