(* ===== verification/Sound_Card.thy ===== *)
theory Sound_Card
  imports Sound_Ring Connection
begin

text \<open>
  The sound card of \<open>tools/s2s-cli.cpp\<close>: the audio callback and the two calls of the writer that queue an
  answer and drop it. The callback runs whole between two steps of the others. The counters are 64 bits wide
  and count samples, which takes them longer to wrap than any process runs.
\<close>

section \<open>The state the callback shares\<close>

definition CLI_FRAME_SAMPLES :: nat where "CLI_FRAME_SAMPLES = 480"
definition CLI_CAPTURE_SECONDS :: nat where "CLI_CAPTURE_SECONDS = 2"
definition CLI_PLAYBACK_SECONDS :: nat where "CLI_PLAYBACK_SECONDS = 120"

text \<open>\<open>au_given\<close> and \<open>au_played\<close> are the far ends of the playback: every sample its ring took, and every one
  of them the loudspeaker was given, in order.\<close>

record Audio =
  au_capture :: "(f32 \<times> f32) ma_pcm_rb"
  au_playback :: "f32 ma_pcm_rb"
  au_flush :: bool
  au_heard :: nat
  au_consumed :: nat
  au_given :: "f32 list"
  au_played :: "f32 list"

definition audio_init :: Audio where
  "audio_init =
     \<lparr>au_capture = ma_pcm_rb_init (0, 0) (CLI_CAPTURE_SECONDS * S2S_INPUT_RATE),
      au_playback = ma_pcm_rb_init 0 (CLI_PLAYBACK_SECONDS * S2S_INPUT_RATE),
      au_flush = False, au_heard = 0, au_consumed = 0, au_given = [], au_played = []\<rparr>"

section \<open>The callback\<close>

text \<open>What the client asked to drop.\<close>

definition drop_queued :: "Audio \<Rightarrow> Audio" where
  "drop_queued audio =
     (if au_flush audio then
        let dropped = ma_pcm_rb_available_read (au_playback audio)
        in audio\<lparr>au_playback := ma_pcm_rb_seek_read (au_playback audio) dropped,
                 au_consumed := au_consumed audio + dropped, au_flush := False\<rparr>
      else audio)"

definition play_queued :: "nat \<Rightarrow> Audio \<Rightarrow> f32 list \<times> Audio" where
  "play_queued n_frames audio =
     (case take_loop rb_take (au_playback audio) n_frames of (out, playback) \<Rightarrow>
        let played = length out
        in (out @ replicate (n_frames - played) 0,
            audio\<lparr>au_playback := playback, au_heard := au_heard audio + played,
                  au_consumed := au_consumed audio + played, au_played := au_played audio @ out\<rparr>))"

text \<open>A period: what the microphone gave, and what the loudspeaker is given meanwhile.\<close>

definition on_audio :: "Audio \<Rightarrow> f32 list \<Rightarrow> f32 list \<times> Audio" where
  "on_audio audio input =
     (case play_queued (length input) (drop_queued audio) of (out, audio) \<Rightarrow>
        case give_loop rb_give (au_capture audio) (zip input out) of (_, capture) \<Rightarrow>
          (out, audio\<lparr>au_capture := capture\<rparr>))"

section \<open>The reader's frame of the microphone\<close>

text \<open>A loop with no way out of an empty section: \<^const>\<open>None\<close> is one that spins.\<close>

partial_function (option) grab_loop :: "'a ma_pcm_rb \<Rightarrow> nat \<Rightarrow> ('a list \<times> 'a ma_pcm_rb) option" where
  "grab_loop rb need =
     (if need = 0 then Some ([], rb)
      else case rb_take rb need of (xs, rb) \<Rightarrow>
        Option.bind (grab_loop rb (need - length xs)) (\<lambda>(ys, rb). Some (xs @ ys, rb)))"

text \<open>A frame, when one is ready.\<close>

definition grab_frame :: "Audio \<Rightarrow> ((f32 \<times> f32) list option \<times> Audio) option" where
  "grab_frame audio =
     (if ma_pcm_rb_available_read (au_capture audio) < CLI_FRAME_SAMPLES then Some (None, audio)
      else case grab_loop (au_capture audio) CLI_FRAME_SAMPLES of
          None \<Rightarrow> None
        | Some (pairs, capture) \<Rightarrow> Some (Some pairs, audio\<lparr>au_capture := capture\<rparr>))"

section \<open>The writer's calls\<close>

text \<open>What runs beside the writer: a period of the callback, or the reader taking a frame.\<close>

datatype sound_move = Period "f32 list" | Grab

definition sound_step :: "Audio \<Rightarrow> sound_move \<Rightarrow> Audio" where
  "sound_step audio move =
     (case move of
        Period input \<Rightarrow> snd (on_audio audio input)
      | Grab \<Rightarrow> (case grab_frame audio of Some (_, audio) \<Rightarrow> audio | None \<Rightarrow> audio))"

text \<open>The wait for the callback, \<open>polls\<close> being whether the program was told to stop when it looked, and what
  ran while it slept; \<^const>\<open>None\<close> while it waits.\<close>

fun flush_wait :: "(bool \<times> sound_move list) list \<Rightarrow> Audio \<Rightarrow> Audio option" where
  "flush_wait [] audio = (if au_flush audio then None else Some audio)"
| "flush_wait ((stop, moves) # polls) audio =
     (if au_flush audio \<and> \<not> stop then flush_wait polls (foldl sound_step audio moves) else Some audio)"

definition audio_flush :: "(bool \<times> sound_move list) list \<Rightarrow> Audio \<Rightarrow> Audio option" where
  "audio_flush polls audio = flush_wait polls (audio\<lparr>au_flush := True\<rparr>)"

text \<open>How many samples the loudspeaker's queue took, \<open>gaps\<close> being what runs before each of its sections.\<close>

function audio_play :: "sound_move list list \<Rightarrow> Audio \<Rightarrow> f32 list \<Rightarrow> nat \<times> Audio" where
  "audio_play gaps audio pcm =
     (if pcm = [] then (0, audio)
      else
        let audio = foldl sound_step audio (case gaps of [] \<Rightarrow> [] | moves # _ \<Rightarrow> moves) in
        case rb_give (au_playback audio) pcm of (n, playback) \<Rightarrow>
          if n = 0 then (0, audio)
          else case audio_play (tl gaps)
                 (audio\<lparr>au_playback := playback, au_given := au_given audio @ take n pcm\<rparr>) (drop n pcm) of
              (m, audio) \<Rightarrow> (n + m, audio))"
  by pat_completeness auto
termination by (relation "measure (\<lambda>(_, _, pcm). length pcm)") auto

declare audio_play.simps [simp del]

section \<open>Nothing of the answer is lost\<close>

text \<open>The counters are those of the far ends, and what was given is what was consumed and what is queued.\<close>

definition audio_ok :: "Audio \<Rightarrow> bool" where
  "audio_ok a \<longleftrightarrow> rb_ok (au_capture a) \<and> rb_ok (au_playback a) \<and>
     au_heard a = length (au_played a) \<and> au_heard a \<le> au_consumed a \<and>
     au_consumed a \<le> length (au_given a) \<and>
     rb_items (au_playback a) = drop (au_consumed a) (au_given a)"

abbreviation queued_of :: "Audio \<Rightarrow> f32 list" where
  "queued_of a \<equiv> rb_items (au_playback a)"

lemma audio_ok_init: "audio_ok audio_init"
proof -
  have "0 < CLI_CAPTURE_SECONDS * S2S_INPUT_RATE" "0 < CLI_PLAYBACK_SECONDS * S2S_INPUT_RATE"
    by (simp_all add: CLI_CAPTURE_SECONDS_def CLI_PLAYBACK_SECONDS_def S2S_INPUT_RATE_def)
  then show ?thesis by (simp add: audio_ok_def audio_init_def rb_init)
qed

text \<open>What a period does to the playback.\<close>

definition audible :: "Audio \<Rightarrow> f32 list" where
  "audible a = (if au_flush a then [] else queued_of a)"

lemma drop_queued_ok:
  assumes "audio_ok a"
  shows "audio_ok (drop_queued a)" "queued_of (drop_queued a) = audible a" "\<not> au_flush (drop_queued a)"
    "au_given (drop_queued a) = au_given a" "au_played (drop_queued a) = au_played a"
    "au_capture (drop_queued a) = au_capture a" "rb_size (au_playback (drop_queued a)) = rb_size (au_playback a)"
proof -
  have rb: "rb_ok (au_playback a)" and items: "queued_of a = drop (au_consumed a) (au_given a)"
    using assms by (simp_all add: audio_ok_def)
  have n: "ma_pcm_rb_available_read (au_playback a) = length (au_given a) - au_consumed a"
    using length_rb_items [OF rb] items by simp
  note seek = rb_seek_all [OF rb]
  show "audio_ok (drop_queued a)" "queued_of (drop_queued a) = audible a" "\<not> au_flush (drop_queued a)"
    "au_given (drop_queued a) = au_given a" "au_played (drop_queued a) = au_played a"
    "au_capture (drop_queued a) = au_capture a" "rb_size (au_playback (drop_queued a)) = rb_size (au_playback a)"
    using assms seek unfolding n by (simp_all add: drop_queued_def audio_ok_def audible_def Let_def n)
qed

lemma play_queued_ok:
  assumes "audio_ok a" "play_queued n a = (out, a')"
  shows "audio_ok a'" "queued_of a' = drop n (queued_of a)" "au_flush a' = au_flush a"
    "au_given a' = au_given a" "au_played a' = au_played a @ take n (queued_of a)"
    "out = take n (queued_of a) @ replicate (n - length (queued_of a)) 0" "au_capture a' = au_capture a"
    "rb_size (au_playback a') = rb_size (au_playback a)"
proof -
  obtain xs rb where loop: "take_loop rb_take (au_playback a) n = (xs, rb)" by force
  have ok: "rb_ok rb" "rb_size rb = rb_size (au_playback a)" "xs = take n (queued_of a)" "rb_items rb = drop n (queued_of a)"
    using rb.take_loop_queue [OF _ loop] assms(1) by (auto simp: audio_ok_def)
  have a': "a' = a\<lparr>au_playback := rb, au_heard := au_heard a + length xs,
      au_consumed := au_consumed a + length xs, au_played := au_played a @ xs\<rparr>"
    and out: "out = xs @ replicate (n - length xs) 0"
    using assms(2) by (auto simp: play_queued_def loop Let_def)
  show "queued_of a' = drop n (queued_of a)" "au_flush a' = au_flush a"
    "au_given a' = au_given a" "au_played a' = au_played a @ take n (queued_of a)" "au_capture a' = au_capture a"
    "rb_size (au_playback a') = rb_size (au_playback a)"
    using ok by (simp_all add: a')
  show "out = take n (queued_of a) @ replicate (n - length (queued_of a)) 0"
    by (simp add: out ok(3) min_def)
  have "drop n (drop c g) = drop (c + min (length g - c) n) g" for c :: nat and g :: "f32 list"
    by (cases "n \<le> length g - c") (simp_all add: min_def add.commute)
  moreover have "c + min (g - c) n \<le> g" if "c \<le> g" for c g :: nat using that by simp
  ultimately show "audio_ok a'" using assms(1) ok by (simp add: a' audio_ok_def)
qed

lemma on_audio_ok:
  assumes "audio_ok a" "on_audio a input = (out, a')"
  shows "audio_ok a'" "queued_of a' = drop (length input) (audible a)" "\<not> au_flush a'" "au_given a' = au_given a"
    "au_played a' = au_played a @ take (length input) (audible a)" "length out = length input"
    "rb_items (au_capture a') = rb_items (au_capture a) @
       take (rb_size (au_capture a) - length (rb_items (au_capture a))) (zip input out)"
    "rb_size (au_playback a') = rb_size (au_playback a)"
proof -
  obtain a1 where play: "play_queued (length input) (drop_queued a) = (out, a1)"
    using assms(2) by (auto simp: on_audio_def split: prod.splits)
  obtain k capture where give: "give_loop rb_give (au_capture a1) (zip input out) = (k, capture)" by force
  have a': "a' = a1\<lparr>au_capture := capture\<rparr>" using assms(2) play give by (simp add: on_audio_def)
  note d = drop_queued_ok [OF assms(1)]
  note p = play_queued_ok [OF d(1) play]
  have "rb_ok (au_capture a1)" using p(1) by (simp add: audio_ok_def)
  note g = rb.give_loop_queue [OF this give]
  show "queued_of a' = drop (length input) (audible a)" "\<not> au_flush a'" "au_given a' = au_given a"
    "au_played a' = au_played a @ take (length input) (audible a)" "rb_size (au_playback a') = rb_size (au_playback a)"
    using d(2-) p(2-) by (simp_all add: a')
  show "audio_ok a'" using p(1) g by (simp add: a' audio_ok_def)
  show len: "length out = length input" using p(6) by simp
  have "take (min k m) zs = take k zs" if "length zs = m" for k m and zs :: "(f32 \<times> f32) list"
    using that by (simp add: min_def)
  then show "rb_items (au_capture a') = rb_items (au_capture a) @
       take (rb_size (au_capture a) - length (rb_items (au_capture a))) (zip input out)"
    using g p(7) d(6) len by (simp add: a' min.commute)
qed

section \<open>Beside the writer\<close>

text \<open>What the others may do to the playback: give the loudspeaker the next samples; or, once the client asked
  for it, drop them all.\<close>

definition sound_goes :: "Audio \<Rightarrow> Audio \<Rightarrow> bool" where
  "sound_goes a a' \<longleftrightarrow> audio_ok a' \<and> au_given a' = au_given a \<and> rb_size (au_playback a') = rb_size (au_playback a) \<and>
     (if au_flush a then au_played a' = au_played a \<and> queued_of a' = (if au_flush a' then queued_of a else [])
      else \<not> au_flush a' \<and> au_played a' @ queued_of a' = au_played a @ queued_of a \<and> prefix (au_played a) (au_played a'))"

lemma sound_goes_refl: "audio_ok a \<Longrightarrow> sound_goes a a"
  by (simp add: sound_goes_def)

lemma sound_goes_trans:
  assumes "sound_goes a b" "sound_goes b c"
  shows "sound_goes a c"
proof (cases "au_flush a")
  case flush: True
  show ?thesis
  proof (cases "au_flush b")
    case False
    then have "queued_of b = []" "prefix (au_played b) (au_played c)" "au_played c @ queued_of c = au_played b"
      using assms flush by (simp_all add: sound_goes_def)
    then have "au_played c = au_played b" "queued_of c = []" by (auto simp: prefix_def)
    then show ?thesis using assms flush False by (simp add: sound_goes_def)
  qed (use assms flush in \<open>simp add: sound_goes_def\<close>)
next
  case False
  then show ?thesis using assms by (simp add: sound_goes_def) (blast intro: prefix_order.trans)
qed

lemma on_audio_goes: "audio_ok a \<Longrightarrow> on_audio a input = (out, a') \<Longrightarrow> sound_goes a a'"
  using on_audio_ok [of a input out a'] by (simp add: sound_goes_def audible_def)

lemma grab_loop_items:
  "rb_ok rb \<Longrightarrow> need \<le> length (rb_items rb) \<Longrightarrow>
   \<exists>rb'. grab_loop rb need = Some (take need (rb_items rb), rb') \<and> rb_ok rb' \<and> rb_size rb' = rb_size rb \<and>
     rb_items rb' = drop need (rb_items rb)"
proof (induction need arbitrary: rb rule: less_induct)
  case (less need)
  show ?case
  proof (cases "need = 0")
    case True
    then show ?thesis using less.prems by (subst grab_loop.simps) simp
  next
    case False
    obtain xs r where step: "rb_take rb need = (xs, r)" by force
    from rb_take_queue [OF less.prems(1) step]
    have r: "rb_ok r" "rb_size r = rb_size rb" "rb_items rb = xs @ rb_items r" "length xs \<le> need" by auto
    have "rb_items rb \<noteq> []" using less.prems(2) False by auto
    then have "xs \<noteq> []" using rb.takes_some [OF less.prems(1), of need] False step by simp
    then have "need - length xs < need" using False by simp
    moreover have "need - length xs \<le> length (rb_items r)" using less.prems(2) r(3) by simp
    ultimately obtain r' where "grab_loop r (need - length xs) = Some (take (need - length xs) (rb_items r), r')"
      "rb_ok r'" "rb_size r' = rb_size r" "rb_items r' = drop (need - length xs) (rb_items r)"
      using less.IH [OF _ r(1)] by blast
    then show ?thesis using r False step by (subst grab_loop.simps) simp
  qed
qed

text \<open>The reader's loop has no way out of an empty section, and needs none: it takes what it saw was there.\<close>

lemma grab_frame_takes:
  assumes "audio_ok a"
  shows "\<exists>capture. rb_ok capture \<and> grab_frame a = Some
     (if length (rb_items (au_capture a)) < CLI_FRAME_SAMPLES then (None, a)
      else (Some (take CLI_FRAME_SAMPLES (rb_items (au_capture a))), a\<lparr>au_capture := capture\<rparr>))"
proof -
  have rb: "rb_ok (au_capture a)" using assms by (simp add: audio_ok_def)
  show ?thesis
  proof (cases "length (rb_items (au_capture a)) < CLI_FRAME_SAMPLES")
    case True
    then show ?thesis using rb by (auto simp: grab_frame_def length_rb_items [OF rb, symmetric])
  next
    case False
    then have "CLI_FRAME_SAMPLES \<le> length (rb_items (au_capture a))" by simp
    from grab_loop_items [OF rb this] show ?thesis
      using False by (auto simp: grab_frame_def length_rb_items [OF rb, symmetric])
  qed
qed

lemma sound_step_goes:
  assumes "audio_ok a"
  shows "sound_goes a (sound_step a m)"
proof (cases m)
  case (Period input)
  obtain out a' where "on_audio a input = (out, a')" by force
  then show ?thesis using on_audio_goes assms by (auto simp: sound_step_def Period)
next
  case Grab
  from grab_frame_takes [OF assms] obtain capture where "rb_ok capture" "grab_frame a = Some
     (if length (rb_items (au_capture a)) < CLI_FRAME_SAMPLES then (None, a)
      else (Some (take CLI_FRAME_SAMPLES (rb_items (au_capture a))), a\<lparr>au_capture := capture\<rparr>))" by blast
  then show ?thesis using assms by (auto simp: sound_step_def Grab sound_goes_def audio_ok_def)
qed

lemma sound_steps_go: "audio_ok a \<Longrightarrow> sound_goes a (foldl sound_step a moves)"
proof (induction moves arbitrary: a)
  case (Cons m moves)
  have "sound_goes a (sound_step a m)" by (rule sound_step_goes) (rule Cons.prems)
  moreover from this have "sound_goes (sound_step a m) (foldl sound_step (sound_step a m) moves)"
    by (intro Cons.IH) (simp add: sound_goes_def)
  ultimately show ?case by (simp add: sound_goes_trans [of a "sound_step a m"])
qed (simp add: sound_goes_refl)

lemma flush_wait_goes:
  "audio_ok a \<Longrightarrow> flush_wait polls a = Some a' \<Longrightarrow> list_all (\<lambda>(stop, _). \<not> stop) polls \<Longrightarrow> sound_goes a a' \<and> \<not> au_flush a'"
proof (induction polls a rule: flush_wait.induct)
  case (2 stop moves polls a)
  show ?case
  proof (cases "au_flush a")
    case True
    have "sound_goes a (foldl sound_step a moves)" by (rule sound_steps_go) (rule "2.prems")
    moreover from this have "audio_ok (foldl sound_step a moves)" by (simp add: sound_goes_def)
    ultimately show ?thesis using "2.IH" "2.prems" True sound_goes_trans by auto
  qed (use 2 sound_goes_refl in auto)
qed (auto simp: sound_goes_refl split: if_splits)

lemma audio_flush_drops:
  assumes "audio_ok a" "audio_flush polls a = Some a'" "list_all (\<lambda>(stop, _). \<not> stop) polls"
  shows "audio_ok a'" "queued_of a' = []" "\<not> au_flush a'" "au_given a' = au_given a" "au_played a' = au_played a"
proof -
  have "audio_ok (a\<lparr>au_flush := True\<rparr>)" using assms(1) by (simp add: audio_ok_def)
  from flush_wait_goes [OF this, of polls a'] assms(2,3)
  have *: "sound_goes (a\<lparr>au_flush := True\<rparr>) a'" "\<not> au_flush a'" by (simp_all add: audio_flush_def)
  then show "audio_ok a'" "queued_of a' = []" "\<not> au_flush a'" "au_given a' = au_given a" "au_played a' = au_played a"
    by (simp_all add: sound_goes_def)
qed

text \<open>One period is enough for the wait to end.\<close>

lemma flush_ends: "flush_wait ((False, [Period input]) # polls) a \<noteq> None"
proof -
  obtain out a' where *: "on_audio a input = (out, a')" by force
  have "\<not> au_flush a'"
  proof -
    have "\<not> au_flush (drop_queued a)" by (simp add: drop_queued_def Let_def)
    then show ?thesis
      using * by (auto simp: on_audio_def play_queued_def Let_def split: prod.splits)
  qed
  then show ?thesis using * by (cases polls) (auto simp: sound_step_def)
qed

lemma audio_play_queues:
  "audio_ok a \<Longrightarrow> \<not> au_flush a \<Longrightarrow> audio_play gaps a pcm = (n, a') \<Longrightarrow>
   audio_ok a' \<and> \<not> au_flush a' \<and> n \<le> length pcm \<and> au_given a' = au_given a @ take n pcm \<and>
   au_played a' @ queued_of a' = au_played a @ queued_of a @ take n pcm \<and> prefix (au_played a) (au_played a')"
proof (induction gaps a pcm arbitrary: n a' rule: audio_play.induct)
  case (1 gaps a pcm)
  show ?case
  proof (cases "pcm = []")
    case True
    then show ?thesis using "1.prems" by (simp add: audio_play.simps)
  next
    case False
    define b where "b = foldl sound_step a (case gaps of [] \<Rightarrow> [] | moves # _ \<Rightarrow> moves)"
    have b: "sound_goes a b" unfolding b_def by (rule sound_steps_go) (rule "1.prems")
    obtain k playback where give: "rb_give (au_playback b) pcm = (k, playback)" by force
    have "rb_ok (au_playback b)" using b by (simp add: sound_goes_def audio_ok_def)
    note g = rb_give_queue [OF this give]
    show ?thesis
    proof (cases "k = 0")
      case True
      then have "n = 0" "a' = b"
        using "1.prems"(3) False give by (simp_all add: audio_play.simps [of gaps] b_def [symmetric] Let_def)
      then show ?thesis using b "1.prems"(2) by (simp add: sound_goes_def)
    next
      case k: False
      define c where "c = b\<lparr>au_playback := playback, au_given := au_given b @ take k pcm\<rparr>"
      obtain m where rest: "audio_play (tl gaps) c (drop k pcm) = (m, a')" "n = k + m"
        using "1.prems"(3) False give k
        by (auto simp: audio_play.simps [of gaps] b_def [symmetric] c_def Let_def split: prod.splits)
      have "audio_ok c" "\<not> au_flush c"
        using b g "1.prems"(2) by (auto simp: c_def sound_goes_def audio_ok_def)
      from "1.IH" [OF False b_def give [symmetric] k, folded c_def, OF this rest(1)]
      have "audio_ok a' \<and> \<not> au_flush a' \<and> m \<le> length (drop k pcm) \<and> au_given a' = au_given c @ take m (drop k pcm) \<and>
        au_played a' @ queued_of a' = au_played c @ queued_of c @ take m (drop k pcm) \<and> prefix (au_played c) (au_played a')"
        by simp
      then show ?thesis
        using b g "1.prems"(2) rest(2) by (auto simp: c_def sound_goes_def take_add intro: prefix_order.trans)
    qed
  qed
qed

end
