(* ===== verification/Cli_Context.thy ===== *)
theory Cli_Context
  imports Sound_Card
begin

text \<open>
  What the client of \<open>tools/s2s-cli.cpp\<close> knows: the context the model is told, the display the user sees, and
  the frames of the engine that change them. \<open>color\<close> is whether the lines carry their colors; a frame for the
  engine is the list of its fields until the reader writes it.
\<close>

section \<open>Data\<close>

record Unit =
  un_text :: string
  un_start :: nat

record Context =
  cx_history :: "rt_message list"
  cx_user_item :: string
  cx_units :: "Unit list"
  cx_answering :: bool
  cx_answer_done :: bool
  cx_queued :: nat
  cx_heard_base :: nat
  cx_consumed_base :: nat

definition Context_new :: Context where
  "Context_new =
     \<lparr>cx_history = [], cx_user_item = [], cx_units = [], cx_answering = False, cx_answer_done = False,
      cx_queued = 0, cx_heard_base = 0, cx_consumed_base = 0\<rparr>"

text \<open>\<open>dp_out\<close> is what was written on stdout.\<close>

record Display =
  dp_revision :: int
  dp_line_open :: bool
  dp_written :: bool
  dp_out :: string

definition Display_new :: Display where
  "Display_new = \<lparr>dp_revision = 0, dp_line_open = False, dp_written = False, dp_out = []\<rparr>"

record Cli =
  cli_aec :: bool
  cli_audio :: Audio
  cli_context :: Context
  cli_display :: Display
  cli_outbox :: "rt_frame list"

definition Cli_new :: Cli where
  "Cli_new = \<lparr>cli_aec = True, cli_audio = audio_init, cli_context = Context_new, cli_display = Display_new, cli_outbox = []\<rparr>"

section \<open>The display\<close>

abbreviation ESC :: char where "ESC \<equiv> CHR 0x1B"

definition CLI_COLOR_USER :: string where "CLI_COLOR_USER = ESC # ''[32m''"
definition CLI_COLOR_ASSISTANT :: string where "CLI_COLOR_ASSISTANT = ESC # ''[36m''"
definition CLI_COLOR_TOOL :: string where "CLI_COLOR_TOOL = ESC # ''[97m''"
definition CLI_COLOR_FAILED :: string where "CLI_COLOR_FAILED = ESC # ''[31m''"
definition CLI_COLOR_RESET :: string where "CLI_COLOR_RESET = ESC # ''[0m''"

definition print :: "string \<Rightarrow> Display \<Rightarrow> Display" where
  "print s d = d\<lparr>dp_out := dp_out d @ s\<rparr>"

definition display_answer_start :: "Display \<Rightarrow> Display" where
  "display_answer_start d = d\<lparr>dp_written := False\<rparr>"

definition display_answer_end :: "bool \<Rightarrow> Display \<Rightarrow> Display" where
  "display_answer_end color d =
     (if dp_line_open d then (print ((if color then CLI_COLOR_RESET else []) @ [LF]) d)\<lparr>dp_line_open := False\<rparr> else d)"

definition display_user :: "bool \<Rightarrow> string \<Rightarrow> bool \<Rightarrow> Display \<Rightarrow> Display" where
  "display_user color txt revised d =
     (let d = display_answer_end color d;
          d = d\<lparr>dp_revision := (if revised then dp_revision d + 1 else 0)\<rparr>
      in print ((if color then CLI_COLOR_USER else []) @ ''[User-'' @ int_str (dp_revision d) @ ''] '' @ c_str txt @
           (if color then CLI_COLOR_RESET else []) @ [LF]) d)"

definition display_append :: "bool \<Rightarrow> string \<Rightarrow> Display \<Rightarrow> Display" where
  "display_append color txt d =
     (let d = (if dp_line_open d then d
               else (print ((if color then CLI_COLOR_ASSISTANT else []) @ ''[Assistant] '') d)\<lparr>dp_line_open := True\<rparr>)
      in print (c_str txt) d)"

definition display_text :: "bool \<Rightarrow> string \<Rightarrow> Display \<Rightarrow> Display" where
  "display_text color delta d = display_append color delta (d\<lparr>dp_written := True\<rparr>)"

definition display_unit :: "bool \<Rightarrow> string \<Rightarrow> Display \<Rightarrow> Display" where
  "display_unit color unit d =
     (if \<not> dp_written d then display_append color (if dp_line_open d then '' '' @ unit else unit) d else d)"

definition display_tool_start :: "bool \<Rightarrow> string \<Rightarrow> Display \<Rightarrow> Display" where
  "display_tool_start color name d = display_append color ((if color then CLI_COLOR_TOOL else []) @ ''<'' @ name) d"

definition display_tool_done :: "bool \<Rightarrow> bool \<Rightarrow> nat \<Rightarrow> nat \<Rightarrow> Display \<Rightarrow> Display" where
  "display_tool_done color ok ms bytes d =
     (let tail = (if ok then '' '' @ nat_str ms @ '' ms '' @ nat_str bytes @ '' bytes>''
                  else (if color then CLI_COLOR_FAILED else []) @ '' failed>'')
      in display_append color (tail @ (if color then CLI_COLOR_ASSISTANT else [])) d)"

section \<open>The context\<close>

definition history_entry :: "rt_message \<Rightarrow> json" where
  "history_entry m =
     JObj ([(''role'', JStr (rt_role m)), (''content'', JStr (rt_content m))] @
       (if rt_item m \<noteq> [] then [(''item'', JStr (rt_item m))] else []))"

definition context_history :: "Context \<Rightarrow> rt_frame" where
  "context_history cx =
     add_field (rt_frame_begin ''conversation.history'') ''messages'' (JArr (map history_entry (cx_history cx)))"

text \<open>Whether the transcript replaced that of the same turn, and the context.\<close>

definition context_user :: "Context \<Rightarrow> string \<Rightarrow> string \<Rightarrow> bool \<times> Context" where
  "context_user cx item transcript =
     (let h = cx_history cx;
          revised = (item \<noteq> [] \<and> item = cx_user_item cx \<and> h \<noteq> [] \<and> rt_role (last h) = ''user'');
          h = (if revised then butlast h @ [(last h)\<lparr>rt_content := transcript\<rparr>]
               else h @ [\<lparr>rt_role = ''user'', rt_content = transcript, rt_item = item\<rparr>])
      in (revised, cx\<lparr>cx_history := h, cx_user_item := item\<rparr>))"

definition context_open :: "Audio \<Rightarrow> Context \<Rightarrow> Context" where
  "context_open audio cx =
     cx\<lparr>cx_answering := True, cx_answer_done := False, cx_queued := 0, cx_heard_base := au_heard audio,
        cx_consumed_base := au_consumed audio\<rparr>"

definition context_played :: "Context \<Rightarrow> Audio \<Rightarrow> bool" where
  "context_played cx audio \<longleftrightarrow>
     cx_answering cx \<and> cx_answer_done cx \<and> cx_queued cx \<le> au_consumed audio - cx_consumed_base cx"

definition blank :: "char \<Rightarrow> bool" where
  "blank c \<longleftrightarrow> c \<in> {SPC, TAB, CR, LF}"

definition trim_blank :: "string \<Rightarrow> string" where
  "trim_blank s = pop_back_while blank (dropWhile blank s)"

text \<open>The units whose audio started, one after the other.\<close>

definition heard_text :: "nat \<Rightarrow> Unit list \<Rightarrow> string" where
  "heard_text played units =
     foldl (\<lambda>content u. if un_start u < played then content @ (if content = [] then [] else '' '') @ un_text u else content)
       [] units"

definition context_close :: "Audio \<Rightarrow> Context \<Rightarrow> rt_frame list \<Rightarrow> Context \<times> rt_frame list" where
  "context_close audio cx outbox =
     (let played = au_heard audio - cx_heard_base cx;
          content = trim_blank (heard_text played (cx_units cx));
          cx = cx\<lparr>cx_units := [], cx_answering := False, cx_answer_done := False\<rparr>;
          cx = (if content \<noteq> [] then
                  cx\<lparr>cx_history := cx_history cx @ [\<lparr>rt_role = ''assistant'', rt_content = content, rt_item = []\<rparr>]\<rparr>
                else cx)
      in (cx, outbox @ [context_history cx]))"

definition close_answer :: "bool \<Rightarrow> Cli \<Rightarrow> Cli" where
  "close_answer color cli =
     (if \<not> cx_answering (cli_context cli) then cli
      else case context_close (cli_audio cli) (cli_context cli) (cli_outbox cli) of (cx, outbox) \<Rightarrow>
        cli\<lparr>cli_context := cx, cli_outbox := outbox, cli_display := display_answer_end color (cli_display cli)\<rparr>)"

section \<open>The frames of the engine\<close>

definition yyjson_get_uint :: "json option \<Rightarrow> nat" where
  "yyjson_get_uint v = (case v of Some (JInt n) \<Rightarrow> unat (word_of_int n :: 64 word) | _ \<Rightarrow> 0)"

text \<open>What runs beside the writer while a frame waits for the sound card.\<close>

record event_gaps =
  eg_polls :: "(bool \<times> sound_move list) list"
  eg_play :: "sound_move list list"

text \<open>Drops what is queued and ends the answer.\<close>

definition cut_answer :: "bool \<Rightarrow> event_gaps \<Rightarrow> Cli \<Rightarrow> Cli option" where
  "cut_answer color gaps cli =
     (case audio_flush (eg_polls gaps) (cli_audio cli) of
        None \<Rightarrow> None
      | Some audio \<Rightarrow> Some (close_answer color (cli\<lparr>cli_audio := audio\<rparr>)))"

definition play_delta :: "event_gaps \<Rightarrow> string \<Rightarrow> Cli \<Rightarrow> Cli" where
  "play_delta gaps delta cli =
     (case audio_play (eg_play gaps) (cli_audio cli) (rt_pcm16_to_float (rt_base64_decode delta)) of (taken, audio) \<Rightarrow>
        cli\<lparr>cli_audio := audio,
            cli_context := (cli_context cli)\<lparr>cx_queued := cx_queued (cli_context cli) + taken\<rparr>\<rparr>)"

definition announce_unit :: "bool \<Rightarrow> string \<Rightarrow> Cli \<Rightarrow> Cli" where
  "announce_unit color delta cli =
     (let cx = cli_context cli in
      cli\<lparr>cli_context := cx\<lparr>cx_units := cx_units cx @ [\<lparr>un_text = delta, un_start = cx_queued cx\<rparr>]\<rparr>,
          cli_display := display_unit color delta (cli_display cli)\<rparr>)"

text \<open>\<^const>\<open>None\<close> while the frame waits for the callback to drop what is queued.\<close>

definition on_event :: "bool \<Rightarrow> json_reader \<Rightarrow> event_gaps \<Rightarrow> string \<Rightarrow> Cli \<Rightarrow> Cli option" where
  "on_event color rd gaps frame cli =
     (let doc = rd frame in
      if doc = None then Some cli
      else
        let type = rt_json_str doc ''type''; answering = cx_answering (cli_context cli);
            show = (\<lambda>f. Some (if answering then cli\<lparr>cli_display := f (cli_display cli)\<rparr> else cli)) in
        if type = ''input_audio_buffer.speech_started'' then
          if answering then cut_answer color gaps cli else Some cli
        else if type = ''conversation.item.input_audio_transcription.completed'' then
          let transcript = rt_json_str doc ''transcript'' in
          case context_user (cli_context cli) (rt_json_str doc ''item_id'') transcript of (revised, cx) \<Rightarrow>
            Some (cli\<lparr>cli_context := cx, cli_display := display_user color transcript revised (cli_display cli)\<rparr>)
        else if type = ''response.created'' then
          let cli = close_answer color cli in
          Some (cli\<lparr>cli_context := context_open (cli_audio cli) (cli_context cli),
                    cli_display := display_answer_start (cli_display cli)\<rparr>)
        else if type = ''response.output_text.delta'' then show (display_text color (rt_json_str doc ''delta''))
        else if type = ''response.tool_call.started'' then show (display_tool_start color (rt_json_str doc ''name''))
        else if type = ''response.tool_call.done'' then
          show (display_tool_done color (yyjson_is_true (yyjson_obj_get doc ''ok''))
            (yyjson_get_uint (yyjson_obj_get doc ''ms'')) (yyjson_get_uint (yyjson_obj_get doc ''bytes'')))
        else if type = ''response.output_audio_transcript.delta'' then
          Some (if answering then announce_unit color (rt_json_str doc ''delta'') cli else cli)
        else if type = ''response.output_audio.delta'' then
          Some (if answering then play_delta gaps (rt_json_str doc ''delta'') cli else cli)
        else if type = ''response.cancelled'' then cut_answer color gaps cli
        else if type = ''response.done'' then
          Some (cli\<lparr>cli_context := (cli_context cli)\<lparr>cx_answer_done := True\<rparr>\<rparr>)
        else Some cli)"

text \<open>What the reader does under the lock: an answer that was played to its end is over, and the frames that
  wait are its own.\<close>

definition reader_poll :: "bool \<Rightarrow> Cli \<Rightarrow> rt_frame list \<times> Cli" where
  "reader_poll color cli =
     (let cli = (if context_played (cli_context cli) (cli_audio cli) then close_answer color cli else cli)
      in (cli_outbox cli, cli\<lparr>cli_outbox := []\<rparr>))"

section \<open>A run of the client\<close>

text \<open>The moves of the callback and of the reader's sound, a frame of the engine on the writer, the reader under
  the lock; \<open>aec\<close> is the client's option. The engine sends \<open>speech_started\<close> when a turn opens and closes every
  answer with \<open>response.done\<close> or \<open>response.cancelled\<close>, so that an answer opens when the client has closed the
  last one or let the loudspeaker end it; and a run lasts until the program is told to stop.\<close>

definition opens_in_turn :: "json_reader \<Rightarrow> string \<Rightarrow> Cli \<Rightarrow> bool" where
  "opens_in_turn rd frame cli \<longleftrightarrow>
     \<not> (rt_json_str (rd frame) ''type'' = ''response.created'' \<and> cx_answering (cli_context cli))"

definition goes_on :: "event_gaps \<Rightarrow> bool" where
  "goes_on gaps \<longleftrightarrow> list_all (\<lambda>(stop, _). \<not> stop) (eg_polls gaps)"

inductive cli_step :: "bool \<Rightarrow> json_reader \<Rightarrow> Cli \<Rightarrow> Cli \<Rightarrow> bool" for color rd where
  sound: "cli_step color rd cli (cli\<lparr>cli_audio := sound_step (cli_audio cli) move\<rparr>)"
| event: "on_event color rd gaps frame cli = Some cli' \<Longrightarrow> goes_on gaps \<Longrightarrow> opens_in_turn rd frame cli \<Longrightarrow>
    cli_step color rd cli cli'"
| poll: "cli_step color rd cli (snd (reader_poll color cli))"

inductive cli_reach :: "bool \<Rightarrow> json_reader \<Rightarrow> Cli \<Rightarrow> bool" for color rd where
  start: "cli_reach color rd (Cli_new\<lparr>cli_aec := aec\<rparr>)"
| step: "cli_reach color rd cli \<Longrightarrow> cli_step color rd cli cli' \<Longrightarrow> cli_reach color rd cli'"

text \<open>Since the answer opened: the samples the loudspeaker played, and those its queue took.\<close>

definition played_since :: "Context \<Rightarrow> Audio \<Rightarrow> f32 list" where
  "played_since cx a = drop (cx_heard_base cx) (au_played a)"

definition given_since :: "Context \<Rightarrow> Audio \<Rightarrow> f32 list" where
  "given_since cx a = drop (cx_consumed_base cx) (au_given a)"

text \<open>Between two steps: what was given to the answer in flight is what was heard of it and what is queued; with no
  answer in flight, nothing is queued. The messages all have a role.\<close>

definition answer_ok :: "Context \<Rightarrow> Audio \<Rightarrow> bool" where
  "answer_ok cx a \<longleftrightarrow> cx_heard_base cx \<le> length (au_played a) \<and> cx_consumed_base cx \<le> length (au_given a) \<and>
     given_since cx a = played_since cx a @ queued_of a \<and> cx_queued cx = length (given_since cx a) \<and>
     list_all (\<lambda>u. un_start u \<le> cx_queued cx) (cx_units cx)"

definition cli_ok :: "Cli \<Rightarrow> bool" where
  "cli_ok cli \<longleftrightarrow> audio_ok (cli_audio cli) \<and> \<not> au_flush (cli_audio cli) \<and>
     (if cx_answering (cli_context cli) then answer_ok (cli_context cli) (cli_audio cli)
      else queued_of (cli_audio cli) = [] \<and> cx_units (cli_context cli) = []) \<and>
     list_all (\<lambda>m. rt_role m \<noteq> []) (cx_history (cli_context cli))"

lemma since_updates [simp]:
  "given_since (cx\<lparr>cx_units := us\<rparr>) a = given_since cx a" "played_since (cx\<lparr>cx_units := us\<rparr>) a = played_since cx a"
  "given_since (cx\<lparr>cx_queued := q\<rparr>) a = given_since cx a" "played_since (cx\<lparr>cx_queued := q\<rparr>) a = played_since cx a"
  "given_since (cx\<lparr>cx_answer_done := d\<rparr>) a = given_since cx a" "played_since (cx\<lparr>cx_answer_done := d\<rparr>) a = played_since cx a"
  "given_since (cx\<lparr>cx_history := h\<rparr>) a = given_since cx a" "played_since (cx\<lparr>cx_history := h\<rparr>) a = played_since cx a"
  "given_since (cx\<lparr>cx_user_item := i\<rparr>) a = given_since cx a" "played_since (cx\<lparr>cx_user_item := i\<rparr>) a = played_since cx a"
  by (simp_all add: given_since_def played_since_def)

lemma answer_ok_updates [simp]:
  "answer_ok (cx\<lparr>cx_answer_done := d\<rparr>) a = answer_ok cx a"
  "answer_ok (cx\<lparr>cx_history := h\<rparr>) a = answer_ok cx a" "answer_ok (cx\<lparr>cx_user_item := i\<rparr>) a = answer_ok cx a"
  "answer_ok (cx\<lparr>cx_units := cx_units cx @ [\<lparr>un_text = txt, un_start = cx_queued cx\<rparr>]\<rparr>) a = answer_ok cx a"
  by (simp_all add: answer_ok_def)

text \<open>The sound goes on: samples move from the queue to the loudspeaker.\<close>

lemma answer_ok_moves:
  assumes "answer_ok cx a" "au_given a' = au_given a @ taken_pcm" "prefix (au_played a) (au_played a')"
    "au_played a' @ queued_of a' = au_played a @ queued_of a @ taken_pcm"
  shows "answer_ok (cx\<lparr>cx_queued := cx_queued cx + length taken_pcm\<rparr>) a'"
    "given_since cx a' = given_since cx a @ taken_pcm" "played_since cx a' @ queued_of a' = played_since cx a @ queued_of a @ taken_pcm"
proof -
  obtain new where new: "au_played a' = au_played a @ new" using assms(3) by (auto simp: prefix_def)
  then have "new @ queued_of a' = queued_of a @ taken_pcm" using assms(4) by simp
  then show g: "given_since cx a' = given_since cx a @ taken_pcm" "played_since cx a' @ queued_of a' = played_since cx a @ queued_of a @ taken_pcm"
    using assms(1,2) new by (simp_all add: answer_ok_def given_since_def played_since_def)
  have "list_all (\<lambda>u. un_start u \<le> cx_queued cx + length taken_pcm) (cx_units cx)"
    using assms(1) by (auto simp: answer_ok_def list_all_iff)
  then show "answer_ok (cx\<lparr>cx_queued := cx_queued cx + length taken_pcm\<rparr>) a'"
    using assms(1,2) new g by (simp add: answer_ok_def)
qed

lemma sound_goes_ok:
  assumes "cli_ok cli" "sound_goes (cli_audio cli) a'"
  shows "cli_ok (cli\<lparr>cli_audio := a'\<rparr>)"
proof (cases "cx_answering (cli_context cli)")
  case True
  then have "answer_ok (cli_context cli) a'"
    using answer_ok_moves(1) [of "cli_context cli" "cli_audio cli" a' "[]"] assms
    by (simp add: cli_ok_def sound_goes_def)
  then show ?thesis using assms True by (simp add: cli_ok_def sound_goes_def)
next
  case False
  then have "prefix (au_played (cli_audio cli)) (au_played a')" "au_played a' @ queued_of a' = au_played (cli_audio cli)"
    using assms by (simp_all add: cli_ok_def sound_goes_def)
  then have "queued_of a' = []" by (auto simp: prefix_def)
  then show ?thesis using assms False by (simp add: cli_ok_def sound_goes_def)
qed

text \<open>An answer that is closed when nothing is queued any longer.\<close>

lemma close_answer_ok:
  assumes "audio_ok (cli_audio cli)" "\<not> au_flush (cli_audio cli)" "queued_of (cli_audio cli) = []"
    "cx_answering (cli_context cli) \<or> cx_units (cli_context cli) = []"
    "list_all (\<lambda>m. rt_role m \<noteq> []) (cx_history (cli_context cli))"
  shows "cli_ok (close_answer color cli)"
  using assms by (auto simp: close_answer_def context_close_def cli_ok_def Let_def)

lemma close_answer_closed: "\<not> cx_answering (cli_context (close_answer color cli))"
  by (simp add: close_answer_def context_close_def Let_def)

lemma cut_answer_ok:
  assumes "cli_ok cli" "cut_answer color gaps cli = Some cli'" "goes_on gaps"
  shows "cli_ok cli'"
proof -
  obtain a where a: "audio_flush (eg_polls gaps) (cli_audio cli) = Some a" "cli' = close_answer color (cli\<lparr>cli_audio := a\<rparr>)"
    using assms(2) by (auto simp: cut_answer_def split: option.splits)
  have "audio_ok (cli_audio cli)" using assms(1) by (simp add: cli_ok_def)
  note f = audio_flush_drops [OF this a(1) assms(3) [unfolded goes_on_def]]
  show ?thesis unfolding a(2)
    by (rule close_answer_ok) (use f assms(1) in \<open>auto simp: cli_ok_def split: if_splits\<close>)
qed

lemma play_delta_ok:
  assumes "cli_ok cli" "cx_answering (cli_context cli)"
  shows "cli_ok (play_delta gaps delta cli)"
proof -
  obtain n a where play: "audio_play (eg_play gaps) (cli_audio cli) (rt_pcm16_to_float (rt_base64_decode delta)) = (n, a)"
    by force
  define taken_pcm where "taken_pcm = take n (rt_pcm16_to_float (rt_base64_decode delta))"
  have "audio_ok (cli_audio cli)" "\<not> au_flush (cli_audio cli)" using assms(1) by (simp_all add: cli_ok_def)
  note p = audio_play_queues [OF this play]
  have ok: "answer_ok (cli_context cli) (cli_audio cli)" using assms by (simp add: cli_ok_def)
  have "answer_ok ((cli_context cli)\<lparr>cx_queued := cx_queued (cli_context cli) + length taken_pcm\<rparr>) a"
    by (rule answer_ok_moves(1) [OF ok]) (use p in \<open>simp_all add: taken_pcm_def\<close>)
  moreover have "length taken_pcm = n" using p by (simp add: taken_pcm_def)
  ultimately show ?thesis using assms p by (simp add: play_delta_def play cli_ok_def)
qed

lemma announce_unit_ok: "cli_ok cli \<Longrightarrow> cx_answering (cli_context cli) \<Longrightarrow> cli_ok (announce_unit color delta cli)"
  by (simp add: cli_ok_def announce_unit_def Let_def)

lemma context_user_ok:
  assumes "cli_ok cli" "context_user (cli_context cli) item transcript = (revised, cx)"
  shows "cli_ok (cli\<lparr>cli_context := cx, cli_display := d\<rparr>)"
proof -
  define h where "h = cx_history (cli_context cli)"
  have h: "list_all (\<lambda>m. rt_role m \<noteq> []) h" using assms(1) by (simp add: cli_ok_def h_def)
  then have "list_all (\<lambda>m. rt_role m \<noteq> []) (butlast h)" by (auto simp: list_all_iff dest: in_set_butlastD)
  moreover have "rt_role (last h) \<noteq> []" if "h \<noteq> []" using h that by (simp add: list_all_iff)
  ultimately show ?thesis
    using assms h unfolding cli_ok_def context_user_def h_def [symmetric] Let_def by (auto split: if_splits)
qed

lemma context_open_ok:
  assumes "cli_ok cli" "\<not> cx_answering (cli_context cli)"
  shows "cli_ok (cli\<lparr>cli_context := context_open (cli_audio cli) (cli_context cli), cli_display := d\<rparr>)"
  using assms by (auto simp: cli_ok_def context_open_def answer_ok_def given_since_def played_since_def audio_ok_def)

lemma on_event_ok:
  assumes "cli_ok cli" "on_event color rd gaps frame cli = Some cli'" "goes_on gaps" "opens_in_turn rd frame cli"
  shows "cli_ok cli'"
proof (cases "rd frame")
  case (Some doc)
  define type where "type = rt_json_str (Some doc) ''type''"
  have shown: "cli_ok (cli\<lparr>cli_display := d\<rparr>)" "cli_ok (cli\<lparr>cli_context := (cli_context cli)\<lparr>cx_answer_done := b\<rparr>\<rparr>)" for d b
    using assms(1) by (simp_all add: cli_ok_def)
  show ?thesis
  proof (cases "type = ''response.created''")
    case True
    then have "\<not> cx_answering (cli_context cli)" using assms(4) by (simp add: opens_in_turn_def type_def Some)
    moreover from this have "close_answer color cli = cli" by (simp add: close_answer_def)
    ultimately show ?thesis
      using assms(1,2) True Some by (auto simp: on_event_def type_def [symmetric] Let_def intro: context_open_ok)
  next
    case False
    have cut: "cli_ok x" if "cut_answer color gaps cli = Some x" for x using cut_answer_ok assms(1,3) that by blast
    show ?thesis
      using assms(1,2) False unfolding on_event_def Some Let_def type_def [symmetric]
      by (simp split: if_splits prod.splits)
        (auto simp: shown cut play_delta_ok announce_unit_ok context_user_ok)
  qed
qed (use assms in \<open>simp add: on_event_def Let_def\<close>)

lemma reader_poll_ok: "cli_ok cli \<Longrightarrow> cli_ok (snd (reader_poll color cli))"
proof -
  assume ok: "cli_ok cli"
  have "queued_of (cli_audio cli) = []" if "context_played (cli_context cli) (cli_audio cli)"
  proof -
    have answering: "cx_answering (cli_context cli)" using that by (simp add: context_played_def)
    then have "answer_ok (cli_context cli) (cli_audio cli)" "audio_ok (cli_audio cli)" using ok by (simp_all add: cli_ok_def)
    then have "length (given_since (cli_context cli) (cli_audio cli)) =
        length (played_since (cli_context cli) (cli_audio cli)) + length (queued_of (cli_audio cli))"
      "cx_queued (cli_context cli) = length (given_since (cli_context cli) (cli_audio cli))"
      "length (queued_of (cli_audio cli)) = length (au_given (cli_audio cli)) - au_consumed (cli_audio cli)"
      by (simp_all add: answer_ok_def audio_ok_def)
    moreover have "cx_queued (cli_context cli) \<le> au_consumed (cli_audio cli) - cx_consumed_base (cli_context cli)"
      using that by (simp add: context_played_def)
    moreover have "length (given_since (cli_context cli) (cli_audio cli)) =
        length (au_given (cli_audio cli)) - cx_consumed_base (cli_context cli)"
      by (simp add: given_since_def)
    ultimately have "length (queued_of (cli_audio cli)) = 0" by arith
    then show ?thesis by simp
  qed
  then have "cli_ok (close_answer color cli)" if "context_played (cli_context cli) (cli_audio cli)"
    using that ok by (intro close_answer_ok) (auto simp: cli_ok_def context_played_def)
  then have "cli_ok (if context_played (cli_context cli) (cli_audio cli) then close_answer color cli else cli)"
    using ok by simp
  moreover have "cli_ok (c\<lparr>cli_outbox := frames\<rparr>) = cli_ok c" for c frames by (simp add: cli_ok_def)
  ultimately show ?thesis by (simp only: reader_poll_def Let_def snd_conv)
qed

lemma cli_step_ok: "cli_step color rd cli cli' \<Longrightarrow> cli_ok cli \<Longrightarrow> cli_ok cli'"
proof (induction rule: cli_step.induct)
  case (sound cli move)
  then have "sound_goes (cli_audio cli) (sound_step (cli_audio cli) move)"
    by (intro sound_step_goes) (simp add: cli_ok_def)
  with sound show ?case by (rule sound_goes_ok)
next
  case (event gaps frame cli cli')
  then show ?case using on_event_ok by blast
next
  case (poll cli)
  then show ?case by (rule reader_poll_ok)
qed

lemma cli_reach_ok: "cli_reach color rd cli \<Longrightarrow> cli_ok cli"
proof (induction rule: cli_reach.induct)
  case (start aec)
  have "queued_of audio_init = []" "\<not> au_flush audio_init" by (simp_all add: audio_init_def rb_init)
  then show ?case using audio_ok_init by (simp add: Cli_new_def cli_ok_def Context_new_def)
qed (rule cli_step_ok)

section \<open>What the model is told\<close>

text \<open>C14: The loudspeaker plays the answer, whole and in order: at any moment of a run, what its queue took since the
  answer opened is what was heard of it and what still waits, so the answer counts as played exactly when the
  engine finished it and nothing waits; and outside an answer nothing waits.\<close>

theorem loudspeaker_plays_the_answer:
  assumes "cli_reach color rd cli"
  shows "let cx = cli_context cli; a = cli_audio cli in
    if cx_answering cx
    then given_since cx a = played_since cx a @ queued_of a \<and> cx_queued cx = length (given_since cx a) \<and>
      au_heard a - cx_heard_base cx = length (played_since cx a) \<and>
      (context_played cx a \<longleftrightarrow> cx_answer_done cx \<and> queued_of a = [])
    else queued_of a = [] \<and> \<not> context_played cx a"
proof -
  have ok: "cli_ok cli" using assms by (rule cli_reach_ok)
  show ?thesis
  proof (cases "cx_answering (cli_context cli)")
    case True
    then have a: "answer_ok (cli_context cli) (cli_audio cli)" "audio_ok (cli_audio cli)" using ok by (simp_all add: cli_ok_def)
    then have "length (given_since (cli_context cli) (cli_audio cli)) =
        length (played_since (cli_context cli) (cli_audio cli)) + length (queued_of (cli_audio cli))"
      "cx_queued (cli_context cli) = length (given_since (cli_context cli) (cli_audio cli))"
      "length (queued_of (cli_audio cli)) = length (au_given (cli_audio cli)) - au_consumed (cli_audio cli)"
      "au_consumed (cli_audio cli) \<le> length (au_given (cli_audio cli))"
      by (simp_all add: answer_ok_def audio_ok_def)
    moreover have "length (given_since (cli_context cli) (cli_audio cli)) =
        length (au_given (cli_audio cli)) - cx_consumed_base (cli_context cli)"
      by (simp add: given_since_def)
    ultimately have "cx_queued (cli_context cli) \<le> au_consumed (cli_audio cli) - cx_consumed_base (cli_context cli) \<longleftrightarrow>
        length (queued_of (cli_audio cli)) = 0" by arith
    then show ?thesis using a True by (simp add: Let_def context_played_def answer_ok_def audio_ok_def played_since_def)
  next
    case False
    then show ?thesis using ok by (simp add: Let_def cli_ok_def context_played_def)
  qed
qed

text \<open>A reader for frames that are their type, all with the same text, and a client whose answer has just opened.\<close>

definition bare_reader :: json_reader where
  "bare_reader frame = Some (JObj [(''type'', JStr frame), (''delta'', JStr ''Hi.''), (''transcript'', JStr ''Well?'')])"

definition opened_cli :: Cli where
  "opened_cli = Cli_new\<lparr>cli_context := context_open audio_init Context_new\<rparr>"

definition one_period :: event_gaps where
  "one_period = \<lparr>eg_polls = [(False, [Period []])], eg_play = []\<rparr>"

lemma opened_cli_reached: "cli_reach color bare_reader opened_cli"
proof -
  have "on_event color bare_reader one_period ''response.created'' Cli_new = Some opened_cli"
    by (simp add: on_event_def bare_reader_def rt_json_str_def Let_def Cli_new_def close_answer_def Context_new_def
        opened_cli_def display_answer_start_def Display_new_def)
  then have "cli_step color bare_reader Cli_new opened_cli"
    by (rule cli_step.event) (simp_all add: goes_on_def one_period_def opens_in_turn_def Cli_new_def Context_new_def)
  moreover have "cli_reach color bare_reader Cli_new"
    using cli_reach.start [of color bare_reader True] by (simp add: Cli_new_def)
  ultimately show ?thesis by (rule cli_reach.step [rotated])
qed

theorem loudspeaker_plays_the_answer_witness:
  "cx_answering (cli_context opened_cli) \<and> cx_queued (cli_context opened_cli) = 0 \<and> queued_of (cli_audio opened_cli) = []"
  using loudspeaker_plays_the_answer [OF opened_cli_reached]
  by (simp add: Let_def opened_cli_def Cli_new_def context_open_def given_since_def audio_init_def)

text \<open>The message an answer leaves in the conversation, of the units that start within what was heard.\<close>

definition filed :: "nat \<Rightarrow> Unit list \<Rightarrow> rt_message list" where
  "filed played units =
     (let content = trim_blank (heard_text played units)
      in if content = [] then [] else [\<lparr>rt_role = ''assistant'', rt_content = content, rt_item = []\<rparr>])"

lemma close_answer_files:
  assumes "cli_ok cli" "cx_answering (cli_context cli)" "au_played a = au_played (cli_audio cli)" "audio_ok a"
  shows "cx_history (cli_context (close_answer color (cli\<lparr>cli_audio := a\<rparr>))) = cx_history (cli_context cli) @
    filed (length (played_since (cli_context cli) (cli_audio cli))) (cx_units (cli_context cli))"
  using assms by (auto simp: close_answer_def context_close_def filed_def Let_def played_since_def audio_ok_def)

lemma event_closes:
  assumes "on_event color rd gaps frame cli = Some cli'" "cx_answering (cli_context cli)" "\<not> cx_answering (cli_context cli')"
  shows "cut_answer color gaps cli = Some cli'"
proof -
  have "cx_answering (cli_context (play_delta gaps delta cli)) = cx_answering (cli_context cli)"
    "cx_answering (cli_context (announce_unit color delta cli)) = cx_answering (cli_context cli)" for delta
    by (simp_all add: play_delta_def announce_unit_def Let_def split: prod.splits)
  then show ?thesis
    using assms by (auto simp: on_event_def Let_def context_user_def context_open_def split: if_splits)
qed


text \<open>A unit that was announced, of which nothing was heard when the user spoke.\<close>

definition told_cli :: Cli where
  "told_cli = announce_unit False ''Hi.'' opened_cli"

lemma told_cli_reached: "cli_reach False bare_reader told_cli"
proof -
  have "on_event False bare_reader one_period ''response.output_audio_transcript.delta'' opened_cli = Some told_cli"
    by (simp add: on_event_def bare_reader_def rt_json_str_def Let_def told_cli_def)
      (simp add: opened_cli_def context_open_def)
  then have "cli_step False bare_reader opened_cli told_cli"
    by (rule cli_step.event) (simp_all add: goes_on_def one_period_def opens_in_turn_def bare_reader_def rt_json_str_def)
  with opened_cli_reached show ?thesis by (rule cli_reach.step)
qed

definition cut_cli :: Cli where
  "cut_cli = the (on_event False bare_reader one_period ''input_audio_buffer.speech_started'' told_cli)"

lemma told_cli_answering: "cx_answering (cli_context told_cli)"
  by (simp add: told_cli_def opened_cli_def context_open_def announce_unit_def Let_def)

lemma cut_cli_step: "cli_step False bare_reader told_cli cut_cli" "\<not> cx_answering (cli_context cut_cli)"
proof -
  have event: "on_event False bare_reader one_period ''input_audio_buffer.speech_started'' told_cli =
      cut_answer False one_period told_cli"
    using told_cli_answering by (simp add: on_event_def bare_reader_def rt_json_str_def Let_def)
  have "cut_answer False one_period told_cli \<noteq> None"
    using flush_ends [of "[]" "[]" "(cli_audio told_cli)\<lparr>au_flush := True\<rparr>"]
    by (simp add: cut_answer_def audio_flush_def one_period_def del: flush_wait.simps split: option.splits)
  then obtain cli where cut: "cut_answer False one_period told_cli = Some cli" by blast
  then have "cut_cli = cli" by (simp add: cut_cli_def event)
  moreover have "\<not> cx_answering (cli_context cli)"
    using cut close_answer_closed by (auto simp: cut_answer_def split: option.splits)
  moreover have "cli_step False bare_reader told_cli cli"
    by (rule cli_step.event [OF trans [OF event cut]])
      (simp_all add: goes_on_def one_period_def opens_in_turn_def bare_reader_def rt_json_str_def)
  ultimately show "cli_step False bare_reader told_cli cut_cli" "\<not> cx_answering (cli_context cut_cli)" by simp_all
qed


lemma sound_given: "au_given (sound_step a m) = au_given a"
  by (auto simp: sound_step_def on_audio_def play_queued_def drop_queued_def grab_frame_def Let_def
      split: sound_move.splits prod.splits option.splits if_splits)

lemma flush_given: "flush_wait polls a = Some a' \<Longrightarrow> au_given a' = au_given a"
proof (induction polls a rule: flush_wait.induct)
  case (2 stop moves polls a)
  have "au_given (foldl sound_step a moves) = au_given a" by (induction moves arbitrary: a) (simp_all add: sound_given)
  then show ?case using 2 by (auto split: if_splits)
qed (auto split: if_splits)

text \<open>A cut answer stays cut: once the client closed an answer, the text, the units, the audio and the tool calls
  the engine still sends for it change nothing of what is said, shown, filed or told, until the next answer
  opens.\<close>

theorem cut_answer_stays_cut:
  "case on_event color rd gaps frame cli of
     None \<Rightarrow> True
   | Some cli' \<Rightarrow>
       (if cx_answering (cli_context cli) \<or> rt_json_str (rd frame) ''type'' \<in>
          {''response.created'', ''conversation.item.input_audio_transcription.completed''} then True
        else cli_display cli' = cli_display cli \<and> cli_outbox cli' = cli_outbox cli \<and>
          au_given (cli_audio cli') = au_given (cli_audio cli) \<and>
          cli_context cli' = (cli_context cli)\<lparr>cx_answer_done := cx_answer_done (cli_context cli')\<rparr>)"
proof (cases "on_event color rd gaps frame cli")
  case (Some cli')
  have "cli_display cli' = cli_display cli \<and> cli_outbox cli' = cli_outbox cli \<and>
      au_given (cli_audio cli') = au_given (cli_audio cli) \<and> cli_context cli' = cli_context cli"
    if "cut_answer color gaps cli = Some cli'" "\<not> cx_answering (cli_context cli)"
    using that by (auto simp: cut_answer_def close_answer_def audio_flush_def dest!: flush_given split: option.splits)
  then show ?thesis using Some by (auto simp: on_event_def Let_def split: if_splits)
qed simp

end
