(* ===== verification/Cli.thy ===== *)
theory Cli
  imports Cli_Context Server
begin

text \<open>
  The program of \<open>tools/s2s-cli.cpp\<close>: its command line, the session it describes to the engine, and the main
  thread, the reader of the one connection. Files, the environment, the sound devices and the loaders are
  parameters; the environment is read the POSIX way.
\<close>

section \<open>The command line\<close>

record cli_args =
  ca_models_dir :: string
  ca_voices_dir :: string
  ca_mode :: string
  ca_instructions :: string
  ca_llm_url :: string
  ca_llm_model :: string
  ca_llm_timeout :: int
  ca_llm_key :: string
  ca_reasoning_effort :: string
  ca_mcp :: "mcp_server_params list"
  ca_tools :: "string list"
  ca_tool_timeout :: int
  ca_max_rounds :: int
  ca_voice :: string
  ca_effect :: string
  ca_language :: string
  ca_wake_mode :: string
  ca_wake_phrases :: "string list"
  ca_sleep_phrases :: "string list"
  ca_list :: bool
  ca_mic :: int
  ca_speaker :: int
  ca_engine :: tts_engine
  ca_device :: string
  ca_aec :: bool

definition cli_args_default :: cli_args where
  "cli_args_default =
     \<lparr>ca_models_dir = ''models'', ca_voices_dir = ''voices'', ca_mode = [], ca_instructions = [], ca_llm_url = [],
      ca_llm_model = [], ca_llm_timeout = - 1, ca_llm_key = [], ca_reasoning_effort = [], ca_mcp = [], ca_tools = [],
      ca_tool_timeout = - 1, ca_max_rounds = - 1, ca_voice = [], ca_effect = [], ca_language = [], ca_wake_mode = [],
      ca_wake_phrases = [], ca_sleep_phrases = [], ca_list = False, ca_mic = - 1, ca_speaker = - 1,
      ca_engine = tts_engine_default, ca_device = [], ca_aec = True\<rparr>"

text \<open>The first line of a file, and a whole one; an empty one is no better than none.\<close>

definition read_key :: "(string \<Rightarrow> string option) \<Rightarrow> string \<Rightarrow> server_exit + string" where
  "read_key read_file path =
     (case file_line read_file path of
        Some key \<Rightarrow> Inr key
      | None \<Rightarrow> Inl (Fatal (s2s_format (''[Main] FATAL: no key in '' @ path))))"

definition read_text :: "(string \<Rightarrow> string option) \<Rightarrow> string \<Rightarrow> server_exit + string" where
  "read_text read_file path =
     (case read_file path of
        Some (c # cs) \<Rightarrow> Inr (c # cs)
      | _ \<Rightarrow> Inl (Fatal (s2s_format (''[Main] FATAL: nothing to read in '' @ path))))"

text \<open>A value read from a file, put in its place.\<close>

definition put_read :: "server_exit + string \<Rightarrow> (string \<Rightarrow> cli_args) \<Rightarrow> server_exit + cli_args" where
  "put_read found put = (case found of Inl ended \<Rightarrow> Inl ended | Inr v \<Rightarrow> Inr (put v))"

definition cli_option ::
  "(string \<Rightarrow> string option) \<Rightarrow> (string \<Rightarrow> f32) \<Rightarrow> string \<Rightarrow> string \<Rightarrow> cli_args \<Rightarrow> (server_exit + cli_args) option" where
  "cli_option read_file atof arg v a =
     (if arg = ''--models'' then Some (Inr (a\<lparr>ca_models_dir := v\<rparr>))
      else if arg = ''--voices'' then Some (Inr (a\<lparr>ca_voices_dir := v\<rparr>))
      else if arg = ''--mode'' then Some (Inr (a\<lparr>ca_mode := v\<rparr>))
      else if arg = ''--instructions-file'' then Some (put_read (read_text read_file v) (\<lambda>t. a\<lparr>ca_instructions := t\<rparr>))
      else if arg = ''--llm-url'' then Some (Inr (a\<lparr>ca_llm_url := v\<rparr>))
      else if arg = ''--llm-model'' then Some (Inr (a\<lparr>ca_llm_model := v\<rparr>))
      else if arg = ''--llm-timeout'' then Some (Inr (a\<lparr>ca_llm_timeout := atoi v\<rparr>))
      else if arg = ''--llm-key-file'' then Some (put_read (read_key read_file v) (\<lambda>k. a\<lparr>ca_llm_key := k\<rparr>))
      else if arg = ''--reasoning-effort'' then Some (Inr (a\<lparr>ca_reasoning_effort := v\<rparr>))
      else if arg = ''--mcp'' then Some (Inr (a\<lparr>ca_mcp := ca_mcp a @ [mcp_server_params_default\<lparr>mcp_url := v\<rparr>]\<rparr>))
      else if arg = ''--mcp-key-file'' then
        Some (if ca_mcp a = [] then Inl (Fatal ''[Main] FATAL: --mcp-key-file needs an --mcp before it'')
          else put_read (read_key read_file v)
            (\<lambda>k. a\<lparr>ca_mcp := butlast (ca_mcp a) @ [(last (ca_mcp a))\<lparr>mcp_api_key := k\<rparr>]\<rparr>))
      else if arg = ''--tool'' then Some (Inr (a\<lparr>ca_tools := ca_tools a @ [v]\<rparr>))
      else if arg = ''--tool-timeout'' then Some (Inr (a\<lparr>ca_tool_timeout := atoi v\<rparr>))
      else if arg = ''--max-rounds'' then Some (Inr (a\<lparr>ca_max_rounds := atoi v\<rparr>))
      else if arg = ''--voice'' then Some (Inr (a\<lparr>ca_voice := v\<rparr>))
      else if arg = ''--effect'' then Some (Inr (a\<lparr>ca_effect := v\<rparr>))
      else if arg = ''--language'' then Some (Inr (a\<lparr>ca_language := v\<rparr>))
      else if arg = ''--wake-mode'' then Some (Inr (a\<lparr>ca_wake_mode := v\<rparr>))
      else if arg = ''--wake-phrase'' then Some (Inr (a\<lparr>ca_wake_phrases := ca_wake_phrases a @ [v]\<rparr>))
      else if arg = ''--sleep-phrase'' then Some (Inr (a\<lparr>ca_sleep_phrases := ca_sleep_phrases a @ [v]\<rparr>))
      else if arg = ''--mic'' then Some (Inr (a\<lparr>ca_mic := atoi v\<rparr>))
      else if arg = ''--speaker'' then Some (Inr (a\<lparr>ca_speaker := atoi v\<rparr>))
      else if arg = ''--device'' then Some (Inr (a\<lparr>ca_device := v\<rparr>))
      else if arg = ''--codec-chunk-dur'' then Some (Inr (a\<lparr>ca_engine := (ca_engine a)\<lparr>eng_codec_chunk_sec := atof v\<rparr>\<rparr>))
      else None)"

definition cli_flag :: "string \<Rightarrow> cli_args \<Rightarrow> cli_args option" where
  "cli_flag arg a =
     (if arg = ''--list-devices'' then Some (a\<lparr>ca_list := True\<rparr>)
      else if arg = ''--no-aec'' then Some (a\<lparr>ca_aec := False\<rparr>)
      else if arg = ''--no-fa'' then Some (a\<lparr>ca_engine := (ca_engine a)\<lparr>eng_use_fa := False\<rparr>\<rparr>)
      else if arg = ''--clamp-fp16'' then Some (a\<lparr>ca_engine := (ca_engine a)\<lparr>eng_clamp_fp16 := True\<rparr>\<rparr>)
      else None)"

function cli_parse ::
  "(string \<Rightarrow> string option) \<Rightarrow> (string \<Rightarrow> f32) \<Rightarrow> cli_args \<Rightarrow> string list \<Rightarrow> server_exit + cli_args" where
  "cli_parse read_file atof a [] = Inr a"
| "cli_parse read_file atof a (arg # rest) =
     (case (case rest of [] \<Rightarrow> None | v # _ \<Rightarrow> cli_option read_file atof arg v a) of
        Some (Inl ended) \<Rightarrow> Inl ended
      | Some (Inr a) \<Rightarrow> cli_parse read_file atof a (drop 1 rest)
      | None \<Rightarrow> (case cli_flag arg a of
            Some a \<Rightarrow> cli_parse read_file atof a rest
          | None \<Rightarrow> Inl Usage))"
  by pat_completeness auto
termination by (relation "measure (\<lambda>(_, _, _, args). length args)") auto

section \<open>The start\<close>

text \<open>The sound of the platform: whether there is a backend and its name, the microphones and the loudspeakers,
  whether the two open together.\<close>

record sound_platform =
  so_backend :: "string option"
  so_devices :: "((string \<times> bool) list \<times> (string \<times> bool) list) option"
  so_opens :: "int \<Rightarrow> int \<Rightarrow> bool"

definition list_devices :: "(string \<times> bool) list \<Rightarrow> string" where
  "list_devices infos =
     concat (map (\<lambda>(i, name, is_default).
       ''  '' @ nat_str i @ ''  '' @ c_str name @ (if is_default then '' (default)'' else []) @ [LF])
       (enumerate 0 infos))"

datatype ('v, 'a) cli_start =
    Ended server_exit
  | Listed string
  | Listening cli_args "('v, 'a) ConversationSetup"

definition cli_start ::
  "('v, 'a) loaders \<Rightarrow> sound_platform \<Rightarrow> (string \<Rightarrow> string option) \<Rightarrow> (string \<Rightarrow> f32) \<Rightarrow> (string \<Rightarrow> bool) \<Rightarrow> string list
     \<Rightarrow> ('v, 'a) cli_start" where
  "cli_start L so read_file atof device_known args =
     (if args = [] then Ended Usage
      else case cli_parse read_file atof cli_args_default args of
        Inl ended \<Rightarrow> Ended ended
      | Inr a \<Rightarrow>
          if ca_device a \<noteq> [] \<and> \<not> device_known (ca_device a) then Ended Usage
          else (case so_backend so of
            None \<Rightarrow> Ended (Fatal ''[Audio] FATAL: no audio backend'')
          | Some backend \<Rightarrow> (case so_devices so of
              None \<Rightarrow> Ended (Fatal ''[Audio] FATAL: cannot list the devices'')
            | Some (mics, speakers) \<Rightarrow>
                if ca_list a then
                  Listed (''Microphones, '' @ c_str backend @ '':'' @ [LF] @ list_devices mics @
                    ''Loudspeakers, '' @ c_str backend @ '':'' @ [LF] @ list_devices speakers)
                else if int (length mics) \<le> ca_mic a \<or> int (length speakers) \<le> ca_speaker a then
                  Ended (Fatal (''[Audio] FATAL: no such '' @
                    (if int (length mics) \<le> ca_mic a then ''microphone'' else ''loudspeaker'') @ '', see --list-devices''))
                else (case models_load L (ca_models_dir a) (ca_voices_dir a) (ca_device a) (ca_engine a) of
                    Inl err \<Rightarrow> Ended (Fatal err)
                  | Inr (_, models, voice) \<Rightarrow>
                      if \<not> so_opens so (ca_mic a) (ca_speaker a)
                      then Ended (Fatal ''[Audio] FATAL: cannot open the microphone and the loudspeaker'')
                      else Listening a \<lparr>cs_models = models, cs_defaults = ClientSettings_default\<lparr>cl_tts := voice\<rparr>,
                             cs_llm_fixed = False, cs_mcp_fixed = False, cs_llm_hosts = []\<rparr>))))"

section \<open>The languages of the system\<close>

text \<open>\<open>getline\<close> until the end of the text.\<close>

function split_tags :: "string \<Rightarrow> string list" where
  "split_tags s =
     (if s = [] then []
      else let tag = takeWhile (\<lambda>c. c \<noteq> CHR '':'') s in tag # split_tags (drop (length tag + 1) s))"
  by pat_completeness auto
termination by (relation "measure length") auto

declare split_tags.simps [simp del]

definition language_names :: "(string \<times> string) list" where
  "language_names =
     [(''zh'', ''chinese''), (''en'', ''english''), (''ja'', ''japanese''), (''ko'', ''korean''), (''de'', ''german''),
      (''fr'', ''french''), (''ru'', ''russian''), (''pt'', ''portuguese''), (''es'', ''spanish''), (''it'', ''italian'')]"

definition system_tags :: "(string \<Rightarrow> string option) \<Rightarrow> string list" where
  "system_tags getenv =
     concat (map (\<lambda>variable. split_tags (case getenv variable of Some v \<Rightarrow> v | None \<Rightarrow> []))
       [''LANGUAGE'', ''LC_ALL'', ''LC_MESSAGES'', ''LANG''])"

definition add_language :: "string \<Rightarrow> string list \<Rightarrow> string \<times> string \<Rightarrow> string list" where
  "add_language tag languages name =
     (if take 2 tag = fst name \<and> snd name \<notin> set languages then languages @ [snd name] else languages)"

definition system_languages :: "(string \<Rightarrow> string option) \<Rightarrow> string list" where
  "system_languages getenv =
     foldl (\<lambda>languages tag. foldl (add_language tag) languages language_names) [] (system_tags getenv)"

section \<open>The session\<close>

definition str_field :: "(string \<times> json) list \<Rightarrow> string \<Rightarrow> string \<Rightarrow> (string \<times> json) list" where
  "str_field fs key v = (if v \<noteq> [] then add_field fs key (JStr v) else fs)"

definition int_field :: "(string \<times> json) list \<Rightarrow> string \<Rightarrow> int \<Rightarrow> (string \<times> json) list" where
  "int_field fs key n = (if 0 < n then add_field fs key (JInt n) else fs)"

definition strs_field :: "(string \<times> json) list \<Rightarrow> string \<Rightarrow> string list \<Rightarrow> (string \<times> json) list" where
  "strs_field fs key vs = add_field fs key (JArr (map JStr vs))"

text \<open>The session as the command line describes it.\<close>

definition session_fields :: "cli_args \<Rightarrow> string list \<Rightarrow> (string \<times> json) list" where
  "session_fields a languages =
     (let s = str_field [] ''echo'' (if ca_aec a then ''server'' else ''off'');
          s = str_field s ''mode'' (ca_mode a);
          s = str_field s ''instructions'' (ca_instructions a);
          s = str_field s ''llm_url'' (ca_llm_url a);
          s = str_field s ''llm_model'' (ca_llm_model a);
          s = str_field s ''llm_key'' (ca_llm_key a);
          s = int_field s ''llm_timeout_sec'' (ca_llm_timeout a);
          s = strs_field s ''tools'' (ca_tools a);
          s = add_field s ''mcp'' (JArr (map (\<lambda>server.
                JObj (str_field (str_field [] ''url'' (mcp_url server)) ''key'' (mcp_api_key server))) (ca_mcp a)));
          s = add_field s ''sampling'' (JObj (str_field [] ''reasoning_effort'' (ca_reasoning_effort a)));
          s = add_field s ''wake'' (JObj (strs_field (strs_field (str_field [] ''mode'' (ca_wake_mode a))
                ''phrases'' (ca_wake_phrases a)) ''sleep_phrases'' (ca_sleep_phrases a)));
          s = int_field s ''tool_timeout_sec'' (ca_tool_timeout a);
          s = int_field s ''max_rounds'' (ca_max_rounds a)
      in add_field s ''tts'' (JObj (strs_field (str_field (str_field (str_field [] ''voice'' (ca_voice a))
           ''effect'' (ca_effect a)) ''language'' (ca_language a)) ''browser_languages'' languages)))"

definition session_update :: "cli_args \<Rightarrow> string list \<Rightarrow> rt_frame" where
  "session_update a languages = add_field (rt_frame_begin ''session.update'') ''session'' (JObj (session_fields a languages))"

section \<open>The reader\<close>

text \<open>A frame of the microphone; the reference goes with it when something was played.\<close>

definition mic_frame :: "bool \<Rightarrow> (f32 \<times> f32) list \<Rightarrow> rt_frame" where
  "mic_frame aec pairs =
     (let played = list_ex (\<lambda>(_, r). r \<noteq> 0) pairs;
          audio = rt_float_to_pcm16_base64 (map fst pairs);
          reference = (if aec \<and> played then rt_float_to_pcm16_base64 (map snd pairs) else []);
          append = rt_frame_str (rt_frame_begin ''input_audio_buffer.append'') ''audio'' audio
      in if reference \<noteq> [] then rt_frame_str append ''reference'' reference else append)"

definition give_frames ::
  "('v, 'a) conn_env \<Rightarrow> json_writer \<Rightarrow> rt_frame list \<Rightarrow> ('v, 'a) Connection \<Rightarrow> ('v, 'a) Connection" where
  "give_frames E wr frames c = foldl (\<lambda>c frame. conn_frame E (rt_frame_end wr frame) c) c frames"

text \<open>One turn of the loop, \<open>gap\<close> being what the other threads do while the frames go; \<^const>\<open>None\<close> for a turn
  that spins.\<close>

definition reader_turn ::
  "('v, 'a) conn_env \<Rightarrow> json_writer \<Rightarrow> bool \<Rightarrow> (Cli \<times> ('v, 'a) Connection \<Rightarrow> Cli \<times> ('v, 'a) Connection)
     \<Rightarrow> Cli \<times> ('v, 'a) Connection \<Rightarrow> (Cli \<times> ('v, 'a) Connection) option" where
  "reader_turn E wr color gap s =
     (let (cli, c) = s;
          (frames, cli) = reader_poll color cli;
          (cli, c) = gap (cli, give_frames E wr frames c)
      in case grab_frame (cli_audio cli) of
        None \<Rightarrow> None
      | Some (None, audio) \<Rightarrow> Some (cli\<lparr>cli_audio := audio\<rparr>, c)
      | Some (Some pairs, audio) \<Rightarrow>
          Some (cli\<lparr>cli_audio := audio\<rparr>, give_frames E wr [mic_frame (cli_aec cli) pairs] c))"

text \<open>The loop, each turn after what the others did, with whether the program was told to stop; \<^const>\<open>None\<close>
  while it runs.\<close>

fun reader_loop ::
  "('v, 'a) conn_env \<Rightarrow> json_writer \<Rightarrow> bool \<Rightarrow>
     ((Cli \<times> ('v, 'a) Connection \<Rightarrow> Cli \<times> ('v, 'a) Connection) \<times> bool \<times>
      (Cli \<times> ('v, 'a) Connection \<Rightarrow> Cli \<times> ('v, 'a) Connection)) list \<Rightarrow>
     Cli \<times> ('v, 'a) Connection \<Rightarrow> ('v, 'a) Connection option" where
  "reader_loop E wr color [] s = None"
| "reader_loop E wr color ((others, stop, gap) # turns) s =
     (let s = others s in
      if stop \<or> conn_stopped (snd s) then Some (conn_close E (snd s))
      else case reader_turn E wr color gap s of
          None \<Rightarrow> None
        | Some s \<Rightarrow> reader_loop E wr color turns s)"

text \<open>The main thread from the moment it listens: the connection, the session, the empty conversation, the loop.\<close>

definition cli_listen ::
  "('v, 'a) conn_env \<Rightarrow> json_writer \<Rightarrow> (string \<Rightarrow> string option) \<Rightarrow> cli_args \<Rightarrow> Cli \<times> ('v, 'a) Connection" where
  "cli_listen E wr getenv a =
     (let cli = Cli_new\<lparr>cli_aec := ca_aec a\<rparr>; c = conn_open (ce_lm E) (ce_setup E);
          c = give_frames E wr [session_update a (system_languages getenv)] c
      in (cli\<lparr>cli_outbox := cli_outbox cli @ [context_history (cli_context cli)]\<rparr>, c))"

definition cli_main where
  "cli_main E wr color getenv a setup turns =
     (let E = E\<lparr>ce_setup := setup\<rparr> in reader_loop E wr color turns (cli_listen E wr getenv a))"

section \<open>What crosses over\<close>

text \<open>A number a session update gives, as the engine reads it back.\<close>

definition count_given :: "int \<Rightarrow> int" where
  "count_given n = (if 0 < n \<and> n \<le> RT_MAX_COUNT then n else - 1)"

text \<open>The patch the engine is to apply.\<close>

definition cli_patch :: "cli_args \<Rightarrow> string list \<Rightarrow> rt_session_patch" where
  "cli_patch a languages =
     rt_session_patch_new\<lparr>
       p_mode := ca_mode a, p_echo := (if ca_aec a then ''server'' else ''off''), p_llm_url := ca_llm_url a,
       p_llm_model := ca_llm_model a, p_llm_key := ca_llm_key a, p_system_prompt := ca_instructions a,
       p_wake_mode := ca_wake_mode a, p_wake_phrases := ca_wake_phrases a, p_sleep_phrases := ca_sleep_phrases a,
       p_tools := ca_tools a, p_mcp := filter (\<lambda>s. mcp_url s \<noteq> []) (ca_mcp a), p_max_rounds := count_given (ca_max_rounds a),
       p_tool_timeout_sec := count_given (ca_tool_timeout a), p_llm_timeout_sec := count_given (ca_llm_timeout a),
       p_reasoning_effort := ca_reasoning_effort a, p_tts_voice := ca_voice a, p_tts_effect := ca_effect a,
       p_tts_language := ca_language a, p_tts_browser_languages := languages,
       p_invalid := (if RT_MAX_COUNT < ca_llm_timeout a then ''llm_timeout_sec''
         else if RT_MAX_COUNT < ca_max_rounds a then ''max_rounds''
         else if RT_MAX_COUNT < ca_tool_timeout a then ''tool_timeout_sec'' else [])\<rparr>"

text \<open>The MCP servers of a command line have the default timeout.\<close>

definition mcp_plain :: "cli_args \<Rightarrow> bool" where
  "mcp_plain a \<longleftrightarrow> list_all (\<lambda>s. mcp_timeout_sec s = mcp_timeout_sec mcp_server_params_default) (ca_mcp a)"

lemma cli_option_plain: "cli_option read_file atof arg v a = Some (Inr a') \<Longrightarrow> mcp_plain a \<Longrightarrow> mcp_plain a'"
  by (auto simp: cli_option_def mcp_plain_def put_read_def list_all_iff dest!: in_set_butlastD split: if_splits sum.splits)

lemma cli_flag_plain: "cli_flag arg a = Some a' \<Longrightarrow> mcp_plain a \<Longrightarrow> mcp_plain a'"
  by (auto simp: cli_flag_def mcp_plain_def split: if_splits)

lemma cli_parse_plain: "cli_parse read_file atof a args = Inr a' \<Longrightarrow> mcp_plain a \<Longrightarrow> mcp_plain a'"
proof (induction read_file atof a args rule: cli_parse.induct)
  case (2 read_file atof a arg rest)
  show ?case
  proof (cases "case rest of [] \<Rightarrow> None | v # _ \<Rightarrow> cli_option read_file atof arg v a")
    case None
    then show ?thesis using 2 cli_flag_plain by (auto split: option.splits)
  next
    case (Some r)
    then obtain v where "cli_option read_file atof arg v a = Some r" by (cases rest) auto
    then show ?thesis using 2 Some cli_option_plain by (cases r) auto
  qed
qed simp

lemma mcp_fields:
  "mcp_timeout_sec s = mcp_timeout_sec mcp_server_params_default \<Longrightarrow>
   mcp_server_params_default\<lparr>mcp_url := mcp_url s, mcp_api_key := mcp_api_key s\<rparr> = s"
  by (simp add: mcp_server_params_default_def)

lemma field_add: "map_of (add_field fs k v) key = (case map_of fs key of Some w \<Rightarrow> Some w | None \<Rightarrow> if key = k then Some v else None)"
  by (simp add: add_field_def map_add_def split: option.splits)

lemma field_other:
  assumes "key \<noteq> k"
  shows "map_of (add_field fs k w) key = map_of fs key" "map_of (str_field fs k v) key = map_of fs key"
    "map_of (int_field fs k n) key = map_of fs key" "map_of (strs_field fs k vs) key = map_of fs key"
  using assms by (simp_all add: str_field_def int_field_def strs_field_def field_add split: option.splits)

lemma field_same:
  assumes "map_of fs key = None"
  shows "map_of (add_field fs key w) key = Some w"
    "map_of (str_field fs key v) key = (if v = [] then None else Some (JStr v))"
    "map_of (int_field fs key n) key = (if 0 < n then Some (JInt n) else None)"
    "map_of (strs_field fs key vs) key = Some (JArr (map JStr vs))"
  using assms by (simp_all add: str_field_def int_field_def strs_field_def field_add)

lemma str_read: "json_text (if v = [] then None else Some (JStr v)) = v"
  by simp

lemma strs_read: "List.map_filter (\<lambda>v. case v of JStr s \<Rightarrow> Some s | _ \<Rightarrow> None) (map JStr vs) = vs"
  by (induction vs) (simp_all add: List.map_filter_def)

lemma count_read:
  assumes "yyjson_obj_get obj key = (if 0 < n then Some (JInt n) else None)" "n < 2 ^ 31"
  shows "rt_json_count obj key named = (count_given n, if named = [] \<and> RT_MAX_COUNT < n then key else named)"
proof (cases "0 < n")
  case True
  then have "\<bar>n\<bar> < 2 ^ 53" using assms(2) by simp
  then have "to_f64 (of_int n) = of_int n" by (rule to_f64_of_int)
  moreover have "(of_int n \<le> (of_int RT_MAX_COUNT :: rat)) = (n \<le> RT_MAX_COUNT)" by (simp only: of_int_le_iff)
  moreover have "trunc (- 1) = - 1" using trunc_of_int [of "- 1"] by simp
  ultimately show ?thesis
    using assms(1) True by (simp add: rt_json_count_def rt_json_value_def yyjson_is_null_def yyjson_num_def count_given_def)
next
  case False
  have "trunc (- 1) = - 1" using trunc_of_int [of "- 1"] by simp
  then show ?thesis
    using assms(1) False by (simp add: rt_json_count_def rt_json_value_def yyjson_is_null_def count_given_def RT_MAX_COUNT_def)
qed

lemma nothing_read:
  assumes "yyjson_obj_get obj key = None"
  shows "rt_json_real obj key (- 1) named = (- 1, named)" "rt_json_real obj key (- 100) named = (- 100, named)"
    "rt_json_count obj key named = (- 1, named)" "rt_json_ms obj key named = (- 1, named)"
    "rt_json_value obj key (- 1) lo hi named = (- 1, named)" "rt_json_int obj key (- 1) = - 1"
  using assms to_f32_of_int [of "- 1"] to_f32_of_int [of "- 100"] trunc_of_int [of "- 1"]
  by (simp_all add: rt_json_real_def rt_json_count_def rt_json_ms_def rt_json_value_def rt_json_int_def yyjson_is_int_def)

lemma rt_json_str_obj: "rt_json_str (Some (JObj fs)) key = json_text (map_of fs key)"
  by (simp add: rt_json_str_def)

lemma rt_json_strs_arr: "map_of fs key = Some (JArr (map JStr vs)) \<Longrightarrow> rt_json_strs (Some (JObj fs)) key = vs"
  by (simp add: rt_json_strs_def strs_read)

lemma session_strs:
  "rt_json_str (Some (JObj (session_fields a languages))) ''mode'' = ca_mode a"
  "rt_json_str (Some (JObj (session_fields a languages))) ''echo'' = (if ca_aec a then ''server'' else ''off'')"
  "rt_json_str (Some (JObj (session_fields a languages))) ''llm_url'' = ca_llm_url a"
  "rt_json_str (Some (JObj (session_fields a languages))) ''llm_model'' = ca_llm_model a"
  "rt_json_str (Some (JObj (session_fields a languages))) ''llm_key'' = ca_llm_key a"
  "rt_json_str (Some (JObj (session_fields a languages))) ''instructions'' = ca_instructions a"
  by (simp_all add: rt_json_str_obj session_fields_def Let_def field_other field_same)

lemma session_gets:
  "map_of (session_fields a languages) ''llm_timeout_sec'' = (if 0 < ca_llm_timeout a then Some (JInt (ca_llm_timeout a)) else None)"
  "map_of (session_fields a languages) ''max_rounds'' = (if 0 < ca_max_rounds a then Some (JInt (ca_max_rounds a)) else None)"
  "map_of (session_fields a languages) ''tool_timeout_sec'' = (if 0 < ca_tool_timeout a then Some (JInt (ca_tool_timeout a)) else None)"
  "map_of (session_fields a languages) ''tools'' = Some (JArr (map JStr (ca_tools a)))"
  "map_of (session_fields a languages) ''mcp'' = Some (JArr (map (\<lambda>server.
     JObj (str_field (str_field [] ''url'' (mcp_url server)) ''key'' (mcp_api_key server))) (ca_mcp a)))"
  "map_of (session_fields a languages) ''sampling'' = Some (JObj (str_field [] ''reasoning_effort'' (ca_reasoning_effort a)))"
  "map_of (session_fields a languages) ''wake'' = Some (JObj (strs_field (strs_field (str_field [] ''mode'' (ca_wake_mode a))
     ''phrases'' (ca_wake_phrases a)) ''sleep_phrases'' (ca_sleep_phrases a)))"
  "map_of (session_fields a languages) ''tts'' = Some (JObj (strs_field (str_field (str_field (str_field [] ''voice'' (ca_voice a))
     ''effect'' (ca_effect a)) ''language'' (ca_language a)) ''browser_languages'' languages))"
  "map_of (session_fields a languages) ''vad'' = None" "map_of (session_fields a languages) ''turn'' = None"
  by (simp_all add: session_fields_def Let_def field_other field_same)

lemma mcp_read:
  assumes "mcp_plain a"
  shows "parse_mcp (Some (JArr (map (\<lambda>server.
    JObj (str_field (str_field [] ''url'' (mcp_url server)) ''key'' (mcp_api_key server))) (ca_mcp a)))) =
    filter (\<lambda>s. mcp_url s \<noteq> []) (ca_mcp a)"
proof -
  have "map (\<lambda>s. mcp_server_params_default\<lparr>mcp_url := mcp_url s, mcp_api_key := mcp_api_key s\<rparr>) (ca_mcp a) = map id (ca_mcp a)"
    using assms by (intro map_cong) (simp_all add: mcp_plain_def list_all_iff mcp_fields)
  then show ?thesis by (simp add: parse_mcp_def comp_def rt_json_str_obj field_other field_same str_read)
qed

text \<open>The sections of the update, with the names of its fields alone.\<close>

lemma sampling_read:
  "parse_sampling (Some (JObj (str_field [] ''reasoning_effort'' effort))) p =
     p\<lparr>p_temperature := - 1, p_top_p := - 1, p_top_k := - 1, p_min_p := - 1, p_max_tokens := - 1,
       p_presence_penalty := - 100, p_frequency_penalty := - 100, p_seed := - 1, p_reasoning_effort := effort\<rparr>"
  by (simp add: parse_sampling_def Let_def read_field_def nothing_read field_other field_same rt_json_str_obj)

lemma tts_read:
  "parse_tts (Some (JObj (strs_field (str_field (str_field (str_field [] ''voice'' voice) ''effect'' effect)
       ''language'' language) ''browser_languages'' languages))) p =
     p\<lparr>p_tts_voice := voice, p_tts_effect := effect, p_tts_language := language, p_tts_browser_languages := languages,
       p_tts_min_chars := - 1, p_tts_chars_per_second := - 1, p_tts_margin_seconds := - 1\<rparr>"
  using to_f32_of_int [of "- 1"]
  by (simp add: parse_tts_def parse_tts_sampling_def Let_def read_field_def nothing_read field_other field_same
      rt_json_str_obj rt_json_strs_arr)

lemma wake_read:
  fixes mode phrases sleep_phrases
  defines "w \<equiv> strs_field (strs_field (str_field [] ''mode'' mode) ''phrases'' phrases) ''sleep_phrases'' sleep_phrases"
  shows "rt_json_str (Some (JObj w)) ''mode'' = mode" "rt_json_strs (Some (JObj w)) ''phrases'' = phrases"
    "rt_json_strs (Some (JObj w)) ''sleep_phrases'' = sleep_phrases"
  by (simp_all add: w_def rt_json_str_obj rt_json_strs_arr field_other field_same)

lemma session_read:
  assumes "mcp_plain a" "ca_llm_timeout a < 2 ^ 31" "ca_max_rounds a < 2 ^ 31" "ca_tool_timeout a < 2 ^ 31"
  shows "parse_session_update (Some (JObj (session_update a languages))) = cli_patch a languages"
proof -
  define fs where "fs = session_fields a languages"
  have session: "yyjson_obj_get (Some (JObj (session_update a languages))) ''session'' = Some (JObj fs)"
    by (simp add: session_update_def rt_frame_begin_def add_field_def fs_def)
  have counts: "rt_json_count (Some (JObj fs)) ''llm_timeout_sec'' named =
      (count_given (ca_llm_timeout a), if named = [] \<and> RT_MAX_COUNT < ca_llm_timeout a then ''llm_timeout_sec'' else named)"
    "rt_json_count (Some (JObj fs)) ''max_rounds'' named =
      (count_given (ca_max_rounds a), if named = [] \<and> RT_MAX_COUNT < ca_max_rounds a then ''max_rounds'' else named)"
    "rt_json_count (Some (JObj fs)) ''tool_timeout_sec'' named =
      (count_given (ca_tool_timeout a), if named = [] \<and> RT_MAX_COUNT < ca_tool_timeout a then ''tool_timeout_sec'' else named)"
    for named
    using assms(2-4) by (intro count_read; simp add: fs_def session_gets)+
  note gets = session_gets [of a languages, folded fs_def]
  have tools: "rt_json_strs (Some (JObj fs)) ''tools'' = ca_tools a" by (rule rt_json_strs_arr) (rule gets)
  have none: "parse_vad None p = p" "parse_turn None p = p" for p by (simp_all add: parse_vad_def parse_turn_def)
  note strs = session_strs [of a languages, folded fs_def]
  show ?thesis
    unfolding parse_session_update_def session Let_def
    by (simp add: strs wake_read tools counts gets none sampling_read tts_read mcp_read [OF assms(1)] read_field_def
        cli_patch_def rt_session_patch_new_def)
qed

text \<open>C17: The command line reaches the engine: the first frame the engine is given, read back, asks for exactly what
  the command line said, field by field, with nothing for what it left out; a number past a million is left out
  too, and the first such in the order of the engine is named.\<close>

theorem command_line_reaches_the_engine:
  "case cli_parse read_file atof cli_args_default args of
     Inl _ \<Rightarrow> True
   | Inr a \<Rightarrow>
       let frame = session_update a languages in
       if list_all (\<lambda>n. n < 2 ^ 31) [ca_llm_timeout a, ca_max_rounds a, ca_tool_timeout a] \<and>
          rd (rt_frame_end wr frame) = Some (JObj frame)
       then rt_parse rd (rt_frame_end wr frame) =
         rt_client_message_new\<lparr>rc_type := RT_CLIENT_SESSION_UPDATE, rc_patch := cli_patch a languages\<rparr>
       else True"
proof (cases "cli_parse read_file atof cli_args_default args")
  case (Inr a)
  have "mcp_plain cli_args_default" by (simp add: mcp_plain_def cli_args_default_def)
  with Inr have "mcp_plain a" by (rule cli_parse_plain)
  moreover have "rt_json_str (Some (JObj (session_update a languages))) ''type'' = ''session.update''"
    by (simp add: rt_json_str_obj session_update_def rt_frame_begin_def add_field_def)
  ultimately show ?thesis
    using session_read [of a languages] by (simp add: Inr Let_def rt_parse_def)
qed simp

lemma history_read:
  assumes "list_all (\<lambda>m. rt_role m \<noteq> []) h"
  shows "parse_history (Some (JArr (map history_entry h))) = h"
proof -
  have "(\<lambda>item. \<lparr>rt_role = rt_json_str (Some item) ''role'', rt_content = rt_json_str (Some item) ''content'',
      rt_item = rt_json_str (Some item) ''item''\<rparr>) (history_entry m) = m" for m
    by (simp add: history_entry_def rt_json_str_obj)
  then have "map (\<lambda>item. \<lparr>rt_role = rt_json_str (Some item) ''role'', rt_content = rt_json_str (Some item) ''content'',
      rt_item = rt_json_str (Some item) ''item''\<rparr>) (map history_entry h) = h"
    by (induction h) simp_all
  then show ?thesis using assms by (simp add: parse_history_def filter_id_conv list_all_iff)
qed

text \<open>The conversation survives the trip: at any moment of a run, the frame that hands it to the engine, read back,
  holds every message the client filed, in order, with its role, its text and its item.\<close>

theorem conversation_survives_the_trip:
  assumes "cli_reach color reader cli"
    and "rd (rt_frame_end wr (context_history (cli_context cli))) = Some (JObj (context_history (cli_context cli)))"
  shows "rt_parse rd (rt_frame_end wr (context_history (cli_context cli))) =
    rt_client_message_new\<lparr>rc_type := RT_CLIENT_HISTORY, rc_messages := cx_history (cli_context cli)\<rparr>"
proof -
  have "list_all (\<lambda>m. rt_role m \<noteq> []) (cx_history (cli_context cli))"
    using cli_reach_ok [OF assms(1)] by (simp add: cli_ok_def)
  moreover have "rt_json_str (Some (JObj (context_history cx))) ''type'' = ''conversation.history''"
    "map_of (context_history cx) ''messages'' = Some (JArr (map history_entry (cx_history cx)))" for cx
    by (simp_all add: rt_json_str_obj context_history_def rt_frame_begin_def add_field_def)
  ultimately show ?thesis using assms(2) by (simp add: rt_parse_def Let_def history_read)
qed

definition asked_cli :: Cli where
  "asked_cli = the (on_event False bare_reader one_period ''conversation.item.input_audio_transcription.completed'' Cli_new)"

lemma asked_cli_history: "cx_history (cli_context asked_cli) = [\<lparr>rt_role = ''user'', rt_content = ''Well?'', rt_item = []\<rparr>]"
  by (simp add: asked_cli_def on_event_def bare_reader_def rt_json_str_obj Let_def context_user_def Cli_new_def Context_new_def)

lemma asked_cli_reached: "cli_reach False bare_reader asked_cli"
proof -
  have "on_event False bare_reader one_period ''conversation.item.input_audio_transcription.completed'' Cli_new = Some asked_cli"
    by (simp add: asked_cli_def on_event_def bare_reader_def rt_json_str_obj Let_def context_user_def)
  then have "cli_step False bare_reader Cli_new asked_cli"
    by (rule cli_step.event) (simp_all add: goes_on_def one_period_def opens_in_turn_def Cli_new_def Context_new_def)
  moreover have "cli_reach False bare_reader Cli_new"
    using cli_reach.start [of False bare_reader True] by (simp add: Cli_new_def)
  ultimately show ?thesis by (rule cli_reach.step [rotated])
qed

theorem conversation_survives_the_trip_witness:
  "map rt_content (rc_messages (rt_parse (\<lambda>_. Some (JObj (context_history (cli_context asked_cli)))) ''{}'')) = [''Well?'']"
  using conversation_survives_the_trip [OF asked_cli_reached, of "\<lambda>_. Some (JObj (context_history (cli_context asked_cli)))" "\<lambda>_. None"]
  by (simp add: rt_frame_end_def asked_cli_history)

text \<open>A sample as it arrives at the engine: 16 bits of it.\<close>

definition sent_sample :: "f32 \<Rightarrow> f32" where
  "sent_sample v = of_int (float_to_pcm16 v) / 32768"

lemma samples_read: "rt_pcm16_to_float (rt_base64_decode (rt_float_to_pcm16_base64 pcm)) = map sent_sample pcm"
  using heard_audio [of pcm]
  by (simp add: heard_def rt_event_audio_def rt_frame_str_def rt_frame_begin_def add_field_def rt_json_str_def sent_sample_def)

lemma nothing_encoded: "rt_float_to_pcm16_base64 pcm = [] \<longleftrightarrow> pcm = []"
  by (cases pcm) (auto simp: rt_float_to_pcm16_base64_def pcm16_bytes_def Let_def)

lemma mic_frame_read:
  assumes "rd (rt_frame_end wr (mic_frame aec pairs)) = Some (JObj (mic_frame aec pairs))"
  shows "rt_parse rd (rt_frame_end wr (mic_frame aec pairs)) =
    rt_client_message_new\<lparr>rc_type := RT_CLIENT_AUDIO_APPEND, rc_audio := map (\<lambda>(m, _). sent_sample m) pairs,
      rc_reference := (if aec \<and> list_ex (\<lambda>(_, r). r \<noteq> 0) pairs then map (\<lambda>(_, r). sent_sample r) pairs else [])\<rparr>"
proof -
  have empty: "rt_pcm16_to_float (rt_base64_decode []) = []" by (simp add: rt_base64_decode_def)
  have "rt_json_str (Some (JObj (mic_frame aec pairs))) ''type'' = ''input_audio_buffer.append''"
    "rt_json_str (Some (JObj (mic_frame aec pairs))) ''audio'' = rt_float_to_pcm16_base64 (map fst pairs)"
    "rt_json_str (Some (JObj (mic_frame aec pairs))) ''reference'' =
      (if aec \<and> list_ex (\<lambda>(_, r). r \<noteq> 0) pairs then rt_float_to_pcm16_base64 (map snd pairs) else [])"
    by (simp_all add: rt_json_str_obj mic_frame_def rt_frame_str_def rt_frame_begin_def add_field_def Let_def)
  then show ?thesis
    using assms by (simp add: rt_parse_def Let_def samples_read empty rt_client_message_new_def comp_def split_beta)
qed

text \<open>C16: The microphone travels with its echo: a period pairs every sample of the microphone with the sample the
  loudspeaker was given at that moment, as many pairs as there is room for; and a frame of the reader carries the
  480 oldest pairs, the microphone in 16 bits, and what was played when any of it was not silence.\<close>

theorem microphone_travels_with_its_echo:
  assumes "cli_reach color reader cli"
  shows "(case on_audio (cli_audio cli) input of (out, a) \<Rightarrow>
      length out = length input \<and>
      rb_items (au_capture a) = (let held = rb_items (au_capture (cli_audio cli)) in
        held @ take (rb_size (au_capture (cli_audio cli)) - length held) (zip input out))) \<and>
    (case grab_frame (cli_audio cli) of
      Some (Some pairs, _) \<Rightarrow>
        pairs = take 480 (rb_items (au_capture (cli_audio cli))) \<and> length pairs = 480 \<and>
        (if rd (rt_frame_end wr (mic_frame aec pairs)) = Some (JObj (mic_frame aec pairs))
         then rt_parse rd (rt_frame_end wr (mic_frame aec pairs)) =
           rt_client_message_new\<lparr>rc_type := RT_CLIENT_AUDIO_APPEND, rc_audio := map (\<lambda>(m, _). sent_sample m) pairs,
             rc_reference := (if aec \<and> list_ex (\<lambda>(_, r). r \<noteq> 0) pairs then map (\<lambda>(_, r). sent_sample r) pairs else [])\<rparr>
         else True)
    | Some (None, a) \<Rightarrow> a = cli_audio cli \<and> length (rb_items (au_capture a)) < 480
    | None \<Rightarrow> False)"
proof -
  have ok: "audio_ok (cli_audio cli)" using cli_reach_ok [OF assms] by (simp add: cli_ok_def)
  obtain out a where "on_audio (cli_audio cli) input = (out, a)" by force
  note on_audio_ok [OF ok this] this
  moreover from grab_frame_takes [OF ok] obtain capture where "grab_frame (cli_audio cli) = Some
     (if length (rb_items (au_capture (cli_audio cli))) < CLI_FRAME_SAMPLES then (None, cli_audio cli)
      else (Some (take CLI_FRAME_SAMPLES (rb_items (au_capture (cli_audio cli)))), (cli_audio cli)\<lparr>au_capture := capture\<rparr>))"
    by blast
  ultimately show ?thesis
    by (simp add: CLI_FRAME_SAMPLES_def mic_frame_read Let_def split: if_splits)
qed

theorem microphone_travels_with_its_echo_witness:
  "length (fst (on_audio (cli_audio asked_cli) [1, 0])) = 2"
  using microphone_travels_with_its_echo [OF asked_cli_reached, of "[1, 0]"] by (simp add: split_beta)

text \<open>The languages are names the talker has, each once, of the tags of the system, the first preferred first.\<close>

theorem system_languages_known:
  "distinct (system_languages getenv) \<and>
   set (system_languages getenv) = {name. \<exists>tag \<in> set (system_tags getenv). (take 2 tag, name) \<in> set language_names}"
proof -
  have one: "distinct ls \<Longrightarrow> distinct (foldl (add_language tag) ls names) \<and>
      set (foldl (add_language tag) ls names) = set ls \<union> {name. (take 2 tag, name) \<in> set names}" for ls tag names
    by (induction names arbitrary: ls) (auto simp: add_language_def)
  have all: "distinct ls \<Longrightarrow> distinct (foldl (\<lambda>ls tag. foldl (add_language tag) ls language_names) ls tags) \<and>
      set (foldl (\<lambda>ls tag. foldl (add_language tag) ls language_names) ls tags) =
        set ls \<union> {name. \<exists>tag \<in> set tags. (take 2 tag, name) \<in> set language_names}" for ls tags
    using one by (induction tags arbitrary: ls) auto
  show ?thesis using all [of "[]"] by (simp add: system_languages_def)
qed

end
