(* ===== verification/Canceller.thy ===== *)
theory Canceller
  imports Connection
begin

text \<open>
  The echo canceller of \<open>src/localvqe.cpp\<close> around its graph: streams that share one device, a slot each, a
  worker that runs every hop that waits in one pass, and the overlap of what comes back. The graph is a
  parameter, what it makes of one lane: the microphone's window, the reference's, and the history of the
  lane. Windows and histories of a slot are elements of lists; a history is zeroed, kept or replaced whole.
\<close>

section \<open>Data\<close>

type_synonym 'h lv_lane = "f32 list \<Rightarrow> f32 list \<Rightarrow> 'h \<Rightarrow> f32 list \<times> 'h"

record lv_state =
  lv_slot :: nat
  lv_mic_prev :: "f32 list"
  lv_ref_prev :: "f32 list"
  lv_mic_win :: "f32 list"
  lv_ref_win :: "f32 list"
  lv_frame :: "f32 list"
  lv_ola :: "f32 list"
  lv_done :: bool
  lv_status :: int

text \<open>A stream in the queue or in the batch of the worker is its name.\<close>

record 'h lv_context =
  lc_n_fft :: nat
  lc_hop :: nat
  lc_capacity :: nat
  lc_mic_host :: "f32 list list"
  lc_ref_host :: "f32 list list"
  lc_out_host :: "f32 list list"
  lc_states :: "'h list"
  lc_used :: "bool list"
  lc_valid :: "f32 list"
  lc_hold :: "f32 list"
  lc_queue :: "nat list"
  lc_batch :: "nat list"
  lc_computing :: bool
  lc_error :: string

section \<open>Slots\<close>

text \<open>The context as it is loaded, with the one slot it starts from.\<close>

definition lv_init :: "'h \<Rightarrow> nat \<Rightarrow> nat \<Rightarrow> 'h lv_context" where
  "lv_init zero n_fft hop =
     \<lparr>lc_n_fft = n_fft, lc_hop = hop, lc_capacity = 1, lc_mic_host = [replicate n_fft 0],
      lc_ref_host = [replicate n_fft 0], lc_out_host = [replicate n_fft 0], lc_states = [zero], lc_used = [False],
      lc_valid = [0], lc_hold = [1], lc_queue = [], lc_batch = [], lc_computing = False, lc_error = []\<rparr>"

text \<open>One more slot, once the graph was rebuilt for it: the histories move, the masks start again.\<close>

definition lv_grow :: "'h \<Rightarrow> 'h lv_context \<Rightarrow> 'h lv_context" where
  "lv_grow zero c =
     (let n_b = lc_capacity c + 1 in
      c\<lparr>lc_capacity := n_b, lc_states := lc_states c @ [zero], lc_used := lc_used c @ [False],
        lc_valid := replicate n_b 0, lc_hold := replicate n_b 1,
        lc_mic_host := lc_mic_host c @ [replicate (lc_n_fft c) 0],
        lc_ref_host := lc_ref_host c @ [replicate (lc_n_fft c) 0],
        lc_out_host := lc_out_host c @ [replicate (lc_n_fft c) 0]\<rparr>)"

text \<open>The first slot no stream holds, from \<open>slot\<close> on; the capacity when there is none.\<close>

fun free_slot :: "nat \<Rightarrow> bool list \<Rightarrow> nat" where
  "free_slot slot [] = slot"
| "free_slot slot (u # us) = (if u then free_slot (slot + 1) us else slot)"

definition lv_clear_slot :: "'h \<Rightarrow> nat \<Rightarrow> 'h lv_context \<Rightarrow> 'h lv_context" where
  "lv_clear_slot zero slot c = c\<lparr>lc_states := (lc_states c)[slot := zero]\<rparr>"

text \<open>A stream and the context; no stream when the context has to grow and cannot (\<open>built\<close>), which counts the
  slot it did not get.\<close>

definition lv_state_new :: "'h \<Rightarrow> bool \<Rightarrow> 'h lv_context \<Rightarrow> lv_state option \<times> 'h lv_context" where
  "lv_state_new zero built c =
     (let slot = free_slot 0 (lc_used c) in
      if slot = lc_capacity c \<and> \<not> built then (None, c\<lparr>lc_capacity := lc_capacity c + 1\<rparr>)
      else
        let c = (if slot = lc_capacity c then lv_grow zero c else c);
            c = lv_clear_slot zero slot (c\<lparr>lc_used := (lc_used c)[slot := True]\<rparr>)
        in (Some \<lparr>lv_slot = slot, lv_mic_prev = replicate (lc_hop c) 0, lv_ref_prev = replicate (lc_hop c) 0,
              lv_mic_win = replicate (lc_n_fft c) 0, lv_ref_win = replicate (lc_n_fft c) 0,
              lv_frame = replicate (lc_n_fft c) 0, lv_ola = replicate (lc_n_fft c) 0, lv_done = False, lv_status = 0\<rparr>, c))"

definition lv_state_reset :: "'h \<Rightarrow> lv_state \<Rightarrow> 'h lv_context \<Rightarrow> lv_state \<times> 'h lv_context" where
  "lv_state_reset zero st c =
     (st\<lparr>lv_mic_prev := map (\<lambda>_. 0) (lv_mic_prev st), lv_ref_prev := map (\<lambda>_. 0) (lv_ref_prev st),
         lv_ola := map (\<lambda>_. 0) (lv_ola st)\<rparr>, lv_clear_slot zero (lv_slot st) c)"

definition lv_state_free :: "lv_state \<Rightarrow> 'h lv_context \<Rightarrow> 'h lv_context" where
  "lv_state_free st c = c\<lparr>lc_used := (lc_used c)[lv_slot st := False]\<rparr>"

section \<open>A hop\<close>

text \<open>\<open>lv_process\<close> up to its wait: the windows are the previous hop and this one, and the stream is queued.\<close>

definition lv_submit :: "nat \<Rightarrow> f32 list \<Rightarrow> f32 list \<Rightarrow> lv_state \<Rightarrow> 'h lv_context \<Rightarrow> lv_state \<times> 'h lv_context" where
  "lv_submit i mic ref st c =
     (st\<lparr>lv_mic_win := lv_mic_prev st @ mic @ drop (2 * lc_hop c) (lv_mic_win st),
         lv_ref_win := lv_ref_prev st @ ref @ drop (2 * lc_hop c) (lv_ref_win st),
         lv_mic_prev := mic, lv_ref_prev := ref, lv_done := False\<rparr>,
      c\<lparr>lc_queue := lc_queue c @ [i]\<rparr>)"

text \<open>The frame is added to what overlaps it, its first hop goes out and the rest waits for the next.\<close>

definition overlap_add :: "nat \<Rightarrow> f32 list \<Rightarrow> f32 list \<Rightarrow> f32 list \<times> f32 list" where
  "overlap_add hop ola frame =
     (let ola = map (\<lambda>i. to_f32 (ola ! i + frame ! i)) [0..<length ola]
      in (take hop ola, drop hop ola @ replicate hop 0))"

text \<open>\<open>lv_process\<close> after its wait: the reason of a failure, or the hop.\<close>

definition lv_answer :: "lv_state \<Rightarrow> 'h lv_context \<Rightarrow> (string + f32 list) \<times> lv_state" where
  "lv_answer st c =
     (if lv_status st \<noteq> 0 then (Inl (lc_error c), st)
      else case overlap_add (lc_hop c) (lv_ola st) (lv_frame st) of (out, ola) \<Rightarrow> (Inr out, st\<lparr>lv_ola := ola\<rparr>))"

section \<open>The worker\<close>

text \<open>A stream of the batch, laid out in its lane.\<close>

definition lay_out :: "(nat \<Rightarrow> lv_state option) \<Rightarrow> 'h lv_context \<Rightarrow> nat \<Rightarrow> 'h lv_context" where
  "lay_out streams c i =
     (case streams i of
        None \<Rightarrow> c
      | Some st \<Rightarrow>
          c\<lparr>lc_mic_host := (lc_mic_host c)[lv_slot st := lv_mic_win st],
            lc_ref_host := (lc_ref_host c)[lv_slot st := lv_ref_win st],
            lc_valid := (lc_valid c)[lv_slot st := 1], lc_hold := (lc_hold c)[lv_slot st := 0]\<rparr>)"

definition worker_take :: "(nat \<Rightarrow> lv_state option) \<Rightarrow> 'h lv_context \<Rightarrow> 'h lv_context" where
  "worker_take streams c =
     (foldl (lay_out streams) (c\<lparr>lc_batch := lc_queue c, lc_queue := []\<rparr>) (lc_queue c))\<lparr>lc_computing := True\<rparr>"

text \<open>What is written back into the history of a lane: both sides are weighted by an exact zero or one.\<close>

definition lv_state_commit :: "f32 \<Rightarrow> 'h \<Rightarrow> 'h \<Rightarrow> 'h" where
  "lv_state_commit valid next_h state = (if valid = 1 then next_h else state)"

text \<open>A pass: every lane is computed, valid or not.\<close>

definition worker_run :: "'h lv_lane \<Rightarrow> 'h lv_context \<Rightarrow> 'h lv_context" where
  "worker_run lane c =
     (let lanes = map2 (\<lambda>(m, r) h. lane m r h) (zip (lc_mic_host c) (lc_ref_host c)) (lc_states c)
      in c\<lparr>lc_out_host := map fst lanes,
           lc_states := map2 (\<lambda>v (n, h). lv_state_commit v n h) (lc_valid c) (zip (map snd lanes) (lc_states c))\<rparr>)"

text \<open>One result handed back.\<close>

definition hand_back ::
  "bool \<Rightarrow> (nat \<Rightarrow> lv_state option) \<times> 'h lv_context \<Rightarrow> nat \<Rightarrow> (nat \<Rightarrow> lv_state option) \<times> 'h lv_context" where
  "hand_back ok sc i =
     (let (streams, c) = sc in case streams i of
        None \<Rightarrow> (streams, c)
      | Some st \<Rightarrow>
          (streams(i \<mapsto> st\<lparr>lv_frame := lc_out_host c ! lv_slot st, lv_status := (if ok then 0 else - 1), lv_done := True\<rparr>),
           c\<lparr>lc_valid := (lc_valid c)[lv_slot st := 0], lc_hold := (lc_hold c)[lv_slot st := 1]\<rparr>))"

definition worker_deliver ::
  "bool \<Rightarrow> (nat \<Rightarrow> lv_state option) \<Rightarrow> 'h lv_context \<Rightarrow> (nat \<Rightarrow> lv_state option) \<times> 'h lv_context" where
  "worker_deliver ok streams c =
     (case foldl (hand_back ok) (streams, c) (lc_batch c) of (streams, c) \<Rightarrow>
        (streams, c\<lparr>lc_error := (if ok then lc_error c else ''[LocalVQE] Graph compute failed''),
                    lc_computing := False, lc_batch := []\<rparr>))"

section \<open>The threads together\<close>

text \<open>The context, the streams, the callers that wait, whether the pass of the worker has run; and, for what
  follows, what each stream was fed since it is fresh and what it got.\<close>

record 'h lv_world =
  lw_ctx :: "'h lv_context"
  lw_streams :: "nat \<Rightarrow> lv_state option"
  lw_busy :: "nat \<Rightarrow> bool"
  lw_ran :: bool
  lw_fed :: "nat \<Rightarrow> (f32 list \<times> f32 list) list"
  lw_got :: "nat \<Rightarrow> f32 list list"

definition lv_start :: "'h \<Rightarrow> nat \<Rightarrow> 'h lv_world" where
  "lv_start zero hop =
     \<lparr>lw_ctx = lv_init zero (2 * hop) hop, lw_streams = (\<lambda>_. None), lw_busy = (\<lambda>_. False), lw_ran = False,
      lw_fed = (\<lambda>_. []), lw_got = (\<lambda>_. [])\<rparr>"

text \<open>What a thread may do next, at the grain of the lock: a caller opens, resets or frees a stream of its own, or
  calls with a hop and later has its answer; the worker takes the queue, runs its pass, hands back.\<close>

datatype lv_move =
    Open nat | Reset nat | Free nat | Submit nat "f32 list" "f32 list" | Answer nat | Take | Run | Deliver

text \<open>A move, \<^const>\<open>None\<close> while its guard or its wait holds it back. The passes succeed.\<close>

definition lv_move :: "'h lv_lane \<Rightarrow> 'h \<Rightarrow> lv_move \<Rightarrow> 'h lv_world \<Rightarrow> 'h lv_world option" where
  "lv_move lane zero move w =
     (let c = lw_ctx w in
      case move of
        Open i \<Rightarrow>
          if lw_streams w i \<noteq> None \<or> lc_computing c then None
          else (case lv_state_new zero True c of
              (None, _) \<Rightarrow> None
            | (Some st, c) \<Rightarrow> Some (w\<lparr>lw_ctx := c, lw_streams := (lw_streams w)(i \<mapsto> st),
                lw_fed := (lw_fed w)(i := []), lw_got := (lw_got w)(i := [])\<rparr>))
      | Reset i \<Rightarrow>
          (case lw_streams w i of
             None \<Rightarrow> None
           | Some st \<Rightarrow>
               if lw_busy w i \<or> lc_computing c then None
               else case lv_state_reset zero st c of (st, c) \<Rightarrow>
                 Some (w\<lparr>lw_ctx := c, lw_streams := (lw_streams w)(i \<mapsto> st),
                   lw_fed := (lw_fed w)(i := []), lw_got := (lw_got w)(i := [])\<rparr>))
      | Free i \<Rightarrow>
          (case lw_streams w i of
             None \<Rightarrow> None
           | Some st \<Rightarrow>
               if lw_busy w i then None
               else Some (w\<lparr>lw_ctx := lv_state_free st c, lw_streams := (lw_streams w)(i := None)\<rparr>))
      | Submit i mic ref \<Rightarrow>
          (case lw_streams w i of
             None \<Rightarrow> None
           | Some st \<Rightarrow>
               if lw_busy w i \<or> length mic \<noteq> lc_hop c \<or> length ref \<noteq> lc_hop c then None
               else case lv_submit i mic ref st c of (st, c) \<Rightarrow>
                 Some (w\<lparr>lw_ctx := c, lw_streams := (lw_streams w)(i \<mapsto> st), lw_busy := (lw_busy w)(i := True),
                   lw_fed := (lw_fed w)(i := lw_fed w i @ [(mic, ref)])\<rparr>))
      | Answer i \<Rightarrow>
          (case lw_streams w i of
             None \<Rightarrow> None
           | Some st \<Rightarrow>
               if \<not> lw_busy w i \<or> \<not> lv_done st then None
               else case lv_answer st c of (out, st) \<Rightarrow>
                 Some (w\<lparr>lw_streams := (lw_streams w)(i \<mapsto> st), lw_busy := (lw_busy w)(i := False),
                   lw_got := (lw_got w)(i := lw_got w i @ (case out of Inl _ \<Rightarrow> [] | Inr pcm \<Rightarrow> [pcm]))\<rparr>))
      | Take \<Rightarrow>
          if lc_computing c \<or> lc_queue c = [] then None
          else Some (w\<lparr>lw_ctx := worker_take (lw_streams w) c, lw_ran := False\<rparr>)
      | Run \<Rightarrow>
          if \<not> lc_computing c \<or> lw_ran w then None
          else Some (w\<lparr>lw_ctx := worker_run lane c, lw_ran := True\<rparr>)
      | Deliver \<Rightarrow>
          if \<not> lc_computing c \<or> \<not> lw_ran w then None
          else case worker_deliver True (lw_streams w) c of (streams, c) \<Rightarrow>
            Some (w\<lparr>lw_ctx := c, lw_streams := streams, lw_ran := False\<rparr>))"

fun lv_moves :: "'h lv_lane \<Rightarrow> 'h \<Rightarrow> lv_move list \<Rightarrow> 'h lv_world \<Rightarrow> 'h lv_world option" where
  "lv_moves lane zero [] w = Some w"
| "lv_moves lane zero (m # ms) w = (case lv_move lane zero m w of None \<Rightarrow> None | Some w \<Rightarrow> lv_moves lane zero ms w)"

section \<open>A stream of its own\<close>

text \<open>The reference: a stream that has the device for itself, with its previous hops, its overlap and its
  history.\<close>

record 'h solo =
  so_mic :: "f32 list"
  so_ref :: "f32 list"
  so_ola :: "f32 list"
  so_hist :: 'h

definition solo_new :: "'h \<Rightarrow> nat \<Rightarrow> 'h solo" where
  "solo_new zero hop =
     \<lparr>so_mic = replicate hop 0, so_ref = replicate hop 0, so_ola = replicate (2 * hop) 0, so_hist = zero\<rparr>"

definition solo_process :: "'h lv_lane \<Rightarrow> nat \<Rightarrow> 'h solo \<Rightarrow> f32 list \<times> f32 list \<Rightarrow> f32 list \<times> 'h solo" where
  "solo_process lane hop s mr =
     (case mr of (mic, ref) \<Rightarrow>
      case lane (so_mic s @ mic) (so_ref s @ ref) (so_hist s) of (frame, h) \<Rightarrow>
      case overlap_add hop (so_ola s) frame of (out, ola) \<Rightarrow>
        (out, \<lparr>so_mic = mic, so_ref = ref, so_ola = ola, so_hist = h\<rparr>))"

definition solo_run :: "'h lv_lane \<Rightarrow> 'h \<Rightarrow> nat \<Rightarrow> (f32 list \<times> f32 list) list \<Rightarrow> f32 list list \<times> 'h solo" where
  "solo_run lane zero hop hops =
     foldl (\<lambda>(outs, s) mr. case solo_process lane hop s mr of (out, s) \<Rightarrow> (outs @ [out], s)) ([], solo_new zero hop) hops"

section \<open>What the worker does to a lane\<close>

definition ctx_ok :: "nat \<Rightarrow> 'h lv_context \<Rightarrow> bool" where
  "ctx_ok hop c \<longleftrightarrow> lc_hop c = hop \<and> lc_n_fft c = 2 * hop \<and>
     length (lc_mic_host c) = lc_capacity c \<and> length (lc_ref_host c) = lc_capacity c \<and>
     length (lc_out_host c) = lc_capacity c \<and> length (lc_states c) = lc_capacity c \<and>
     length (lc_used c) = lc_capacity c \<and> length (lc_valid c) = lc_capacity c \<and> length (lc_hold c) = lc_capacity c"

lemma run_lane:
  assumes "ctx_ok hop c" "s < lc_capacity c"
  shows "lc_out_host (worker_run lane c) ! s = fst (lane (lc_mic_host c ! s) (lc_ref_host c ! s) (lc_states c ! s))"
    "lc_states (worker_run lane c) ! s =
       (if lc_valid c ! s = 1 then snd (lane (lc_mic_host c ! s) (lc_ref_host c ! s) (lc_states c ! s)) else lc_states c ! s)"
  using assms by (simp_all add: worker_run_def Let_def ctx_ok_def lv_state_commit_def)

lemma run_ok: "ctx_ok hop c \<Longrightarrow> ctx_ok hop (worker_run lane c)"
  by (simp add: worker_run_def Let_def ctx_ok_def)

lemma run_retains:
  "lc_capacity (worker_run lane c) = lc_capacity c" "lc_used (worker_run lane c) = lc_used c"
  "lc_valid (worker_run lane c) = lc_valid c" "lc_queue (worker_run lane c) = lc_queue c"
  "lc_batch (worker_run lane c) = lc_batch c" "lc_computing (worker_run lane c) = lc_computing c"
  "lc_hop (worker_run lane c) = lc_hop c"
  by (simp_all add: worker_run_def Let_def)

text \<open>The slots of some streams.\<close>

definition slots_of :: "(nat \<Rightarrow> lv_state option) \<Rightarrow> nat set \<Rightarrow> nat set" where
  "slots_of streams ids = {lv_slot st | i st. i \<in> ids \<and> streams i = Some st}"

definition apart :: "(nat \<Rightarrow> lv_state option) \<Rightarrow> bool" where
  "apart streams \<longleftrightarrow> (\<forall>i j st st'. streams i = Some st \<and> streams j = Some st' \<and> lv_slot st = lv_slot st' \<longrightarrow> i = j)"

lemma lay_out_keeps:
  "ctx_ok hop c \<Longrightarrow> ctx_ok hop (lay_out streams c i)" "lc_capacity (lay_out streams c i) = lc_capacity c"
  "lc_states (lay_out streams c i) = lc_states c" "lc_used (lay_out streams c i) = lc_used c"
  "lc_queue (lay_out streams c i) = lc_queue c" "lc_batch (lay_out streams c i) = lc_batch c"
  "lc_hop (lay_out streams c i) = lc_hop c"
  by (simp_all add: lay_out_def ctx_ok_def split: option.split)

lemma lay_outs_keep:
  "ctx_ok hop c \<Longrightarrow> ctx_ok hop (foldl (lay_out streams) c ids)"
  "lc_capacity (foldl (lay_out streams) c ids) = lc_capacity c" "lc_states (foldl (lay_out streams) c ids) = lc_states c"
  "lc_used (foldl (lay_out streams) c ids) = lc_used c" "lc_queue (foldl (lay_out streams) c ids) = lc_queue c"
  "lc_batch (foldl (lay_out streams) c ids) = lc_batch c" "lc_hop (foldl (lay_out streams) c ids) = lc_hop c"
  by (induction ids arbitrary: c) (simp_all add: lay_out_keeps)

lemma lay_outs_lane:
  assumes "ctx_ok hop c" "apart streams" "\<And>i st. streams i = Some st \<Longrightarrow> lv_slot st < lc_capacity c"
  shows "streams i = Some st \<Longrightarrow> i \<in> set ids \<Longrightarrow>
      lc_mic_host (foldl (lay_out streams) c ids) ! lv_slot st = lv_mic_win st \<and>
      lc_ref_host (foldl (lay_out streams) c ids) ! lv_slot st = lv_ref_win st"
    and "s < lc_capacity c \<Longrightarrow>
      lc_valid (foldl (lay_out streams) c ids) ! s = (if s \<in> slots_of streams (set ids) then 1 else lc_valid c ! s)"
proof -
  have 1: "(streams i = Some st \<longrightarrow> i \<in> set ids \<longrightarrow>
      lc_mic_host (foldl (lay_out streams) c ids) ! lv_slot st = lv_mic_win st \<and>
      lc_ref_host (foldl (lay_out streams) c ids) ! lv_slot st = lv_ref_win st) \<and>
    (s < lc_capacity c \<longrightarrow>
      lc_valid (foldl (lay_out streams) c ids) ! s = (if s \<in> slots_of streams (set ids) then 1 else lc_valid c ! s))"
  proof (induction ids rule: rev_induct)
    case Nil
    then show ?case by (simp add: slots_of_def)
  next
    case (snoc j ids)
    define d where "d = foldl (lay_out streams) c ids"
    have d: "ctx_ok hop d" "lc_capacity d = lc_capacity c" using assms(1) by (simp_all add: d_def lay_outs_keep)
    have step: "foldl (lay_out streams) c (ids @ [j]) = lay_out streams d j" by (simp add: d_def)
    note IH = snoc.IH [folded d_def]
    show ?case
    proof (cases "streams j")
      case None
      then have "lay_out streams d j = d" "slots_of streams (set (ids @ [j])) = slots_of streams (set ids)"
        by (auto simp: lay_out_def slots_of_def)
      then show ?thesis using IH None unfolding step by auto
    next
      case (Some sj)
      have len: "length (lc_mic_host d) = lc_capacity c" "length (lc_ref_host d) = lc_capacity c"
        "length (lc_valid d) = lc_capacity c" using d by (simp_all add: ctx_ok_def)
      have j: "lv_slot sj < lc_capacity c" using assms(3) Some by blast
      have e: "lc_mic_host (lay_out streams d j) = (lc_mic_host d)[lv_slot sj := lv_mic_win sj]"
        "lc_ref_host (lay_out streams d j) = (lc_ref_host d)[lv_slot sj := lv_ref_win sj]"
        "lc_valid (lay_out streams d j) = (lc_valid d)[lv_slot sj := 1]"
        using Some by (simp_all add: lay_out_def)
      have "lv_slot st = lv_slot sj \<Longrightarrow> streams i = Some st \<Longrightarrow> i = j"
        using assms(2) Some unfolding apart_def by blast
      moreover have "slots_of streams (set (ids @ [j])) = insert (lv_slot sj) (slots_of streams (set ids))"
        using Some by (auto simp: slots_of_def)
      ultimately show ?thesis
        using IH j len Some unfolding step e by (auto simp: nth_list_update)
    qed
  qed
  then show "streams i = Some st \<Longrightarrow> i \<in> set ids \<Longrightarrow>
      lc_mic_host (foldl (lay_out streams) c ids) ! lv_slot st = lv_mic_win st \<and>
      lc_ref_host (foldl (lay_out streams) c ids) ! lv_slot st = lv_ref_win st"
    "s < lc_capacity c \<Longrightarrow>
      lc_valid (foldl (lay_out streams) c ids) ! s = (if s \<in> slots_of streams (set ids) then 1 else lc_valid c ! s)"
    by blast+
qed

text \<open>A result in the hands of its stream.\<close>

definition handed :: "bool \<Rightarrow> 'h lv_context \<Rightarrow> lv_state \<Rightarrow> lv_state" where
  "handed ok c st = st\<lparr>lv_frame := lc_out_host c ! lv_slot st, lv_status := (if ok then 0 else - 1), lv_done := True\<rparr>"

lemma hand_backs:
  assumes "ctx_ok hop c" "foldl (hand_back ok) (streams, c) ids = (streams', c')" "distinct ids"
  shows "streams' = (\<lambda>i. if i \<in> set ids then map_option (handed ok c) (streams i) else streams i)"
    and "ctx_ok hop c' \<and> lc_capacity c' = lc_capacity c \<and> lc_states c' = lc_states c \<and> lc_used c' = lc_used c \<and>
      lc_queue c' = lc_queue c \<and> lc_out_host c' = lc_out_host c \<and>
      (\<forall>s < lc_capacity c. lc_valid c' ! s = (if s \<in> slots_of streams (set ids) then 0 else lc_valid c ! s))"
proof -
  have "streams' = (\<lambda>i. if i \<in> set ids then map_option (handed ok c) (streams i) else streams i) \<and>
    ctx_ok hop c' \<and> lc_capacity c' = lc_capacity c \<and> lc_states c' = lc_states c \<and> lc_used c' = lc_used c \<and>
      lc_queue c' = lc_queue c \<and> lc_out_host c' = lc_out_host c \<and>
      (\<forall>s < lc_capacity c. lc_valid c' ! s = (if s \<in> slots_of streams (set ids) then 0 else lc_valid c ! s))"
    using assms(2,3)
  proof (induction ids arbitrary: streams' c' rule: rev_induct)
    case Nil
    then show ?case using assms(1) by (auto simp: slots_of_def)
  next
    case (snoc j ids)
    obtain s1 d where d: "foldl (hand_back ok) (streams, c) ids = (s1, d)" by force
    have "distinct ids" "j \<notin> set ids" using snoc.prems(2) by simp_all
    note IH = snoc.IH [OF d this(1)]
    have s1j: "s1 j = streams j" using IH \<open>j \<notin> set ids\<close> by simp
    have step: "(streams', c') = hand_back ok (s1, d) j" using snoc.prems(1) d by simp
    show ?case
    proof (cases "streams j")
      case None
      then have "streams' = s1" "c' = d" using step s1j by (simp_all add: hand_back_def)
      moreover have "slots_of streams (set (ids @ [j])) = slots_of streams (set ids)"
        using None by (auto simp: slots_of_def)
      moreover have "s1 = (\<lambda>i. if i \<in> set (ids @ [j]) then map_option (handed ok c) (streams i) else streams i)"
        using IH None by (intro ext) simp
      ultimately show ?thesis using IH by metis
    next
      case (Some sj)
      then have e: "streams' = s1(j \<mapsto> handed ok d sj)"
        "c' = d\<lparr>lc_valid := (lc_valid d)[lv_slot sj := 0], lc_hold := (lc_hold d)[lv_slot sj := 1]\<rparr>"
        using step s1j by (simp_all add: hand_back_def handed_def)
      have "handed ok d sj = handed ok c sj" using IH by (simp add: handed_def)
      then have "streams' = (\<lambda>i. if i \<in> set (ids @ [j]) then map_option (handed ok c) (streams i) else streams i)"
        using IH Some e(1) by (intro ext) simp
      moreover have "slots_of streams (set (ids @ [j])) = insert (lv_slot sj) (slots_of streams (set ids))"
        using Some by (auto simp: slots_of_def)
      moreover have "length (lc_valid d) = lc_capacity c" using IH by (simp add: ctx_ok_def)
      moreover from this have "\<forall>s < lc_capacity c. lc_valid c' ! s =
          (if s \<in> insert (lv_slot sj) (slots_of streams (set ids)) then 0 else lc_valid c ! s)"
      proof (intro allI impI)
        fix s
        assume "s < lc_capacity c"
        then show "lc_valid c' ! s = (if s \<in> insert (lv_slot sj) (slots_of streams (set ids)) then 0 else lc_valid c ! s)"
          using IH \<open>length (lc_valid d) = lc_capacity c\<close> by (cases "lv_slot sj = s") (simp_all add: e(2))
      qed
      moreover have "ctx_ok hop d" using IH by blast
      then have "ctx_ok hop c'" by (simp add: e(2) ctx_ok_def)
      ultimately show ?thesis using IH e(2) by simp
    qed
  qed
  then show "streams' = (\<lambda>i. if i \<in> set ids then map_option (handed ok c) (streams i) else streams i)"
    "ctx_ok hop c' \<and> lc_capacity c' = lc_capacity c \<and> lc_states c' = lc_states c \<and> lc_used c' = lc_used c \<and>
      lc_queue c' = lc_queue c \<and> lc_out_host c' = lc_out_host c \<and>
      (\<forall>s < lc_capacity c. lc_valid c' ! s = (if s \<in> slots_of streams (set ids) then 0 else lc_valid c ! s))"
    by blast+
qed

section \<open>A stream against the reference\<close>

text \<open>Where a hop of a stream is: nowhere, in the queue, laid out, computed, handed back.\<close>

datatype stage = Resting | Queued | Laid | Computed | Handed

definition stage_of :: "'h lv_world \<Rightarrow> nat \<Rightarrow> stage" where
  "stage_of w i =
     (if \<not> lw_busy w i then Resting
      else if i \<in> set (lc_queue (lw_ctx w)) then Queued
      else if i \<in> set (lc_batch (lw_ctx w)) then (if lw_ran w then Computed else Laid)
      else Handed)"

text \<open>A stream whose lane holds the history \<open>h\<close>, the windows \<open>m\<close> and \<open>r\<close> and the output \<open>f\<close>, against what the
  reference makes of its hops but the one in flight.\<close>

definition fits ::
  "'h lv_lane \<Rightarrow> nat \<Rightarrow> stage \<Rightarrow> f32 list list \<times> 'h solo \<Rightarrow> (f32 list \<times> f32 list) option \<Rightarrow> f32 list list \<Rightarrow> lv_state
     \<Rightarrow> 'h \<Rightarrow> f32 list \<Rightarrow> f32 list \<Rightarrow> f32 list \<Rightarrow> bool" where
  "fits lane hop stage run flight got st h m r f \<longleftrightarrow>
     got = fst run \<and> lv_ola st = so_ola (snd run) \<and> length (lv_mic_prev st) = hop \<and> length (lv_ref_prev st) = hop \<and>
     length (lv_mic_win st) = 2 * hop \<and> length (lv_ref_win st) = 2 * hop \<and>
     (case flight of
        None \<Rightarrow> stage = Resting \<and> lv_mic_prev st = so_mic (snd run) \<and> lv_ref_prev st = so_ref (snd run) \<and> h = so_hist (snd run)
      | Some (mic, ref) \<Rightarrow>
          lv_mic_prev st = mic \<and> lv_ref_prev st = ref \<and>
          lv_mic_win st = so_mic (snd run) @ mic \<and> lv_ref_win st = so_ref (snd run) @ ref \<and>
          (case stage of
             Resting \<Rightarrow> False
           | Queued \<Rightarrow> \<not> lv_done st \<and> h = so_hist (snd run)
           | Laid \<Rightarrow> \<not> lv_done st \<and> h = so_hist (snd run) \<and> m = lv_mic_win st \<and> r = lv_ref_win st
           | Computed \<Rightarrow> \<not> lv_done st \<and> lane (lv_mic_win st) (lv_ref_win st) (so_hist (snd run)) = (f, h)
           | Handed \<Rightarrow> lv_done st \<and> lv_status st = 0 \<and>
               lane (lv_mic_win st) (lv_ref_win st) (so_hist (snd run)) = (lv_frame st, h)))"

definition stream_fits :: "'h lv_lane \<Rightarrow> 'h \<Rightarrow> nat \<Rightarrow> 'h lv_world \<Rightarrow> nat \<Rightarrow> lv_state \<Rightarrow> bool" where
  "stream_fits lane zero hop w i st \<longleftrightarrow>
     (\<exists>hops flight. lw_fed w i = hops @ (case flight of None \<Rightarrow> [] | Some mr \<Rightarrow> [mr]) \<and>
        fits lane hop (stage_of w i) (solo_run lane zero hop hops) flight (lw_got w i) st
          (lc_states (lw_ctx w) ! lv_slot st) (lc_mic_host (lw_ctx w) ! lv_slot st)
          (lc_ref_host (lw_ctx w) ! lv_slot st) (lc_out_host (lw_ctx w) ! lv_slot st))"

lemma solo_run_snoc:
  "solo_run lane zero hop (hops @ [mr]) =
     (case solo_run lane zero hop hops of (outs, s) \<Rightarrow> case solo_process lane hop s mr of (out, s) \<Rightarrow> (outs @ [out], s))"
  by (simp add: solo_run_def split_beta)

lemma fits_new:
  "fits lane hop Resting (solo_run lane zero hop []) None [] \<lparr>lv_slot = slot, lv_mic_prev = replicate hop 0, lv_ref_prev = replicate hop 0,
     lv_mic_win = replicate (2 * hop) 0, lv_ref_win = replicate (2 * hop) 0, lv_frame = fr,
     lv_ola = replicate (2 * hop) 0, lv_done = d, lv_status = stt\<rparr> zero m r f"
  by (simp add: fits_def solo_run_def solo_new_def)

lemma fits_submit:
  assumes "fits lane hop Resting run None got st h m r f" "length mic = hop" "length ref = hop" "lc_hop c = hop"
    "lv_submit i mic ref st c = (st', c')"
  shows "fits lane hop Queued run (Some (mic, ref)) got st' h m' r' f'"
  using assms by (auto simp: fits_def lv_submit_def)

lemma fits_answer:
  assumes "fits lane hop Handed (solo_run lane zero hop hops) (Some mr) got st h m r f" "lc_hop c = hop"
  shows "\<exists>out st'. lv_answer st c = (Inr out, st') \<and> lv_slot st' = lv_slot st \<and>
    fits lane hop Resting (solo_run lane zero hop (hops @ [mr])) None (got @ [out]) st' h m' r' f'"
proof -
  obtain mic ref where mr: "mr = (mic, ref)" by force
  obtain outs s where run: "solo_run lane zero hop hops = (outs, s)" by force
  obtain out ola where ov: "overlap_add hop (lv_ola st) (lv_frame st) = (out, ola)" by force
  have l: "lane (so_mic s @ mic) (so_ref s @ ref) (so_hist s) = (lv_frame st, h)"
    using assms(1) by (auto simp: fits_def run mr)
  have "solo_process lane hop s mr = (out, \<lparr>so_mic = mic, so_ref = ref, so_ola = ola, so_hist = h\<rparr>)"
    using assms(1) ov l by (simp add: solo_process_def mr fits_def run)
  then have "fits lane hop Resting (solo_run lane zero hop (hops @ [mr])) None (got @ [out]) (st\<lparr>lv_ola := ola\<rparr>) h m' r' f'"
    using assms(1) by (auto simp: fits_def solo_run_snoc run mr)
  moreover have "lv_answer st c = (Inr out, st\<lparr>lv_ola := ola\<rparr>)"
    using assms ov by (simp add: lv_answer_def) (simp add: fits_def mr)
  ultimately show ?thesis by auto
qed

lemma fits_take:
  "fits lane hop Queued run flight got st h m r f \<Longrightarrow> fits lane hop Laid run flight got st h (lv_mic_win st) (lv_ref_win st) f'"
  by (auto simp: fits_def split: option.splits)

lemma fits_run:
  "fits lane hop Laid run flight got st h m r f \<Longrightarrow>
   fits lane hop Computed run flight got st (snd (lane m r h)) m' r' (fst (lane m r h))"
  by (auto simp: fits_def split: option.splits)

lemma fits_deliver:
  "fits lane hop Computed run flight got st h m r (lc_out_host c ! lv_slot st) \<Longrightarrow>
   fits lane hop Handed run flight got (handed True c st) h m' r' f'"
  by (auto simp: fits_def handed_def split: option.splits)

lemma fits_others:
  "stage \<noteq> Laid \<Longrightarrow> stage \<noteq> Computed \<Longrightarrow> fits lane hop stage run flight got st h m r f \<Longrightarrow>
   fits lane hop stage run flight got st h m' r' f'"
  by (auto simp: fits_def split: option.splits stage.splits)

lemma fits_resting: "fits lane hop Resting run flight got st h m r f \<Longrightarrow> flight = None"
  by (auto simp: fits_def split: option.splits)

lemma fits_flying: "fits lane hop stage run flight got st h m r f \<Longrightarrow> stage \<noteq> Resting \<Longrightarrow> flight \<noteq> None"
  by (cases flight) (auto simp: fits_def)


section \<open>The world\<close>

definition world_ok :: "'h lv_lane \<Rightarrow> 'h \<Rightarrow> nat \<Rightarrow> 'h lv_world \<Rightarrow> bool" where
  "world_ok lane zero hop w \<longleftrightarrow>
     (let c = lw_ctx w in
      ctx_ok hop c \<and> apart (lw_streams w) \<and>
      (\<forall>i st. lw_streams w i = Some st \<longrightarrow> lv_slot st < lc_capacity c \<and> lc_used c ! lv_slot st) \<and>
      distinct (lc_queue c @ lc_batch c) \<and> (\<forall>i \<in> set (lc_queue c @ lc_batch c). lw_busy w i) \<and>
      (\<forall>i. lw_busy w i \<longrightarrow> lw_streams w i \<noteq> None) \<and>
      (\<not> lc_computing c \<longrightarrow> lc_batch c = []) \<and> (lw_ran w \<longrightarrow> lc_computing c) \<and>
      (\<forall>s < lc_capacity c. lc_valid c ! s = (if s \<in> slots_of (lw_streams w) (set (lc_batch c)) then 1 else 0)) \<and>
      (\<forall>i st. lw_streams w i = Some st \<longrightarrow> stream_fits lane zero hop w i st))"

lemma world_okD:
  assumes "world_ok lane zero hop w"
  shows "ctx_ok hop (lw_ctx w)" "apart (lw_streams w)"
    "lw_streams w i = Some st \<Longrightarrow> lv_slot st < lc_capacity (lw_ctx w)"
    "lw_streams w i = Some st \<Longrightarrow> lc_used (lw_ctx w) ! lv_slot st"
    "distinct (lc_queue (lw_ctx w))" "distinct (lc_batch (lw_ctx w))"
    "i \<in> set (lc_queue (lw_ctx w)) \<Longrightarrow> i \<notin> set (lc_batch (lw_ctx w))"
    "i \<in> set (lc_queue (lw_ctx w)) \<Longrightarrow> lw_busy w i" "i \<in> set (lc_batch (lw_ctx w)) \<Longrightarrow> lw_busy w i"
    "lw_busy w i \<Longrightarrow> lw_streams w i \<noteq> None"
    "\<not> lc_computing (lw_ctx w) \<Longrightarrow> lc_batch (lw_ctx w) = []" "lw_ran w \<Longrightarrow> lc_computing (lw_ctx w)"
    "s < lc_capacity (lw_ctx w) \<Longrightarrow>
       lc_valid (lw_ctx w) ! s = (if s \<in> slots_of (lw_streams w) (set (lc_batch (lw_ctx w))) then 1 else 0)"
    "lw_streams w i = Some st \<Longrightarrow> stream_fits lane zero hop w i st"
  using assms by (auto simp: world_ok_def Let_def)

lemma world_okI:
  assumes "ctx_ok hop (lw_ctx w)" "apart (lw_streams w)"
    "\<And>i st. lw_streams w i = Some st \<Longrightarrow> lv_slot st < lc_capacity (lw_ctx w) \<and> lc_used (lw_ctx w) ! lv_slot st"
    "distinct (lc_queue (lw_ctx w))" "distinct (lc_batch (lw_ctx w))"
    "\<And>i. i \<in> set (lc_queue (lw_ctx w)) \<Longrightarrow> i \<notin> set (lc_batch (lw_ctx w))"
    "\<And>i. i \<in> set (lc_queue (lw_ctx w)) \<Longrightarrow> lw_busy w i" "\<And>i. i \<in> set (lc_batch (lw_ctx w)) \<Longrightarrow> lw_busy w i"
    "\<And>i. lw_busy w i \<Longrightarrow> lw_streams w i \<noteq> None"
    "\<not> lc_computing (lw_ctx w) \<Longrightarrow> lc_batch (lw_ctx w) = []" "lw_ran w \<Longrightarrow> lc_computing (lw_ctx w)"
    "\<And>s. s < lc_capacity (lw_ctx w) \<Longrightarrow>
       lc_valid (lw_ctx w) ! s = (if s \<in> slots_of (lw_streams w) (set (lc_batch (lw_ctx w))) then 1 else 0)"
    "\<And>i st. lw_streams w i = Some st \<Longrightarrow> stream_fits lane zero hop w i st"
  shows "world_ok lane zero hop w"
  using assms unfolding world_ok_def Let_def by auto

lemma fits_answered:
  assumes "fits lane hop Handed (solo_run lane zero hop hops) (Some mr) got st h m r f" "lc_hop c = hop"
  shows "\<exists>out st'. lv_answer st c = (Inr out, st') \<and> lv_slot st' = lv_slot st \<and>
    (\<forall>m' r' f'. fits lane hop Resting (solo_run lane zero hop (hops @ [mr])) None (got @ [out]) st' h m' r' f')"
proof -
  obtain out st' where a: "lv_answer st c = (Inr out, st')" "lv_slot st' = lv_slot st"
    and b: "fits lane hop Resting (solo_run lane zero hop (hops @ [mr])) None (got @ [out]) st' h [] [] []"
    using fits_answer [OF assms] by blast
  have "fits lane hop Resting (solo_run lane zero hop (hops @ [mr])) None (got @ [out]) st' h m' r' f'" for m' r' f'
    using fits_others [OF _ _ b] by simp
  then show ?thesis using a by blast
qed

lemma stage_resting: "stage_of w i = Resting \<longleftrightarrow> \<not> lw_busy w i"
  by (simp add: stage_of_def)

text \<open>What a move leaves of a stream it does not touch.\<close>

lemma stream_fits_kept:
  assumes "stream_fits lane zero hop w i st" "stage_of w' i = stage_of w i" "lw_fed w' i = lw_fed w i"
    "lw_got w' i = lw_got w i" "lc_states (lw_ctx w') ! lv_slot st = lc_states (lw_ctx w) ! lv_slot st"
    "stage_of w i \<in> {Laid, Computed} \<Longrightarrow>
      lc_mic_host (lw_ctx w') ! lv_slot st = lc_mic_host (lw_ctx w) ! lv_slot st \<and>
      lc_ref_host (lw_ctx w') ! lv_slot st = lc_ref_host (lw_ctx w) ! lv_slot st \<and>
      lc_out_host (lw_ctx w') ! lv_slot st = lc_out_host (lw_ctx w) ! lv_slot st"
  shows "stream_fits lane zero hop w' i st"
proof (cases "stage_of w i \<in> {Laid, Computed}")
  case True
  then show ?thesis using assms by (simp add: stream_fits_def)
next
  case False
  then have "stage_of w i \<noteq> Laid" "stage_of w i \<noteq> Computed" by auto
  then show ?thesis using assms(1-5) fits_others unfolding stream_fits_def by metis
qed

lemma stream_fits_stage:
  assumes "stream_fits lane zero hop w i st" "lw_fed w' i = lw_fed w i" "lw_got w' i = lw_got w i"
    "\<And>run flight. fits lane hop (stage_of w i) run flight (lw_got w i) st
        (lc_states (lw_ctx w) ! lv_slot st) (lc_mic_host (lw_ctx w) ! lv_slot st)
        (lc_ref_host (lw_ctx w) ! lv_slot st) (lc_out_host (lw_ctx w) ! lv_slot st) \<Longrightarrow>
      fits lane hop (stage_of w' i) run flight (lw_got w i) st'
        (lc_states (lw_ctx w') ! lv_slot st') (lc_mic_host (lw_ctx w') ! lv_slot st')
        (lc_ref_host (lw_ctx w') ! lv_slot st') (lc_out_host (lw_ctx w') ! lv_slot st')"
  shows "stream_fits lane zero hop w' i st'"
  using assms unfolding stream_fits_def by metis

lemma start_ok: "world_ok lane zero hop (lv_start zero hop)"
  by (simp add: world_ok_def lv_start_def lv_init_def ctx_ok_def apart_def slots_of_def)

lemma free_slot_is: "free_slot k us = k + length (takeWhile id us)"
  by (induction us arbitrary: k) auto

lemma free_slot_free:
  "free_slot 0 us \<le> length us" "free_slot 0 us < length us \<Longrightarrow> \<not> us ! free_slot 0 us"
proof -
  show "free_slot 0 us \<le> length us" using length_takeWhile_le [of id us] by (simp add: free_slot_is)
  show "free_slot 0 us < length us \<Longrightarrow> \<not> us ! free_slot 0 us"
    using nth_length_takeWhile [of id us] by (simp add: free_slot_is)
qed

lemma slots_of_same:
  "(\<And>i. i \<in> ids \<Longrightarrow> map_option lv_slot (streams' i) = map_option lv_slot (streams i)) \<Longrightarrow>
   slots_of streams' ids = slots_of streams ids"
proof -
  assume a: "\<And>i. i \<in> ids \<Longrightarrow> map_option lv_slot (streams' i) = map_option lv_slot (streams i)"
  have "slots_of s ids = {x. \<exists>i \<in> ids. map_option lv_slot (s i) = Some x}" for s :: "nat \<Rightarrow> lv_state option"
    by (auto simp: slots_of_def)
  then show ?thesis by (simp only: a cong: bex_cong)
qed


lemma apart_same:
  "(\<And>i. map_option lv_slot (streams' i) = map_option lv_slot (streams i)) \<Longrightarrow> apart streams \<Longrightarrow> apart streams'"
proof -
  assume a: "\<And>i. map_option lv_slot (streams' i) = map_option lv_slot (streams i)"
  have "apart s = (\<forall>i j x. map_option lv_slot (s i) = Some x \<and> map_option lv_slot (s j) = Some x \<longrightarrow> i = j)"
    for s :: "nat \<Rightarrow> lv_state option"
    by (auto simp: apart_def)
  then show "apart streams \<Longrightarrow> apart streams'" by (simp only: a)
qed

lemma slot_same:
  "map_option lv_slot a = map_option lv_slot b \<Longrightarrow> a = Some st \<Longrightarrow> \<exists>st'. b = Some st' \<and> lv_slot st' = lv_slot st"
  by (cases b) auto

text \<open>The overlap keeps its length.\<close>

lemma solo_ola:
  "length (so_ola (snd (solo_run lane zero hop hops))) = 2 * hop"
proof (induction hops rule: rev_induct)
  case Nil
  then show ?case by (simp add: solo_run_def solo_new_def)
next
  case (snoc mr hops)
  then show ?case
    by (simp add: solo_run_snoc split_beta solo_process_def overlap_add_def Let_def)
qed

lemma move_open:
  assumes "world_ok lane zero hop w" "lv_move lane zero (Open i) w = Some w'"
  shows "world_ok lane zero hop w'"
proof -
  define c where "c = lw_ctx w"
  note ok = world_okD [OF assms(1)]
  define slot where "slot = free_slot 0 (lc_used c)"
  define c0 where "c0 = (if slot = lc_capacity c then lv_grow zero c else c)"
  define c1 where "c1 = lv_clear_slot zero slot (c0\<lparr>lc_used := (lc_used c0)[slot := True]\<rparr>)"
  have fresh: "lw_streams w i = None" "\<not> lc_computing c"
    using assms(2) by (auto simp: lv_move_def c_def Let_def split: if_splits)
  have ctx: "ctx_ok hop c" using ok(1) by (simp add: c_def)
  have slot: "slot \<le> lc_capacity c" "slot < lc_capacity c \<Longrightarrow> \<not> lc_used c ! slot"
    using free_slot_free [of "lc_used c"] ctx by (simp_all add: slot_def ctx_ok_def)
  have ctx0: "ctx_ok hop c0" "slot < lc_capacity c0" "lc_capacity c \<le> lc_capacity c0" "lc_queue c0 = lc_queue c"
    "lc_batch c0 = lc_batch c" "lc_computing c0 = lc_computing c"
    using ctx slot(1) by (simp_all add: c0_def lv_grow_def Let_def ctx_ok_def)
  have old: "s < lc_capacity c \<Longrightarrow> lc_states c0 ! s = lc_states c ! s \<and> lc_used c0 ! s = lc_used c ! s \<and>
      lc_mic_host c0 ! s = lc_mic_host c ! s \<and> lc_ref_host c0 ! s = lc_ref_host c ! s \<and>
      lc_out_host c0 ! s = lc_out_host c ! s" for s
    using ctx by (simp add: c0_def lv_grow_def Let_def ctx_ok_def nth_append)
  have batch: "lc_batch c = []" using ok(11) fresh(2) by (simp add: c_def)
  have v0: "s < lc_capacity c0 \<Longrightarrow> lc_valid c0 ! s = 0" for s
    using ok(13) batch by (auto simp: c0_def lv_grow_def Let_def c_def slots_of_def simp del: replicate_Suc)
  have c1: "ctx_ok hop c1" "lc_capacity c1 = lc_capacity c0" "lc_queue c1 = lc_queue c" "lc_batch c1 = lc_batch c"
    "lc_computing c1 = lc_computing c" "lc_valid c1 = lc_valid c0" "lc_states c1 = (lc_states c0)[slot := zero]"
    "lc_used c1 = (lc_used c0)[slot := True]" "lc_mic_host c1 = lc_mic_host c0" "lc_ref_host c1 = lc_ref_host c0"
    "lc_out_host c1 = lc_out_host c0"
    using ctx0 by (simp_all add: c1_def lv_clear_slot_def ctx_ok_def)
  define st where "st = \<lparr>lv_slot = slot, lv_mic_prev = replicate hop 0, lv_ref_prev = replicate hop 0,
     lv_mic_win = replicate (2 * hop) 0, lv_ref_win = replicate (2 * hop) 0, lv_frame = replicate (2 * hop) 0,
     lv_ola = replicate (2 * hop) 0, lv_done = False, lv_status = 0\<rparr>"
  have hops: "lc_hop c1 = hop" "lc_n_fft c1 = 2 * hop" using c1(1) by (simp_all add: ctx_ok_def)
  have new: "lv_state_new zero True c = (Some st, c1)"
    using hops by (simp add: lv_state_new_def Let_def st_def slot_def [symmetric] c0_def [symmetric] c1_def [symmetric])
  have w': "w' = w\<lparr>lw_ctx := c1, lw_streams := (lw_streams w)(i \<mapsto> st), lw_fed := (lw_fed w)(i := []), lw_got := (lw_got w)(i := [])\<rparr>"
    using assms(2) fresh new by (simp add: lv_move_def c_def Let_def)
  have stage: "stage_of w' j = stage_of w j" for j by (simp add: stage_of_def w' c1 c_def)
  have other: "lw_streams w j = Some sj \<Longrightarrow> lv_slot sj \<noteq> slot" for j sj
    using ok(3,4) slot by (metis c_def)
  have mine: "stream_fits lane zero hop w' i st"
  proof -
    have "\<not> lw_busy w i" using ok(10) fresh(1) by blast
    then have "stage_of w' i = Resting" by (simp add: w' stage_resting)
    moreover have "lc_states c1 ! slot = zero" using ctx0 by (simp add: c1 ctx_ok_def)
    moreover have "lw_fed w' i = [] @ (case None of None \<Rightarrow> [] | Some mr \<Rightarrow> [mr])" by (simp add: w')
    ultimately show ?thesis unfolding stream_fits_def
      by (intro exI [of _ "[]"] exI [of _ None]) (simp add: w' st_def fits_new)
  qed
  have theirs: "stream_fits lane zero hop w' j sj" if "lw_streams w j = Some sj" for j sj
  proof -
    have "j \<noteq> i" "lv_slot sj < lc_capacity c" "lv_slot sj \<noteq> slot" using that fresh ok(3) other by (auto simp: c_def)
    then show ?thesis
      using stream_fits_kept [OF ok(14) [OF that], of w'] stage old [of "lv_slot sj"] by (simp add: w' c1 c_def)
  qed
  have ctx': "lw_ctx w' = c1" "lw_busy w' = lw_busy w" "lw_ran w' = lw_ran w" by (simp_all add: w')
  show ?thesis
  proof (rule world_okI; (unfold ctx' c1(3-5))?)
    show "apart (lw_streams w')" using ok(2) other by (auto simp: w' apart_def st_def)
  next
    fix j sj
    assume a: "lw_streams w' j = Some sj"
    have len: "length (lc_used c0) = lc_capacity c0" using ctx0(1) by (simp add: ctx_ok_def)
    show "lv_slot sj < lc_capacity c1 \<and> lc_used c1 ! lv_slot sj"
    proof (cases "j = i")
      case True
      then show ?thesis using a ctx0 len by (auto simp: w' st_def c1)
    next
      case False
      then have "lw_streams w j = Some sj" using a by (simp add: w')
      then show ?thesis using ok(3,4) [of j sj] old [of "lv_slot sj"] ctx0 other [of j sj] by (simp add: c1 c_def)
    qed
  next
    fix s
    assume "s < lc_capacity c1"
    then show "lc_valid c1 ! s = (if s \<in> slots_of (lw_streams w') (set (lc_batch c)) then 1 else 0)"
      using v0 batch by (simp add: c1 slots_of_def)
  next
    fix j sj
    assume "lw_streams w' j = Some sj"
    then show "stream_fits lane zero hop w' j sj" using mine theirs by (cases "j = i") (auto simp: w')
  next
    fix j
    show "lw_busy w j \<Longrightarrow> lw_streams w' j \<noteq> None" using ok(10) by (simp add: w')
  qed (use ok(5-9,11,12) c1(1) in \<open>simp_all add: c_def\<close>)
qed

lemma move_reset:
  assumes "world_ok lane zero hop w" "lv_move lane zero (Reset i) w = Some w'"
  shows "world_ok lane zero hop w'"
proof -
  define c where "c = lw_ctx w"
  note ok = world_okD [OF assms(1)]
  obtain st where st: "lw_streams w i = Some st" "\<not> lw_busy w i" "\<not> lc_computing c"
    using assms(2) by (auto simp: lv_move_def c_def Let_def split: option.splits if_splits)
  define st' where "st' = st\<lparr>lv_mic_prev := map (\<lambda>_. 0) (lv_mic_prev st), lv_ref_prev := map (\<lambda>_. 0) (lv_ref_prev st),
    lv_ola := map (\<lambda>_. 0) (lv_ola st)\<rparr>"
  have w': "w' = w\<lparr>lw_ctx := lv_clear_slot zero (lv_slot st) c, lw_streams := (lw_streams w)(i \<mapsto> st'),
      lw_fed := (lw_fed w)(i := []), lw_got := (lw_got w)(i := [])\<rparr>"
    using assms(2) st by (simp add: lv_move_def c_def Let_def lv_state_reset_def st'_def)
  have stage: "stage_of w' j = stage_of w j" for j by (simp add: stage_of_def w' lv_clear_slot_def c_def)
  have slot: "lv_slot st < length (lc_states c)" using ok(1) ok(3) [OF st(1)] by (simp add: ctx_ok_def c_def)
  have same: "map_option lv_slot (lw_streams w' j) = map_option lv_slot (lw_streams w j)" for j
    using st(1) by (simp add: w' st'_def)
  have mine: "stream_fits lane zero hop w' i st'"
  proof -
    have rest: "stage_of w' i = Resting" "stage_of w i = Resting" using st(2) by (simp_all add: w' stage_resting)
    obtain hops flight where f: "fits lane hop Resting (solo_run lane zero hop hops) flight (lw_got w i) st
        (lc_states (lw_ctx w) ! lv_slot st) (lc_mic_host (lw_ctx w) ! lv_slot st)
        (lc_ref_host (lw_ctx w) ! lv_slot st) (lc_out_host (lw_ctx w) ! lv_slot st)"
      using ok(14) [OF st(1)] rest(2) unfolding stream_fits_def by auto
    have len: "length (lv_mic_prev st) = hop" "length (lv_ref_prev st) = hop" "length (lv_mic_win st) = 2 * hop"
      "length (lv_ref_win st) = 2 * hop" using f by (simp_all add: fits_def)
    have ola: "length (lv_ola st) = 2 * hop"
      using f solo_ola [of lane zero hop hops] by (simp add: fits_def)
    have "fits lane hop Resting (solo_run lane zero hop []) None [] st' zero m r fr" for m r fr
      using len ola by (simp add: fits_def solo_run_def solo_new_def st'_def map_replicate_const)
    moreover have "lc_states (lw_ctx w') ! lv_slot st' = zero" using slot by (simp add: w' lv_clear_slot_def st'_def)
    moreover have "lw_fed w' i = [] @ (case None of None \<Rightarrow> [] | Some mr \<Rightarrow> [mr])" by (simp add: w')
    ultimately show ?thesis using rest unfolding stream_fits_def
      by (intro exI [of _ "[]"] exI [of _ None]) (simp add: w')
  qed
  have theirs: "stream_fits lane zero hop w' j sj" if "lw_streams w j = Some sj" "j \<noteq> i" for j sj
  proof -
    have "lv_slot st \<noteq> lv_slot sj" using ok(2) st(1) that unfolding apart_def by blast
    then show ?thesis
      using stream_fits_kept [OF ok(14) [OF that(1)], of w'] stage that by (simp add: w' lv_clear_slot_def c_def)
  qed
  have ctx': "lc_queue (lw_ctx w') = lc_queue c" "lc_batch (lw_ctx w') = lc_batch c"
    "lc_computing (lw_ctx w') = lc_computing c" "lc_capacity (lw_ctx w') = lc_capacity c"
    "lc_used (lw_ctx w') = lc_used c" "lc_valid (lw_ctx w') = lc_valid c" "lw_busy w' = lw_busy w" "lw_ran w' = lw_ran w"
    by (simp_all add: w' lv_clear_slot_def)
  have slots: "slots_of (lw_streams w') ids = slots_of (lw_streams w) ids" for ids by (rule slots_of_same) (rule same)
  show ?thesis
  proof (rule world_okI; (unfold ctx' slots)?)
    show "ctx_ok hop (lw_ctx w')" using ok(1) by (simp add: w' c_def lv_clear_slot_def ctx_ok_def)
    show "apart (lw_streams w')" by (rule apart_same [OF same ok(2)])
  next
    fix j sj
    assume "lw_streams w' j = Some sj"
    then show "lv_slot sj < lc_capacity c \<and> lc_used c ! lv_slot sj"
      using slot_same [OF same] ok(3,4) by (metis c_def)
  next
    fix j sj
    assume "lw_streams w' j = Some sj"
    then show "stream_fits lane zero hop w' j sj" using mine theirs by (cases "j = i") (auto simp: w')
  next
    fix j
    show "lw_busy w j \<Longrightarrow> lw_streams w' j \<noteq> None" using ok(10) by (simp add: w')
  qed (use ok(5-9,11-13) in \<open>simp_all add: c_def\<close>)
qed


lemma move_free:
  assumes "world_ok lane zero hop w" "lv_move lane zero (Free i) w = Some w'"
  shows "world_ok lane zero hop w'"
proof -
  define c where "c = lw_ctx w"
  note ok = world_okD [OF assms(1)]
  obtain st where st: "lw_streams w i = Some st" "\<not> lw_busy w i"
    using assms(2) by (auto simp: lv_move_def Let_def split: option.splits if_splits)
  have w': "w' = w\<lparr>lw_ctx := lv_state_free st c, lw_streams := (lw_streams w)(i := None)\<rparr>"
    using assms(2) st by (simp add: lv_move_def c_def Let_def)
  have stage: "stage_of w' j = stage_of w j" for j by (simp add: stage_of_def w' lv_state_free_def c_def)
  have ctx': "lc_queue (lw_ctx w') = lc_queue c" "lc_batch (lw_ctx w') = lc_batch c"
    "lc_computing (lw_ctx w') = lc_computing c" "lc_capacity (lw_ctx w') = lc_capacity c"
    "lc_valid (lw_ctx w') = lc_valid c" "lw_busy w' = lw_busy w" "lw_ran w' = lw_ran w"
    by (simp_all add: w' lv_state_free_def)
  have out: "i \<notin> set (lc_batch c)" using ok(9) st(2) by (auto simp: c_def)
  have slots: "slots_of (lw_streams w') (set (lc_batch c)) = slots_of (lw_streams w) (set (lc_batch c))"
    by (rule slots_of_same) (use out in \<open>auto simp: w'\<close>)
  have old: "lw_streams w' j = Some sj \<Longrightarrow> lw_streams w j = Some sj \<and> j \<noteq> i" for j sj
    by (auto simp: w' split: if_splits)
  show ?thesis
  proof (rule world_okI; (unfold ctx' slots)?)
    show "ctx_ok hop (lw_ctx w')" using ok(1) by (simp add: w' c_def lv_state_free_def ctx_ok_def)
    show "apart (lw_streams w')" using ok(2) old unfolding apart_def by blast
  next
    fix j sj
    assume a: "lw_streams w' j = Some sj"
    have "lv_slot st \<noteq> lv_slot sj" using ok(2) st(1) old [OF a] unfolding apart_def by blast
    then show "lv_slot sj < lc_capacity c \<and> lc_used (lw_ctx w') ! lv_slot sj"
      using ok(3,4) [of j sj] old [OF a] by (simp add: w' lv_state_free_def c_def)
  next
    fix j sj
    assume a: "lw_streams w' j = Some sj"
    show "stream_fits lane zero hop w' j sj"
      using stream_fits_kept [OF ok(14), of j sj w'] old [OF a] stage by (simp add: w' lv_state_free_def c_def)
  next
    fix j
    show "lw_busy w j \<Longrightarrow> lw_streams w' j \<noteq> None" using ok(10) st(2) by (auto simp: w')
  qed (use ok(5-9,11-13) in \<open>simp_all add: c_def\<close>)
qed

lemma move_submit:
  assumes "world_ok lane zero hop w" "lv_move lane zero (Submit i mic ref) w = Some w'"
  shows "world_ok lane zero hop w'"
proof -
  define c where "c = lw_ctx w"
  note ok = world_okD [OF assms(1)]
  have hop: "lc_hop c = hop" using ok(1) by (simp add: c_def ctx_ok_def)
  obtain st where st: "lw_streams w i = Some st" "\<not> lw_busy w i" "length mic = hop" "length ref = hop"
    using assms(2) hop by (auto simp: lv_move_def c_def Let_def split: option.splits if_splits)
  obtain st' c' where sub: "lv_submit i mic ref st c = (st', c')" by force
  have c': "c' = c\<lparr>lc_queue := lc_queue c @ [i]\<rparr>" "lv_slot st' = lv_slot st" using sub by (auto simp: lv_submit_def)
  have w': "w' = w\<lparr>lw_ctx := c', lw_streams := (lw_streams w)(i \<mapsto> st'), lw_busy := (lw_busy w)(i := True),
      lw_fed := (lw_fed w)(i := lw_fed w i @ [(mic, ref)])\<rparr>"
    using assms(2) st sub hop by (simp add: lv_move_def c_def Let_def)
  have out: "i \<notin> set (lc_queue c)" "i \<notin> set (lc_batch c)" using ok(8,9) st(2) by (auto simp: c_def)
  have stage: "j \<noteq> i \<Longrightarrow> stage_of w' j = stage_of w j" "stage_of w' i = Queued" "stage_of w i = Resting" for j
    using st(2) by (simp_all add: stage_of_def w' c' c_def)
  have same: "map_option lv_slot (lw_streams w' j) = map_option lv_slot (lw_streams w j)" for j
    using st(1) c' by (simp add: w')
  have ctx': "lc_queue (lw_ctx w') = lc_queue c @ [i]" "lc_batch (lw_ctx w') = lc_batch c"
    "lc_computing (lw_ctx w') = lc_computing c" "lc_capacity (lw_ctx w') = lc_capacity c"
    "lc_used (lw_ctx w') = lc_used c" "lc_valid (lw_ctx w') = lc_valid c" "lw_ran w' = lw_ran w"
    by (simp_all add: w' c')
  have slots: "slots_of (lw_streams w') ids = slots_of (lw_streams w) ids" for ids by (rule slots_of_same) (rule same)
  have mine: "stream_fits lane zero hop w' i st'"
  proof -
    obtain hops flight where h: "lw_fed w i = hops @ (case flight of None \<Rightarrow> [] | Some mr \<Rightarrow> [mr])"
      and f: "fits lane hop Resting (solo_run lane zero hop hops) flight (lw_got w i) st
        (lc_states (lw_ctx w) ! lv_slot st) (lc_mic_host (lw_ctx w) ! lv_slot st)
        (lc_ref_host (lw_ctx w) ! lv_slot st) (lc_out_host (lw_ctx w) ! lv_slot st)"
      using ok(14) [OF st(1)] stage(3) unfolding stream_fits_def by auto
    have none: "flight = None" by (rule fits_resting [OF f])
    have "lw_fed w' i = hops @ (case Some (mic, ref) of None \<Rightarrow> [] | Some mr \<Rightarrow> [mr])" using h none by (simp add: w')
    moreover have "fits lane hop (stage_of w' i) (solo_run lane zero hop hops) (Some (mic, ref)) (lw_got w' i) st'
        (lc_states (lw_ctx w') ! lv_slot st') (lc_mic_host (lw_ctx w') ! lv_slot st')
        (lc_ref_host (lw_ctx w') ! lv_slot st') (lc_out_host (lw_ctx w') ! lv_slot st')"
      unfolding stage(2) using fits_submit [OF f [unfolded none] st(3,4) hop sub] by (simp add: w' c' c_def)
    ultimately show ?thesis unfolding stream_fits_def by blast
  qed
  show ?thesis
  proof (rule world_okI; (unfold ctx' slots)?)
    show "ctx_ok hop (lw_ctx w')" using ok(1) by (simp add: w' c' c_def ctx_ok_def)
    show "apart (lw_streams w')" by (rule apart_same [OF same ok(2)])
    show "distinct (lc_queue c @ [i])" using ok(5) out by (simp add: c_def)
  next
    fix j sj
    assume "lw_streams w' j = Some sj"
    then show "lv_slot sj < lc_capacity c \<and> lc_used c ! lv_slot sj"
      using slot_same [OF same] ok(3,4) by (metis c_def)
  next
    fix j sj
    assume a: "lw_streams w' j = Some sj"
    show "stream_fits lane zero hop w' j sj"
    proof (cases "j = i")
      case True
      then show ?thesis using mine a by (simp add: w')
    next
      case False
      then show ?thesis
        using stream_fits_kept [OF ok(14), of j sj w'] a stage(1) by (simp add: w' c' c_def)
    qed
  next
    fix j
    show "lw_busy w' j \<Longrightarrow> lw_streams w' j \<noteq> None" using ok(10) by (auto simp: w')
    show "j \<in> set (lc_queue c @ [i]) \<Longrightarrow> lw_busy w' j" using ok(8) by (auto simp: w' c_def)
    show "j \<in> set (lc_batch c) \<Longrightarrow> lw_busy w' j" using ok(9) by (auto simp: w' c_def)
    show "j \<in> set (lc_queue c @ [i]) \<Longrightarrow> j \<notin> set (lc_batch c)" using ok(7) out by (auto simp: c_def)
  qed (use ok(6,11-13) in \<open>simp_all add: c_def\<close>)
qed

lemma move_answer:
  assumes "world_ok lane zero hop w" "lv_move lane zero (Answer i) w = Some w'"
  shows "world_ok lane zero hop w'"
proof -
  define c where "c = lw_ctx w"
  note ok = world_okD [OF assms(1)]
  have hop: "lc_hop c = hop" using ok(1) by (simp add: c_def ctx_ok_def)
  obtain st where st: "lw_streams w i = Some st" "lw_busy w i" "lv_done st"
    using assms(2) by (auto simp: lv_move_def Let_def split: option.splits if_splits)
  obtain hops flight where h: "lw_fed w i = hops @ (case flight of None \<Rightarrow> [] | Some mr \<Rightarrow> [mr])"
    and f: "fits lane hop (stage_of w i) (solo_run lane zero hop hops) flight (lw_got w i) st
      (lc_states c ! lv_slot st) (lc_mic_host c ! lv_slot st) (lc_ref_host c ! lv_slot st) (lc_out_host c ! lv_slot st)"
    using ok(14) [OF st(1)] unfolding stream_fits_def c_def by auto
  have "stage_of w i \<noteq> Resting" using st(2) by (simp add: stage_resting)
  then obtain mr where mr: "flight = Some mr" using fits_flying [OF f] by auto
  have handed: "stage_of w i = Handed" using f mr st(3) by (cases mr) (auto simp: fits_def split: stage.splits)
  obtain out st' where ans: "lv_answer st c = (Inr out, st')" "lv_slot st' = lv_slot st"
    and f': "\<And>m r fr. fits lane hop Resting (solo_run lane zero hop (hops @ [mr])) None (lw_got w i @ [out]) st'
      (lc_states c ! lv_slot st) m r fr"
    using fits_answered [OF f [unfolded handed mr] hop] by blast
  have w': "w' = w\<lparr>lw_streams := (lw_streams w)(i \<mapsto> st'), lw_busy := (lw_busy w)(i := False),
      lw_got := (lw_got w)(i := lw_got w i @ [out])\<rparr>"
    using assms(2) st ans by (simp add: lv_move_def c_def Let_def)
  have out: "i \<notin> set (lc_queue c)" "i \<notin> set (lc_batch c)"
    using handed st(2) by (auto simp: stage_of_def c_def split: if_splits)
  have stage: "j \<noteq> i \<Longrightarrow> stage_of w' j = stage_of w j" "stage_of w' i = Resting" for j
    by (simp_all add: stage_of_def w')
  have same: "map_option lv_slot (lw_streams w' j) = map_option lv_slot (lw_streams w j)" for j
    using st(1) ans(2) by (simp add: w')
  have ctx': "lw_ctx w' = c" "lw_ran w' = lw_ran w" by (simp_all add: w' c_def)
  have slots: "slots_of (lw_streams w') ids = slots_of (lw_streams w) ids" for ids by (rule slots_of_same) (rule same)
  have mine: "stream_fits lane zero hop w' i st'"
  proof -
    have "lw_fed w' i = (hops @ [mr]) @ (case None of None \<Rightarrow> [] | Some mr \<Rightarrow> [mr])" using h mr by (simp add: w')
    moreover have "fits lane hop (stage_of w' i) (solo_run lane zero hop (hops @ [mr])) None (lw_got w' i) st'
        (lc_states (lw_ctx w') ! lv_slot st') (lc_mic_host (lw_ctx w') ! lv_slot st')
        (lc_ref_host (lw_ctx w') ! lv_slot st') (lc_out_host (lw_ctx w') ! lv_slot st')"
      unfolding stage(2) using f' ans(2) by (simp add: w' c_def)
    ultimately show ?thesis unfolding stream_fits_def by blast
  qed
  show ?thesis
  proof (rule world_okI; (unfold ctx' slots)?)
    show "apart (lw_streams w')" by (rule apart_same [OF same ok(2)])
  next
    fix j sj
    assume "lw_streams w' j = Some sj"
    then show "lv_slot sj < lc_capacity c \<and> lc_used c ! lv_slot sj"
      using slot_same [OF same] ok(3,4) by (metis c_def)
  next
    fix j sj
    assume a: "lw_streams w' j = Some sj"
    show "stream_fits lane zero hop w' j sj"
    proof (cases "j = i")
      case True
      then show ?thesis using mine a by (simp add: w')
    next
      case False
      then show ?thesis using stream_fits_kept [OF ok(14), of j sj w'] a stage(1) by (simp add: w')
    qed
  next
    fix j
    show "lw_busy w' j \<Longrightarrow> lw_streams w' j \<noteq> None" using ok(10) by (auto simp: w' split: if_splits)
    show "j \<in> set (lc_queue c) \<Longrightarrow> lw_busy w' j" using ok(8) out by (auto simp: w' c_def)
    show "j \<in> set (lc_batch c) \<Longrightarrow> lw_busy w' j" using ok(9) out by (auto simp: w' c_def)
  qed (use ok(1,5-7,11-13) in \<open>simp_all add: c_def\<close>)
qed


lemma move_take:
  assumes "world_ok lane zero hop w" "lv_move lane zero Take w = Some w'"
  shows "world_ok lane zero hop w'"
proof -
  define c where "c = lw_ctx w"
  note ok = world_okD [OF assms(1)]
  have idle: "\<not> lc_computing c" and w': "w' = w\<lparr>lw_ctx := worker_take (lw_streams w) c, lw_ran := False\<rparr>"
    using assms(2) by (auto simp: lv_move_def c_def Let_def split: if_splits)
  define c0 where "c0 = c\<lparr>lc_batch := lc_queue c, lc_queue := []\<rparr>"
  define c1 where "c1 = foldl (lay_out (lw_streams w)) c0 (lc_queue c)"
  have batch: "lc_batch c = []" using ok(11) idle by (simp add: c_def)
  have ran: "\<not> lw_ran w" using ok(12) idle by (auto simp: c_def)
  have c0: "ctx_ok hop c0" "lc_capacity c0 = lc_capacity c" "lc_valid c0 = lc_valid c"
    using ok(1) by (simp_all add: c0_def c_def ctx_ok_def)
  have slot: "\<And>j sj. lw_streams w j = Some sj \<Longrightarrow> lv_slot sj < lc_capacity c0" using ok(3) c0 by (simp add: c_def)
  have c1: "ctx_ok hop c1" "lc_capacity c1 = lc_capacity c" "lc_states c1 = lc_states c" "lc_used c1 = lc_used c"
    "lc_queue c1 = []" "lc_batch c1 = lc_queue c"
    using c0 by (simp_all add: c1_def lay_outs_keep) (simp_all add: c0_def)
  have laid: "lw_streams w j = Some sj \<Longrightarrow> j \<in> set (lc_queue c) \<Longrightarrow>
        lc_mic_host c1 ! lv_slot sj = lv_mic_win sj \<and> lc_ref_host c1 ! lv_slot sj = lv_ref_win sj"
    "s < lc_capacity c0 \<Longrightarrow>
        lc_valid c1 ! s = (if s \<in> slots_of (lw_streams w) (set (lc_queue c)) then 1 else lc_valid c0 ! s)" for j sj s
    unfolding c1_def by (rule lay_outs_lane [OF c0(1) ok(2)]; (rule slot)?; assumption)+
  have ctx: "lw_ctx w' = c1\<lparr>lc_computing := True\<rparr>" by (simp add: w' worker_take_def c1_def c0_def)
  have ctx': "lc_queue (lw_ctx w') = []" "lc_batch (lw_ctx w') = lc_queue c"
    "lc_computing (lw_ctx w') = True" "lc_capacity (lw_ctx w') = lc_capacity c"
    "lc_used (lw_ctx w') = lc_used c" "lc_valid (lw_ctx w') = lc_valid c1" "lw_ran w' = False"
    "lw_busy w' = lw_busy w" "lw_streams w' = lw_streams w"
    by (simp_all add: ctx c1) (simp_all add: w')
  have valid0: "s < lc_capacity c \<Longrightarrow> lc_valid c ! s = 0" for s
    using ok(13) batch by (simp add: c_def slots_of_def)
  have fits': "stream_fits lane zero hop w' j sj" if "lw_streams w j = Some sj" for j sj
  proof (cases "j \<in> set (lc_queue c)")
    case True
    then have s: "stage_of w j = Queued" "stage_of w' j = Laid"
      using ok(8) [of j] by (simp_all add: stage_of_def ctx' c_def)
    have l: "lc_mic_host c1 ! lv_slot sj = lv_mic_win sj" "lc_ref_host c1 ! lv_slot sj = lv_ref_win sj"
      using laid(1) [OF that True] by simp_all
    show ?thesis
      by (rule stream_fits_stage [OF ok(14) [OF that]])
        (unfold s, use fits_take in \<open>simp_all add: ctx c1 l c_def [symmetric]\<close>, simp_all add: w')
  next
    case False
    then have "stage_of w' j = stage_of w j" "stage_of w j \<notin> {Laid, Computed}"
      using batch by (simp_all add: stage_of_def ctx' c_def)
    then show ?thesis
      using stream_fits_kept [OF ok(14) [OF that], of w'] by (simp add: ctx c1 c_def) (simp add: w')
  qed
  show ?thesis
  proof (rule world_okI; (unfold ctx')?)
    show "ctx_ok hop (lw_ctx w')" using c1(1) by (simp add: ctx ctx_ok_def)
  next
    fix s
    assume "s < lc_capacity c"
    then show "lc_valid c1 ! s = (if s \<in> slots_of (lw_streams w) (set (lc_queue c)) then 1 else 0)"
      using laid(2) c0(2,3) valid0 by simp
  next
    fix j sj
    show "lw_streams w j = Some sj \<Longrightarrow> stream_fits lane zero hop w' j sj" by (rule fits')
  qed (use ok(2-5,8,10) in \<open>simp_all add: c_def\<close>)
qed

lemma in_slots:
  assumes "apart streams" "streams i = Some st"
  shows "lv_slot st \<in> slots_of streams ids \<longleftrightarrow> i \<in> ids"
  using assms unfolding apart_def slots_of_def by blast

lemma move_run:
  assumes "world_ok lane zero hop w" "lv_move lane zero Run w = Some w'"
  shows "world_ok lane zero hop w'"
proof -
  define c where "c = lw_ctx w"
  note ok = world_okD [OF assms(1)]
  have run: "lc_computing c" "\<not> lw_ran w" and w': "w' = w\<lparr>lw_ctx := worker_run lane c, lw_ran := True\<rparr>"
    using assms(2) by (auto simp: lv_move_def c_def Let_def split: if_splits)
  have ctx': "lc_queue (lw_ctx w') = lc_queue c" "lc_batch (lw_ctx w') = lc_batch c"
    "lc_computing (lw_ctx w') = True" "lc_capacity (lw_ctx w') = lc_capacity c"
    "lc_used (lw_ctx w') = lc_used c" "lc_valid (lw_ctx w') = lc_valid c" "lw_ran w' = True"
    "lw_busy w' = lw_busy w" "lw_streams w' = lw_streams w"
    using run(1) by (simp_all add: w' run_retains)
  have okc: "ctx_ok hop c" using ok(1) by (simp add: c_def)
  have fits': "stream_fits lane zero hop w' j sj" if "lw_streams w j = Some sj" for j sj
  proof -
    have slot: "lv_slot sj < lc_capacity c" using ok(3) [OF that] by (simp add: c_def)
    note lane = run_lane [OF okc slot, of lane]
    have valid: "lc_valid c ! lv_slot sj = (if j \<in> set (lc_batch c) then 1 else 0)"
      using ok(13) [of "lv_slot sj"] slot in_slots [OF ok(2) that] by (simp add: c_def)
    show ?thesis
    proof (cases "j \<in> set (lc_batch c)")
      case True
      then have s: "stage_of w j = Laid" "stage_of w' j = Computed"
        using ok(7) [of j] ok(9) [of j] run(2) by (auto simp: stage_of_def ctx' c_def)
      show ?thesis
        by (rule stream_fits_stage [OF ok(14) [OF that]])
          (unfold s, use fits_run lane valid True in \<open>simp_all add: w' c_def [symmetric]\<close>)
    next
      case False
      then have "stage_of w' j = stage_of w j" "stage_of w j \<notin> {Laid, Computed}"
        by (simp_all add: stage_of_def ctx' c_def)
      then show ?thesis
        using stream_fits_kept [OF ok(14) [OF that], of w'] lane valid False by (simp add: w' c_def)
    qed
  qed
  show ?thesis
  proof (rule world_okI; (unfold ctx')?)
    show "ctx_ok hop (lw_ctx w')" using okc by (simp add: w' run_ok)
  next
    fix j sj
    show "lw_streams w j = Some sj \<Longrightarrow> stream_fits lane zero hop w' j sj" by (rule fits')
  qed (use ok(2-10,13) in \<open>simp_all add: c_def\<close>)
qed

lemma move_deliver:
  assumes "world_ok lane zero hop w" "lv_move lane zero Deliver w = Some w'"
  shows "world_ok lane zero hop w'"
proof -
  define c where "c = lw_ctx w"
  note ok = world_okD [OF assms(1)]
  have run: "lc_computing c" "lw_ran w" using assms(2) by (auto simp: lv_move_def c_def Let_def split: if_splits)
  obtain streams c1 where d: "foldl (hand_back True) (lw_streams w, c) (lc_batch c) = (streams, c1)" by force
  have w': "w' = w\<lparr>lw_ctx := c1\<lparr>lc_error := lc_error c1, lc_computing := False, lc_batch := []\<rparr>, lw_streams := streams,
      lw_ran := False\<rparr>"
    using assms(2) run d by (simp add: lv_move_def c_def Let_def worker_deliver_def)
  have okc: "ctx_ok hop c" using ok(1) by (simp add: c_def)
  have "distinct (lc_batch c)" using ok(6) by (simp add: c_def)
  note given = hand_backs [OF okc d this]
  have ctx': "lc_queue (lw_ctx w') = lc_queue c" "lc_batch (lw_ctx w') = []"
    "lc_computing (lw_ctx w') = False" "lc_capacity (lw_ctx w') = lc_capacity c"
    "lc_used (lw_ctx w') = lc_used c" "lc_valid (lw_ctx w') = lc_valid c1" "lw_ran w' = False"
    "lw_busy w' = lw_busy w" "lw_streams w' = streams" "lc_states (lw_ctx w') = lc_states c"
    using given(2) by (simp_all add: w')
  have same: "map_option lv_slot (streams j) = map_option lv_slot (lw_streams w j)" for j
    by (cases "lw_streams w j") (simp_all add: given(1) handed_def)
  have fits': "stream_fits lane zero hop w' j sj'" if a: "streams j = Some sj'" for j sj'
  proof -
    obtain sj where sj: "lw_streams w j = Some sj" using slot_same [OF same a] by blast
    show ?thesis
    proof (cases "j \<in> set (lc_batch c)")
      case True
      then have s: "stage_of w j = Computed" "stage_of w' j = Handed"
        using ok(7) [of j] ok(9) [of j] run(2) by (auto simp: stage_of_def ctx' c_def)
      have e: "sj' = handed True c sj" "lv_slot sj' = lv_slot sj" using a sj True by (auto simp: given(1) handed_def)
      show ?thesis
        by (rule stream_fits_stage [OF ok(14) [OF sj]])
          (unfold s ctx' e(2) c_def [symmetric], use fits_deliver in \<open>simp_all add: e(1) w'\<close>)
    next
      case False
      then have "stage_of w' j = stage_of w j" "stage_of w j \<notin> {Laid, Computed}"
        by (simp_all add: stage_of_def ctx' c_def)
      moreover have "sj' = sj" using a sj False by (simp add: given(1))
      ultimately show ?thesis
        using stream_fits_kept [OF ok(14) [OF sj], of w'] by (simp add: ctx' c_def) (simp add: w')
    qed
  qed
  show ?thesis
  proof (rule world_okI; (unfold ctx')?)
    show "ctx_ok hop (lw_ctx w')" using conjunct1 [OF given(2)] by (simp add: w' ctx_ok_def)
    show "apart streams" by (rule apart_same [OF same ok(2)])
  next
    fix j sj
    assume "streams j = Some sj"
    then show "lv_slot sj < lc_capacity c \<and> lc_used c ! lv_slot sj"
      using slot_same [OF same] ok(3,4) by (metis c_def)
  next
    fix s
    assume "s < lc_capacity c"
    then show "lc_valid c1 ! s = (if s \<in> slots_of streams (set []) then 1 else 0)"
      using given(2) ok(13) by (simp add: c_def slots_of_def [of _ "{}"])
  next
    fix j sj
    show "streams j = Some sj \<Longrightarrow> stream_fits lane zero hop w' j sj" by (rule fits')
  next
    fix j
    show "lw_busy w j \<Longrightarrow> streams j \<noteq> None" using ok(10) by (simp add: given(1))
  qed (use ok(5,8) in \<open>simp_all add: c_def\<close>)
qed

lemma move_ok: "world_ok lane zero hop w \<Longrightarrow> lv_move lane zero m w = Some w' \<Longrightarrow> world_ok lane zero hop w'"
  by (cases m) (auto intro: move_open move_reset move_free move_submit move_answer move_take move_run move_deliver)

lemma moves_ok: "world_ok lane zero hop w \<Longrightarrow> lv_moves lane zero ms w = Some w' \<Longrightarrow> world_ok lane zero hop w'"
  by (induction ms arbitrary: w) (auto split: option.splits dest: move_ok)



end
