(* ===== verification/Detectors.thy ===== *)
theory Detectors
  imports Connection
begin

text \<open>
  The two models of a session around their graphs: the voice detector of \<open>src/silero.cpp\<close>, which hears a stream
  window by window, and the turn classifier of \<open>src/smart-turn.cpp\<close> with the normalisation of
  \<open>src/audio-mel.h\<close>, one worker that every caller hands its audio to. The graphs are parameters. Pointers are
  not null, a vector is a list of its length.
\<close>

section \<open>The voice detector\<close>

text \<open>The graph: the frame and the two states of the recurrent layer in, the probability and the states out; nothing
  when the device fails.\<close>

type_synonym sv_graph = "f32 list \<Rightarrow> f32 list \<Rightarrow> f32 list \<Rightarrow> (f32 \<times> f32 list \<times> f32 list) option"

record sv_context =
  svc_sample_rate :: nat
  svc_window :: nat
  svc_context :: nat
  svc_n_fft :: nat
  svc_hidden :: nat
  svc_padded :: nat

record sv_state =
  sv_h :: "f32 list"
  sv_c :: "f32 list"
  sv_left :: "f32 list"
  sv_scratch :: "f32 list"

text \<open>The shapes as \<open>sv_init\<close> reads them from the model file.\<close>

definition sv_shapes :: "nat \<Rightarrow> nat \<Rightarrow> nat \<Rightarrow> nat \<Rightarrow> nat \<Rightarrow> sv_context" where
  "sv_shapes sample_rate window context n_fft hidden =
     \<lparr>svc_sample_rate = sample_rate, svc_window = window, svc_context = context, svc_n_fft = n_fft,
      svc_hidden = hidden, svc_padded = context + window + n_fft div 2\<rparr>"

definition sv_state_new :: "sv_context \<Rightarrow> sv_state" where
  "sv_state_new ctx =
     \<lparr>sv_h = replicate (svc_hidden ctx) 0, sv_c = replicate (svc_hidden ctx) 0,
      sv_left = replicate (svc_context ctx) 0, sv_scratch = replicate (svc_padded ctx) 0\<rparr>"

definition sv_state_reset :: "sv_state \<Rightarrow> sv_state" where
  "sv_state_reset st =
     st\<lparr>sv_h := map (\<lambda>_. 0) (sv_h st), sv_c := map (\<lambda>_. 0) (sv_c st), sv_left := map (\<lambda>_. 0) (sv_left st)\<rparr>"

text \<open>The reflect pad on the right, sample by sample: \<open>frame[n + k] = frame[n - 2 - k]\<close>.\<close>

definition reflect_right :: "nat \<Rightarrow> nat \<Rightarrow> f32 list \<Rightarrow> f32 list" where
  "reflect_right n n_pad frame = foldl (\<lambda>f k. f[n + k := f ! (n - 2 - k)]) frame [0..<n_pad]"

definition sv_frame :: "sv_context \<Rightarrow> sv_state \<Rightarrow> f32 list \<Rightarrow> f32 list" where
  "sv_frame ctx st pcm =
     (let n_head = svc_context ctx + svc_window ctx;
          frame = take (svc_context ctx) (sv_left st) @ take (svc_window ctx) pcm @ drop n_head (sv_scratch st)
      in reflect_right n_head (svc_padded ctx - n_head) frame)"

text \<open>The probability, why it failed, and the state.\<close>

definition sv_prob :: "sv_graph \<Rightarrow> sv_context \<Rightarrow> sv_state \<Rightarrow> f32 list \<Rightarrow> f32 \<times> string option \<times> sv_state" where
  "sv_prob graph ctx st pcm =
     (if length pcm \<noteq> svc_window ctx then
        (- 1, Some (s2s_format (''[Silero] Expected '' @ nat_str (svc_window ctx) @ '' samples, got '' @
           nat_str (length pcm))), st)
      else
        let st = st\<lparr>sv_scratch := sv_frame ctx st pcm\<rparr>
        in case graph (sv_scratch st) (sv_h st) (sv_c st) of
             None \<Rightarrow> (- 1, Some ''[Silero] Graph compute failed'', st)
           | Some (prob, h, c) \<Rightarrow>
               (prob, None, st\<lparr>sv_h := h, sv_c := c,
                  sv_left := take (svc_context ctx) (drop (svc_window ctx - svc_context ctx) pcm)\<rparr>))"

section \<open>The turn classifier: its audio\<close>

record st_context =
  st_window :: nat
  st_n_fft :: nat
  st_n_frames :: nat
  st_n_mels :: nat
  st_audio :: "f32 list"
  st_log_mel :: "f32 list"
  st_mel :: "f32 list"
  st_call :: "nat option"
  st_job_pcm :: "f32 list"
  st_job_ready :: bool
  st_job_done :: bool
  st_job_prob :: f32
  st_job_error :: string
  st_last :: string

definition st_init :: "nat \<Rightarrow> nat \<Rightarrow> nat \<Rightarrow> nat \<Rightarrow> st_context" where
  "st_init window n_fft n_frames n_mels =
     \<lparr>st_window = window, st_n_fft = n_fft, st_n_frames = n_frames, st_n_mels = n_mels,
      st_audio = replicate (window + n_fft) 0, st_log_mel = replicate ((n_frames + 1) * n_mels) 0, st_mel = [],
      st_call = None, st_job_pcm = [], st_job_ready = False, st_job_done = False, st_job_prob = 0,
      st_job_error = [], st_last = []\<rparr>"

text \<open>The last window of the turn between its two reflected margins, the silence of a short turn on its right.\<close>

definition st_pad :: "st_context \<Rightarrow> f32 list \<Rightarrow> f32 list" where
  "st_pad ctx pcm =
     (let half = st_n_fft ctx div 2; window = st_window ctx;
          kept = min (length pcm) window; skip = length pcm - kept;
          audio = map (\<lambda>_. 0) (st_audio ctx);
          audio = take half audio @ take kept (drop skip pcm) @ drop (half + kept) audio
      in foldl (\<lambda>a i. (let a = a[half - 1 - i := a ! (half + 1 + i)]
             in a[window + half + i := a ! (window + half - 2 - i)])) audio [0..<half])"

text \<open>The frames but the last of each band, and the largest of them.\<close>

definition mel_rows :: "f32 list \<Rightarrow> nat \<Rightarrow> nat \<Rightarrow> f32 list" where
  "mel_rows log10_mel n_mels n_frames_full =
     concat (map (\<lambda>m. map (\<lambda>f. log10_mel ! (m * n_frames_full + f)) [0..<n_frames_full - 1]) [0..<n_mels])"

definition mel_max :: "f32 list \<Rightarrow> f64" where
  "mel_max out = foldl (\<lambda>gmax v. if gmax < v then v else gmax) (to_f64 (- (10 ^ 30))) out"

definition audio_mel_normalize :: "f32 list \<Rightarrow> nat \<Rightarrow> nat \<Rightarrow> f32 list" where
  "audio_mel_normalize log10_mel n_mels n_frames_full =
     (let out = mel_rows log10_mel n_mels n_frames_full; floor = to_f32 (to_f64 (mel_max out - 8))
      in map (\<lambda>v. to_f32 (to_f32 ((if v < floor then floor else v) + 4) / 4)) out)"

text \<open>The forward pass: the probability, or less than 0 and the error of the thread.\<close>

definition st_compute ::
  "(f32 list \<Rightarrow> f32 list option) \<Rightarrow> (f32 list \<Rightarrow> f32 option) \<Rightarrow> st_context \<Rightarrow> f32 list \<Rightarrow> f32 \<times> st_context" where
  "st_compute mel_graph enc_graph ctx pcm =
     (let ctx = ctx\<lparr>st_audio := st_pad ctx pcm\<rparr> in
      case mel_graph (st_audio ctx) of
        None \<Rightarrow> (- 1, ctx\<lparr>st_last := ''[SmartTurn] Mel graph compute failed''\<rparr>)
      | Some log_mel \<Rightarrow>
          (let ctx = ctx\<lparr>st_log_mel := log_mel,
                 st_mel := audio_mel_normalize log_mel (st_n_mels ctx) (st_n_frames ctx + 1)\<rparr>
           in case enc_graph (st_mel ctx) of
                None \<Rightarrow> (- 1, ctx\<lparr>st_last := ''[SmartTurn] Encoder graph compute failed''\<rparr>)
              | Some prob \<Rightarrow> (prob, ctx)))"

section \<open>The turn classifier: its worker\<close>

text \<open>The call in, once the caller holds the classifier; the worker's two steps under the lock; the call out.\<close>

definition st_ask :: "nat \<Rightarrow> f32 list \<Rightarrow> st_context \<Rightarrow> st_context" where
  "st_ask i pcm ctx = ctx\<lparr>st_call := Some i, st_job_pcm := pcm, st_job_done := False, st_job_ready := True\<rparr>"

definition worker_accept :: "st_context \<Rightarrow> st_context" where
  "worker_accept ctx = ctx\<lparr>st_job_ready := False\<rparr>"

definition worker_finish ::
  "(f32 list \<Rightarrow> f32 list option) \<Rightarrow> (f32 list \<Rightarrow> f32 option) \<Rightarrow> st_context \<Rightarrow> st_context" where
  "worker_finish mel_graph enc_graph ctx =
     (case st_compute mel_graph enc_graph ctx (st_job_pcm ctx) of (prob, ctx) \<Rightarrow>
        ctx\<lparr>st_job_prob := prob, st_job_error := (if prob < 0 then st_last ctx else []), st_job_done := True\<rparr>)"

definition st_answer :: "st_context \<Rightarrow> (f32 \<times> string option) \<times> st_context" where
  "st_answer ctx =
     ((st_job_prob ctx, if st_job_prob ctx < 0 then Some (c_str (st_job_error ctx)) else None), ctx\<lparr>st_call := None\<rparr>)"

text \<open>The threads together: the classifier, whether its worker computes, what each caller asked, and what every call
  returned, with its audio.\<close>

record st_world =
  sw_ctx :: st_context
  sw_busy :: bool
  sw_asked :: "nat \<Rightarrow> f32 list"
  sw_results :: "(f32 list \<times> f32 \<times> string option) list"

datatype st_move = Ask nat "f32 list" | Accept | Finish | Return nat

text \<open>A move, \<^const>\<open>None\<close> while its lock or its wait holds it back.\<close>

definition st_step ::
  "(f32 list \<Rightarrow> f32 list option) \<Rightarrow> (f32 list \<Rightarrow> f32 option) \<Rightarrow> st_move \<Rightarrow> st_world \<Rightarrow> st_world option" where
  "st_step mel_graph enc_graph move w =
     (let ctx = sw_ctx w in
      case move of
        Ask i pcm \<Rightarrow>
          if pcm = [] then Some (w\<lparr>sw_results := sw_results w @ [(pcm, - 1, Some ''[SmartTurn] Empty audio'')]\<rparr>)
          else if st_call ctx \<noteq> None then None
          else Some (w\<lparr>sw_ctx := st_ask i pcm ctx, sw_asked := (sw_asked w)(i := pcm)\<rparr>)
      | Accept \<Rightarrow>
          if sw_busy w \<or> \<not> st_job_ready ctx then None
          else Some (w\<lparr>sw_ctx := worker_accept ctx, sw_busy := True\<rparr>)
      | Finish \<Rightarrow>
          if \<not> sw_busy w then None
          else Some (w\<lparr>sw_ctx := worker_finish mel_graph enc_graph ctx, sw_busy := False\<rparr>)
      | Return i \<Rightarrow>
          if st_call ctx \<noteq> Some i \<or> \<not> st_job_done ctx then None
          else case st_answer ctx of (result, ctx) \<Rightarrow>
            Some (w\<lparr>sw_ctx := ctx, sw_results := sw_results w @ [(sw_asked w i, result)]\<rparr>))"

fun st_steps ::
  "(f32 list \<Rightarrow> f32 list option) \<Rightarrow> (f32 list \<Rightarrow> f32 option) \<Rightarrow> st_move list \<Rightarrow> st_world \<Rightarrow> st_world option" where
  "st_steps mel_graph enc_graph [] w = Some w"
| "st_steps mel_graph enc_graph (m # ms) w =
     (case st_step mel_graph enc_graph m w of None \<Rightarrow> None | Some w \<Rightarrow> st_steps mel_graph enc_graph ms w)"

definition st_start :: "st_context \<Rightarrow> st_world" where
  "st_start ctx = \<lparr>sw_ctx = ctx, sw_busy = False, sw_asked = (\<lambda>_. []), sw_results = []\<rparr>"

section \<open>What the detector hears\<close>

lemma reflect_right_is:
  "n_pad < n \<Longrightarrow> n + n_pad \<le> length frame \<Longrightarrow>
   reflect_right n n_pad frame = take n frame @ map (\<lambda>k. frame ! (n - 2 - k)) [0..<n_pad] @ drop (n + n_pad) frame"
proof (induction n_pad)
  case 0
  then show ?case by (simp add: reflect_right_def)
next
  case (Suc k)
  define r where "r = reflect_right n k frame"
  have r: "r = take n frame @ map (\<lambda>k. frame ! (n - 2 - k)) [0..<k] @ drop (n + k) frame"
    using Suc by (simp add: r_def)
  have "reflect_right n (Suc k) frame = r[n + k := r ! (n - 2 - k)]" by (simp add: r_def reflect_right_def)
  moreover have "r ! (n - 2 - k) = frame ! (n - 2 - k)" using Suc.prems by (simp add: r nth_append)
  moreover have "drop (n + k) frame = frame ! (n + k) # drop (n + Suc k) frame"
    using Suc.prems by (simp add: Cons_nth_drop_Suc)
  ultimately show ?case using Suc.prems by (simp add: r list_update_append)
qed

text \<open>The reference: the windows of a stream, each after the samples before it, and the reflection of both.\<close>

definition spliced :: "sv_context \<Rightarrow> f32 list \<Rightarrow> f32 list \<Rightarrow> f32 list" where
  "spliced ctx past window =
     (let head = lastn (svc_context ctx) (replicate (svc_context ctx) 0 @ past) @ window
      in head @ map (\<lambda>k. head ! (length head - 2 - k)) [0..<svc_n_fft ctx div 2])"

fun hear_windows :: "sv_graph \<Rightarrow> sv_context \<Rightarrow> f32 list \<Rightarrow> f32 list \<Rightarrow> f32 list \<Rightarrow> f32 list list \<Rightarrow> f32 list" where
  "hear_windows graph ctx past h c [] = []"
| "hear_windows graph ctx past h c (w # ws) =
     (case graph (spliced ctx past w) h c of
        None \<Rightarrow> - 1 # hear_windows graph ctx past h c ws
      | Some (prob, h, c) \<Rightarrow> prob # hear_windows graph ctx (past @ w) h c ws)"

fun sv_probs :: "sv_graph \<Rightarrow> sv_context \<Rightarrow> sv_state \<Rightarrow> f32 list list \<Rightarrow> f32 list" where
  "sv_probs graph ctx st [] = []"
| "sv_probs graph ctx st (w # ws) = (case sv_prob graph ctx st w of (prob, _, st) \<Rightarrow> prob # sv_probs graph ctx st ws)"

definition sv_shaped :: "sv_context \<Rightarrow> sv_state \<Rightarrow> f32 list \<Rightarrow> bool" where
  "sv_shaped ctx st past \<longleftrightarrow>
     svc_padded ctx = svc_context ctx + svc_window ctx + svc_n_fft ctx div 2 \<and>
     svc_context ctx \<le> svc_window ctx \<and> svc_n_fft ctx div 2 < svc_context ctx + svc_window ctx \<and>
     length (sv_scratch st) = svc_padded ctx \<and> sv_left st = lastn (svc_context ctx) (replicate (svc_context ctx) 0 @ past)"

lemma sv_frame_is:
  assumes "sv_shaped ctx st past" "length pcm = svc_window ctx"
  shows "sv_frame ctx st pcm = spliced ctx past pcm"
proof -
  define n where "n = svc_context ctx + svc_window ctx"
  define frame where "frame = sv_left st @ pcm @ drop n (sv_scratch st)"
  have len: "length (sv_left st) = svc_context ctx" using assms(1) by (simp add: sv_shaped_def)
  have e: "sv_frame ctx st pcm = reflect_right n (svc_n_fft ctx div 2) frame"
    using assms len by (simp add: sv_frame_def Let_def n_def frame_def sv_shaped_def)
  have "length frame = n + svc_n_fft ctx div 2" using assms len by (simp add: frame_def n_def sv_shaped_def)
  then have "sv_frame ctx st pcm = take n frame @ map (\<lambda>k. frame ! (n - 2 - k)) [0..<svc_n_fft ctx div 2]"
    using assms(1) unfolding e by (subst reflect_right_is) (simp_all add: n_def sv_shaped_def)
  moreover have "take n frame = sv_left st @ pcm" using assms(2) len by (simp add: frame_def n_def)
  moreover have "frame ! (n - 2 - k) = (sv_left st @ pcm) ! (n - 2 - k)" if "k < svc_n_fft ctx div 2" for k
    using that assms len by (simp add: frame_def n_def nth_append sv_shaped_def)
  ultimately have "sv_frame ctx st pcm =
      (sv_left st @ pcm) @ map (\<lambda>k. (sv_left st @ pcm) ! (n - 2 - k)) [0..<svc_n_fft ctx div 2]"
    by simp
  then show ?thesis using assms len by (simp add: spliced_def Let_def n_def sv_shaped_def)
qed

lemma sv_prob_shaped:
  assumes "sv_shaped ctx st past" "length pcm = svc_window ctx"
  shows "sv_prob graph ctx st pcm =
    (case graph (spliced ctx past pcm) (sv_h st) (sv_c st) of
       None \<Rightarrow> (- 1, Some ''[Silero] Graph compute failed'', st\<lparr>sv_scratch := spliced ctx past pcm\<rparr>)
     | Some (prob, h, c) \<Rightarrow>
         (prob, None, st\<lparr>sv_scratch := spliced ctx past pcm, sv_h := h, sv_c := c,
            sv_left := lastn (svc_context ctx) (replicate (svc_context ctx) 0 @ past @ pcm)\<rparr>))"
proof -
  have "take (svc_context ctx) (drop (svc_window ctx - svc_context ctx) pcm) =
      lastn (svc_context ctx) (replicate (svc_context ctx) 0 @ past @ pcm)"
    using assms by (simp add: lastn_append [of _ _ pcm] lastn_def [of _ pcm] sv_shaped_def flip: append_assoc)
  then show ?thesis using assms(2) sv_frame_is [OF assms] by (simp add: sv_prob_def Let_def split: option.split)
qed

lemma sv_probs_hear:
  "sv_shaped ctx st past \<Longrightarrow> list_all (\<lambda>w. length w = svc_window ctx) ws \<Longrightarrow>
   sv_probs graph ctx st ws = hear_windows graph ctx past (sv_h st) (sv_c st) ws"
proof (induction ws arbitrary: st past)
  case (Cons w ws)
  have w: "length w = svc_window ctx" using Cons.prems(2) by simp
  note p = sv_prob_shaped [OF Cons.prems(1) w, of graph]
  have len: "length (spliced ctx past w) = svc_padded ctx"
    using Cons.prems(1) w by (simp add: spliced_def Let_def sv_shaped_def)
  have s1: "sv_shaped ctx (st\<lparr>sv_scratch := spliced ctx past w\<rparr>) past"
    using Cons.prems(1) len by (simp add: sv_shaped_def)
  have s2: "sv_shaped ctx (st\<lparr>sv_scratch := spliced ctx past w, sv_h := h, sv_c := c,
      sv_left := lastn (svc_context ctx) (replicate (svc_context ctx) 0 @ past @ w)\<rparr>) (past @ w)" for h c
    using Cons.prems(1) len by (simp add: sv_shaped_def)
  show ?case using Cons.IH [OF s1] Cons.IH [OF s2] Cons.prems(2) by (simp add: p split: option.split)
qed simp

lemma sv_state_new_shaped:
  "context \<le> window \<Longrightarrow> n_fft div 2 < context + window \<Longrightarrow>
   sv_shaped (sv_shapes rate window context n_fft hidden) (sv_state_new (sv_shapes rate window context n_fft hidden)) []"
  by (simp add: sv_shaped_def sv_shapes_def sv_state_new_def lastn_def)


text \<open>C13: The detector hears the stream whole. Fed window by window from a fresh state, each pass sees its window
  after the samples that came right before it in the stream, silence at its start, with the two of them reflected
  on the right, and the recurrent states of the pass before; a pass the device fails counts as a probability below
  0 and leaves no trace.\<close>

theorem detector_hears_the_stream:
  assumes "context \<le> window" "n_fft div 2 < context + window" "list_all (\<lambda>w. length w = window) ws"
  shows "let ctx = sv_shapes rate window context n_fft hidden in
    sv_probs graph ctx (sv_state_new ctx) ws =
    hear_windows graph ctx [] (replicate hidden 0) (replicate hidden 0) ws"
  using sv_probs_hear [OF sv_state_new_shaped [OF assms(1,2), where rate = rate and hidden = hidden], where ws = ws and graph = graph]
    assms(3)
  by (simp add: Let_def sv_state_new_def sv_shapes_def)

theorem detector_hears_the_stream_witness:
  "sv_probs (\<lambda>f h c. Some (sum_list f, h, c)) (sv_shapes 4 2 1 2 1) (sv_state_new (sv_shapes 4 2 1 2 1))
     [[1, 2], [3, 4]] = [4, 12]"
  using detector_hears_the_stream [of 1 2 2 "[[1, 2], [3, 4]]" 4 1 "\<lambda>f h c. Some (sum_list f, h, c)"]
  by (simp add: Let_def sv_shapes_def spliced_def lastn_def)

section \<open>Every turn is judged alone\<close>

lemma foldl_length: "(\<And>a i. length (f a i) = length a) \<Longrightarrow> length (foldl f a is) = length a"
  by (induction "is" arbitrary: a) simp_all

text \<open>What a call of the classifier depends on: the shapes, and the audio.\<close>

definition st_shape :: "st_context \<Rightarrow> st_context" where
  "st_shape ctx = st_init (st_window ctx) (st_n_fft ctx) (st_n_frames ctx) (st_n_mels ctx)"

definition st_sized :: "st_context \<Rightarrow> bool" where
  "st_sized ctx \<longleftrightarrow> length (st_audio ctx) = st_window ctx + st_n_fft ctx"

lemma st_pad_shape: "st_sized ctx \<Longrightarrow> st_pad ctx pcm = st_pad (st_shape ctx) pcm"
  by (simp add: st_pad_def Let_def st_sized_def st_shape_def st_init_def map_replicate_const)

lemma st_pad_length: "st_sized ctx \<Longrightarrow> length (st_pad ctx pcm) = st_window ctx + st_n_fft ctx"
  by (auto simp: st_pad_def Let_def st_sized_def foldl_length min_def simp flip: length_0_conv)

lemma st_compute_shape:
  assumes "st_sized ctx" "st_compute mel enc ctx pcm = (prob, ctx')"
    and "st_compute mel enc (st_shape ctx) pcm = (prob', solo)"
  shows "prob = prob'" "st_last ctx' = (if st_last solo = [] then st_last ctx else st_last solo)"
    "st_sized ctx'" "st_shape ctx' = st_shape ctx" "st_call ctx' = st_call ctx" "st_job_pcm ctx' = st_job_pcm ctx"
    "st_job_ready ctx' = st_job_ready ctx"
proof -
  have p: "st_pad (st_shape ctx) pcm = st_pad ctx pcm" using st_pad_shape [OF assms(1)] by simp
  have same: "st_n_mels (st_shape ctx) = st_n_mels ctx" "st_n_frames (st_shape ctx) = st_n_frames ctx"
    "st_last (st_shape ctx) = []" by (simp_all add: st_shape_def st_init_def)
  have len: "length (st_pad ctx pcm) = st_window ctx + st_n_fft ctx" by (rule st_pad_length [OF assms(1)])
  show "prob = prob'" "st_last ctx' = (if st_last solo = [] then st_last ctx else st_last solo)"
    "st_sized ctx'" "st_shape ctx' = st_shape ctx" "st_call ctx' = st_call ctx" "st_job_pcm ctx' = st_job_pcm ctx"
    "st_job_ready ctx' = st_job_ready ctx"
    using assms(2,3) p same len
    by (auto simp: st_compute_def Let_def st_sized_def st_shape_def split: option.splits)
qed


text \<open>A result against a classifier of the caller's own.\<close>

definition judged ::
  "(f32 list \<Rightarrow> f32 list option) \<Rightarrow> (f32 list \<Rightarrow> f32 option) \<Rightarrow> st_context \<Rightarrow> f32 list \<times> f32 \<times> string option \<Rightarrow> bool" where
  "judged mel enc shape r \<longleftrightarrow>
     (case r of (pcm, prob, error) \<Rightarrow>
        if pcm = [] then prob < 0 \<and> error \<noteq> None
        else case st_compute mel enc shape pcm of (p, solo) \<Rightarrow>
          prob = p \<and> (if st_last solo \<noteq> [] then error = Some (st_last solo) else True) \<and> (error = None \<longleftrightarrow> 0 \<le> p))"

definition st_ok ::
  "(f32 list \<Rightarrow> f32 list option) \<Rightarrow> (f32 list \<Rightarrow> f32 option) \<Rightarrow> st_context \<Rightarrow> st_world \<Rightarrow> bool" where
  "st_ok mel enc shape w \<longleftrightarrow>
     (let ctx = sw_ctx w in
      st_sized ctx \<and> st_shape ctx = shape \<and> (\<forall>r \<in> set (sw_results w). judged mel enc shape r) \<and>
      (\<forall>i. st_call ctx = Some i \<longrightarrow> sw_asked w i = st_job_pcm ctx \<and> st_job_pcm ctx \<noteq> [] \<and>
         of_bool (st_job_ready ctx) + of_bool (sw_busy w) + of_bool (st_job_done ctx) = (1 :: nat)) \<and>
      (st_call ctx = None \<longrightarrow> \<not> st_job_ready ctx \<and> \<not> sw_busy w) \<and>
      (st_call ctx \<noteq> None \<and> st_job_done ctx \<longrightarrow>
         (case st_compute mel enc shape (st_job_pcm ctx) of (p, solo) \<Rightarrow> st_job_prob ctx = p \<and>
            (if st_last solo \<noteq> [] then st_job_error ctx = st_last solo else True))))"

text \<open>A failure comes with its reason.\<close>

lemma st_last_solo:
  "st_last shape = [] \<Longrightarrow> st_compute mel enc shape pcm = (p, solo) \<Longrightarrow>
   st_last solo \<in> {[], ''[SmartTurn] Mel graph compute failed'', ''[SmartTurn] Encoder graph compute failed''} \<and>
   (st_last solo \<noteq> [] \<longrightarrow> p < 0)"
  by (auto simp: st_compute_def Let_def split: option.splits)

lemma st_okI:
  assumes "st_sized (sw_ctx w)" "st_shape (sw_ctx w) = shape" "\<And>r. r \<in> set (sw_results w) \<Longrightarrow> judged mel enc shape r"
    and "\<And>i. st_call (sw_ctx w) = Some i \<Longrightarrow> sw_asked w i = st_job_pcm (sw_ctx w) \<and> st_job_pcm (sw_ctx w) \<noteq> [] \<and>
         of_bool (st_job_ready (sw_ctx w)) + of_bool (sw_busy w) + of_bool (st_job_done (sw_ctx w)) = (1 :: nat)"
    and "st_call (sw_ctx w) = None \<Longrightarrow> \<not> st_job_ready (sw_ctx w) \<and> \<not> sw_busy w"
    and "\<And>p solo. st_call (sw_ctx w) \<noteq> None \<Longrightarrow> st_job_done (sw_ctx w) \<Longrightarrow>
         st_compute mel enc shape (st_job_pcm (sw_ctx w)) = (p, solo) \<Longrightarrow>
         st_job_prob (sw_ctx w) = p \<and> (st_last solo \<noteq> [] \<longrightarrow> st_job_error (sw_ctx w) = st_last solo)"
  shows "st_ok mel enc shape w"
  unfolding st_ok_def Let_def using assms by (auto split: prod.split)

lemma shape_kept [simp]:
  "st_shape (st_ask i pcm ctx) = st_shape ctx" "st_shape (worker_accept ctx) = st_shape ctx"
  "st_shape (snd (st_answer ctx)) = st_shape ctx" "st_sized (st_ask i pcm ctx) = st_sized ctx"
  "st_sized (worker_accept ctx) = st_sized ctx" "st_sized (snd (st_answer ctx)) = st_sized ctx"
  "st_shape (ctx\<lparr>st_job_prob := prob, st_job_error := e, st_job_done := d\<rparr>) = st_shape ctx"
  "st_sized (ctx\<lparr>st_job_prob := prob, st_job_error := e, st_job_done := d\<rparr>) = st_sized ctx"
  by (simp_all add: st_shape_def st_sized_def st_ask_def worker_accept_def st_answer_def)

lemma st_step_ok:
  assumes "st_ok mel enc shape w" "st_step mel enc m w = Some w'"
  shows "st_ok mel enc shape w'"
proof -
  define ctx where "ctx = sw_ctx w"
  have ok: "st_sized ctx" "st_shape ctx = shape" "\<And>r. r \<in> set (sw_results w) \<Longrightarrow> judged mel enc shape r"
    "\<And>i. st_call ctx = Some i \<Longrightarrow> sw_asked w i = st_job_pcm ctx \<and> st_job_pcm ctx \<noteq> [] \<and>
         of_bool (st_job_ready ctx) + of_bool (sw_busy w) + of_bool (st_job_done ctx) = (1 :: nat)"
    "st_call ctx = None \<Longrightarrow> \<not> st_job_ready ctx \<and> \<not> sw_busy w"
    "\<And>p solo. st_call ctx \<noteq> None \<Longrightarrow> st_job_done ctx \<Longrightarrow> st_compute mel enc shape (st_job_pcm ctx) = (p, solo) \<Longrightarrow>
         st_job_prob ctx = p \<and> (st_last solo \<noteq> [] \<longrightarrow> st_job_error ctx = st_last solo)"
    using assms(1) unfolding st_ok_def Let_def ctx_def by (auto split: prod.splits if_splits)
  have fresh: "st_last shape = []" unfolding ok(2) [symmetric] by (simp add: st_shape_def st_init_def)
  show ?thesis
  proof (cases m)
    case (Ask i pcm)
    show ?thesis
    proof (cases "pcm = []")
      case True
      then have w': "w' = w\<lparr>sw_results := sw_results w @ [(pcm, - 1, Some ''[SmartTurn] Empty audio'')]\<rparr>"
        using assms(2) Ask by (simp add: st_step_def Let_def)
      have e: "sw_ctx w' = ctx" "sw_busy w' = sw_busy w" "sw_asked w' = sw_asked w"
        "set (sw_results w') = insert ([], - 1, Some ''[SmartTurn] Empty audio'') (set (sw_results w))"
        using True by (simp_all add: w' ctx_def)
      have j: "judged mel enc shape ([], - 1, Some ''[SmartTurn] Empty audio'')" by (simp add: judged_def)
      show ?thesis
        by (rule st_okI; unfold e) (use ok j in auto)
    next
      case False
      then have free: "st_call ctx = None" and w': "w' = w\<lparr>sw_ctx := st_ask i pcm ctx, sw_asked := (sw_asked w)(i := pcm)\<rparr>"
        using assms(2) Ask by (auto simp: st_step_def Let_def ctx_def split: if_splits)
      have e: "st_call (st_ask i pcm ctx) = Some i" "st_job_pcm (st_ask i pcm ctx) = pcm"
        "st_job_ready (st_ask i pcm ctx)" "\<not> st_job_done (st_ask i pcm ctx)" by (simp_all add: st_ask_def)
      show ?thesis
        by (rule st_okI) (use ok(1-3) ok(5) [OF free] False e in \<open>auto simp: w'\<close>)
    qed
  next
    case Accept
    then have a: "\<not> sw_busy w" "st_job_ready ctx" and w': "w' = w\<lparr>sw_ctx := worker_accept ctx, sw_busy := True\<rparr>"
      using assms(2) by (auto simp: st_step_def Let_def ctx_def split: if_splits)
    obtain i where i: "st_call ctx = Some i" using ok(5) a by (cases "st_call ctx") auto
    have e: "st_call (worker_accept ctx) = Some i" "st_job_pcm (worker_accept ctx) = st_job_pcm ctx"
      "\<not> st_job_ready (worker_accept ctx)" "st_job_done (worker_accept ctx) = st_job_done ctx"
      using i by (simp_all add: worker_accept_def)
    have waits: "\<not> st_job_done ctx" using ok(4) [OF i] a by (cases "st_job_done ctx") auto
    show ?thesis
      by (rule st_okI) (use ok(1-3) ok(4) [OF i] waits e in \<open>auto simp: w'\<close>)
  next
    case Finish
    then have busy: "sw_busy w" and w': "w' = w\<lparr>sw_ctx := worker_finish mel enc ctx, sw_busy := False\<rparr>"
      using assms(2) by (auto simp: st_step_def Let_def ctx_def split: if_splits)
    then obtain i where i: "st_call ctx = Some i" using ok(5) by (cases "st_call ctx") auto
    have still: "\<not> st_job_ready ctx" using ok(4) [OF i] busy by (cases "st_job_ready ctx") auto
    obtain prob ctx' where run: "st_compute mel enc ctx (st_job_pcm ctx) = (prob, ctx')" by force
    obtain p solo where solo: "st_compute mel enc shape (st_job_pcm ctx) = (p, solo)" by force
    note c = st_compute_shape [OF ok(1) run, unfolded ok(2), OF solo]
    define ctx'' where "ctx'' = worker_finish mel enc ctx"
    have e: "ctx'' = ctx'\<lparr>st_job_prob := prob, st_job_error := (if prob < 0 then st_last ctx' else []), st_job_done := True\<rparr>"
      by (simp add: ctx''_def worker_finish_def run)
    have f: "st_call ctx'' = Some i" "st_job_pcm ctx'' = st_job_pcm ctx" "\<not> st_job_ready ctx''" "st_job_done ctx''"
      "st_job_prob ctx'' = prob" "st_job_error ctx'' = (if prob < 0 then st_last ctx' else [])"
      using c i still by (simp_all add: e)
    have g: "st_sized ctx''" "st_shape ctx'' = shape" unfolding e using c(3,4) by simp_all
    have h: "st_last solo \<noteq> [] \<Longrightarrow> prob < 0 \<and> st_last ctx' = st_last solo"
      using st_last_solo [OF fresh solo] c(1,2) by simp
    show ?thesis
      by (rule st_okI; unfold w'; simp add: ctx''_def [symmetric])
        (use ok(3) ok(4) [OF i] f g h c(1) solo in auto)
  next
    case (Return i)
    then have i: "st_call ctx = Some i" "st_job_done ctx"
      using assms(2) by (auto simp: st_step_def Let_def ctx_def split: if_splits)
    have w': "w' = w\<lparr>sw_ctx := snd (st_answer ctx), sw_results := sw_results w @ [(sw_asked w i, fst (st_answer ctx))]\<rparr>"
      using assms(2) Return i by (simp add: st_step_def Let_def split_beta ctx_def)
    obtain p solo where solo: "st_compute mel enc shape (st_job_pcm ctx) = (p, solo)" by force
    have told: "st_job_prob ctx = p" "st_last solo \<noteq> [] \<Longrightarrow> st_job_error ctx = st_last solo"
      using ok(6) i solo by auto
    have asked: "sw_asked w i = st_job_pcm ctx" "st_job_pcm ctx \<noteq> []" "\<not> st_job_ready ctx" "\<not> sw_busy w"
      using ok(4) [OF i(1)] i(2) by (auto simp: of_bool_def split: if_splits)
    have "c_str (st_last solo) = st_last solo" using st_last_solo [OF fresh solo] by (auto simp: c_str_def)
    then have "judged mel enc shape (sw_asked w i, fst (st_answer ctx))"
      using solo told asked st_last_solo [OF fresh solo] by (auto simp: judged_def st_answer_def)
    moreover have "st_call (snd (st_answer ctx)) = None" "\<not> st_job_ready (snd (st_answer ctx))"
      using asked by (simp_all add: st_answer_def)
    ultimately show ?thesis
      by (intro st_okI) (use ok(1-3) asked(4) in \<open>auto simp: w'\<close>)
  qed
qed

lemma st_steps_ok: "st_ok mel enc shape w \<Longrightarrow> st_steps mel enc ms w = Some w' \<Longrightarrow> st_ok mel enc shape w'"
  by (induction ms arbitrary: w) (auto split: option.splits dest: st_step_ok)

lemma st_start_ok: "st_ok mel enc (st_init window n_fft n_frames n_mels) (st_start (st_init window n_fft n_frames n_mels))"
  by (rule st_okI) (simp_all add: st_start_def st_sized_def st_shape_def st_init_def)

text \<open>C12: Every turn is judged alone. However the callers of the one classifier interleave with its worker, what a call
  returns is what a classifier of its own, fresh, would say of the audio of that call, and it fails exactly when
  that one fails, with its reason; empty audio is refused at once.\<close>

theorem every_turn_is_judged_alone:
  "case st_steps mel enc moves (st_start (st_init window n_fft n_frames n_mels)) of
     None \<Rightarrow> True
   | Some w \<Rightarrow>
       list_all (\<lambda>(pcm, prob, error).
         if pcm = [] then prob < 0 \<and> error \<noteq> None
         else case st_compute mel enc (st_init window n_fft n_frames n_mels) pcm of (p, solo) \<Rightarrow>
           prob = p \<and> (if st_last solo \<noteq> [] then error = Some (st_last solo) else True) \<and> (error = None \<longleftrightarrow> 0 \<le> p))
       (sw_results w)"
proof (cases "st_steps mel enc moves (st_start (st_init window n_fft n_frames n_mels))")
  case (Some w)
  have "st_ok mel enc (st_init window n_fft n_frames n_mels) w" by (rule st_steps_ok [OF st_start_ok Some])
  then show ?thesis by (simp add: Some st_ok_def Let_def judged_def list_all_iff)
qed simp


text \<open>A caller that holds the classifier is answered: the worker has at most two moves left, both free to go.\<close>

lemma caller_is_answered:
  "case st_steps mel enc moves (st_start (st_init window n_fft n_frames n_mels)) of
     None \<Rightarrow> True
   | Some w \<Rightarrow>
       (case st_call (sw_ctx w) of
          None \<Rightarrow> True
        | Some i \<Rightarrow>
            let left = (if st_job_done (sw_ctx w) then [] else if sw_busy w then [Finish] else [Accept, Finish])
            in (case st_steps mel enc (left @ [Return i]) w of
                  None \<Rightarrow> False
                | Some w' \<Rightarrow> st_call (sw_ctx w') = None \<and> length (sw_results w') = length (sw_results w) + 1))"
proof (cases "st_steps mel enc moves (st_start (st_init window n_fft n_frames n_mels))")
  case (Some w)
  have ok: "st_ok mel enc (st_init window n_fft n_frames n_mels) w" by (rule st_steps_ok [OF st_start_ok Some])
  show ?thesis
  proof (cases "st_call (sw_ctx w)")
    case (Some i)
    have one: "of_bool (st_job_ready (sw_ctx w)) + of_bool (sw_busy w) + of_bool (st_job_done (sw_ctx w)) = (1 :: nat)"
      using ok Some by (simp add: st_ok_def Let_def)
    have kept: "st_call (worker_finish mel enc ctx) = st_call ctx" "st_job_done (worker_finish mel enc ctx)" for ctx
      by (simp_all add: worker_finish_def st_compute_def Let_def split: option.splits)
    consider "st_job_done (sw_ctx w)" | "\<not> st_job_done (sw_ctx w)" "sw_busy w"
      | "\<not> st_job_done (sw_ctx w)" "\<not> sw_busy w" "st_job_ready (sw_ctx w)"
      using one by (auto simp: of_bool_def split: if_splits)
    then show ?thesis
      by cases (use Some kept \<open>st_steps mel enc moves _ = Some w\<close> in
          \<open>simp_all add: st_step_def Let_def worker_accept_def st_answer_def split_beta\<close>)
  qed (use Some in simp)
qed simp

section \<open>What the classifier hears\<close>

text \<open>The padding in closed form: a middle \<open>m\<close> of one window, and its reflections.\<close>

definition mirrored :: "nat \<Rightarrow> nat \<Rightarrow> f32 list \<Rightarrow> f32 list" where
  "mirrored half rest m =
     map (\<lambda>j. m ! (half - j)) [0..<half] @ m @ map (\<lambda>k. m ! (length m - 2 - k)) [0..<half] @ replicate rest 0"

lemma mirror_loop:
  fixes m :: "f32 list"
  assumes "half < length m" "i \<le> half" "half \<le> rest"
  shows "foldl (\<lambda>a i. let a = a[half - 1 - i := a ! (half + 1 + i)]
      in a[length m + half + i := a ! (length m + half - 2 - i)]) (replicate half 0 @ m @ replicate rest 0) [0..<i] =
    replicate (half - i) 0 @ map (\<lambda>j. m ! (half - j)) [half - i..<half] @ m @ map (\<lambda>k. m ! (length m - 2 - k)) [0..<i] @
      replicate (rest - i) 0"
  using assms(2)
proof (induction i)
  case (Suc i)
  define w where "w = length m"
  define a where "a = replicate (half - i) 0 @ map (\<lambda>j. m ! (half - j)) [half - i..<half] @ m @
    map (\<lambda>k. m ! (length m - 2 - k)) [0..<i] @ replicate (rest - i) 0"
  have w: "half < w" "i < half" "i < rest" using assms Suc.prems by (simp_all add: w_def)
  have "\<not> Suc (half + i) < half - i" by simp
  then have a1: "a ! (half + 1 + i) = m ! (1 + i)" using w by (simp add: a_def nth_append w_def)
  obtain d where d: "half - i = Suc d" using w by (metis Suc_diff_Suc)
  have z: "replicate (half - i) (0 :: rat) = replicate d 0 @ [0]" by (simp add: d replicate_append_same)
  have b: "a[half - 1 - i := m ! (1 + i)] = replicate (half - Suc i) 0 @ m ! (1 + i) # map (\<lambda>j. m ! (half - j)) [half - i..<half] @ m @
    map (\<lambda>k. m ! (length m - 2 - k)) [0..<i] @ replicate (rest - i) 0"
  proof -
    have d': "half - Suc i = d" using d by simp
    show ?thesis by (simp add: a_def z d' list_update_append)
  qed
  have up: "[half - Suc i..<half] = (half - Suc i) # [half - i..<half]"
    using w by (simp add: upt_conv_Cons Suc_diff_Suc)
  have b': "a[half - 1 - i := m ! (1 + i)] = replicate (half - Suc i) 0 @ map (\<lambda>j. m ! (half - j)) [half - Suc i..<half] @ m @
    map (\<lambda>k. m ! (length m - 2 - k)) [0..<i] @ replicate (rest - i) 0"
    using w unfolding b by (simp add: up)
  define c where "c = a[half - 1 - i := m ! (1 + i)]"
  have lenl: "length (replicate (half - Suc i) (0::rat) @ map (\<lambda>j. m ! (half - j)) [half - Suc i..<half]) = half"
    using w by simp
  have c1: "c ! (w + half - 2 - i) = m ! (w - 2 - i)"
  proof -
    have "w + half - 2 - i = half + (w - 2 - i)" "w - 2 - i < w" "\<not> w - 1 < Suc i"
      "\<not> half + w - Suc (Suc i) < half - Suc i" using w by simp_all
    then show ?thesis using lenl w unfolding c_def b' append_assoc [symmetric]
      by (simp add: nth_append w_def)
  qed
  obtain r where r: "rest - i = Suc r" using w by (metis Suc_diff_Suc)
  have "c[w + half + i := m ! (w - 2 - i)] = replicate (half - Suc i) 0 @ map (\<lambda>j. m ! (half - j)) [half - Suc i..<half] @ m @
    map (\<lambda>k. m ! (length m - 2 - k)) [0..<Suc i] @ replicate (rest - Suc i) 0"
  proof -
    have "rest - Suc i = r" "\<not> length m + half + i < half - Suc i" using w r by (simp_all add: w_def)
    then show ?thesis using w r unfolding c_def b' by (simp add: list_update_append w_def)
  qed
  moreover have "foldl (\<lambda>a i. let a = a[half - 1 - i := a ! (half + 1 + i)]
      in a[length m + half + i := a ! (length m + half - 2 - i)]) (replicate half 0 @ m @ replicate rest 0) [0..<i] = a"
    using Suc.IH Suc.prems by (simp only: a_def)
  ultimately show ?case using a1 c1 by (simp add: Let_def c_def w_def)
qed simp

text \<open>The classifier hears the last window. Whatever it heard before, what it computes from is the last window of the
  turn and no other sample, with silence after a turn that is shorter, between two margins that reflect it.\<close>

theorem classifier_hears_the_last_window:
  assumes "st_sized ctx" "st_n_fft ctx div 2 < st_window ctx"
  shows "st_pad ctx pcm = mirrored (st_n_fft ctx div 2) (st_n_fft ctx mod 2)
    (lastn (st_window ctx) pcm @ replicate (st_window ctx - length pcm) 0)"
proof -
  define half where "half = st_n_fft ctx div 2"
  define m where "m = lastn (st_window ctx) pcm @ replicate (st_window ctx - length pcm) 0"
  have len: "length m = st_window ctx" by (simp add: m_def)
  have rest: "st_n_fft ctx - half - half = st_n_fft ctx mod 2" by (simp add: half_def) presburger
  have half: "half < length m" "half \<le> st_n_fft ctx - half" using assms(2) by (simp_all add: half_def len)
  have zeros: "map (\<lambda>_. 0) (st_audio ctx) = replicate (st_window ctx + st_n_fft ctx) (0 :: rat)"
    using assms(1) by (simp add: st_sized_def map_replicate_const)
  have "take half (map (\<lambda>_. 0) (st_audio ctx)) @
      take (min (length pcm) (st_window ctx)) (drop (length pcm - min (length pcm) (st_window ctx)) pcm) @
      drop (half + min (length pcm) (st_window ctx)) (map (\<lambda>_. 0) (st_audio ctx)) =
    replicate half 0 @ m @ replicate (st_n_fft ctx - half) 0"
    using half(2) by (auto simp: zeros m_def lastn_def min_def add.commute simp flip: replicate_add)
  then show ?thesis
    using mirror_loop [OF half(1) order_refl half(2)] rest
    by (simp add: st_pad_def Let_def half_def [symmetric] m_def [symmetric] len mirrored_def)
qed

theorem classifier_hears_the_last_window_witness:
  "st_pad (st_init 3 2 1 1) [1, 2, 3, 4] = [3, 2, 3, 4, 3]"
  using classifier_hears_the_last_window [of "st_init 3 2 1 1" "[1, 2, 3, 4]"]
  by (simp add: st_sized_def st_init_def mirrored_def lastn_def)

end
