(* ===== verification/Wav.thy ===== *)
theory Wav
  imports Recognizer Pcm16 "HOL-Library.Monad_Syntax"
begin

text \<open>
  The WAV reader, \<open>src/wav.h\<close>, and the command line front end of the recognizer,
  \<open>tools/parakeet-transcribe.cpp\<close>. A buffer is a list of bytes; \<^const>\<open>None\<close> is a read past its end or an
  \<open>int\<close> that overflows, which C++ leaves undefined. The bits of a float that are not a finite number have the
  value \<open>other\<close> gives them, and \<open>alloc\<close> says which allocations succeed.
\<close>

unbundle bit_operations_syntax

section \<open>Numbers\<close>

definition byte_at :: "8 word list \<Rightarrow> nat \<Rightarrow> 8 word option" where
  "byte_at data i = (if i < length data then Some (data ! i) else None)"

definition wav_read_u16le :: "8 word list \<Rightarrow> nat \<Rightarrow> 16 word option" where
  "wav_read_u16le data p =
     do { b0 \<leftarrow> byte_at data p; b1 \<leftarrow> byte_at data (p + 1); Some (ucast b0 OR push_bit 8 (ucast b1)) }"

definition wav_read_u32le :: "8 word list \<Rightarrow> nat \<Rightarrow> 32 word option" where
  "wav_read_u32le data p =
     do { b0 \<leftarrow> byte_at data p; b1 \<leftarrow> byte_at data (p + 1); b2 \<leftarrow> byte_at data (p + 2); b3 \<leftarrow> byte_at data (p + 3);
          Some (ucast b0 OR push_bit 8 (ucast b1) OR push_bit 16 (ucast b2) OR push_bit 24 (ucast b3)) }"

definition wav_read_s24le :: "8 word list \<Rightarrow> nat \<Rightarrow> int option" where
  "wav_read_s24le data p =
     do { b0 \<leftarrow> byte_at data p; b1 \<leftarrow> byte_at data (p + 1); b2 \<leftarrow> byte_at data (p + 2);
          let u = (ucast b0 OR push_bit 8 (ucast b1) OR push_bit 16 (ucast b2) :: 32 word);
          Some (sint (if u AND 0x00800000 \<noteq> 0 then u OR 0xff000000 else u)) }"

text \<open>The float of these bits.\<close>

definition f32_of_bits :: "(32 word \<Rightarrow> f32) \<Rightarrow> 32 word \<Rightarrow> f32" where
  "f32_of_bits other u =
     (let e = unat (drop_bit 23 u AND 0xff); m = unat (u AND 0x7fffff);
          v = (if e = 0 then of_nat m * 2 powi (- 149) else of_nat (m + 2 ^ 23) * 2 powi (int e - 150) :: rat)
      in if e = 255 then other u else if bit u 31 then - v else v)"

definition wav_read_f32le :: "(32 word \<Rightarrow> f32) \<Rightarrow> 8 word list \<Rightarrow> nat \<Rightarrow> f32 option" where
  "wav_read_f32le other data p = do { u \<leftarrow> wav_read_u32le data p; Some (f32_of_bits other u) }"

text \<open>A product of \<open>int\<close>s, \<^const>\<open>None\<close> when it overflows.\<close>

definition int_mul :: "nat \<Rightarrow> nat \<Rightarrow> nat option" where
  "int_mul a b = (if a * b < 2 ^ 31 then Some (a * b) else None)"

section \<open>The samples\<close>

text \<open>The value of a sample at a place, in each of the three formats.\<close>

definition pcm16_at :: "8 word list \<Rightarrow> nat \<Rightarrow> f32 option" where
  "pcm16_at data p = do { u \<leftarrow> wav_read_u16le data p; Some (to_f32 (to_f32 (of_int (sint u)) / 32768)) }"

definition pcm24_at :: "8 word list \<Rightarrow> nat \<Rightarrow> f32 option" where
  "pcm24_at data p = do { s \<leftarrow> wav_read_s24le data p; Some (to_f32 (to_f32 (of_int s) / 8388608)) }"

text \<open>One moment as a pair: a lone channel twice, else the first two channels. The place it goes to is an \<open>int\<close>.\<close>

definition wav_frame :: "(nat \<Rightarrow> f32 option) \<Rightarrow> nat \<Rightarrow> nat \<Rightarrow> nat \<Rightarrow> nat \<Rightarrow> f32 list option" where
  "wav_frame rd width n_channels p t =
     do { _ \<leftarrow> int_mul t 2;
          if n_channels = 1 then
            do { i \<leftarrow> int_mul t width; f \<leftarrow> rd (p + i); Some [f, f] }
          else
            do { l \<leftarrow> rd (p + t * n_channels * width); r \<leftarrow> rd (p + t * n_channels * width + width); Some [l, r] } }"

definition wav_frames :: "(nat \<Rightarrow> f32 option) \<Rightarrow> nat \<Rightarrow> nat \<Rightarrow> nat \<Rightarrow> nat \<Rightarrow> f32 list option" where
  "wav_frames rd width n_channels p n_samples =
     map_option concat (those (map (wav_frame rd width n_channels p) [0..<n_samples]))"

section \<open>The chunks\<close>

record wav_format =
  wf_format :: "16 word"
  wf_channels :: nat
  wf_rate :: int
  wf_bits :: nat

definition wav_format_new :: wav_format where
  "wav_format_new = \<lparr>wf_format = 0, wf_channels = 0, wf_rate = 0, wf_bits = 0\<rparr>"

text \<open>The format chunk; an extensible one collapses to the format of its samples.\<close>

definition read_format :: "8 word list \<Rightarrow> nat \<Rightarrow> nat \<Rightarrow> wav_format option" where
  "read_format data pos chunk_size =
     do { format \<leftarrow> wav_read_u16le data pos; channels \<leftarrow> wav_read_u16le data (pos + 2);
          rate \<leftarrow> wav_read_u32le data (pos + 4); bits \<leftarrow> wav_read_u16le data (pos + 14);
          format \<leftarrow> (if format = 0xfffe \<and> 40 \<le> chunk_size then
                       do { sub \<leftarrow> wav_read_u16le data (pos + 24); Some (if sub = 1 \<or> sub = 3 then sub else format) }
                     else Some format);
          Some \<lparr>wf_format = format, wf_channels = unat channels, wf_rate = sint rate, wf_bits = unat bits\<rparr> }"

text \<open>The data chunk: the interleaved pairs, or why there are none.\<close>

definition read_data ::
  "(32 word \<Rightarrow> f32) \<Rightarrow> (nat \<Rightarrow> bool) \<Rightarrow> 8 word list \<Rightarrow> wav_format \<Rightarrow> nat \<Rightarrow> nat \<Rightarrow> (string + f32 list) option" where
  "read_data other alloc data fmt pos data_bytes =
     (let read = (\<lambda>rd width oom.
            let n_samples = data_bytes div (wf_channels fmt * width)
            in if \<not> alloc n_samples then Some (Inl (''[WAV] OOM allocating '' @ oom @ '' buffer for '' @ nat_str n_samples @ '' samples''))
               else map_option Inr (wav_frames rd width (wf_channels fmt) pos n_samples))
      in if wf_format fmt = 1 \<and> wf_bits fmt = 16 then read (pcm16_at data) 2 ''PCM16''
         else if wf_format fmt = 1 \<and> wf_bits fmt = 24 then read (pcm24_at data) 3 ''PCM24''
         else if wf_format fmt = 3 \<and> wf_bits fmt = 32 then read (wav_read_f32le other data) 4 ''F32''
         else Some (Inl ''[WAV] Unsupported''))"

definition bytes_of :: "string \<Rightarrow> 8 word list" where
  "bytes_of s = map (\<lambda>c. of_nat (byte_of c)) s"

text \<open>The chunks from a place on, each followed by a byte of padding when its size is odd.\<close>

function wav_chunks ::
  "(32 word \<Rightarrow> f32) \<Rightarrow> (nat \<Rightarrow> bool) \<Rightarrow> 8 word list \<Rightarrow> wav_format \<Rightarrow> nat \<Rightarrow> (string + f32 list \<times> int) option" where
  "wav_chunks other alloc data fmt pos =
     (if length data < pos + 8 then Some (Inl ''[WAV] No audio data in buffer'')
      else Option.bind (wav_read_u32le data (pos + 4)) (\<lambda>size32.
        let chunk_id = take 4 (drop pos data);
            chunk_size = min (unat size32) (length data - (pos + 8));
            rest = pos + 8 + chunk_size + chunk_size mod 2
        in if chunk_id = bytes_of ''fmt '' \<and> 16 \<le> chunk_size then
             Option.bind (read_format data (pos + 8) chunk_size) (\<lambda>fmt. wav_chunks other alloc data fmt rest)
           else if chunk_id = bytes_of ''data'' \<and> 0 < wf_channels fmt then
             map_option (map_sum id (\<lambda>audio. (audio, wf_rate fmt))) (read_data other alloc data fmt (pos + 8) chunk_size)
           else wav_chunks other alloc data fmt rest))"
  by pat_completeness auto
termination
  by (relation "measure (\<lambda>(other, alloc, data, fmt, pos). length data - pos)") auto

declare wav_chunks.simps [simp del]

definition read_wav_buf ::
  "(32 word \<Rightarrow> f32) \<Rightarrow> (nat \<Rightarrow> bool) \<Rightarrow> 8 word list \<Rightarrow> (string + f32 list \<times> int) option" where
  "read_wav_buf other alloc data =
     (if length data < 12 \<or> take 4 data \<noteq> bytes_of ''RIFF'' \<or> take 4 (drop 8 data) \<noteq> bytes_of ''WAVE''
      then Some (Inl ''[WAV] Not a valid WAV buffer'')
      else wav_chunks other alloc data wav_format_new 12)"


section \<open>Nothing past the end\<close>

lemma byte_at_in: "i < length data \<Longrightarrow> byte_at data i = Some (data ! i)"
  by (simp add: byte_at_def)

lemma reads_in:
  "p + 2 \<le> length data \<Longrightarrow> \<exists>u. wav_read_u16le data p = Some u"
  "p + 4 \<le> length data \<Longrightarrow> \<exists>u. wav_read_u32le data p = Some u"
  "p + 2 \<le> length data \<Longrightarrow> \<exists>f. pcm16_at data p = Some f"
  "p + 3 \<le> length data \<Longrightarrow> \<exists>f. pcm24_at data p = Some f"
  "p + 4 \<le> length data \<Longrightarrow> \<exists>f. wav_read_f32le other data p = Some f"
  by (simp_all add: byte_at_in wav_read_u16le_def wav_read_u32le_def wav_read_s24le_def pcm16_at_def pcm24_at_def
      wav_read_f32le_def Let_def)

lemma those_in: "(\<And>t. t \<in> set ts \<Longrightarrow> \<exists>y. f t = Some y) \<Longrightarrow> \<exists>ys. those (map f ts) = Some ys"
proof (induction ts)
  case (Cons t ts)
  then obtain y ys where "f t = Some y" "those (map f ts) = Some ys" by fastforce
  then show ?case by simp
qed simp

text \<open>The three formats share what makes their loop safe: the samples fit in the chunk, the chunk in the buffer, and
  the buffer in an \<open>int\<close>.\<close>

lemma wav_frame_in:
  assumes rd: "\<And>i. i + width \<le> length data \<Longrightarrow> \<exists>f. rd i = Some f"
    and fits: "pos + bytes \<le> length data" "length data < 2 ^ 31"
    and t: "t < bytes div (n * width)" and n: "0 < n" "2 \<le> width"
  shows "\<exists>fs. wav_frame rd width n pos t = Some fs"
proof -
  have "0 < n * width" "t + 1 \<le> bytes div (n * width)" using t n by simp_all
  then have nw: "(t + 1) * (n * width) \<le> bytes" by (simp only: less_eq_div_iff_mult_less_eq)
  have le: "t * n * width + n * width \<le> bytes" using nw by (simp add: algebra_simps)
  have w: "n * width = width + (n - 1) * width" using n by (cases n) simp_all
  have "t * width \<le> t * n * width" using n by simp
  then have tw: "t * width + width \<le> bytes" using le w by linarith
  have "t * 2 \<le> t * width" using n by simp
  then have "t * 2 < 2 ^ 31" "t * width < 2 ^ 31" using tw fits by linarith+
  then have "int_mul t 2 = Some (t * 2)" "int_mul t width = Some (t * width)"
    by (simp_all only: int_mul_def if_True)
  moreover have "\<exists>f. rd (pos + t * width) = Some f" using rd tw fits by simp
  moreover have "\<exists>f. rd (pos + t * n * width) = Some f" using rd le w fits by simp
  moreover have "\<exists>f. rd (pos + t * n * width + width) = Some f" if "n \<noteq> 1"
  proof -
    have "width + width \<le> n * width" using that n by (cases n; cases "n - 1") auto
    then show ?thesis using rd le fits by simp
  qed
  ultimately show ?thesis unfolding wav_frame_def by fastforce
qed

lemma wav_frames_in:
  assumes "\<And>i. i + width \<le> length data \<Longrightarrow> \<exists>f. rd i = Some f"
    and "pos + bytes \<le> length data" "length data < 2 ^ 31" "0 < n" "2 \<le> width"
  shows "\<exists>fs. wav_frames rd width n pos (bytes div (n * width)) = Some fs"
proof -
  have "\<exists>ys. those (map (wav_frame rd width n pos) [0..<bytes div (n * width)]) = Some ys"
    by (rule those_in) (use assms in \<open>auto intro!: wav_frame_in [where bytes = bytes]\<close>)
  then show ?thesis by (auto simp: wav_frames_def)
qed

lemma read_data_in:
  assumes "pos + bytes \<le> length data" "length data < 2 ^ 31" "0 < wf_channels fmt"
  shows "\<exists>r. read_data other alloc data fmt pos bytes = Some r"
proof -
  have "\<exists>fs. wav_frames (pcm16_at data) 2 (wf_channels fmt) pos (bytes div (wf_channels fmt * 2)) = Some fs"
    "\<exists>fs. wav_frames (pcm24_at data) 3 (wf_channels fmt) pos (bytes div (wf_channels fmt * 3)) = Some fs"
    "\<exists>fs. wav_frames (wav_read_f32le other data) 4 (wf_channels fmt) pos (bytes div (wf_channels fmt * 4)) = Some fs"
    by (rule wav_frames_in [where data = data]; use assms reads_in in simp)+
  then show ?thesis by (auto simp: read_data_def Let_def)
qed

lemma read_format_in:
  "pos + chunk_size \<le> length data \<Longrightarrow> 16 \<le> chunk_size \<Longrightarrow> \<exists>fmt. read_format data pos chunk_size = Some fmt"
  using reads_in(1) [of pos data] reads_in(1) [of "pos + 2" data] reads_in(2) [of "pos + 4" data]
    reads_in(1) [of "pos + 14" data] reads_in(1) [of "pos + 24" data]
  by (auto simp: read_format_def)

lemma wav_chunks_in:
  "length data < 2 ^ 31 \<Longrightarrow> \<exists>r. wav_chunks other alloc data fmt pos = Some r"
proof (induction other alloc data fmt pos rule: wav_chunks.induct)
  case (1 other alloc data fmt pos)
  show ?case
  proof (cases "length data < pos + 8")
    case False
    then obtain size32 where size: "wav_read_u32le data (pos + 4) = Some size32"
      using reads_in(2) [of "pos + 4" data] by auto
    define chunk_size where "chunk_size = min (unat size32) (length data - (pos + 8))"
    have fits: "pos + 8 + chunk_size \<le> length data" using False by (simp add: chunk_size_def)
    define rest where "rest = pos + 8 + chunk_size + chunk_size mod 2"
    define chunk_id where "chunk_id = take 4 (drop pos data)"
    have unfold: "wav_chunks other alloc data fmt pos =
      (if chunk_id = bytes_of ''fmt '' \<and> 16 \<le> chunk_size then
         Option.bind (read_format data (pos + 8) chunk_size) (\<lambda>fmt. wav_chunks other alloc data fmt rest)
       else if chunk_id = bytes_of ''data'' \<and> 0 < wf_channels fmt then
         map_option (map_sum id (\<lambda>audio. (audio, wf_rate fmt))) (read_data other alloc data fmt (pos + 8) chunk_size)
       else wav_chunks other alloc data fmt rest)"
      using False size
      by (subst wav_chunks.simps) (simp only: Let_def if_False option.simps bind.simps chunk_size_def rest_def chunk_id_def)
    note IH = 1(1,2) [OF False size refl refl refl, folded chunk_id_def chunk_size_def, folded rest_def]
    show ?thesis
      using IH 1(3) read_format_in [OF fits] read_data_in [OF fits 1(3), of fmt other alloc] unfolding unfold by auto
  qed (simp add: wav_chunks.simps)
qed



section \<open>A file of one channel\<close>

text \<open>The file of the format's description: a mono file of 16 bit samples.\<close>

definition u16_bytes :: "nat \<Rightarrow> 8 word list" where
  "u16_bytes n = [of_nat n, of_nat (drop_bit 8 n)]"

definition u32_bytes :: "nat \<Rightarrow> 8 word list" where
  "u32_bytes n = [of_nat n, of_nat (drop_bit 8 n), of_nat (drop_bit 16 n), of_nat (drop_bit 24 n)]"

definition wav_file :: "nat \<Rightarrow> int list \<Rightarrow> 8 word list" where
  "wav_file rate samples =
     bytes_of ''RIFF'' @ u32_bytes (36 + 2 * length samples) @ bytes_of ''WAVE'' @
     bytes_of ''fmt '' @ u32_bytes 16 @ u16_bytes 1 @ u16_bytes 1 @ u32_bytes rate @ u32_bytes (2 * rate) @ u16_bytes 2 @
     u16_bytes 16 @ bytes_of ''data'' @ u32_bytes (2 * length samples) @ concat (map pcm16_bytes samples)"

lemma read_u16: "length pre = p \<Longrightarrow> n < 2 ^ 16 \<Longrightarrow> wav_read_u16le (pre @ u16_bytes n @ post) p = Some (of_nat n)"
proof -
  assume a: "length pre = p" "n < 2 ^ 16"
  have "ucast (of_nat n :: 8 word) OR push_bit 8 (ucast (of_nat (drop_bit 8 n) :: 8 word)) = (of_nat n :: 16 word)"
  proof (rule bit_word_eqI)
    fix k
    assume "k < LENGTH(16)"
    then show "bit (ucast (of_nat n :: 8 word) OR push_bit 8 (ucast (of_nat (drop_bit 8 n) :: 8 word)) :: 16 word) k =
        bit (of_nat n :: 16 word) k"
      by (auto simp: bit_simps not_le)
  qed
  then show ?thesis using a by (simp add: wav_read_u16le_def byte_at_def nth_append u16_bytes_def)
qed

lemma read_u32: "length pre = p \<Longrightarrow> wav_read_u32le (pre @ u32_bytes n @ post) p = Some (of_nat n)"
proof -
  assume a: "length pre = p"
  have "ucast (of_nat n :: 8 word) OR push_bit 8 (ucast (of_nat (drop_bit 8 n) :: 8 word)) OR
      push_bit 16 (ucast (of_nat (drop_bit 16 n) :: 8 word)) OR push_bit 24 (ucast (of_nat (drop_bit 24 n) :: 8 word)) =
      (of_nat n :: 32 word)"
  proof (rule bit_word_eqI)
    fix k
    assume k: "k < LENGTH(32)"
    consider "k < 8" | "8 \<le> k" "k < 16" | "16 \<le> k" "k < 24" | "24 \<le> k" by linarith
    then show "bit (ucast (of_nat n :: 8 word) OR push_bit 8 (ucast (of_nat (drop_bit 8 n) :: 8 word)) OR
        push_bit 16 (ucast (of_nat (drop_bit 16 n) :: 8 word)) OR push_bit 24 (ucast (of_nat (drop_bit 24 n) :: 8 word)) :: 32 word) k =
        bit (of_nat n :: 32 word) k"
      using k by cases (auto simp: bit_simps not_le)
  qed
  then show ?thesis using a
    by (simp add: wav_read_u32le_def byte_at_def nth_append u32_bytes_def)
qed


lemma read_u16_there:
  assumes "take 2 (drop p data) = u16_bytes n" "n < 2 ^ 16"
  shows "wav_read_u16le data p = Some (of_nat n)"
proof -
  have len: "length (take 2 (drop p data)) = 2" by (simp add: assms(1) u16_bytes_def)
  have "data = take p data @ take 2 (drop p data) @ drop 2 (drop p data)" by (simp only: append_take_drop_id)
  moreover have "length (take p data) = p" using len by simp
  ultimately show ?thesis using read_u16 [of "take p data" p n "drop 2 (drop p data)"] assms by metis
qed

lemma read_u32_there:
  assumes "take 4 (drop p data) = u32_bytes n"
  shows "wav_read_u32le data p = Some (of_nat n)"
proof -
  have len: "length (take 4 (drop p data)) = 4" by (simp add: assms(1) u32_bytes_def)
  have "data = take p data @ take 4 (drop p data) @ drop 4 (drop p data)" by (simp only: append_take_drop_id)
  moreover have "length (take p data) = p" using len by simp
  ultimately show ?thesis using read_u32 [of "take p data" p n "drop 4 (drop p data)"] assms by metis
qed

lemma sample_exact:
  assumes "- 32768 \<le> s" "s < 32768"
  shows "to_f32 (to_f32 (of_int s) / 32768) = of_int s / 32768"
    and "to_f32 (of_int s / 32768 + of_int s / 32768) = of_int s / 16384"
    and "to_f32 (1 / 2 * (of_int s / 16384)) = of_int s / 32768"
proof -
  have s: "\<bar>s\<bar> < 2 ^ 24" using assms by auto
  have "fl (int 24) (- 149) (of_int s / 32768) = of_int s / 32768"
    by (rule fl_exact [where k = s and ?e0.0 = "- 15"]) (use s in \<open>simp_all add: power_int_def field_simps\<close>)
  moreover have "fl (int 24) (- 149) (of_int s / 16384) = of_int s / 16384"
    by (rule fl_exact [where k = s and ?e0.0 = "- 14"]) (use s in \<open>simp_all add: power_int_def field_simps\<close>)
  ultimately have e: "to_f32 (of_int s / 32768) = of_int s / 32768" "to_f32 (of_int s / 16384) = of_int s / 16384"
    by (simp_all add: to_f32_def)
  show "to_f32 (to_f32 (of_int s) / 32768) = of_int s / 32768" using to_f32_of_int [OF s] e by simp
  show "to_f32 (of_int s / 32768 + of_int s / 32768) = of_int s / 16384" using e(2) by (simp add: field_simps)
  show "to_f32 (1 / 2 * (of_int s / 16384)) = of_int s / 32768" using e(1) by simp
qed

lemma pcm16_at_sample:
  "list_all (\<lambda>s. - 32768 \<le> s \<and> s < 32768) ss \<Longrightarrow> t < length ss \<Longrightarrow>
   pcm16_at (pre @ concat (map pcm16_bytes ss)) (length pre + t * 2) = Some (of_int (ss ! t) / 32768)"
proof (induction ss arbitrary: pre t)
  case (Cons s ss)
  then have s: "- 32768 \<le> s" "s < 32768" by simp_all
  show ?case
  proof (cases t)
    case 0
    then have "wav_read_u16le (pre @ concat (map pcm16_bytes (s # ss))) (length pre + t * 2) = Some (word_of_int s)"
      by (simp add: wav_read_u16le_def byte_at_def nth_append pcm16_bytes_def Let_def pcm16_bytes_word)
    then have "pcm16_at (pre @ concat (map pcm16_bytes (s # ss))) (length pre + t * 2) =
        Some (to_f32 (to_f32 (of_int (sint (word_of_int s :: 16 word))) / 32768))"
      by (simp only: pcm16_at_def bind.simps)
    then show ?thesis unfolding sint_sample [OF s] sample_exact(1) [OF s] using 0 by simp
  next
    case (Suc k)
    have "length (pcm16_bytes s) = 2" by (simp add: pcm16_bytes_def Let_def)
    then show ?thesis using Cons.IH [of k "pre @ pcm16_bytes s"] Cons.prems Suc by simp
  qed
qed simp

lemma those_is: "(\<And>t. t \<in> set ts \<Longrightarrow> f t = Some (g t)) \<Longrightarrow> those (map f ts) = Some (map g ts)"
  by (induction ts) auto

lemma wav_file_frames:
  assumes "list_all (\<lambda>s. - 32768 \<le> s \<and> s < 32768) ss" "2 * length ss < 2 ^ 31"
  shows "wav_frames (pcm16_at (pre @ concat (map pcm16_bytes ss))) 2 1 (length pre) (length ss) =
    Some (concat (map (\<lambda>s. [of_int s / 32768, of_int s / 32768]) ss))"
proof -
  have "wav_frame (pcm16_at (pre @ concat (map pcm16_bytes ss))) 2 1 (length pre) t =
      Some [of_int (ss ! t) / 32768, of_int (ss ! t) / 32768]" if "t < length ss" for t
  proof -
    have "int_mul t 2 = Some (t * 2)" using that assms(2) by (simp add: int_mul_def)
    then show ?thesis using pcm16_at_sample [OF assms(1) that] by (simp add: wav_frame_def)
  qed
  then have "those (map (wav_frame (pcm16_at (pre @ concat (map pcm16_bytes ss))) 2 1 (length pre)) [0..<length ss]) =
      Some (map (\<lambda>t. [of_int (ss ! t) / 32768, of_int (ss ! t) / 32768]) [0..<length ss])"
    by (intro those_is) simp
  moreover have "map (\<lambda>t. [of_int (ss ! t) / 32768, of_int (ss ! t) / 32768]) [0..<length ss] =
      map (\<lambda>s. [of_int s / 32768, of_int s / (32768 :: rat)]) ss"
    by (rule nth_equalityI) simp_all
  ultimately show ?thesis by (simp add: wav_frames_def)
qed

lemma wav_file_read:
  assumes "list_all (\<lambda>s. - 32768 \<le> s \<and> s < 32768) ss" "2 * length ss < 2 ^ 31" "rate < 2 ^ 31" "alloc (length ss)"
  shows "read_wav_buf other alloc (wav_file rate ss) =
    Some (Inr (concat (map (\<lambda>s. [of_int s / 32768, of_int s / 32768]) ss), int rate))"
proof -
  define pre where "pre = bytes_of ''RIFF'' @ u32_bytes (36 + 2 * length ss) @ bytes_of ''WAVE'' @
     bytes_of ''fmt '' @ u32_bytes 16 @ u16_bytes 1 @ u16_bytes 1 @ u32_bytes rate @ u32_bytes (2 * rate) @ u16_bytes 2 @
     u16_bytes 16 @ bytes_of ''data'' @ u32_bytes (2 * length ss)"
  define body where "body = concat (map pcm16_bytes ss)"
  define data where "data = pre @ body"
  have whole: "wav_file rate ss = data" by (simp add: wav_file_def data_def pre_def body_def)
  have pre: "length pre = 44" by (simp add: pre_def bytes_of_def u32_bytes_def u16_bytes_def)
  have body: "length body = 2 * length ss" unfolding body_def by (induction ss) (simp_all add: pcm16_bytes_def Let_def)
  have len: "length data = 44 + 2 * length ss" by (simp add: data_def pre body)
  note lits = bytes_of_def u32_bytes_def u16_bytes_def
  have ids: "take 4 data = bytes_of ''RIFF''" "take 4 (drop 8 data) = bytes_of ''WAVE''"
    "take 4 (drop 12 data) = bytes_of ''fmt ''" "take 4 (drop 36 data) = bytes_of ''data''"
    by (simp_all add: data_def pre_def lits)
  have nums: "take 4 (drop 16 data) = u32_bytes 16" "take 2 (drop 20 data) = u16_bytes 1"
    "take 2 (drop 22 data) = u16_bytes 1" "take 4 (drop 24 data) = u32_bytes rate"
    "take 2 (drop 34 data) = u16_bytes 16" "take 4 (drop 40 data) = u32_bytes (2 * length ss)"
    by (simp_all add: data_def pre_def lits)
  have reads: "wav_read_u32le data 16 = Some 16" "wav_read_u16le data 20 = Some 1" "wav_read_u16le data 22 = Some 1"
    "wav_read_u32le data 24 = Some (of_nat rate)" "wav_read_u16le data 34 = Some 16"
    "wav_read_u32le data 40 = Some (of_nat (2 * length ss))"
    using read_u32_there [OF nums(1)] read_u16_there [OF nums(2)] read_u16_there [OF nums(3)] read_u32_there [OF nums(4)]
      read_u16_there [OF nums(5)] read_u32_there [OF nums(6)] by simp_all
  have rate: "sint (of_nat rate :: 32 word) = int rate"
  proof -
    have "sint (word_of_int (int rate) :: 32 word) = int rate"
      using assms(3) unfolding sint_sbintrunc' by (simp add: signed_take_bit_int_eq_self)
    then show ?thesis by simp
  qed
  have size: "unat (of_nat (2 * length ss) :: 32 word) = 2 * length ss"
    using assms(2) by (simp add: unat_of_nat take_bit_nat_eq_self del: of_nat_mult)
  define fmt where "fmt = \<lparr>wf_format = 1, wf_channels = 1, wf_rate = int rate, wf_bits = 16\<rparr>"
  have fmt: "read_format data 20 16 = Some fmt" using reads rate by (simp add: read_format_def fmt_def)
  have frames: "read_data other alloc data fmt 44 (2 * length ss) =
      Some (Inr (concat (map (\<lambda>s. [of_int s / 32768, of_int s / 32768]) ss)))"
    using wav_file_frames [OF assms(1,2), of pre] assms(4) pre
    by (simp add: read_data_def Let_def fmt_def data_def body_def)
  have two: "wav_chunks other alloc data fmt 36 =
      Some (Inr (concat (map (\<lambda>s. [of_int s / 32768, of_int s / 32768]) ss), int rate))"
    using len ids(4) reads(6) size frames
    by (subst wav_chunks.simps) (simp add: Let_def bytes_of_def, simp add: fmt_def)
  show ?thesis
    unfolding whole read_wav_buf_def using len ids reads(1) fmt two
    by (subst wav_chunks.simps) (simp add: Let_def)
qed


section \<open>The recognizer on a file\<close>

record tr_args =
  ta_model_path :: "string option"
  ta_wav_path :: "string option"
  ta_out_path :: "string option"
  ta_dump_dir :: "string option"
  ta_device :: "string option"
  ta_stream :: bool

definition tr_args_new :: tr_args where
  "tr_args_new = \<lparr>ta_model_path = None, ta_wav_path = None, ta_out_path = None, ta_dump_dir = None,
     ta_device = None, ta_stream = False\<rparr>"

text \<open>The arguments after the name of the program; \<^const>\<open>None\<close> is the usage.\<close>

fun tr_parse :: "tr_args \<Rightarrow> string list \<Rightarrow> tr_args option" where
  "tr_parse a [] = Some a"
| "tr_parse a [arg] = (if arg = ''--stream'' then Some (a\<lparr>ta_stream := True\<rparr>) else None)"
| "tr_parse a (arg # v # rest) =
     (if arg = ''--model'' then tr_parse (a\<lparr>ta_model_path := Some v\<rparr>) rest
      else if arg = ''--file'' then tr_parse (a\<lparr>ta_wav_path := Some v\<rparr>) rest
      else if arg = ''--out'' then tr_parse (a\<lparr>ta_out_path := Some v\<rparr>) rest
      else if arg = ''--device'' then tr_parse (a\<lparr>ta_device := Some v\<rparr>) rest
      else if arg = ''--dump'' then tr_parse (a\<lparr>ta_dump_dir := Some v\<rparr>) rest
      else if arg = ''--stream'' then tr_parse (a\<lparr>ta_stream := True\<rparr>) (v # rest)
      else None)"

text \<open>What a run leaves: the status of the process, what it printed, and the transcript it filed under a path.\<close>

record tr_run =
  tr_code :: int
  tr_stdout :: string
  tr_stderr :: "string list"
  tr_file :: "(string \<times> string) option"

definition tr_fail :: "string \<Rightarrow> string list \<Rightarrow> tr_run" where
  "tr_fail out err = \<lparr>tr_code = 1, tr_stdout = out, tr_stderr = err, tr_file = None\<rparr>"

text \<open>The world of a run: which devices there are, the files, the loading of a model, which paths can be written.\<close>

record ('f, 'h, 'p) tr_world =
  tw_device :: "string \<Rightarrow> bool"
  tw_file :: "string \<Rightarrow> 8 word list option"
  tw_load :: "string \<Rightarrow> string option \<Rightarrow> string + ('f, 'h, 'p) asr_model"
  tw_writable :: "string \<Rightarrow> bool"
  tw_bits :: "32 word \<Rightarrow> f32"
  tw_alloc :: "nat \<Rightarrow> bool"
  tw_libm :: libm

fun downmix :: "f32 list \<Rightarrow> f32 list" where
  "downmix (l # r # rest) = to_f32 (1 / 2 * to_f32 (l + r)) # downmix rest"
| "downmix _ = []"

definition status_text :: "pk_status \<Rightarrow> string" where
  "status_text status =
     (case status of PK_STATUS_INVALID_PARAMS e \<Rightarrow> e | PK_STATUS_DECODE_FAILED e \<Rightarrow> e | _ \<Rightarrow> [])"

text \<open>The run on the samples. What is printed as the transducer goes is the state its callback threads. The stage
  tensors of \<open>--dump\<close>, which also takes the rate as it is, are not modelled.\<close>

definition tr_recognize ::
  "('f, 'h, 'p) tr_world \<Rightarrow> tr_args \<Rightarrow> string \<Rightarrow> f32 list \<Rightarrow> int \<Rightarrow> (pk_status \<times> string \<times> string) option" where
  "tr_recognize W a model_path pcm rate =
     (case tw_load W model_path (ta_device a) of
        Inl err \<Rightarrow> Some (PK_STATUS_DECODE_FAILED err, [], [])
      | Inr model \<Rightarrow>
          (let on_token = (if ta_stream a then Some (\<lambda>chunk printed. (True, printed @ chunk)) else None) in
           case ta_dump_dir a of
             Some _ \<Rightarrow> pipeline_asr_run (tw_libm W) model pcm (nat rate) on_token []
           | None \<Rightarrow>
               map_option (\<lambda>(status, text, printed). (status, case text of None \<Rightarrow> [] | Some t \<Rightarrow> t, printed))
                 (pk_transcribe (tw_libm W) model pcm rate on_token [])))"

definition tr_main :: "('f, 'h, 'p) tr_world \<Rightarrow> string list \<Rightarrow> tr_run option" where
  "tr_main W args =
     (case tr_parse tr_args_new args of
        None \<Rightarrow> Some (tr_fail [] [''usage''])
      | Some a \<Rightarrow>
          (case (ta_model_path a, ta_wav_path a) of
             (Some model_path, Some wav_path) \<Rightarrow>
               if (case ta_device a of None \<Rightarrow> False | Some d \<Rightarrow> \<not> tw_device W d) then Some (tr_fail [] [''usage''])
               else (case tw_file W wav_path of
                   None \<Rightarrow> Some (tr_fail [] [''[ASR] FATAL: cannot open '' @ wav_path])
                 | Some raw \<Rightarrow>
                     (case read_wav_buf (tw_bits W) (tw_alloc W) raw of
                        None \<Rightarrow> None
                      | Some (Inl err) \<Rightarrow> Some (tr_fail [] [err])
                      | Some (Inr (stereo, rate)) \<Rightarrow>
                          (case tr_recognize W a model_path (downmix stereo) rate of
                             None \<Rightarrow> None
                           | Some (status, out, printed) \<Rightarrow>
                               if status \<noteq> PK_STATUS_OK then
                                 Some (tr_fail printed [''[ASR] FATAL: '' @ status_text status])
                               else
                                 let shown = printed @ (if ta_stream a then [LF] else c_str out @ [LF])
                                 in (case ta_out_path a of
                                      None \<Rightarrow> Some \<lparr>tr_code = 0, tr_stdout = shown, tr_stderr = [], tr_file = None\<rparr>
                                    | Some path \<Rightarrow>
                                        if \<not> tw_writable W path
                                        then Some (tr_fail shown [''[ASR] FATAL: cannot write '' @ path])
                                        else Some \<lparr>tr_code = 0, tr_stdout = shown, tr_stderr = [],
                                                    tr_file = Some (path, c_str out @ [LF])\<rparr>))))
           | _ \<Rightarrow> Some (tr_fail [] [''usage''])))"


lemma downmix_mono:
  "list_all (\<lambda>s. - 32768 \<le> s \<and> s < 32768) ss \<Longrightarrow>
   downmix (concat (map (\<lambda>s. [of_int s / 32768, of_int s / 32768]) ss)) = map (\<lambda>s. of_int s / 32768) ss"
proof (induction ss)
  case (Cons s ss)
  then have s: "- 32768 \<le> s" "s < 32768" by simp_all
  have IH: "downmix (concat (map (\<lambda>s. [of_int s / 32768, of_int s / 32768]) ss)) = map (\<lambda>s. of_int s / 32768) ss"
    using Cons by simp
  show ?case
    by (simp only: list.map concat.simps append_Cons append_Nil downmix.simps sample_exact(2,3) [OF s] IH)
qed simp

text \<open>A recording reaches the recognizer sample for sample: on a mono file of 16 bit samples the tool prints what the
  recognizer makes of exactly those samples, each over 32768, at the rate of the file, and fails when and as the
  recognizer fails.\<close>

theorem recording_reaches_the_recognizer:
  assumes "list_all (\<lambda>s. - 32768 \<le> s \<and> s < 32768) ss" "2 * length ss < 2 ^ 31" "rate < 2 ^ 31" "tw_alloc W (length ss)"
    and "tw_file W path = Some (wav_file rate ss)"
  shows "tr_main W [''--model'', m, ''--file'', path] =
    (case tw_load W m None of
       Inl err \<Rightarrow> Some (tr_fail [] [''[ASR] FATAL: '' @ err])
     | Inr model \<Rightarrow>
         (case pk_transcribe (tw_libm W) model (map (\<lambda>s. of_int s / 32768) ss) (int rate) None [] of
            None \<Rightarrow> None
          | Some (status, text, printed) \<Rightarrow>
              Some (if status \<noteq> PK_STATUS_OK then tr_fail printed [''[ASR] FATAL: '' @ status_text status]
                    else \<lparr>tr_code = 0, tr_stdout = printed @ c_str (case text of None \<Rightarrow> [] | Some t \<Rightarrow> t) @ [LF], tr_stderr = [],
                          tr_file = None\<rparr>)))"
  using assms wav_file_read [where alloc = "tw_alloc W", OF assms(1-4)] downmix_mono [OF assms(1)]
  by (auto simp: tr_main_def tr_args_new_def tr_recognize_def status_text_def split: sum.splits option.splits)

theorem recording_reaches_the_recognizer_witness:
  "tr_main \<lparr>tw_device = (\<lambda>_. True), tw_file = (\<lambda>_. Some (wav_file 16000 [0, - 32768])), tw_load = (\<lambda>_ _. Inl ''no''),
     tw_writable = (\<lambda>_. True), tw_bits = (\<lambda>_. 0), tw_alloc = (\<lambda>_. True), tw_libm = undefined\<rparr>
     [''--model'', ''m'', ''--file'', ''a.wav''] = Some (tr_fail [] [''[ASR] FATAL: no''])"
  using recording_reaches_the_recognizer [of "[0, - 32768]" 16000 "\<lparr>tw_device = (\<lambda>_. True),
     tw_file = (\<lambda>_. Some (wav_file 16000 [0, - 32768])), tw_load = (\<lambda>_ _. Inl ''no''),
     tw_writable = (\<lambda>_. True), tw_bits = (\<lambda>_. 0), tw_alloc = (\<lambda>_. True), tw_libm = undefined\<rparr>" "''a.wav''" "''m''"]
  by simp

end
