(* ===== verification/Weights.thy ===== *)
theory Weights
  imports Http
begin

text \<open>
  The loading of weights: \<open>src/gguf-weights.h\<close>, \<open>src/weight-ctx.h\<close>, and what each model loads
  (\<open>src/silero.cpp\<close>, \<open>src/smart-turn.cpp\<close>, \<open>src/localvqe.cpp\<close>, \<open>src/fastconformer-forward.h\<close>,
  \<open>src/tdt-decoder.h\<close>). The library (GGML) is a parameter: the parser of a header, the sizes of its types, its half
  precision. A \<open>size_t\<close> wraps at 64 bits.
\<close>

section \<open>The file\<close>

datatype ggml_type =
    GGML_TYPE_F32 | GGML_TYPE_F16 | GGML_TYPE_BF16 | GGML_TYPE_Q2_K | GGML_TYPE_Q3_K | GGML_TYPE_Q4_K
  | GGML_TYPE_Q5_K | GGML_TYPE_Q6_K | GGML_TYPE_Q8_0 | GGML_TYPE_OTHER nat

record gguf_tensor =
  gt_name :: string
  gt_type :: ggml_type
  gt_ne :: "nat list"
  gt_offset :: nat

text \<open>The library: block and row sizes, the bytes, elements and dimensions of a tensor, its conversions.\<close>

record ggml =
  gg_blck_size :: "ggml_type \<Rightarrow> nat"
  gg_row_size :: "ggml_type \<Rightarrow> nat \<Rightarrow> nat"
  gg_nbytes :: "gguf_tensor \<Rightarrow> nat"
  gg_nelements :: "gguf_tensor \<Rightarrow> nat"
  gg_n_dims :: "gguf_tensor \<Rightarrow> nat"
  gg_to_f32 :: "ggml_type \<Rightarrow> 8 word list \<Rightarrow> f32 list"
  gg_quantize :: "ggml_type \<Rightarrow> f32 list \<Rightarrow> nat \<Rightarrow> nat \<Rightarrow> 8 word list"

text \<open>A parsed header: the tensors in order, the place of their data, the values by key.\<close>

record gguf_header =
  gh_tensors :: "gguf_tensor list"
  gh_data_offset :: nat
  gh_u32 :: "string \<Rightarrow> 32 word option"
  gh_f32 :: "string \<Rightarrow> f32 option"
  gh_ints :: "string \<Rightarrow> int list option"
  gh_strings :: "string \<Rightarrow> string list option"

record GGUFModel =
  gf_header :: gguf_header
  gf_mapping :: "8 word list"

definition size_t :: "nat \<Rightarrow> nat" where
  "size_t n = n mod 2 ^ 64"

text \<open>\<open>gf_load\<close>: the file mapped, its header parsed, each tensor checked against the size of the file. The file may
  not open, an empty one does not map, the header may not parse.\<close>

definition gf_load ::
  "ggml \<Rightarrow> (string \<Rightarrow> 8 word list option) \<Rightarrow> (8 word list \<Rightarrow> gguf_header option) \<Rightarrow> string \<Rightarrow> string + GGUFModel" where
  "gf_load L file parse path =
     (case file path of
        None \<Rightarrow> Inl (''[GGUF] Cannot open '' @ path)
      | Some mapping \<Rightarrow>
          if mapping = [] then Inl (''[GGUF] Mmap failed '' @ path)
          else (case parse mapping of
             None \<Rightarrow> Inl (''[GGUF] Failed to parse '' @ path)
           | Some header \<Rightarrow>
               if list_ex (\<lambda>t. length mapping < size_t (gh_data_offset header + gt_offset t + gg_nbytes L t)) (gh_tensors header)
               then Inl (''[GGUF] FATAL: '' @ path @ '' is truncated or corrupt'')
               else Inr \<lparr>gf_header = header, gf_mapping = mapping\<rparr>))"

text \<open>A value of the header, 0 when it has none; a count is read into an \<open>int\<close>.\<close>

definition gf_get_u32 :: "GGUFModel \<Rightarrow> string \<Rightarrow> 32 word" where
  "gf_get_u32 gf key = (case gh_u32 (gf_header gf) key of None \<Rightarrow> 0 | Some v \<Rightarrow> v)"

definition gf_get_f32 :: "GGUFModel \<Rightarrow> string \<Rightarrow> f32" where
  "gf_get_f32 gf key = (case gh_f32 (gf_header gf) key of None \<Rightarrow> 0 | Some v \<Rightarrow> v)"

section \<open>The weights of a model\<close>

text \<open>Bytes of the mapping, \<^const>\<open>None\<close> past its end, where the read is undefined.\<close>

definition mapped :: "GGUFModel \<Rightarrow> nat \<Rightarrow> nat \<Rightarrow> 8 word list option" where
  "mapped gf place n = (if place + n \<le> length (gf_mapping gf) then Some (take n (drop place (gf_mapping gf))) else None)"

text \<open>A copy that waits for the upload: the tensor it fills, where its data is, a place of the mapping or values
  converted before, and their bytes.\<close>

datatype weight_src = In_File nat | Staged "f32 list"

record PendingCopy =
  pc_name :: string
  pc_type :: ggml_type
  pc_ne :: "nat list"
  pc_src :: weight_src
  pc_nbytes :: nat

text \<open>What the device holds of a weight.\<close>

datatype weight_data = Stored "8 word list" | Converted "f32 list"

record WeightCtx =
  wx_room :: nat
  wx_buffer :: "(string \<times> weight_data) list option"
  wx_pending :: "PendingCopy list"

definition wctx_init :: "nat \<Rightarrow> WeightCtx" where
  "wctx_init n_tensors = \<lparr>wx_room = n_tensors, wx_buffer = None, wx_pending = []\<rparr>"

definition gguf_find_tensor :: "GGUFModel \<Rightarrow> string \<Rightarrow> gguf_tensor option" where
  "gguf_find_tensor gf name = find (\<lambda>t. gt_name t = name) (gh_tensors (gf_header gf))"

definition gf_load_tensor :: "ggml \<Rightarrow> WeightCtx \<Rightarrow> GGUFModel \<Rightarrow> string \<Rightarrow> string + WeightCtx" where
  "gf_load_tensor L wctx gf name =
     (case gguf_find_tensor gf name of
        None \<Rightarrow> Inl (s2s_format (''[GGUF] Tensor '' @ [SQUOTE] @ name @ [SQUOTE] @ '' not found''))
      | Some src \<Rightarrow>
          Inr (wctx\<lparr>wx_pending := wx_pending wctx @
            [\<lparr>pc_name = name, pc_type = gt_type src, pc_ne = gt_ne src,
              pc_src = In_File (gh_data_offset (gf_header gf) + gt_offset src), pc_nbytes = gg_nbytes L src\<rparr>]\<rparr>))"

definition gf_load_tensor_f32 :: "ggml \<Rightarrow> WeightCtx \<Rightarrow> GGUFModel \<Rightarrow> string \<Rightarrow> (string + WeightCtx) option" where
  "gf_load_tensor_f32 L wctx gf name =
     (case gguf_find_tensor gf name of
        None \<Rightarrow> Some (Inl (s2s_format (''[GGUF] Tensor '' @ [SQUOTE] @ name @ [SQUOTE] @ '' not found (f32 load)'')))
      | Some src \<Rightarrow>
          if gt_type src = GGML_TYPE_F32 then Some (gf_load_tensor L wctx gf name)
          else if gt_type src \<noteq> GGML_TYPE_BF16 \<and> gt_type src \<noteq> GGML_TYPE_F16 then Some (gf_load_tensor L wctx gf name)
          else
            let n = gg_nelements L src in
            map_option (\<lambda>raw. Inr (wctx\<lparr>wx_pending := wx_pending wctx @
                 [\<lparr>pc_name = name, pc_type = GGML_TYPE_F32, pc_ne = gt_ne src,
                   pc_src = Staged (gg_to_f32 L (gt_type src) raw), pc_nbytes = n * 4\<rparr>]\<rparr>))
              (mapped gf (gh_data_offset (gf_header gf) + gt_offset src) (n * 2)))"

text \<open>The upload, once the device gave its buffer.\<close>

definition pending_data :: "GGUFModel \<Rightarrow> PendingCopy \<Rightarrow> (string \<times> weight_data) option" where
  "pending_data gf pc =
     (case pc_src pc of
        In_File place \<Rightarrow> map_option (\<lambda>raw. (pc_name pc, Stored raw)) (mapped gf place (pc_nbytes pc))
      | Staged values \<Rightarrow> Some (pc_name pc, Converted values))"

definition wctx_alloc :: "bool \<Rightarrow> GGUFModel \<Rightarrow> WeightCtx \<Rightarrow> (bool \<times> WeightCtx) option" where
  "wctx_alloc allocated gf wctx =
     (if \<not> allocated then Some (False, wctx)
      else map_option (\<lambda>data. (True, wctx\<lparr>wx_buffer := Some data, wx_pending := []\<rparr>))
             (those (map (pending_data gf) (wx_pending wctx))))"

text \<open>What a model loads, in order: the names, and whether a half precision tensor is converted.\<close>

fun load_weights :: "ggml \<Rightarrow> GGUFModel \<Rightarrow> WeightCtx \<Rightarrow> (string \<times> bool) list \<Rightarrow> (string + WeightCtx) option" where
  "load_weights L gf wctx [] = Some (Inr wctx)"
| "load_weights L gf wctx ((name, f32) # rest) =
     (case (if f32 then gf_load_tensor_f32 L wctx gf name else Some (gf_load_tensor L wctx gf name)) of
        None \<Rightarrow> None
      | Some (Inl err) \<Rightarrow> Some (Inl err)
      | Some (Inr wctx) \<Rightarrow> load_weights L gf wctx rest)"

definition as_f32 :: "string \<Rightarrow> (string \<times> bool)" where
  "as_f32 name = (name, True)"

definition as_stored :: "string \<Rightarrow> (string \<times> bool)" where
  "as_stored name = (name, False)"

subsection \<open>The voice detector\<close>

definition SV_N_ENCODER :: nat where "SV_N_ENCODER = 4"

definition sv_weights :: "(string \<times> bool) list" where
  "sv_weights =
     as_f32 ''stft.basis'' #
     concat (map (\<lambda>i. [as_f32 (''enc.'' @ nat_str i @ ''.weight''), as_f32 (''enc.'' @ nat_str i @ ''.bias'')])
       [0..<SV_N_ENCODER]) @
     map as_f32 [''lstm.w'', ''lstm.r'', ''lstm.b'', ''dec.weight'', ''dec.bias'']"

definition sv_room :: nat where "sv_room = 2 * SV_N_ENCODER + 6"

subsection \<open>The turn classifier\<close>

definition st_layer_weights :: "nat \<Rightarrow> (string \<times> bool) list" where
  "st_layer_weights i =
     map (\<lambda>s. as_f32 (''enc.'' @ nat_str i @ ''.'' @ s))
       [''attn_norm.weight'', ''attn_norm.bias'', ''q.weight'', ''q.bias'', ''k.weight'', ''v.weight'', ''v.bias'',
        ''o.weight'', ''o.bias'', ''ffn_norm.weight'', ''ffn_norm.bias'', ''fc1.weight'', ''fc1.bias'', ''fc2.weight'',
        ''fc2.bias'']"

definition st_weights :: "nat \<Rightarrow> (string \<times> bool) list" where
  "st_weights n_layers =
     map as_f32 [''enc.conv1.weight'', ''enc.conv1.bias'', ''enc.conv2.weight'', ''enc.conv2.bias'', ''enc.pos''] @
     concat (map st_layer_weights [0..<n_layers]) @
     map as_f32 [''enc.norm.weight'', ''enc.norm.bias'', ''pool.hidden.weight'', ''pool.hidden.bias'',
       ''pool.score.weight'', ''pool.score.bias'', ''cls.0.weight'', ''cls.0.bias'', ''cls.norm.weight'',
       ''cls.norm.bias'', ''cls.1.weight'', ''cls.1.bias'', ''cls.2.weight'', ''cls.2.bias'']"

definition st_room :: "nat \<Rightarrow> nat" where "st_room n_layers = 15 * n_layers + 24"


subsection \<open>The echo canceller\<close>

definition LV_N_ENCODER :: nat where "LV_N_ENCODER = 5"
definition LV_N_FAR :: nat where "LV_N_FAR = 2"

text \<open>A norm, a convolution and a point alike: a weight and a bias.\<close>

definition lv_load_pair :: "string \<Rightarrow> (string \<times> bool) list" where
  "lv_load_pair name = [as_f32 (name @ ''.weight''), as_f32 (name @ ''.bias'')]"

definition lv_load_encoder :: "string \<Rightarrow> (string \<times> bool) list" where
  "lv_load_encoder name =
     concat (map (\<lambda>s. lv_load_pair (name @ s)) [''.norm'', ''.conv'', ''.resblock.norm'', ''.resblock.conv''])"

definition lv_load_decoder :: "string \<Rightarrow> (string \<times> bool) list" where
  "lv_load_decoder name =
     concat (map (\<lambda>s. lv_load_pair (name @ s))
       [''.skip_norm'', ''.skip_conv'', ''.resblock.norm'', ''.resblock.conv'', ''.deconv.norm'', ''.deconv.conv''])"

definition lv_weights :: "(string \<times> bool) list" where
  "lv_weights =
     map as_f32 [''encoder.conv.weight'', ''decoder.linear.weight''] @
     concat (map (\<lambda>i. lv_load_encoder (''mic_enc'' @ nat_str (i + 1)) @ lv_load_decoder (''dec'' @ nat_str (i + 1)))
       [0..<LV_N_ENCODER]) @
     concat (map (\<lambda>i. lv_load_encoder (''far_enc'' @ nat_str (i + 1))) [0..<LV_N_FAR]) @
     lv_load_pair ''align.pconv_mic'' @ lv_load_pair ''align.pconv_ref'' @ lv_load_pair ''align.conv.1'' @
     map as_f32 [''bottleneck.input_proj.weight'', ''bottleneck.input_proj.bias'', ''bottleneck.output_proj.weight'',
       ''bottleneck.output_proj.bias'', ''bottleneck.a_real'', ''bottleneck.a_imag'', ''bottleneck.B_real'',
       ''bottleneck.B_imag'', ''bottleneck.C_real'', ''bottleneck.C_imag'', ''bottleneck.D'', ''mask.v_real'',
       ''mask.v_imag'']"

definition lv_room :: "GGUFModel \<Rightarrow> nat" where
  "lv_room gf = length (gh_tensors (gf_header gf))"

subsection \<open>The recognizer\<close>

definition parakeet_block_weights :: "nat \<Rightarrow> (string \<times> bool) list" where
  "parakeet_block_weights i =
     map (\<lambda>(s, f32). (''enc.'' @ nat_str i @ ''.'' @ s, f32))
       [as_f32 ''norm_ff1.weight'', as_f32 ''norm_ff1.bias'', as_stored ''ff1.linear1.weight'', as_stored ''ff1.linear2.weight'',
        as_f32 ''norm_attn.weight'', as_f32 ''norm_attn.bias'', as_stored ''attn.q.weight'', as_stored ''attn.k.weight'',
        as_stored ''attn.v.weight'', as_stored ''attn.o.weight'', as_stored ''attn.rel_k.weight'', as_f32 ''attn.bias_u'',
        as_f32 ''attn.bias_v'', as_f32 ''norm_conv.weight'', as_f32 ''norm_conv.bias'', as_stored ''conv.pw1.weight'',
        as_f32 ''conv.dw.weight'', as_f32 ''conv.dw.bias'', as_stored ''conv.pw2.weight'', as_f32 ''norm_ff2.weight'',
        as_f32 ''norm_ff2.bias'', as_stored ''ff2.linear1.weight'', as_stored ''ff2.linear2.weight'',
        as_f32 ''norm_out.weight'', as_f32 ''norm_out.bias'']"

definition parakeet_load_encoder :: "nat \<Rightarrow> (string \<times> bool) list" where
  "parakeet_load_encoder n_layers =
     map as_f32 [''sub.0.weight'', ''sub.0.bias''] @
     concat (map (\<lambda>i. map (\<lambda>s. as_f32 (''sub.'' @ nat_str (i + 1) @ ''.'' @ s))
       [''dw.weight'', ''dw.bias'', ''pw.weight'', ''pw.bias'']) [0..<2]) @
     [as_stored ''sub.linear.weight'', as_f32 ''sub.linear.bias''] @
     concat (map parakeet_block_weights [0..<n_layers]) @
     [as_stored ''enc.proj.weight'', as_f32 ''enc.proj.bias'']"

definition parakeet_load_decoder :: "nat \<Rightarrow> (string \<times> bool) list" where
  "parakeet_load_decoder n_lstm =
     as_stored ''dec.embedding.weight'' #
     concat (map (\<lambda>i. [as_stored (''dec.lstm.'' @ nat_str i @ ''.w''), as_stored (''dec.lstm.'' @ nat_str i @ ''.r''),
         as_f32 (''dec.lstm.'' @ nat_str i @ ''.b'')]) [0..<n_lstm]) @
     [as_stored ''dec.proj.weight'', as_f32 ''dec.proj.bias'', as_stored ''joint.weight'', as_f32 ''joint.bias'']"

definition asr_room :: "nat \<Rightarrow> nat" where "asr_room n_layers = 26 * n_layers + 32"

section \<open>Nothing outside the file\<close>

lemma find_tensor:
  "gguf_find_tensor gf name = Some src \<Longrightarrow> src \<in> set (gh_tensors (gf_header gf)) \<and> gt_name src = name"
  by (auto simp: gguf_find_tensor_def find_Some_iff)

text \<open>What the device is to hold of a weight: the bytes of the tensor of that name, or their conversion.\<close>

definition half_type :: "ggml_type \<Rightarrow> bool" where
  "half_type t \<longleftrightarrow> t = GGML_TYPE_BF16 \<or> t = GGML_TYPE_F16"

definition weight_of :: "ggml \<Rightarrow> GGUFModel \<Rightarrow> string \<times> bool \<Rightarrow> (string \<times> weight_data) option" where
  "weight_of L gf = (\<lambda>(name, f32). Option.bind (gguf_find_tensor gf name) (\<lambda>t.
     let place = gh_data_offset (gf_header gf) + gt_offset t
     in map_option (\<lambda>raw. (name, if f32 \<and> half_type (gt_type t) then Converted (gg_to_f32 L (gt_type t) raw) else Stored raw))
          (mapped gf place (gg_nbytes L t))))"

text \<open>The file holds the data of every tensor of its header, and the sizes of half precision are two bytes.\<close>

definition gf_whole :: "ggml \<Rightarrow> GGUFModel \<Rightarrow> bool" where
  "gf_whole L gf \<longleftrightarrow> (\<forall>t \<in> set (gh_tensors (gf_header gf)).
     gh_data_offset (gf_header gf) + gt_offset t + gg_nbytes L t \<le> length (gf_mapping gf) \<and>
     (half_type (gt_type t) \<longrightarrow> gg_nbytes L t = 2 * gg_nelements L t))"

text \<open>A tensor adds one copy, which uploads as the weight; or the file has no tensor of that name.\<close>

definition adds :: "ggml \<Rightarrow> GGUFModel \<Rightarrow> string \<times> bool \<Rightarrow> WeightCtx \<Rightarrow> (string + WeightCtx) option \<Rightarrow> bool" where
  "adds L gf item wctx r \<longleftrightarrow>
     (case r of
        None \<Rightarrow> False
      | Some (Inl err) \<Rightarrow> gguf_find_tensor gf (fst item) = None
      | Some (Inr wctx') \<Rightarrow> (\<exists>p data. wctx' = wctx\<lparr>wx_pending := wx_pending wctx @ [p]\<rparr> \<and> pc_name p = fst item \<and>
          gguf_find_tensor gf (fst item) \<noteq> None \<and> weight_of L gf item = Some data \<and> pending_data gf p = Some data))"

lemma load_tensor_adds:
  assumes "gf_whole L gf" "\<And>t. gguf_find_tensor gf name = Some t \<Longrightarrow> f32 \<Longrightarrow> \<not> half_type (gt_type t)"
  shows "adds L gf (name, f32) wctx (Some (gf_load_tensor L wctx gf name))"
proof (cases "gguf_find_tensor gf name")
  case (Some t)
  then have "gh_data_offset (gf_header gf) + gt_offset t + gg_nbytes L t \<le> length (gf_mapping gf)"
    using assms(1) find_tensor unfolding gf_whole_def by blast
  then show ?thesis using Some assms(2) [of t]
    by (auto simp: adds_def gf_load_tensor_def pending_data_def weight_of_def mapped_def Let_def)
qed (simp add: adds_def gf_load_tensor_def)

lemma load_tensor_f32_adds:
  assumes "gf_whole L gf"
  shows "adds L gf (name, True) wctx (gf_load_tensor_f32 L wctx gf name)"
proof (cases "gguf_find_tensor gf name")
  case (Some t)
  show ?thesis
  proof (cases "half_type (gt_type t)")
    case True
    then have "gh_data_offset (gf_header gf) + gt_offset t + gg_nbytes L t \<le> length (gf_mapping gf)"
      "gg_nbytes L t = gg_nelements L t * 2" "gt_type t \<noteq> GGML_TYPE_F32"
      using assms find_tensor [OF Some] unfolding gf_whole_def half_type_def by auto
    then show ?thesis using Some True
      by (auto simp: adds_def gf_load_tensor_f32_def pending_data_def weight_of_def mapped_def Let_def half_type_def)
  next
    case False
    then have "gf_load_tensor_f32 L wctx gf name = Some (gf_load_tensor L wctx gf name)"
      using Some by (simp add: gf_load_tensor_f32_def half_type_def)
    then show ?thesis using load_tensor_adds [OF assms, of name True wctx] Some False by simp
  qed
qed (simp add: adds_def gf_load_tensor_f32_def)

text \<open>So do the weights of a model, in order.\<close>

lemma load_weights_adds:
  assumes whole: "gf_whole L gf"
  shows "case load_weights L gf wctx items of
      None \<Rightarrow> False
    | Some (Inl err) \<Rightarrow> \<exists>item \<in> set items. gguf_find_tensor gf (fst item) = None
    | Some (Inr wctx') \<Rightarrow> (\<exists>ps. wctx' = wctx\<lparr>wx_pending := wx_pending wctx @ ps\<rparr> \<and> map pc_name ps = map fst items \<and>
        (\<forall>item \<in> set items. gguf_find_tensor gf (fst item) \<noteq> None) \<and>
        map (pending_data gf) ps = map (weight_of L gf) items \<and> (\<exists>ds. map (weight_of L gf) items = map Some ds))"
proof (induction items arbitrary: wctx)
  case (Cons item items)
  obtain name f32 where item: "item = (name, f32)" by force
  define r where "r = (if f32 then gf_load_tensor_f32 L wctx gf name else Some (gf_load_tensor L wctx gf name))"
  have one: "adds L gf item wctx r"
    using load_tensor_f32_adds [OF whole] load_tensor_adds [OF whole, of name False] by (auto simp: r_def item)
  have unfold: "load_weights L gf wctx (item # items) =
      (case r of None \<Rightarrow> None | Some (Inl err) \<Rightarrow> Some (Inl err) | Some (Inr wctx) \<Rightarrow> load_weights L gf wctx items)"
    by (simp add: item r_def)
  consider err where "r = Some (Inl err)" "gguf_find_tensor gf (fst item) = None"
    | p data where "r = Some (Inr (wctx\<lparr>wx_pending := wx_pending wctx @ [p]\<rparr>))" "pc_name p = fst item"
        "gguf_find_tensor gf (fst item) \<noteq> None" "weight_of L gf item = Some data" "pending_data gf p = Some data"
    using one by (auto simp: adds_def split: option.splits sum.splits)
  then show ?case
  proof cases
    case 1
    then show ?thesis by (simp add: unfold)
  next
    case 2
    have cons: "\<exists>ds'. Some data # map Some ds = map Some ds'" for ds :: "(string \<times> weight_data) list"
      by (rule exI [of _ "data # ds"]) simp
    show ?thesis
      using Cons.IH [of "wctx\<lparr>wx_pending := wx_pending wctx @ [p]\<rparr>"] 2 cons
      by (auto simp: unfold split: option.splits sum.splits)
  qed
qed simp

lemma those_Some: "those (map Some xs) = Some xs"
  by (induction xs) auto

text \<open>The places of a header within the reach of a \<open>size_t\<close>, half precision of two bytes.\<close>

definition gf_sane :: "ggml \<Rightarrow> GGUFModel \<Rightarrow> bool" where
  "gf_sane L gf \<longleftrightarrow> (\<forall>t \<in> set (gh_tensors (gf_header gf)).
     gh_data_offset (gf_header gf) + gt_offset t + gg_nbytes L t < 2 ^ 64 \<and>
     (half_type (gt_type t) \<longrightarrow> gg_nbytes L t = 2 * gg_nelements L t))"

text \<open>A truncated file does not load.\<close>

lemma loaded_file_whole:
  assumes "gf_load L file parse path = Inr gf" "gf_sane L gf"
  shows "gf_whole L gf"
  unfolding gf_whole_def
proof (rule ballI)
  fix t assume t: "t \<in> set (gh_tensors (gf_header gf))"
  have "\<not> length (gf_mapping gf) < size_t (gh_data_offset (gf_header gf) + gt_offset t + gg_nbytes L t)"
    using assms(1) t by (auto simp: gf_load_def list_ex_iff split: option.splits if_splits)
  then show "gh_data_offset (gf_header gf) + gt_offset t + gg_nbytes L t \<le> length (gf_mapping gf) \<and>
    (half_type (gt_type t) \<longrightarrow> gg_nbytes L t = 2 * gg_nelements L t)"
    using bspec [OF assms(2) [unfolded gf_sane_def] t] by (simp add: size_t_def)
qed

text \<open>A model's weights in order are on the device after the upload, or one has no tensor of its name.\<close>

definition missing :: "GGUFModel \<Rightarrow> (string \<times> bool) list \<Rightarrow> bool" where
  "missing gf items \<longleftrightarrow> list_ex (\<lambda>item. gguf_find_tensor gf (fst item) = None) items"

lemma load_weights_finds:
  assumes "gf_whole L gf"
  shows "case load_weights L gf wctx items of
      None \<Rightarrow> False | Some (Inl e) \<Rightarrow> missing gf items | Some (Inr wctx') \<Rightarrow> \<not> missing gf items"
  using load_weights_adds [OF assms, where wctx = wctx and items = items]
  by (auto simp: missing_def list_ex_iff split: option.splits sum.splits)

lemma upload_cases:
  assumes "gf_whole L gf"
  obtains (Missing) e where "load_weights L gf (wctx_init room) items = Some (Inl e)" "missing gf items"
  | (Found) wctx data where "load_weights L gf (wctx_init room) items = Some (Inr wctx)"
      "wctx_alloc True gf wctx = Some (True, wctx\<lparr>wx_buffer := Some data, wx_pending := []\<rparr>)"
      "those (map (weight_of L gf) items) = Some data"
proof -
  note adds = load_weights_adds [OF assms, where wctx = "wctx_init room" and items = items]
  consider "load_weights L gf (wctx_init room) items = None"
    | e where "load_weights L gf (wctx_init room) items = Some (Inl e)"
    | wctx where "load_weights L gf (wctx_init room) items = Some (Inr wctx)"
    by (metis option.exhaust sum.exhaust)
  then show thesis
  proof cases
    case 1
    then show ?thesis using adds by simp
  next
    case 2
    then show ?thesis using adds Missing by (auto simp: missing_def list_ex_iff)
  next
    case 3
    then obtain ps data where wctx: "wctx = (wctx_init room)\<lparr>wx_pending := wx_pending (wctx_init room) @ ps\<rparr>"
      and ps: "map (pending_data gf) ps = map (weight_of L gf) items" and data: "map (weight_of L gf) items = map Some data"
      using adds by auto
    have "those (map (weight_of L gf) items) = Some data" by (simp add: data those_Some)
    moreover from this have "wctx_alloc True gf wctx = Some (True, wctx\<lparr>wx_buffer := Some data, wx_pending := []\<rparr>)"
      by (simp add: wctx_alloc_def wctx wctx_init_def ps)
    ultimately show ?thesis using 3 Found by blast
  qed
qed

lemma load_weights_append:
  "load_weights L gf wctx (xs @ ys) =
   (case load_weights L gf wctx xs of
      None \<Rightarrow> None | Some (Inl e) \<Rightarrow> Some (Inl e) | Some (Inr wctx) \<Rightarrow> load_weights L gf wctx ys)"
  by (induction L gf wctx xs rule: load_weights.induct) (auto split: option.splits sum.splits)

definition toy_ggml :: ggml where
  "toy_ggml = \<lparr>gg_blck_size = (\<lambda>_. 1), gg_row_size = (\<lambda>_ n. n), gg_nbytes = (\<lambda>t. 2 * prod_list (gt_ne t)),
     gg_nelements = (\<lambda>t. prod_list (gt_ne t)), gg_n_dims = (\<lambda>t. length (gt_ne t)), gg_to_f32 = (\<lambda>_ _. []),
     gg_quantize = (\<lambda>_ _ _ _. [])\<rparr>"

definition toy_header :: gguf_header where
  "toy_header = \<lparr>gh_tensors = [\<lparr>gt_name = ''a'', gt_type = GGML_TYPE_F16, gt_ne = [2], gt_offset = 1\<rparr>], gh_data_offset = 1,
     gh_u32 = (\<lambda>_. None), gh_f32 = (\<lambda>_. None), gh_ints = (\<lambda>_. None), gh_strings = (\<lambda>_. None)\<rparr>"

section \<open>Room for every weight\<close>

text \<open>The canceller's names, grouped by what comes before their first dot.\<close>

definition head_of :: "string \<Rightarrow> string" where
  "head_of name = takeWhile (\<lambda>c. c \<noteq> CHR ''.'') name"

definition lv_groups :: "(string \<times> string list) list" where
  "lv_groups =
     [(''encoder'', [''encoder.conv.weight'']), (''decoder'', [''decoder.linear.weight''])] @
     concat (map (\<lambda>i. [(''mic_enc'' @ nat_str (i + 1), map fst (lv_load_encoder (''mic_enc'' @ nat_str (i + 1)))),
                        (''dec'' @ nat_str (i + 1), map fst (lv_load_decoder (''dec'' @ nat_str (i + 1))))])
       [0..<LV_N_ENCODER]) @
     map (\<lambda>i. (''far_enc'' @ nat_str (i + 1), map fst (lv_load_encoder (''far_enc'' @ nat_str (i + 1))))) [0..<LV_N_FAR] @
     [(''align'', map fst (lv_load_pair ''align.pconv_mic'' @ lv_load_pair ''align.pconv_ref'' @ lv_load_pair ''align.conv.1'')),
      (''bottleneck'',
       [''bottleneck.input_proj.weight'', ''bottleneck.input_proj.bias'', ''bottleneck.output_proj.weight'',
        ''bottleneck.output_proj.bias'', ''bottleneck.a_real'', ''bottleneck.a_imag'', ''bottleneck.B_real'',
        ''bottleneck.B_imag'', ''bottleneck.C_real'', ''bottleneck.C_imag'', ''bottleneck.D'']),
      (''mask'', [''mask.v_real'', ''mask.v_imag''])]"

definition grouped :: "string \<times> string list \<Rightarrow> bool" where
  "grouped = (\<lambda>(h, g). distinct g \<and> list_all (\<lambda>x. head_of x = h) g)"

lemma distinct_grouped: "list_all grouped gs \<Longrightarrow> distinct (map fst gs) \<Longrightarrow> distinct (concat (map snd gs))"
proof (induction gs)
  case (Cons hg gs)
  have "set (snd hg) \<inter> set (snd kg) = {}" if "kg \<in> set gs" for kg
  proof (rule ccontr)
    assume "set (snd hg) \<inter> set (snd kg) \<noteq> {}"
    then obtain x where "x \<in> set (snd hg)" "x \<in> set (snd kg)" by blast
    then have "fst hg = fst kg" using Cons.prems(1) that unfolding list_all_iff grouped_def by fastforce
    then show False using Cons.prems(2) that by auto
  qed
  then show ?case using Cons by (auto simp: grouped_def)
qed simp

lemma head_of_dotted: "CHR ''.'' \<notin> set name \<Longrightarrow> head_of (name @ CHR ''.'' # rest) = name"
  by (induction name) (auto simp: head_of_def)

lemma encoder_grouped: "CHR ''.'' \<notin> set name \<Longrightarrow> grouped (name, map fst (lv_load_encoder name))"
  by (simp add: grouped_def lv_load_encoder_def lv_load_pair_def as_f32_def head_of_dotted)

lemma decoder_grouped: "CHR ''.'' \<notin> set name \<Longrightarrow> grouped (name, map fst (lv_load_decoder name))"
  by (simp add: grouped_def lv_load_decoder_def lv_load_pair_def as_f32_def head_of_dotted)

lemma lv_names_distinct: "distinct (map fst lv_weights)"
proof -
  have ds: "nat_str (Suc 0) = ''1''" "nat_str (Suc (Suc 0)) = ''2''" "nat_str (Suc (Suc (Suc 0))) = ''3''"
    "nat_str (Suc (Suc (Suc (Suc 0)))) = ''4''" "nat_str (Suc (Suc (Suc (Suc (Suc 0))))) = ''5''" by code_simp+
  have "map fst lv_weights = concat (map snd lv_groups)"
    by (simp add: lv_weights_def lv_groups_def LV_N_ENCODER_def LV_N_FAR_def as_f32_def upt_rec)
  moreover have "list_all grouped lv_groups"
    by (simp add: lv_groups_def LV_N_ENCODER_def LV_N_FAR_def upt_rec ds encoder_grouped decoder_grouped)
      (simp add: grouped_def head_of_def lv_load_pair_def as_f32_def)
  moreover have "distinct (map fst lv_groups)"
    by (simp add: lv_groups_def LV_N_ENCODER_def LV_N_FAR_def upt_rec ds)
  ultimately show ?thesis using distinct_grouped by simp
qed

lemma load_tensor_names:
  "gf_load_tensor L wctx gf name = Inr wctx' \<Longrightarrow>
   \<exists>p. wctx' = wctx\<lparr>wx_pending := wx_pending wctx @ [p]\<rparr> \<and> pc_name p = name \<and> gguf_find_tensor gf name \<noteq> None"
  by (auto simp: gf_load_tensor_def split: option.splits)

lemma load_tensor_f32_names:
  "gf_load_tensor_f32 L wctx gf name = Some (Inr wctx') \<Longrightarrow>
   \<exists>p. wctx' = wctx\<lparr>wx_pending := wx_pending wctx @ [p]\<rparr> \<and> pc_name p = name \<and> gguf_find_tensor gf name \<noteq> None"
  using load_tensor_names by (fastforce simp: gf_load_tensor_f32_def Let_def split: option.splits if_splits)

lemma load_weights_names:
  "load_weights L gf wctx items = Some (Inr wctx') \<Longrightarrow>
   \<exists>ps. wctx' = wctx\<lparr>wx_pending := wx_pending wctx @ ps\<rparr> \<and> map pc_name ps = map fst items \<and>
     (\<forall>item \<in> set items. gguf_find_tensor gf (fst item) \<noteq> None)"
proof (induction items arbitrary: wctx)
  case (Cons item items)
  obtain name f32 where item: "item = (name, f32)" by force
  obtain wctx1 where one: "(if f32 then gf_load_tensor_f32 L wctx gf name else Some (gf_load_tensor L wctx gf name)) = Some (Inr wctx1)"
    and rest: "load_weights L gf wctx1 items = Some (Inr wctx')"
    using Cons.prems by (auto simp: item split: option.splits sum.splits if_splits)
  obtain p where "wctx1 = wctx\<lparr>wx_pending := wx_pending wctx @ [p]\<rparr>" "pc_name p = name" "gguf_find_tensor gf name \<noteq> None"
    using one load_tensor_names load_tensor_f32_names by (metis option.inject)
  then show ?case using Cons.IH [OF rest] by (auto simp: item intro: exI [of _ "p # ps" for ps])
qed simp

text \<open>The context of the weights has room for every tensor a model creates in it: the detector's and the
  classifier's whatever their depth, the canceller's, which holds as many as its file has tensors, and the recognizer's
  while the layers of its predictor are at most a third of its blocks and four more.\<close>

theorem weights_have_room:
  "length sv_weights \<le> sv_room \<and> length (st_weights n_layers) \<le> st_room n_layers \<and>
   (case load_weights L gf (wctx_init (lv_room gf)) lv_weights of
      Some (Inr wctx) \<Rightarrow> length (wx_pending wctx) \<le> wx_room wctx
    | _ \<Rightarrow> True) \<and>
   (if 3 * n_lstm \<le> n_blocks + 13
    then length (parakeet_load_encoder n_blocks @ parakeet_load_decoder n_lstm) \<le> asr_room n_blocks else True)"
proof -
  have sums: "sum_list (map (\<lambda>_. k) [0..<n]) = k * n" for k n :: nat
    by (simp add: sum_list_triv)
  have sv: "length sv_weights \<le> sv_room"
    by (simp add: sv_weights_def sv_room_def length_concat comp_def SV_N_ENCODER_def upt_rec)
  have st: "length (st_weights n_layers) \<le> st_room n_layers"
    by (simp add: st_weights_def st_room_def length_concat comp_def st_layer_weights_def sums)
  have asr: "length (parakeet_load_encoder n_blocks @ parakeet_load_decoder n_lstm) = 25 * n_blocks + 3 * n_lstm + 19"
    by (simp add: parakeet_load_encoder_def parakeet_load_decoder_def length_concat comp_def parakeet_block_weights_def sums)
  have lv: "length (wx_pending wctx) \<le> wx_room wctx"
    if load: "load_weights L gf (wctx_init (lv_room gf)) lv_weights = Some (Inr wctx)" for wctx
  proof -
    obtain ps where ps: "wx_pending wctx = ps" "wx_room wctx = lv_room gf" "map pc_name ps = map fst lv_weights"
      "\<forall>item \<in> set lv_weights. gguf_find_tensor gf (fst item) \<noteq> None"
      using load_weights_names [OF load] by (auto simp: wctx_init_def)
    have "set (map fst lv_weights) \<subseteq> set (map gt_name (gh_tensors (gf_header gf)))"
      using ps(4) find_tensor by fastforce
    then have "card (set (map fst lv_weights)) \<le> card (set (map gt_name (gh_tensors (gf_header gf))))"
      by (intro card_mono) simp_all
    moreover have "card (set (map gt_name (gh_tensors (gf_header gf)))) \<le> lv_room gf"
      using card_length [of "map gt_name (gh_tensors (gf_header gf))"] by (simp add: lv_room_def)
    moreover have "card (set (map fst lv_weights)) = length ps"
      using distinct_card [OF lv_names_distinct] ps(3) by (metis length_map)
    ultimately show ?thesis using ps by simp
  qed
  show ?thesis using sv st asr lv by (auto simp: asr_room_def split: option.split sum.split)
qed

end
