(* ===== verification/Quantize.thy ===== *)
theory Quantize
  imports Weights Server
begin

text \<open>
  \<open>tools/quantize.cpp\<close>: the recognizer's file rewritten with a smaller type for its matrices. Which tensor takes which
  type, the plan of a file, and the data as it is written, tensor after tensor. The library (GGML, and what it reads and
  writes of a header) is a parameter; \<^const>\<open>None\<close> is a read past the end of the input or past the 64 zeros the
  padding is written from.
\<close>

section \<open>The policy\<close>

text \<open>\<open>GGML_TYPE_COUNT\<close>, no type, is \<^const>\<open>None\<close>.\<close>

record QuantVariant =
  qv_name :: string
  qv_base :: ggml_type
  qv_bump :: "ggml_type option"
  qv_embed :: "ggml_type option"
  qv_bump_mode :: nat
  qv_bump_n :: int

definition variant ::
  "string \<Rightarrow> ggml_type \<Rightarrow> ggml_type option \<Rightarrow> ggml_type \<Rightarrow> nat \<Rightarrow> int \<Rightarrow> QuantVariant" where
  "variant name base bump emb mode n =
     \<lparr>qv_name = name, qv_base = base, qv_bump = bump, qv_embed = Some emb, qv_bump_mode = mode, qv_bump_n = n\<rparr>"

definition VARIANTS :: "QuantVariant list" where
  "VARIANTS =
     [variant ''BF16'' GGML_TYPE_BF16 None GGML_TYPE_BF16 0 0,
      variant ''Q2_K'' GGML_TYPE_Q2_K (Some GGML_TYPE_Q4_K) GGML_TYPE_Q6_K 1 4,
      variant ''Q3_K_S'' GGML_TYPE_Q3_K None GGML_TYPE_Q6_K 0 0,
      variant ''Q3_K_M'' GGML_TYPE_Q3_K (Some GGML_TYPE_Q5_K) GGML_TYPE_Q6_K 2 0,
      variant ''Q3_K_L'' GGML_TYPE_Q3_K (Some GGML_TYPE_Q5_K) GGML_TYPE_Q6_K 3 0,
      variant ''Q4_K_S'' GGML_TYPE_Q4_K (Some GGML_TYPE_Q5_K) GGML_TYPE_Q6_K 1 4,
      variant ''Q4_K_M'' GGML_TYPE_Q4_K (Some GGML_TYPE_Q6_K) GGML_TYPE_Q6_K 2 0,
      variant ''Q5_K_S'' GGML_TYPE_Q5_K None GGML_TYPE_Q6_K 0 0,
      variant ''Q5_K_M'' GGML_TYPE_Q5_K (Some GGML_TYPE_Q6_K) GGML_TYPE_Q6_K 2 0,
      variant ''Q6_K'' GGML_TYPE_Q6_K None GGML_TYPE_Q6_K 0 0,
      variant ''Q8_0'' GGML_TYPE_Q8_0 None GGML_TYPE_Q8_0 0 0]"

definition find_variant :: "string \<Rightarrow> QuantVariant option" where
  "find_variant s = find (\<lambda>v. map to_lower s = map to_lower (qv_name v)) VARIANTS"

definition strstr :: "string \<Rightarrow> string \<Rightarrow> bool" where
  "strstr name pat \<longleftrightarrow> find_sub pat name \<noteq> None"

definition extract_layer :: "string \<Rightarrow> int" where
  "extract_layer name = (if take 4 name \<noteq> ''enc.'' then - 1 else atoi (drop 4 name))"

definition is_important_sm :: "string \<Rightarrow> bool" where
  "is_important_sm name \<longleftrightarrow> strstr name ''attn.v.weight'' \<or> strstr name ''linear2.weight''"

definition is_important_l :: "string \<Rightarrow> bool" where
  "is_important_l name \<longleftrightarrow> is_important_sm name \<or> strstr name ''attn.o.weight''"

definition is_embed :: "string \<Rightarrow> bool" where
  "is_embed name \<longleftrightarrow> strstr name ''dec.embedding.weight''"

definition is_conv_or_table :: "string \<Rightarrow> bool" where
  "is_conv_or_table name \<longleftrightarrow>
     take 4 name = ''sub.'' \<and> name \<noteq> ''sub.linear.weight'' \<or> strstr name ''conv.dw.weight'' \<or> name = ''enc.pos''"

definition is_additive_bias :: "string \<Rightarrow> bool" where
  "is_additive_bias name \<longleftrightarrow> strstr name ''attn.bias_''"

definition should_quantize :: "string \<Rightarrow> nat \<Rightarrow> bool" where
  "should_quantize name n_dims \<longleftrightarrow> 2 \<le> n_dims \<and> \<not> is_conv_or_table name \<and> \<not> is_additive_bias name"

definition bumped :: "string \<Rightarrow> QuantVariant \<Rightarrow> int \<Rightarrow> bool" where
  "bumped name v ql =
     (let layer = extract_layer name in
      if qv_bump_mode v = 1 then 0 \<le> layer \<and> layer < qv_bump_n v
      else if qv_bump_mode v = 2 then
        0 \<le> layer \<and> (layer < ql div 9 \<or> ql - ql div 7 \<le> layer \<or> layer mod 3 = 0)
      else qv_bump_mode v = 3)"

definition pick_type :: "string \<Rightarrow> nat \<Rightarrow> QuantVariant \<Rightarrow> int \<Rightarrow> ggml_type option" where
  "pick_type name n_dims v n_layers =
     (if \<not> should_quantize name n_dims then None
      else if is_embed name then Some (case qv_embed v of Some t \<Rightarrow> t | None \<Rightarrow> qv_base v)
      else
        let important = (if qv_bump_mode v = 3 then is_important_l name else is_important_sm name)
        in case qv_bump v of
             Some t \<Rightarrow> if important \<and> bumped name v n_layers then Some t else Some (qv_base v)
           | None \<Rightarrow> Some (qv_base v))"

section \<open>The plan\<close>

definition can_convert :: "ggml_type \<Rightarrow> bool" where
  "can_convert t \<longleftrightarrow> t \<in> {GGML_TYPE_BF16, GGML_TYPE_F16, GGML_TYPE_F32}"

text \<open>The type a tensor is rewritten in, or none: it is copied.\<close>

definition tensor_plan :: "ggml \<Rightarrow> QuantVariant \<Rightarrow> int \<Rightarrow> gguf_tensor \<Rightarrow> ggml_type option" where
  "tensor_plan L v n_layers t =
     (case pick_type (gt_name t) (gg_n_dims L t) v n_layers of
        None \<Rightarrow> None
      | Some target \<Rightarrow>
          let aligned = (hd (gt_ne t) mod gg_blck_size L target = 0);
              target' = (if can_convert (gt_type t) \<and> \<not> aligned then GGML_TYPE_F16 else target)
          in if can_convert (gt_type t) then Some target' else None)"

section \<open>The data\<close>

text \<open>What is written for a tensor, \<^const>\<open>None\<close> when its data is not in the file.\<close>

definition tensor_data :: "ggml \<Rightarrow> GGUFModel \<Rightarrow> gguf_tensor \<times> ggml_type option \<Rightarrow> 8 word list option" where
  "tensor_data L gf = (\<lambda>(t, plan).
     map_option (\<lambda>src.
         (case plan of
            None \<Rightarrow> src
          | Some target \<Rightarrow>
              let n_per_row = hd (gt_ne t); nrows = gg_nelements L t div n_per_row;
                  qsize = gg_row_size L target n_per_row * nrows
              in take qsize (gg_quantize L target (gg_to_f32 L (gt_type t) src) nrows n_per_row @ replicate qsize 0)))
       (mapped gf (gh_data_offset (gf_header gf) + gt_offset t) (gg_nbytes L t)))"

definition padding :: "nat \<Rightarrow> nat \<Rightarrow> nat" where
  "padding alignment data_pos = (alignment - data_pos mod alignment) mod alignment"

text \<open>The loop over the tensors; \<open>out\<close> is the data written so far, its length the position.\<close>

fun write_tensors :: "nat \<Rightarrow> 8 word list \<Rightarrow> 8 word list list \<Rightarrow> 8 word list option" where
  "write_tensors alignment out [] = Some out"
| "write_tensors alignment out (d # ds) =
     (let pad = padding alignment (length out)
      in if 64 < pad then None else write_tensors alignment (out @ replicate pad 0 @ d) ds)"

section \<open>The run\<close>

text \<open>The world of a run: the files and their headers, the two values of a header the tool reads (the alignment is that of
  the file it writes), the metadata for a file with these types, and whether it can be written.\<close>

record qt_world =
  qw_lib :: ggml
  qw_file :: "string \<Rightarrow> 8 word list option"
  qw_parse :: "8 word list \<Rightarrow> gguf_header option"
  qw_n_layers :: "8 word list \<Rightarrow> int"
  qw_alignment :: "8 word list \<Rightarrow> nat"
  qw_metadata :: "8 word list \<Rightarrow> string \<Rightarrow> (gguf_tensor \<times> ggml_type option) list \<Rightarrow> 8 word list"
  qw_writable :: "string \<Rightarrow> bool"

text \<open>The status of the process, and the file written.\<close>

definition quantize_main :: "qt_world \<Rightarrow> string list \<Rightarrow> (int \<times> (string \<times> 8 word list) option) option" where
  "quantize_main W args =
     (case args of
        [inp_path, out_path, type] \<Rightarrow>
          (case (find_variant type, qw_file W inp_path) of
             (Some v, Some mapping) \<Rightarrow>
               (case qw_parse W mapping of
                  None \<Rightarrow> Some (1, None)
                | Some header \<Rightarrow>
                    let gf = \<lparr>gf_header = header, gf_mapping = mapping\<rparr>;
                        plans = map (\<lambda>t. (t, tensor_plan (qw_lib W) v (qw_n_layers W mapping) t)) (gh_tensors header);
                        meta = qw_metadata W mapping (qv_name v) plans
                    in if \<not> qw_writable W out_path then Some (1, None)
                       else map_option (\<lambda>out. (0, Some (out_path, meta @ out)))
                              (Option.bind (those (map (tensor_data (qw_lib W) gf) plans)) (write_tensors (qw_alignment W mapping) [])))
           | _ \<Rightarrow> Some (1, None))
      | _ \<Rightarrow> Some (1, None))"


section \<open>Where the data is\<close>

text \<open>The places a header gives its tensors, from their sizes: each at the next multiple of the alignment, as the
  library pads them.\<close>

fun laid_at :: "nat \<Rightarrow> nat \<Rightarrow> nat list \<Rightarrow> nat list" where
  "laid_at alignment pos [] = []"
| "laid_at alignment pos (n # ns) =
     (let here = (pos + alignment - 1) div alignment * alignment in here # laid_at alignment (here + n) ns)"

lemma padding_pads: "0 < a \<Longrightarrow> pos + padding a pos = (pos + a - 1) div a * a"
proof -
  assume a: "0 < a"
  define q r where "q = pos div a" and "r = pos mod a"
  have pos: "pos = q * a + r" "r < a" using a by (simp_all add: q_def r_def)
  show ?thesis
  proof (cases "r = 0")
    case True
    then have "(pos + a - 1) div a = q" using True a pos by (intro div_nat_eqI) (simp_all add: mult.commute)
    then show ?thesis using True pos a by (simp add: padding_def r_def [symmetric])
  next
    case False
    then have "(pos + a - 1) div a = q + 1" using False a pos by (intro div_nat_eqI) (simp_all add: algebra_simps)
    then show ?thesis using False pos a by (simp add: padding_def r_def [symmetric] algebra_simps)
  qed
qed

lemma padding_less: "0 < a \<Longrightarrow> padding a pos < a"
  by (simp add: padding_def)

lemma write_tensors_lays:
  "0 < a \<Longrightarrow> a \<le> 64 \<Longrightarrow>
   \<exists>out'. write_tensors a out ds = Some out' \<and> prefix out out' \<and>
     list_all (\<lambda>(p, d). p mod a = 0 \<and> take (length d) (drop p out') = d) (zip (laid_at a (length out) (map length ds)) ds)"
proof (induction ds arbitrary: out)
  case (Cons d ds)
  define pad where "pad = padding a (length out)"
  define out1 where "out1 = out @ replicate pad 0 @ d"
  have pad: "\<not> 64 < pad" using padding_less [of a "length out"] Cons.prems by (simp add: pad_def)
  have here: "length out + pad = (length out + a - 1) div a * a" using padding_pads Cons.prems(1) by (simp add: pad_def)
  obtain out' where out': "write_tensors a out1 ds = Some out'" "prefix out1 out'"
    and rest: "list_all (\<lambda>(p, d). p mod a = 0 \<and> take (length d) (drop p out') = d) (zip (laid_at a (length out1) (map length ds)) ds)"
    using Cons.IH [OF Cons.prems, of out1] by blast
  obtain tail where m: "out' = out1 @ tail" using out'(2) by (auto simp: prefix_def)
  have "take (length d) (drop (length out + pad) out') = d" by (simp add: m out1_def)
  moreover have "(length out + pad) mod a = 0" by (simp add: here)
  moreover have "laid_at a (length out) (map length (d # ds)) = (length out + pad) # laid_at a (length out1) (map length ds)"
    by (simp only: laid_at.simps list.map Let_def here [symmetric]) (simp add: out1_def add.assoc)
  moreover have "prefix out out'" by (simp add: m out1_def)
  moreover have "write_tensors a out (d # ds) = Some out'" using pad out'(1) by (simp add: Let_def pad_def out1_def)
  ultimately show ?case using rest by (simp del: laid_at.simps write_tensors.simps)
qed simp

text \<open>The size the header gives a tensor of the new file.\<close>

definition planned_size :: "ggml \<Rightarrow> gguf_tensor \<times> ggml_type option \<Rightarrow> nat" where
  "planned_size L = (\<lambda>(t, plan). case plan of
     None \<Rightarrow> gg_nbytes L t
   | Some target \<Rightarrow> gg_row_size L target (hd (gt_ne t)) * (gg_nelements L t div hd (gt_ne t)))"

definition plans_of :: "qt_world \<Rightarrow> QuantVariant \<Rightarrow> 8 word list \<Rightarrow> gguf_header \<Rightarrow> (gguf_tensor \<times> ggml_type option) list" where
  "plans_of W v mapping header =
     map (\<lambda>t. (t, tensor_plan (qw_lib W) v (qw_n_layers W mapping) t)) (gh_tensors header)"

lemma tensor_data_size: "tensor_data L gf item = Some d \<Longrightarrow> length d = planned_size L item"
proof -
  assume a: "tensor_data L gf item = Some d"
  obtain t plan where item: "item = (t, plan)" by force
  define place where "place = gh_data_offset (gf_header gf) + gt_offset t"
  obtain src where src: "mapped gf place (gg_nbytes L t) = Some src"
    using a by (auto simp: tensor_data_def item place_def)
  then have "length src = gg_nbytes L t" by (auto simp: mapped_def split: if_splits)
  then show ?thesis using a src
    by (cases plan) (auto simp: tensor_data_def item place_def [symmetric] planned_size_def Let_def)
qed

lemma those_map_in: "list_all (\<lambda>x. f x \<noteq> None) xs \<Longrightarrow> \<exists>ys. those (map f xs) = Some ys \<and> map f xs = map Some ys"
  by (induction xs) auto

lemma whole_blocks:
  "gg_blck_size L GGML_TYPE_F16 = 1 \<Longrightarrow>
   (case tensor_plan L v n_layers t of None \<Rightarrow> True | Some target \<Rightarrow> hd (gt_ne t) mod gg_blck_size L target = 0)"
  by (auto simp: tensor_plan_def Let_def split: option.split)

text \<open>C40: The rewritten data is where the header says. On a file that holds all its data, with an alignment of at most 64,
  the tool succeeds: after the metadata comes the data of every tensor in order, each whole, of the size the header
  gives its new type and at the place the library pads it to, which is where a reader of the file looks; and a tensor
  it converts has rows that are whole blocks of its new type, half precision having blocks of one.\<close>

theorem quantized_data_is_where_the_header_says:
  assumes "find_variant type = Some v" "qw_file W inp_path = Some mapping" "qw_parse W mapping = Some header"
    and "list_all (\<lambda>t. gh_data_offset header + gt_offset t + gg_nbytes (qw_lib W) t \<le> length mapping) (gh_tensors header)"
    and "0 < qw_alignment W mapping" "qw_alignment W mapping \<le> 64" "qw_writable W out_path"
    and "gg_blck_size (qw_lib W) GGML_TYPE_F16 = 1"
  shows "\<exists>data. quantize_main W [inp_path, out_path, type] =
      Some (0, Some (out_path, qw_metadata W mapping (qv_name v) (plans_of W v mapping header) @ data)) \<and>
    list_all (\<lambda>(p, item). p mod qw_alignment W mapping = 0 \<and>
        Some (take (planned_size (qw_lib W) item) (drop p data)) =
          tensor_data (qw_lib W) \<lparr>gf_header = header, gf_mapping = mapping\<rparr> item \<and>
        (case snd item of None \<Rightarrow> True | Some target \<Rightarrow> hd (gt_ne (fst item)) mod gg_blck_size (qw_lib W) target = 0))
      (zip (laid_at (qw_alignment W mapping) 0 (map (planned_size (qw_lib W)) (plans_of W v mapping header)))
        (plans_of W v mapping header))"
proof -
  define L plans where "L = qw_lib W" and "plans = plans_of W v mapping header"
  define gf where "gf = \<lparr>gf_header = header, gf_mapping = mapping\<rparr>"
  have "list_all (\<lambda>item. tensor_data L gf item \<noteq> None) plans"
    using assms(4) by (auto simp: list_all_iff plans_def plans_of_def tensor_data_def mapped_def gf_def L_def)
  then obtain ds where ds: "those (map (tensor_data L gf) plans) = Some ds" "map (tensor_data L gf) plans = map Some ds"
    using those_map_in by blast
  have same: "tensor_data L gf (plans ! i) = Some (ds ! i)" "length (ds ! i) = planned_size L (plans ! i)"
    if "i < length plans" for i
  proof -
    have "i < length ds" using that ds(2) by (metis length_map)
    then show "tensor_data L gf (plans ! i) = Some (ds ! i)" using that ds(2) by (metis nth_map)
    then show "length (ds ! i) = planned_size L (plans ! i)" by (rule tensor_data_size)
  qed
  have len: "length ds = length plans" using ds(2) by (metis length_map)
  have sizes: "map length ds = map (planned_size L) plans"
    by (rule nth_equalityI) (simp_all add: len same(2))
  obtain data where out: "write_tensors (qw_alignment W mapping) [] ds = Some data"
    and laid: "list_all (\<lambda>(p, d). p mod qw_alignment W mapping = 0 \<and> take (length d) (drop p data) = d)
      (zip (laid_at (qw_alignment W mapping) 0 (map (planned_size L) plans)) ds)"
    using write_tensors_lays [OF assms(5,6), of "[]" ds] sizes by auto
  have main: "quantize_main W [inp_path, out_path, type] =
      Some (0, Some (out_path, qw_metadata W mapping (qv_name v) plans @ data))"
    using assms(1-3,7) ds(1) out by (simp add: quantize_main_def Let_def plans_def plans_of_def L_def gf_def)
  have blocks: "case snd (plans ! i) of None \<Rightarrow> True | Some target \<Rightarrow> hd (gt_ne (fst (plans ! i))) mod gg_blck_size L target = 0"
    if i: "i < length plans" for i
  proof -
    define t where "t = gh_tensors header ! i"
    have e: "plans ! i = (t, tensor_plan L v (qw_n_layers W mapping) t)"
      using i by (simp add: plans_def plans_of_def L_def t_def)
    show ?thesis unfolding e fst_conv snd_conv by (rule whole_blocks) (use assms(8) in \<open>simp add: L_def\<close>)
  qed
  have "list_all (\<lambda>(p, item). p mod qw_alignment W mapping = 0 \<and> Some (take (planned_size L item) (drop p data)) = tensor_data L gf item \<and>
      (case snd item of None \<Rightarrow> True | Some target \<Rightarrow> hd (gt_ne (fst item)) mod gg_blck_size L target = 0))
    (zip (laid_at (qw_alignment W mapping) 0 (map (planned_size L) plans)) plans)"
    using laid same blocks len unfolding list_all_length by auto
  with main show ?thesis unfolding L_def plans_def gf_def by blast
qed

definition toy_world :: qt_world where
  "toy_world = \<lparr>qw_lib = toy_ggml\<lparr>gg_quantize := (\<lambda>_ _ _ _. [5, 6])\<rparr>, qw_file = (\<lambda>_. Some [0, 1, 2, 3, 4, 5]),
     qw_parse = (\<lambda>_. Some (toy_header\<lparr>gh_tensors := [\<lparr>gt_name = ''a'', gt_type = GGML_TYPE_F16, gt_ne = [2, 1], gt_offset = 1\<rparr>]\<rparr>)),
     qw_n_layers = (\<lambda>_. 1), qw_alignment = (\<lambda>_. 32), qw_metadata = (\<lambda>_ _ _. [7]), qw_writable = (\<lambda>_. True)\<rparr>"

theorem quantized_data_is_where_the_header_says_witness:
  "\<exists>data. quantize_main toy_world [''i'', ''o'', ''q8_0''] = Some (0, Some (''o'', 7 # data)) \<and> take 2 data = [5, 6]"
proof -
  define header where "header = toy_header\<lparr>gh_tensors := [\<lparr>gt_name = ''a'', gt_type = GGML_TYPE_F16, gt_ne = [2, 1], gt_offset = 1\<rparr>]\<rparr>"
  define v where "v = variant ''Q8_0'' GGML_TYPE_Q8_0 None GGML_TYPE_Q8_0 0 0"
  have v: "find_variant ''q8_0'' = Some v" unfolding v_def by code_simp
  have w: "qw_file toy_world ''i'' = Some [0, 1, 2, 3, 4, 5]" "qw_parse toy_world [0, 1, 2, 3, 4, 5] = Some header"
    "qw_alignment toy_world mapping = 32" "qw_writable toy_world ''o''" "qw_metadata toy_world mapping name plans = [7]"
    "qw_n_layers toy_world mapping = 1" for mapping name plans
    by (simp_all add: toy_world_def header_def)
  have pick: "pick_type ''a'' (Suc (Suc 0)) v 1 = Some GGML_TYPE_Q8_0" unfolding v_def by code_simp
  have plans: "plans_of toy_world v [0, 1, 2, 3, 4, 5] header =
      [(\<lparr>gt_name = ''a'', gt_type = GGML_TYPE_F16, gt_ne = [2, 1], gt_offset = 1\<rparr>, Some GGML_TYPE_Q8_0)]"
    using pick by (simp add: plans_of_def header_def w(6) tensor_plan_def toy_world_def toy_ggml_def can_convert_def)
  obtain data where
    "quantize_main toy_world [''i'', ''o'', ''q8_0''] = Some (0, Some (''o'', 7 # data))" and
    "Some (take 2 data) = tensor_data (qw_lib toy_world) \<lparr>gf_header = header, gf_mapping = [0, 1, 2, 3, 4, 5]\<rparr>
       (\<lparr>gt_name = ''a'', gt_type = GGML_TYPE_F16, gt_ne = [2, 1], gt_offset = 1\<rparr>, Some GGML_TYPE_Q8_0)"
    using quantized_data_is_where_the_header_says [OF v w(1,2), of "''o''"] w plans
    by (auto simp: planned_size_def toy_world_def toy_ggml_def header_def toy_header_def)
  then show ?thesis
    by (auto simp: tensor_data_def toy_world_def toy_ggml_def header_def toy_header_def mapped_def)
qed

text \<open>A wider alignment reads past the zeros.\<close>

lemma wide_alignment_overreads: "write_tensors 128 [] [[0], [0]] = None"
  by (simp add: padding_def)

section \<open>What the recognizer converts is left alone\<close>

lemma strstr_iff: "strstr name pat \<longleftrightarrow> sublist pat name"
  using find_sub_None_iff [of pat name] by (auto simp: strstr_def)

lemma strstr_append: "strstr s pat \<Longrightarrow> strstr (p @ s) pat"
  unfolding strstr_iff sublist_def by (metis append_assoc)

text \<open>The norms and the biases, which have one dimension.\<close>

definition norm_or_bias :: "string \<Rightarrow> bool" where
  "norm_or_bias name \<longleftrightarrow> strstr name ''norm_'' \<or> suffix ''.bias'' name \<or> suffix ''.b'' name"

definition spared :: "nat \<Rightarrow> QuantVariant \<Rightarrow> int \<Rightarrow> string \<times> bool \<Rightarrow> bool" where
  "spared n_dims v ql = (\<lambda>(name, f32).
     if f32 then (if norm_or_bias name \<and> 2 \<le> n_dims then True else pick_type name n_dims v ql = None) else True)"

lemma spared_cases:
  "norm_or_bias name \<Longrightarrow> spared n_dims v ql (name, f32)" "is_conv_or_table name \<Longrightarrow> spared n_dims v ql (name, f32)"
  "is_additive_bias name \<Longrightarrow> spared n_dims v ql (name, f32)" "spared n_dims v ql (name, False)"
  by (auto simp: spared_def pick_type_def should_quantize_def)

text \<open>What ends a name decides, whatever comes before it.\<close>

definition kept_tail :: "string \<times> bool \<Rightarrow> bool" where
  "kept_tail = (\<lambda>(s, f32). \<not> f32 \<or> norm_or_bias s \<or> strstr s ''conv.dw.weight'' \<or> strstr s ''attn.bias_'')"

lemma kept_tail_spared: "kept_tail (s, f32) \<Longrightarrow> spared n_dims v ql (p @ s, f32)"
proof -
  assume "kept_tail (s, f32)"
  then consider "\<not> f32" | "norm_or_bias s" | "strstr s ''conv.dw.weight''" | "strstr s ''attn.bias_''"
    by (auto simp: kept_tail_def)
  then show ?thesis
  proof cases
    case 2
    then have "norm_or_bias (p @ s)" unfolding norm_or_bias_def by (metis strstr_append suffix_appendI)
    then show ?thesis by (rule spared_cases)
  next
    case 3
    then show ?thesis by (intro spared_cases(2)) (simp add: is_conv_or_table_def strstr_append)
  next
    case 4
    then show ?thesis by (intro spared_cases(3)) (simp add: is_additive_bias_def strstr_append)
  qed (simp add: spared_cases)
qed

lemma kept_tails_spared: "list_all kept_tail items \<Longrightarrow> list_all (spared n_dims v ql) (map (\<lambda>(s, f32). (p @ s, f32)) items)"
  by (auto simp: list_all_iff intro: kept_tail_spared)

lemma block_spared: "list_all (spared n_dims v ql) (parakeet_block_weights i)"
proof -
  have "parakeet_block_weights i = map (\<lambda>(s, f32). ((''enc.'' @ nat_str i @ ''.'') @ s, f32))
       [as_f32 ''norm_ff1.weight'', as_f32 ''norm_ff1.bias'', as_stored ''ff1.linear1.weight'', as_stored ''ff1.linear2.weight'',
        as_f32 ''norm_attn.weight'', as_f32 ''norm_attn.bias'', as_stored ''attn.q.weight'', as_stored ''attn.k.weight'',
        as_stored ''attn.v.weight'', as_stored ''attn.o.weight'', as_stored ''attn.rel_k.weight'', as_f32 ''attn.bias_u'',
        as_f32 ''attn.bias_v'', as_f32 ''norm_conv.weight'', as_f32 ''norm_conv.bias'', as_stored ''conv.pw1.weight'',
        as_f32 ''conv.dw.weight'', as_f32 ''conv.dw.bias'', as_stored ''conv.pw2.weight'', as_f32 ''norm_ff2.weight'',
        as_f32 ''norm_ff2.bias'', as_stored ''ff2.linear1.weight'', as_stored ''ff2.linear2.weight'',
        as_f32 ''norm_out.weight'', as_f32 ''norm_out.bias'']"
    by (simp add: parakeet_block_weights_def)
  also have "list_all (spared n_dims v ql) \<dots>"
    by (rule kept_tails_spared) code_simp
  finally show ?thesis .
qed

lemma nat_str_head: "is_digit (hd (nat_str n))"
proof (induction n rule: nat_str.induct)
  case (1 n)
  have "is_digit (CHR ''0'')" by code_simp
  then show ?case using 1 by (subst nat_str.simps) (auto simp: is_digit_def)
qed

lemma sub_spared: "s \<noteq> ''linear.weight'' \<Longrightarrow> spared n_dims v ql (''sub.'' @ s, f32)"
  by (rule spared_cases(2)) (simp add: is_conv_or_table_def)

text \<open>C39: The quantizer leaves alone what the recognizer converts. Every weight the recognizer loads as single precision,
  which its convolutions and additions have no quantized kernel for, keeps the type it has in the file under every
  variant: the kernels and the attention's biases whatever their shape, the norms and the other biases as long as
  they have one dimension.\<close>

theorem quantizer_spares_what_is_converted:
  "list_all (\<lambda>(name, f32). if f32 then (if norm_or_bias name \<and> 2 \<le> n_dims then True else pick_type name n_dims v n_layers = None) else True)
     (parakeet_load_encoder n_blocks @ parakeet_load_decoder n_lstm)"
proof -
  have sub: "list_all (spared n_dims v n_layers) (map as_f32 [''sub.0.weight'', ''sub.0.bias''])"
    "list_all (spared n_dims v n_layers) (map (\<lambda>s. as_f32 (''sub.'' @ nat_str (i + 1) @ ''.'' @ s))
       [''dw.weight'', ''dw.bias'', ''pw.weight'', ''pw.bias''])" for i
  proof -
    show "list_all (spared n_dims v n_layers) (map as_f32 [''sub.0.weight'', ''sub.0.bias''])"
      using sub_spared [of "''0.weight''"] sub_spared [of "''0.bias''"] by (simp add: as_f32_def)
    have "nat_str k @ ''.'' @ s \<noteq> ''linear.weight''" for k s
      using nat_str_head [of k] by (cases "nat_str k") (auto simp: is_digit_def)
    then show "list_all (spared n_dims v n_layers) (map (\<lambda>s. as_f32 (''sub.'' @ nat_str (i + 1) @ ''.'' @ s))
       [''dw.weight'', ''dw.bias'', ''pw.weight'', ''pw.bias''])" for i
      unfolding list.map list.pred_inject as_f32_def by (intro conjI list.pred_inject(1) sub_spared) blast+
  qed
  have tails: "list_all (spared n_dims v n_layers) [as_stored ''sub.linear.weight'', as_f32 ''sub.linear.bias'']"
    "list_all (spared n_dims v n_layers) [as_stored ''enc.proj.weight'', as_f32 ''enc.proj.bias'']"
    "list_all (spared n_dims v n_layers) [as_stored ''dec.proj.weight'', as_f32 ''dec.proj.bias'', as_stored ''joint.weight'', as_f32 ''joint.bias'']"
  proof -
    have k: "spared n_dims v n_layers (s, True)" if "norm_or_bias s" for s using that by (rule spared_cases)
    have b: "norm_or_bias ''sub.linear.bias''" "norm_or_bias ''enc.proj.bias''" "norm_or_bias ''dec.proj.bias''"
      "norm_or_bias ''joint.bias''" by (simp_all add: norm_or_bias_def suffix_def)
    show "list_all (spared n_dims v n_layers) [as_stored ''sub.linear.weight'', as_f32 ''sub.linear.bias'']"
      "list_all (spared n_dims v n_layers) [as_stored ''enc.proj.weight'', as_f32 ''enc.proj.bias'']"
      "list_all (spared n_dims v n_layers) [as_stored ''dec.proj.weight'', as_f32 ''dec.proj.bias'', as_stored ''joint.weight'', as_f32 ''joint.bias'']"
      using k b by (simp_all add: as_f32_def as_stored_def spared_cases(4))
  qed
  have lstm: "list_all (spared n_dims v n_layers) [as_stored (''dec.lstm.'' @ nat_str i @ ''.w''), as_stored (''dec.lstm.'' @ nat_str i @ ''.r''),
         as_f32 (''dec.lstm.'' @ nat_str i @ ''.b'')]" for i
    using kept_tail_spared [of "''.b''" True n_dims v n_layers "''dec.lstm.'' @ nat_str i"]
    by (simp add: as_f32_def as_stored_def spared_cases kept_tail_def norm_or_bias_def)
  have "list_all (spared n_dims v n_layers) (parakeet_load_encoder n_blocks @ parakeet_load_decoder n_lstm)"
    using sub tails lstm block_spared
    by (simp only: parakeet_load_encoder_def parakeet_load_decoder_def list_all_append list.pred_inject)
      (simp add: list_all_iff as_stored_def spared_cases)
  then show ?thesis unfolding spared_def .
qed

end
