(* ===== verification/Mel.thy ===== *)
theory Mel
  imports Jarvis
begin

text \<open>
  The constants of the spectrogram front end, \<open>src/audio-mel.h\<close>: the Hann window, the matrices of the transform and
  the Slaney filterbank, every operation rounded in its type, and the tensors of a device that the turn classifier
  and the recognizer fill with them. A write outside a vector is \<^const>\<open>None\<close>.
\<close>

section \<open>The mel scale\<close>

record mel_libm = libm +
  lm_logf :: "f32 \<Rightarrow> f32"
  lm_expf :: "f32 \<Rightarrow> f32"

record AudioMelConfig =
  mc_sample_rate :: int
  mc_n_fft :: nat
  mc_win_length :: int
  mc_hop :: nat
  mc_n_mels :: nat
  mc_fmin :: f32
  mc_fmax :: f32
  mc_periodic :: bool

definition mel_config_new :: AudioMelConfig where
  "mel_config_new = \<lparr>mc_sample_rate = 16000, mc_n_fft = 400, mc_win_length = 400, mc_hop = 160, mc_n_mels = 80,
     mc_fmin = 0, mc_fmax = 8000, mc_periodic = True\<rparr>"

text \<open>The bend of the scale: its slope below 1000 Hz, the mel of 1000 Hz, and the step above.\<close>

definition mel_f_sp :: f32 where "mel_f_sp = f_div 200 3"
definition mel_min_log :: f32 where "mel_min_log = f_div 1000 mel_f_sp"
definition mel_logstep :: "mel_libm \<Rightarrow> f32" where "mel_logstep lm = f_div (lm_logf lm (to_f32 6.4)) 27"

definition audio_mel_hz_to_mel :: "mel_libm \<Rightarrow> f32 \<Rightarrow> f32" where
  "audio_mel_hz_to_mel lm hz =
     (if hz < 1000 then f_div hz mel_f_sp
      else f_add mel_min_log (f_div (lm_logf lm (f_div hz 1000)) (mel_logstep lm)))"

definition audio_mel_mel_to_hz :: "mel_libm \<Rightarrow> f32 \<Rightarrow> f32" where
  "audio_mel_mel_to_hz lm mel =
     (if mel < mel_min_log then f_mul mel_f_sp mel
      else f_mul 1000 (lm_expf lm (f_mul (mel_logstep lm) (f_sub mel mel_min_log))))"

section \<open>The constants\<close>

record AudioMelConstants =
  mk_n_freq :: nat
  mk_hann :: "f32 list"
  mk_dft_real :: "f32 list"
  mk_dft_imag :: "f32 list"
  mk_mel_basis :: "f32 list"

text \<open>The window, centered in the frame: a window longer than its frame is written outside.\<close>

definition mel_win :: "AudioMelConfig \<Rightarrow> nat" where
  "mel_win cfg = (if 0 < mc_win_length cfg then nat (mc_win_length cfg) else mc_n_fft cfg)"

definition mel_hann :: "mel_libm \<Rightarrow> AudioMelConfig \<Rightarrow> f32 list option" where
  "mel_hann lm cfg =
     (let win = mel_win cfg; offset = (mc_n_fft cfg - win) div 2;
          denom = (if mc_periodic cfg then to_f64 (of_nat win) else to_f64 (of_int (int win - 1)))
      in if mc_n_fft cfg < win then None
         else Some (foldl (\<lambda>hann i. hann[offset + i := f_mul (1 / 2) (f_sub 1 (to_f32 (lm_cos lm
                (d_div (d_mul (d_mul 2 M_PI) (to_f64 (of_nat i))) denom))))])
              (replicate (mc_n_fft cfg) 0) [0..<win]))"

definition dft_angle :: "AudioMelConfig \<Rightarrow> nat \<Rightarrow> nat \<Rightarrow> f64" where
  "dft_angle cfg k n =
     d_div (d_mul (d_mul (d_mul 2 M_PI) (to_f64 (of_nat k))) (to_f64 (of_nat n))) (to_f64 (of_nat (mc_n_fft cfg)))"

definition dft_matrix :: "AudioMelConfig \<Rightarrow> (f64 \<Rightarrow> f32) \<Rightarrow> f32 list" where
  "dft_matrix cfg f =
     concat (map (\<lambda>k. map (\<lambda>n. f (dft_angle cfg k n)) [0..<mc_n_fft cfg]) [0..<mc_n_fft cfg div 2 + 1])"

text \<open>The edges of the bands and the frequencies of the bins.\<close>

definition mel_points :: "mel_libm \<Rightarrow> AudioMelConfig \<Rightarrow> f32 list" where
  "mel_points lm cfg =
     (let fmax = (if mc_fmax cfg \<le> 0 then f_mul (to_f32 (of_int (mc_sample_rate cfg))) (1 / 2) else mc_fmax cfg);
          mmin = audio_mel_hz_to_mel lm (mc_fmin cfg); mmax = audio_mel_hz_to_mel lm fmax
      in map (\<lambda>i. audio_mel_mel_to_hz lm (f_add mmin
                (f_div (f_mul (f_sub mmax mmin) (to_f32 (of_nat i))) (to_f32 (of_nat (mc_n_mels cfg + 1))))))
           [0..<mc_n_mels cfg + 2])"

definition fft_freq :: "AudioMelConfig \<Rightarrow> nat \<Rightarrow> f32" where
  "fft_freq cfg k =
     f_div (f_mul (to_f32 (of_nat k)) (to_f32 (of_int (mc_sample_rate cfg)))) (to_f32 (of_nat (mc_n_fft cfg)))"

definition mel_weight :: "f32 \<Rightarrow> f32 \<Rightarrow> f32 \<Rightarrow> f32 \<Rightarrow> f32" where
  "mel_weight lo md hi f =
     (let enorm = f_div 2 (f_sub hi lo);
          up = f_div (f_sub f lo) (f_sub md lo); down = f_div (f_sub hi f) (f_sub hi md);
          w = min up down
      in f_mul (if w < 0 then 0 else w) enorm)"

definition mel_basis :: "mel_libm \<Rightarrow> AudioMelConfig \<Rightarrow> f32 list" where
  "mel_basis lm cfg =
     (let hz_pts = mel_points lm cfg in
      concat (map (\<lambda>m. map (\<lambda>k. mel_weight (hz_pts ! m) (hz_pts ! (m + 1)) (hz_pts ! (m + 2)) (fft_freq cfg k))
          [0..<mc_n_fft cfg div 2 + 1]) [0..<mc_n_mels cfg]))"

definition audio_mel_compute_constants :: "mel_libm \<Rightarrow> AudioMelConfig \<Rightarrow> AudioMelConstants option" where
  "audio_mel_compute_constants lm cfg =
     map_option (\<lambda>hann.
         \<lparr>mk_n_freq = mc_n_fft cfg div 2 + 1, mk_hann = hann,
          mk_dft_real = dft_matrix cfg (\<lambda>th. to_f32 (lm_cos lm th)),
          mk_dft_imag = dft_matrix cfg (\<lambda>th. to_f32 (- lm_sin lm th)), mk_mel_basis = mel_basis lm cfg\<rparr>)
       (mel_hann lm cfg)"

section \<open>On the device\<close>

text \<open>A tensor of the device: its name, its elements, and what is copied into it.\<close>

type_synonym const_tensor = "string \<times> nat \<times> f32 list"

definition st_load_mel_constants :: "AudioMelConfig \<Rightarrow> AudioMelConstants \<Rightarrow> const_tensor list" where
  "st_load_mel_constants cfg c =
     (let n_fft = mc_n_fft cfg; n_freq = mk_n_freq c; n_mels = mc_n_mels cfg in
      [(''hann'', n_fft, mk_hann c), (''dft_real'', n_fft * n_freq, mk_dft_real c),
       (''dft_imag'', n_fft * n_freq, mk_dft_imag c), (''mel_basis'', n_freq * n_mels, mk_mel_basis c)])"

definition PARAKEET_LOG_GUARD :: f32 where "PARAKEET_LOG_GUARD = to_f32 (5.9604644775390625 / 10 ^ 8)"

definition pipeline_asr_load_constants :: "AudioMelConfig \<Rightarrow> AudioMelConstants \<Rightarrow> const_tensor list" where
  "pipeline_asr_load_constants cfg c =
     (let n_fft = mc_n_fft cfg; n_freq = mk_n_freq c in
      [(''hann'', n_fft, mk_hann c), (''dft_real'', n_fft * n_freq, mk_dft_real c),
       (''dft_imag'', n_fft * n_freq, mk_dft_imag c), (''mel_basis'', n_freq * mc_n_mels cfg, mk_mel_basis c),
       (''log_guard'', 1, [PARAKEET_LOG_GUARD])])"

section \<open>The constants fill their tensors\<close>

lemma length_write: "length (foldl (\<lambda>h i. h[off + i := g i]) h xs) = length h"
  by (induction xs arbitrary: h) simp_all

lemma sum_const: "sum_list (map (\<lambda>_. k) [0..<n]) = k * (n :: nat)"
  by (simp add: sum_list_triv)

lemma length_dft: "length (dft_matrix cfg f) = mc_n_fft cfg * (mc_n_fft cfg div 2 + 1)"
  by (simp add: dft_matrix_def length_concat comp_def sum_const)

lemma length_basis: "length (mel_basis lm cfg) = (mc_n_fft cfg div 2 + 1) * mc_n_mels cfg"
  by (simp add: mel_basis_def Let_def length_concat comp_def sum_const)

text \<open>A window that fits gives constants that fill their tensors to the last element, no more.\<close>

lemma constants_fill_their_tensors:
  "case audio_mel_compute_constants lm cfg of
     None \<Rightarrow> mc_n_fft cfg < mel_win cfg
   | Some c \<Rightarrow> mel_win cfg \<le> mc_n_fft cfg \<and>
       list_all (\<lambda>(name, n, data). length data = n) (st_load_mel_constants cfg c @ pipeline_asr_load_constants cfg c)"
  by (simp add: audio_mel_compute_constants_def mel_hann_def Let_def length_write length_dft length_basis
      st_load_mel_constants_def pipeline_asr_load_constants_def)

text \<open>A window shorter than its frame stands between zeros, centered as a reader of the transform expects.\<close>

lemma write_run:
  "n + length g \<le> length h \<Longrightarrow>
   foldl (\<lambda>h i. h[n + i := g ! i]) h [0..<k] = take n h @ take k g @ drop (n + k) h" if "k \<le> length g"
  using that
proof (induction k)
  case (Suc k)
  have "take (Suc k) g = take k g @ [g ! k]" using Suc.prems by (simp add: take_Suc_conv_app_nth)
  moreover have "drop (n + k) h = h ! (n + k) # drop (n + Suc k) h" using Suc.prems by (simp add: Cons_nth_drop_Suc)
  ultimately show ?case using Suc by (simp add: list_update_append)
qed simp

lemma window_is_centered:
  "case mel_hann lm cfg of
     None \<Rightarrow> True
   | Some hann \<Rightarrow>
       (let margin = (mc_n_fft cfg - mel_win cfg) div 2 in
        take margin hann = replicate margin 0 \<and>
        drop (margin + mel_win cfg) hann = replicate (mc_n_fft cfg - mel_win cfg - margin) 0)"
proof -
  define win where "win = mel_win cfg"
  define margin where "margin = (mc_n_fft cfg - win) div 2"
  have "take margin (foldl (\<lambda>h i. h[margin + i := f i]) (replicate (mc_n_fft cfg) 0) [0..<win]) = replicate margin (0 :: f32) \<and>
      drop (margin + win) (foldl (\<lambda>h i. h[margin + i := f i]) (replicate (mc_n_fft cfg) 0) [0..<win]) =
        replicate (mc_n_fft cfg - win - margin) 0" if "win \<le> mc_n_fft cfg" for f
  proof -
    have m: "margin + win \<le> mc_n_fft cfg" using that by (simp add: margin_def)
    have "foldl (\<lambda>h i. h[margin + i := f i]) (replicate (mc_n_fft cfg) 0) [0..<win] =
        foldl (\<lambda>h i. h[margin + i := map f [0..<win] ! i]) (replicate (mc_n_fft cfg) 0) [0..<win]"
      by (rule foldl_cong) simp_all
    also have "\<dots> = replicate margin 0 @ map f [0..<win] @ replicate (mc_n_fft cfg - (margin + win)) 0"
      using write_run [of win "map f [0..<win]" margin "replicate (mc_n_fft cfg) 0"] m by simp
    finally show ?thesis using m by simp
  qed
  then show ?thesis by (simp add: mel_hann_def Let_def win_def margin_def not_less)
qed

end
