(* ===== verification/Backend.thy ===== *)
theory Backend
  imports Http
begin

text \<open>
  The gathering of the library's log lines and the choice of a backend, \<open>src/backend.h\<close>. The devices are parameters.
\<close>

section \<open>Levels\<close>

datatype s2s_log_level = S2S_LOG_ERROR | S2S_LOG_WARN | S2S_LOG_INFO | S2S_LOG_DEBUG

type_synonym log_line = "s2s_log_level \<times> string"

section \<open>The lines of the library\<close>

datatype ggml_log_level = GGML_LOG_LEVEL_ERROR | GGML_LOG_LEVEL_WARN | GGML_LOG_LEVEL_OTHER

record ggml_lines =
  gl_pending :: string
  gl_last :: string
  gl_count :: nat

definition ggml_lines_new :: ggml_lines where
  "ggml_lines_new = \<lparr>gl_pending = [], gl_last = [], gl_count = 0\<rparr>"

definition ggml_level :: "ggml_log_level \<Rightarrow> s2s_log_level" where
  "ggml_level level =
     (case level of
        GGML_LOG_LEVEL_ERROR \<Rightarrow> S2S_LOG_ERROR
      | GGML_LOG_LEVEL_WARN \<Rightarrow> S2S_LOG_WARN
      | GGML_LOG_LEVEL_OTHER \<Rightarrow> S2S_LOG_INFO)"

definition dedup_line :: "nat \<Rightarrow> log_line" where
  "dedup_line count = (S2S_LOG_INFO, ''[Dedup] Previous line repeated '' @ nat_str count @ '' times total'')"

definition ggml_line :: "ggml_log_level \<Rightarrow> string \<Rightarrow> log_line" where
  "ggml_line level line = (ggml_level level, ''[GGML] '' @ line)"

text \<open>A whole line: what goes out, in the words handed to \<open>s2s_log\<close>.\<close>

definition take_line :: "ggml_log_level \<Rightarrow> string \<Rightarrow> ggml_lines \<Rightarrow> ggml_lines \<times> log_line list" where
  "take_line level line st =
     (if 0 < gl_count st \<and> line = gl_last st then (st\<lparr>gl_count := gl_count st + 1\<rparr>, [])
      else (st\<lparr>gl_last := line, gl_count := 1\<rparr>,
            (if 1 < gl_count st then [dedup_line (gl_count st)] else []) @ [ggml_line level line]))"

function ggml_log_loop :: "ggml_log_level \<Rightarrow> ggml_lines \<Rightarrow> ggml_lines \<times> log_line list" where
  "ggml_log_loop level st =
     (case find_sub [LF] (gl_pending st) of
        None \<Rightarrow> (st, [])
      | Some e \<Rightarrow>
          (case take_line level (take e (gl_pending st)) (st\<lparr>gl_pending := drop (e + 1) (gl_pending st)\<rparr>) of
             (st, out) \<Rightarrow> (case ggml_log_loop level st of (st, outs) \<Rightarrow> (st, out @ outs))))"
  by pat_completeness auto
termination
  by (relation "measure (\<lambda>(level, st). length (gl_pending st))")
    (auto simp: take_line_def split: if_splits dest!: find_sub_Some)

declare ggml_log_loop.simps [simp del]

definition s2s_ggml_log :: "ggml_log_level \<Rightarrow> ggml_lines \<Rightarrow> string \<Rightarrow> ggml_lines \<times> log_line list" where
  "s2s_ggml_log level st text = ggml_log_loop level (st\<lparr>gl_pending := gl_pending st @ text\<rparr>)"

section \<open>The backend of a model\<close>

record backend =
  be_name :: string
  be_threads :: "nat option"

text \<open>The devices: what the hardware says of its threads, the devices by name and in order, the backend of each, the
  best one, the two ways to a CPU backend and whether its threads can be set.\<close>

record registry =
  rg_concurrency :: nat
  rg_names :: "string list"
  rg_named :: "string \<Rightarrow> bool"
  rg_init :: "string \<Rightarrow> backend option"
  rg_best :: "backend option"
  rg_cpu_dev :: "backend option"
  rg_cpu_type :: "backend option"
  rg_set_threads :: bool

definition backend_cpu_n_threads :: "registry \<Rightarrow> nat" where
  "backend_cpu_n_threads R = (let n = rg_concurrency R div 2 in if 0 < n then n else 1)"

definition cpu_backend_new :: "registry \<Rightarrow> nat \<Rightarrow> backend option" where
  "cpu_backend_new R n_threads =
     (case (case rg_cpu_dev R of None \<Rightarrow> rg_cpu_type R | Some cpu \<Rightarrow> Some cpu) of
        None \<Rightarrow> None
      | Some cpu \<Rightarrow> Some (if rg_set_threads R then cpu\<lparr>be_threads := Some n_threads\<rparr> else cpu))"

definition backend_check_device :: "registry \<Rightarrow> string \<Rightarrow> string + unit" where
  "backend_check_device R name =
     (if rg_named R name then Inr ()
      else Inl (''--device '' @ name @ '' not found. Available:'' @ concat (map (\<lambda>d. SPC # d) (rg_names R))))"

definition backend_init :: "registry \<Rightarrow> string option \<Rightarrow> backend option" where
  "backend_init R device =
     (case (case device of Some d \<Rightarrow> rg_init R d | None \<Rightarrow> rg_best R) of
        None \<Rightarrow> None
      | Some backend \<Rightarrow>
          if be_name backend = ''CPU'' then cpu_backend_new R (backend_cpu_n_threads R) else Some backend)"

definition backend_init_cpu :: "registry \<Rightarrow> nat \<Rightarrow> backend option" where
  "backend_init_cpu R n_threads = cpu_backend_new R n_threads"

section \<open>Pieces make lines\<close>

text \<open>The reference: the characters one by one, each with the level of its piece.\<close>

fun ggml_chars :: "ggml_lines \<Rightarrow> (ggml_log_level \<times> char) list \<Rightarrow> ggml_lines \<times> log_line list" where
  "ggml_chars st [] = (st, [])"
| "ggml_chars st ((level, c) # rest) =
     (if c = LF then
        (case take_line level (gl_pending st) (st\<lparr>gl_pending := []\<rparr>) of
           (st, out) \<Rightarrow> (case ggml_chars st rest of (st, outs) \<Rightarrow> (st, out @ outs)))
      else ggml_chars (st\<lparr>gl_pending := gl_pending st @ [c]\<rparr>) rest)"

lemma find_LF: "LF \<notin> set p \<Longrightarrow> find_sub [LF] (p @ LF # rest) = Some (length p)"
  by (induction p) auto

lemma find_no_LF: "LF \<notin> set p \<Longrightarrow> find_sub [LF] p = None"
  by (induction p) auto

lemma take_line_pending:
  "take_line level line (st\<lparr>gl_pending := p\<rparr>) =
   ((fst (take_line level line st))\<lparr>gl_pending := p\<rparr>, snd (take_line level line st))"
  by (simp add: take_line_def)

lemma log_loop_chars:
  "LF \<notin> set p \<Longrightarrow>
   ggml_log_loop level (st\<lparr>gl_pending := p @ s\<rparr>) = ggml_chars (st\<lparr>gl_pending := p\<rparr>) (map (Pair level) s)"
proof (induction s arbitrary: p st)
  case Nil
  then show ?case by (simp add: ggml_log_loop.simps find_no_LF)
next
  case (Cons c s)
  show ?case
  proof (cases "c = LF")
    case True
    define st1 where "st1 = fst (take_line level p st)"
    have IH: "ggml_log_loop level (st1\<lparr>gl_pending := s\<rparr>) = ggml_chars (st1\<lparr>gl_pending := []\<rparr>) (map (Pair level) s)"
      using Cons.IH [of "[]" st1] by simp
    show ?thesis using True Cons.prems IH
      by (subst ggml_log_loop.simps) (simp add: find_LF take_line_pending st1_def)
  next
    case False
    then show ?thesis using Cons.IH [of "p @ [c]" st] Cons.prems by simp
  qed
qed

lemma ggml_log_chars:
  "LF \<notin> set (gl_pending st) \<Longrightarrow> s2s_ggml_log level st s = ggml_chars st (map (Pair level) s)"
  using log_loop_chars [where p = "gl_pending st" and st = st] by (simp add: s2s_ggml_log_def)

lemma ggml_chars_append:
  "ggml_chars st (xs @ ys) =
   (fst (ggml_chars (fst (ggml_chars st xs)) ys), snd (ggml_chars st xs) @ snd (ggml_chars (fst (ggml_chars st xs)) ys))"
proof (induction st xs rule: ggml_chars.induct)
  case (2 st level c rest)
  then show ?case by (cases "take_line level (gl_pending st) (st\<lparr>gl_pending := []\<rparr>)") (auto simp: split_beta)
qed simp

lemma ggml_chars_pending: "LF \<notin> set (gl_pending st) \<Longrightarrow> LF \<notin> set (gl_pending (fst (ggml_chars st xs)))"
  by (induction st xs rule: ggml_chars.induct) (auto simp: split_beta take_line_pending)

interpretation library: chunked "s2s_ggml_log level" "\<lambda>st. LF \<notin> set (gl_pending st)" for level
  by unfold_locales (simp_all add: ggml_log_chars ggml_chars_pending ggml_chars_append)

section \<open>Lines make runs\<close>

text \<open>The lines of a text with the level of their ends, and how they go out: of every run of equal lines the first one,
  and how long the run was once another line follows.\<close>

fun tagged_lines :: "string \<Rightarrow> (ggml_log_level \<times> char) list \<Rightarrow> (ggml_log_level \<times> string) list" where
  "tagged_lines line [] = []"
| "tagged_lines line ((level, c) # rest) =
     (if c = LF then (level, line) # tagged_lines [] rest else tagged_lines (line @ [c]) rest)"

function line_runs :: "(ggml_log_level \<times> string) list \<Rightarrow> (ggml_log_level \<times> string \<times> nat) list" where
  "line_runs [] = []"
| "line_runs ((level, line) # rest) =
     (level, line, 1 + length (takeWhile (\<lambda>x. snd x = line) rest)) # line_runs (dropWhile (\<lambda>x. snd x = line) rest)"
  by pat_completeness auto
termination by (relation "measure length") (auto simp: le_imp_less_Suc length_dropWhile_le)

definition reported :: "(ggml_log_level \<times> string \<times> nat) list \<Rightarrow> log_line list" where
  "reported runs =
     concat (map (\<lambda>(level, line, n). ggml_line level line # (if 1 < n then [dedup_line n] else [])) (butlast runs)) @
     map (\<lambda>(level, line, n). ggml_line level line) (drop (length runs - 1) runs)"

text \<open>The characters are the lines.\<close>

fun take_lines :: "ggml_lines \<Rightarrow> (ggml_log_level \<times> string) list \<Rightarrow> ggml_lines \<times> log_line list" where
  "take_lines st [] = (st, [])"
| "take_lines st ((level, line) # rest) =
     (case take_line level line st of (st, out) \<Rightarrow> (case take_lines st rest of (st, outs) \<Rightarrow> (st, out @ outs)))"

lemma chars_are_lines: "snd (ggml_chars st xs) = snd (take_lines (st\<lparr>gl_pending := p\<rparr>) (tagged_lines (gl_pending st) xs))"
proof (induction st xs arbitrary: p rule: ggml_chars.induct)
  case (2 st level c rest)
  then show ?case by (auto simp: split_beta take_line_pending)
qed simp

lemma line_runs_Nil: "line_runs ls = [] \<longleftrightarrow> ls = []"
  by (cases ls) auto

lemma reported_Cons:
  "runs \<noteq> [] \<Longrightarrow> reported ((level, line, n) # runs) =
   ggml_line level line # (if 1 < n then [dedup_line n] else []) @ reported runs"
  by (cases runs) (simp_all add: reported_def)

lemma reported_one: "reported [(level, line, n)] = [ggml_line level line]"
  by (simp add: reported_def)

text \<open>While a run goes on nothing goes out but its first line; a line that ends it says how long it was.\<close>

lemma take_lines_run:
  "0 < gl_count st \<Longrightarrow> list_all (\<lambda>x. snd x = gl_last st) xs \<Longrightarrow>
   take_lines st (xs @ ys) = take_lines (st\<lparr>gl_count := gl_count st + length xs\<rparr>) ys"
proof (induction xs arbitrary: st)
  case (Cons x xs)
  then show ?case by (cases x) (auto simp: take_line_def split_beta)
qed simp

lemma take_lines_runs:
  "0 < gl_count st \<Longrightarrow> snd (take_lines st ls) =
   (let same = takeWhile (\<lambda>x. snd x = gl_last st) ls; rest = dropWhile (\<lambda>x. snd x = gl_last st) ls; n = gl_count st + length same
    in if rest = [] then [] else (if 1 < n then [dedup_line n] else []) @ reported (line_runs rest))"
proof (induction "length ls" arbitrary: st ls rule: less_induct)
  case less
  define rest where "rest = dropWhile (\<lambda>x. snd x = gl_last st) ls"
  define n where "n = gl_count st + length (takeWhile (\<lambda>x. snd x = gl_last st) ls)"
  have ls: "ls = takeWhile (\<lambda>x. snd x = gl_last st) ls @ rest" by (simp add: rest_def)
  have skip: "take_lines st ls = take_lines (st\<lparr>gl_count := n\<rparr>) rest"
    by (subst ls, subst take_lines_run) (use less.prems in \<open>auto simp: n_def list_all_iff dest: set_takeWhileD\<close>)
  show ?case
  proof (cases rest)
    case Nil
    then show ?thesis using skip by (simp add: Let_def rest_def [symmetric])
  next
    case (Cons x tail)
    obtain level line where x: "x = (level, line)" by force
    have other: "line \<noteq> gl_last st" using Cons hd_dropWhile [of "\<lambda>x. snd x = gl_last st" ls] by (simp add: rest_def x)
    define st1 where "st1 = st\<lparr>gl_last := line, gl_count := 1\<rparr>"
    have step: "snd (take_lines st ls) =
        (if 1 < n then [dedup_line n] else []) @ ggml_line level line # snd (take_lines st1 tail)"
      using other by (simp add: skip Cons x take_line_def split_beta st1_def)
    have "length rest \<le> length ls" unfolding rest_def by (rule length_dropWhile_le)
    then have "length tail < length ls" using Cons by simp
    then have IH: "snd (take_lines st1 tail) =
        (let same = takeWhile (\<lambda>x. snd x = line) tail; rest = dropWhile (\<lambda>x. snd x = line) tail; n = 1 + length same
         in if rest = [] then [] else (if 1 < n then [dedup_line n] else []) @ reported (line_runs rest))"
      using less.hyps [of tail st1] by (simp add: st1_def)
    have "reported (line_runs (x # tail)) = ggml_line level line # snd (take_lines st1 tail)"
      by (cases "dropWhile (\<lambda>x. snd x = line) tail = []")
        (simp_all only: IH x line_runs.simps Let_def reported_Cons reported_one line_runs_Nil if_True if_False simp_thms
          One_nat_def plus_1_eq_Suc)
    then have "snd (take_lines st ls) = (if 1 < n then [dedup_line n] else []) @ reported (line_runs rest)"
      using step Cons by simp
    moreover have "rest \<noteq> []" using Cons by simp
    ultimately show ?thesis unfolding Let_def rest_def [symmetric] n_def [symmetric] by (simp only: if_False)
  qed
qed

lemma first_lines_runs: "snd (take_lines ggml_lines_new ls) = reported (line_runs ls)"
proof (cases ls)
  case (Cons x tail)
  obtain level line where x: "x = (level, line)" by force
  have "snd (take_lines ggml_lines_new ls) =
      ggml_line level line # snd (take_lines (ggml_lines_new\<lparr>gl_last := line, gl_count := 1\<rparr>) tail)"
    by (simp add: Cons x take_line_def split_beta ggml_lines_new_def)
  moreover have "snd (take_lines (ggml_lines_new\<lparr>gl_last := line, gl_count := 1\<rparr>) tail) =
      (if dropWhile (\<lambda>x. snd x = line) tail = [] then []
       else (if 1 < 1 + length (takeWhile (\<lambda>x. snd x = line) tail)
             then [dedup_line (1 + length (takeWhile (\<lambda>x. snd x = line) tail))] else []) @
         reported (line_runs (dropWhile (\<lambda>x. snd x = line) tail)))"
    by (subst take_lines_runs) (simp_all add: Let_def)
  ultimately show ?thesis
    by (cases "dropWhile (\<lambda>x. snd x = line) tail = []")
      (simp_all only: Cons x line_runs.simps reported_Cons reported_one line_runs_Nil if_True if_False simp_thms)
qed (simp add: reported_def)

text \<open>The log of the library goes out line by line, whatever the pieces it comes in and their levels: of every run of
  equal lines the first one, with the level of the piece that ends it, then the length of the run as soon as another
  line follows.\<close>

theorem library_log_is_its_lines:
  "snd (foldl (\<lambda>(st, out) (level, text). case s2s_ggml_log level st text of (st, lines) \<Rightarrow> (st, out @ lines))
      (ggml_lines_new, []) pieces) =
   reported (line_runs (tagged_lines [] (concat (map (\<lambda>(level, text). map (Pair level) text) pieces))))"
proof -
  have run: "foldl (\<lambda>(st, out) (level, text). case s2s_ggml_log level st text of (st, lines) \<Rightarrow> (st, out @ lines)) (st, out) pieces =
      (fst (ggml_chars st (concat (map (\<lambda>(level, text). map (Pair level) text) pieces))),
       out @ snd (ggml_chars st (concat (map (\<lambda>(level, text). map (Pair level) text) pieces))))"
    if "LF \<notin> set (gl_pending st)" for st out
    using that
  proof (induction pieces arbitrary: st out)
    case (Cons p pieces)
    obtain level s where p: "p = (level, s)" by force
    show ?case using Cons
      by (simp add: p ggml_log_chars ggml_chars_append ggml_chars_pending split_beta)
  qed simp
  show ?thesis
    by (subst run) (simp_all add: ggml_lines_new_def chars_are_lines [where p = "[]"] first_lines_runs [unfolded ggml_lines_new_def])
qed

text \<open>So the length of the last run is never told.\<close>

lemma last_run_untold:
  "snd (s2s_ggml_log GGML_LOG_LEVEL_WARN ggml_lines_new [CHR ''a'', LF, CHR ''a'', LF]) = [ggml_line GGML_LOG_LEVEL_WARN ''a'']"
  by (simp add: ggml_log_chars ggml_lines_new_def take_line_def)

text \<open>A CPU backend runs on half the threads of the hardware, on one at least.\<close>

lemma cpu_takes_every_core:
  assumes "backend_init R device = Some b" "be_name b = ''CPU''" "rg_set_threads R"
  shows "be_threads b = Some (max 1 (rg_concurrency R div 2))"
  using assms
  by (auto simp: backend_init_def cpu_backend_new_def backend_cpu_n_threads_def Let_def max_def split: option.splits if_splits)

end
