(* ===== verification/Loading.thy ===== *)
theory Loading
  imports Weights Mel Backend Recognizer Detectors Canceller
begin

text \<open>
  The loading of the four models: \<open>sv_init\<close> of \<open>src/silero.cpp\<close>, \<open>st_init\<close> of \<open>src/smart-turn.cpp\<close>,
  \<open>lv_init\<close> of \<open>src/localvqe.cpp\<close>, \<open>pipeline_asr_load\<close> of \<open>src/pipeline-asr.cpp\<close> with \<open>pk_init\<close>, and what they
  free. A load gives an error or a model, and what it still holds; \<^const>\<open>None\<close> is an access outside a file or a
  vector. Counts of a file are not negative, and fit an \<open>int\<close>.
\<close>

section \<open>What a load works with\<close>

text \<open>What a load takes and gives back.\<close>

datatype resource =
    Mapped_File | A_Backend | Weights_Buffer | Constants_Buffer | An_Arena | Second_Arena | An_Allocator
  | Second_Allocator | Third_Allocator | State_Buffer | A_Worker

text \<open>The machine: the library, the files and the parser of their headers, the devices, libm, and what can be
  allocated: the weights' buffer, the constants', the arenas, the graphs.\<close>

record machine =
  mh_lib :: ggml
  mh_file :: "string \<Rightarrow> 8 word list option"
  mh_parse :: "8 word list \<Rightarrow> gguf_header option"
  mh_registry :: registry
  mh_libm :: mel_libm
  mh_weights :: bool
  mh_constants :: bool
  mh_arena :: bool
  mh_second_arena :: bool
  mh_graphs :: bool

definition gf_int :: "GGUFModel \<Rightarrow> string \<Rightarrow> int" where
  "gf_int gf key = sint (gf_get_u32 gf key)"

definition gf_nat :: "GGUFModel \<Rightarrow> string \<Rightarrow> nat" where
  "gf_nat gf key = nat (gf_int gf key)"

definition gf_close :: "resource list \<Rightarrow> resource list" where
  "gf_close held = removeAll Mapped_File held"

text \<open>What is freed, in any order; a resource that is not there is passed over.\<close>

definition freed :: "resource list \<Rightarrow> resource list \<Rightarrow> resource list" where
  "freed rs held = filter (\<lambda>r. r \<notin> set rs) held"

section \<open>The voice detector\<close>

definition sv_free :: "resource list \<Rightarrow> resource list" where
  "sv_free = freed [An_Allocator, An_Arena, Weights_Buffer, A_Backend]"

definition sv_init :: "machine \<Rightarrow> string option \<Rightarrow> ((string + sv_context \<times> WeightCtx) \<times> resource list) option" where
  "sv_init m gguf_path =
     (case gguf_path of
        None \<Rightarrow> Some (Inl ''[Silero] Gguf_path is NULL'', [])
      | Some path \<Rightarrow>
          (case gf_load (mh_lib m) (mh_file m) (mh_parse m) path of
             Inl _ \<Rightarrow> Some (Inl (s2s_format (''[Silero] Failed to open '' @ path)), [])
           | Inr gf \<Rightarrow>
               let ctx = sv_shapes (gf_nat gf ''vad.sample_rate'') (gf_nat gf ''vad.window'') (gf_nat gf ''vad.context'')
                     (gf_nat gf ''vad.n_fft'') (gf_nat gf ''vad.hidden'');
                   held = [Mapped_File]
               in if backend_init_cpu (mh_registry m) 1 = None
                  then Some (Inl ''[Silero] Failed to init the CPU backend'', gf_close held)
                  else let held = held @ [A_Backend, Weights_Buffer] in
                    (case load_weights (mh_lib m) gf (wctx_init sv_room) sv_weights of
                       None \<Rightarrow> None
                     | Some (Inl e) \<Rightarrow> Some (Inl (s2s_format (c_str e)), sv_free held)
                     | Some (Inr wctx) \<Rightarrow>
                         (case wctx_alloc (mh_weights m) gf wctx of
                            None \<Rightarrow> None
                          | Some (loaded, wctx) \<Rightarrow>
                              let held = gf_close held in
                              if \<not> loaded then Some (Inl ''[Silero] Failed to upload the weights'', sv_free held)
                              else if \<not> mh_arena m then Some (Inl ''[Silero] Failed to allocate the graph arena'', sv_free held)
                              else let held = held @ [An_Arena, An_Allocator] in
                                if \<not> mh_graphs m then Some (Inl ''[Silero] Failed to allocate the compute graph'', sv_free held)
                                else Some (Inr (ctx, wctx), held)))))"

section \<open>The turn classifier\<close>

definition st_free :: "resource list \<Rightarrow> resource list" where
  "st_free = freed [A_Worker, An_Allocator, Second_Allocator, An_Arena, Second_Arena, Weights_Buffer, Constants_Buffer, A_Backend]"

definition st_mel_config :: "GGUFModel \<Rightarrow> AudioMelConfig" where
  "st_mel_config gf =
     mel_config_new\<lparr>mc_sample_rate := gf_int gf ''turn.sample_rate'', mc_n_fft := gf_nat gf ''turn.n_fft'',
       mc_hop := gf_nat gf ''turn.hop'', mc_n_mels := gf_nat gf ''turn.n_mels'', mc_fmin := 0,
       mc_fmax := f_mul (to_f32 (of_int (gf_int gf ''turn.sample_rate''))) (1 / 2)\<rparr>"

text \<open>The classifier with its buffers, its weights and its constants; its worker waits for its first turn.\<close>

definition st_load ::
  "machine \<Rightarrow> string option \<Rightarrow> ((string + st_context \<times> WeightCtx \<times> const_tensor list) \<times> resource list) option" where
  "st_load m gguf_path =
     (case gguf_path of
        None \<Rightarrow> Some (Inl ''[SmartTurn] Gguf_path is NULL'', [])
      | Some path \<Rightarrow>
          (case gf_load (mh_lib m) (mh_file m) (mh_parse m) path of
             Inl _ \<Rightarrow> Some (Inl (s2s_format (''[SmartTurn] Failed to open '' @ path)), [])
           | Inr gf \<Rightarrow>
               let n_layers = gf_nat gf ''turn.n_layers''; cfg = st_mel_config gf; held = [Mapped_File]
               in if backend_init_cpu (mh_registry m) (backend_cpu_n_threads (mh_registry m)) = None
                  then Some (Inl ''[SmartTurn] Failed to init the CPU backend'', gf_close held)
                  else let held = held @ [A_Backend, Weights_Buffer] in
                    (case load_weights (mh_lib m) gf (wctx_init (st_room n_layers)) (st_weights n_layers) of
                       None \<Rightarrow> None
                     | Some (Inl e) \<Rightarrow> Some (Inl (s2s_format (c_str e)), st_free held)
                     | Some (Inr wctx) \<Rightarrow>
                         (case wctx_alloc (mh_weights m) gf wctx of
                            None \<Rightarrow> None
                          | Some (loaded, wctx) \<Rightarrow>
                              let held = gf_close held in
                              if \<not> loaded then Some (Inl ''[SmartTurn] Failed to upload the weights'', st_free held)
                              else (case audio_mel_compute_constants (mh_libm m) cfg of
                                  None \<Rightarrow> None
                                | Some c \<Rightarrow>
                                    let held = held @ [Constants_Buffer] in
                                    if \<not> mh_constants m then Some (Inl ''[SmartTurn] Failed to upload the mel constants'', st_free held)
                                    else let held = held @ [An_Arena, Second_Arena] in
                                      if \<not> mh_arena m \<or> \<not> mh_second_arena m
                                      then Some (Inl ''[SmartTurn] Failed to allocate the graph arenas'', st_free held)
                                      else let held = held @ [An_Allocator, Second_Allocator] in
                                        if \<not> mh_graphs m
                                        then Some (Inl ''[SmartTurn] Failed to allocate the compute graphs'', st_free held)
                                        else Some (Inr (st_init (gf_nat gf ''turn.window'') (mc_n_fft cfg) (gf_nat gf ''turn.n_frames'')
                                                          (mc_n_mels cfg), wctx, st_load_mel_constants cfg c), held @ [A_Worker]))))))"

section \<open>The echo canceller\<close>

definition lv_free :: "resource list \<Rightarrow> resource list" where
  "lv_free = freed [A_Worker, An_Allocator, State_Buffer, An_Arena, Weights_Buffer, A_Backend]"

text \<open>What its graph is built with.\<close>

record lv_shape =
  lvs_sample_rate :: int
  lvs_dmax :: int
  lvs_power_law :: f32
  lvs_eps :: f32

definition lv_shapes :: "GGUFModel \<Rightarrow> lv_shape" where
  "lv_shapes gf = \<lparr>lvs_sample_rate = gf_int gf ''lv.sample_rate'', lvs_dmax = gf_int gf ''lv.dmax'',
     lvs_power_law = gf_get_f32 gf ''lv.power_law_c'', lvs_eps = gf_get_f32 gf ''lv.norm_eps''\<rparr>"

text \<open>The canceller with one free slot; \<open>zero\<close> is a history at rest.\<close>

definition lv_load ::
  "machine \<Rightarrow> 'h \<Rightarrow> string option \<Rightarrow> string option \<Rightarrow> ((string + 'h lv_context \<times> lv_shape \<times> WeightCtx) \<times> resource list) option" where
  "lv_load m zero gguf_path device =
     (case gguf_path of
        None \<Rightarrow> Some (Inl ''[LocalVQE] Gguf path is NULL'', [])
      | Some path \<Rightarrow>
          (case gf_load (mh_lib m) (mh_file m) (mh_parse m) path of
             Inl _ \<Rightarrow> Some (Inl (s2s_format (''[LocalVQE] Failed to open '' @ path)), [])
           | Inr gf \<Rightarrow>
               let held = [Mapped_File]
               in if backend_init (mh_registry m) device = None
                  then Some (Inl ''[LocalVQE] Failed to init the backend'', gf_close held)
                  else let held = held @ [A_Backend, Weights_Buffer] in
                    (case load_weights (mh_lib m) gf (wctx_init (lv_room gf)) lv_weights of
                       None \<Rightarrow> None
                     | Some (Inl e) \<Rightarrow> Some (Inl (s2s_format (c_str e)), lv_free held)
                     | Some (Inr wctx) \<Rightarrow>
                         (case wctx_alloc (mh_weights m) gf wctx of
                            None \<Rightarrow> None
                          | Some (loaded, wctx) \<Rightarrow>
                              let held = gf_close held in
                              if \<not> loaded then Some (Inl ''[LocalVQE] Failed to upload the weights'', lv_free held)
                              else let held = held @ [An_Allocator, An_Arena] in
                                if \<not> mh_arena m then Some (Inl ''[LocalVQE] Failed to allocate the graph arena'', lv_free held)
                                else let held = held @ [State_Buffer] in
                                  if \<not> mh_graphs m then Some (Inl ''[LocalVQE] Failed to allocate the compute graph'', lv_free held)
                                  else Some (Inr (lv_init zero (gf_nat gf ''lv.n_fft'') (gf_nat gf ''lv.hop''), lv_shapes gf, wctx),
                                             held @ [A_Worker])))))"

section \<open>The recognizer\<close>

record ParakeetHParams =
  hp_sample_rate :: int
  hp_n_fft :: int
  hp_win_length :: int
  hp_hop :: int
  hp_n_mels :: int
  hp_preemphasis :: f32
  hp_n_layers :: int
  hp_n_heads :: int
  hp_d_model :: int
  hp_conv_kernel :: int
  hp_sub_factor :: int
  hp_d_decoder :: int

definition parakeet_read_hparams :: "GGUFModel \<Rightarrow> ParakeetHParams" where
  "parakeet_read_hparams gf =
     \<lparr>hp_sample_rate = gf_int gf ''asr.sample_rate'', hp_n_fft = gf_int gf ''asr.n_fft'',
      hp_win_length = gf_int gf ''asr.win_length'', hp_hop = gf_int gf ''asr.hop'', hp_n_mels = gf_int gf ''asr.n_mels'',
      hp_preemphasis = gf_get_f32 gf ''asr.preemphasis'', hp_n_layers = gf_int gf ''asr.n_layers'',
      hp_n_heads = gf_int gf ''asr.n_heads'', hp_d_model = gf_int gf ''asr.d_model'',
      hp_conv_kernel = gf_int gf ''asr.conv_kernel'', hp_sub_factor = gf_int gf ''asr.subsampling_factor'',
      hp_d_decoder = gf_int gf ''asr.d_decoder''\<rparr>"

definition parakeet_mel_config :: "ParakeetHParams \<Rightarrow> AudioMelConfig" where
  "parakeet_mel_config hp =
     \<lparr>mc_sample_rate = hp_sample_rate hp, mc_n_fft = nat (hp_n_fft hp), mc_win_length = hp_win_length hp,
      mc_hop = nat (hp_hop hp), mc_n_mels = nat (hp_n_mels hp), mc_fmin = 0,
      mc_fmax = f_mul (to_f32 (of_int (hp_sample_rate hp))) (1 / 2), mc_periodic = False\<rparr>"

record ParakeetDecoderShape =
  ds_vocab_size :: int
  ds_blank_id :: int
  ds_d_decoder :: int
  ds_n_layers :: int
  ds_max_symbols :: int
  ds_durations :: "int list"

text \<open>\<open>parakeet_load_decoder\<close>: the shapes and the durations, then the weights.\<close>

definition decoder_shapes :: "GGUFModel \<Rightarrow> string + ParakeetDecoderShape" where
  "decoder_shapes gf =
     (case gh_ints (gf_header gf) ''asr.durations'' of
        None \<Rightarrow> Inl (''[TDT] Key '' @ [SQUOTE] @ ''asr.durations'' @ [SQUOTE] @ '' not found'')
      | Some durations \<Rightarrow>
          Inr \<lparr>ds_vocab_size = gf_int gf ''asr.vocab_size'', ds_blank_id = gf_int gf ''asr.blank_id'',
               ds_d_decoder = gf_int gf ''asr.d_decoder'', ds_n_layers = gf_int gf ''asr.decoder_layers'',
               ds_max_symbols = gf_int gf ''asr.max_symbols_per_step'', ds_durations = durations\<rparr>)"

definition load_decoder ::
  "ggml \<Rightarrow> GGUFModel \<Rightarrow> WeightCtx \<Rightarrow> (string + ParakeetDecoderShape \<times> WeightCtx) option" where
  "load_decoder L gf wctx =
     (case decoder_shapes gf of
        Inl e \<Rightarrow> Some (Inl e)
      | Inr ds \<Rightarrow>
          map_option (map_sum id (Pair ds)) (load_weights L gf wctx (parakeet_load_decoder (nat (ds_n_layers ds)))))"

definition pipeline_asr_free :: "resource list \<Rightarrow> resource list" where
  "pipeline_asr_free =
     freed [An_Allocator, Second_Allocator, Third_Allocator, An_Arena, Weights_Buffer, Constants_Buffer, A_Backend]"

record asr_pipeline =
  ap_hp :: ParakeetHParams
  ap_decoder :: ParakeetDecoderShape
  ap_sp :: SpDetok
  ap_wctx :: WeightCtx
  ap_constants :: "const_tensor list"

text \<open>The weights of the encoder, of the decoder and the pieces, in this order; any may be missing.\<close>

definition asr_weights ::
  "ggml \<Rightarrow> GGUFModel \<Rightarrow> ParakeetHParams \<Rightarrow> (string + ParakeetDecoderShape \<times> SpDetok \<times> WeightCtx) option" where
  "asr_weights L gf hp =
     (case load_weights L gf (wctx_init (asr_room (nat (hp_n_layers hp)))) (parakeet_load_encoder (nat (hp_n_layers hp))) of
        None \<Rightarrow> None
      | Some (Inl e) \<Rightarrow> Some (Inl e)
      | Some (Inr wctx) \<Rightarrow>
          (case load_decoder L gf wctx of
             None \<Rightarrow> None
           | Some (Inl e) \<Rightarrow> Some (Inl e)
           | Some (Inr (ds, wctx)) \<Rightarrow>
               (case sp_detok_load ''asr.vocab'' (gh_strings (gf_header gf) ''asr.vocab'') of
                  Inl e \<Rightarrow> Some (Inl e)
                | Inr sp \<Rightarrow> Some (Inr (ds, sp, wctx)))))"

definition pipeline_asr_load :: "machine \<Rightarrow> string \<Rightarrow> string \<Rightarrow> ((string + asr_pipeline) \<times> resource list) option" where
  "pipeline_asr_load m model_path device =
     (case gf_load (mh_lib m) (mh_file m) (mh_parse m) (c_str model_path) of
        Inl _ \<Rightarrow> Some (Inl (s2s_format (''[ASR] Failed to open '' @ c_str model_path)), pipeline_asr_free [])
      | Inr gf \<Rightarrow>
          let hp = parakeet_read_hparams gf; cfg = parakeet_mel_config hp; held = [Mapped_File]
          in if backend_init (mh_registry m) (if device = [] then None else Some (c_str device)) = None
             then Some (Inl ''[ASR] No usable backend'', pipeline_asr_free (gf_close held))
             else let held = held @ [A_Backend, Weights_Buffer] in
               (case asr_weights (mh_lib m) gf hp of
                  None \<Rightarrow> None
                | Some (Inl e) \<Rightarrow> Some (Inl (s2s_format (c_str e)), pipeline_asr_free held)
                | Some (Inr (ds, sp, wctx)) \<Rightarrow>
                    (case wctx_alloc (mh_weights m) gf wctx of
                       None \<Rightarrow> None
                     | Some (loaded, wctx) \<Rightarrow>
                         let held = gf_close held in
                         if \<not> loaded then Some (Inl ''[ASR] Failed to upload the weights'', pipeline_asr_free held)
                         else (case audio_mel_compute_constants (mh_libm m) cfg of
                             None \<Rightarrow> None
                           | Some c \<Rightarrow>
                               let held = held @ [Constants_Buffer] in
                               if \<not> mh_constants m then Some (Inl ''[ASR] Failed to upload the mel constants'', pipeline_asr_free held)
                               else let held = held @ [An_Arena] in
                                 if \<not> mh_arena m then Some (Inl ''[ASR] Failed to allocate the decoder arena'', pipeline_asr_free held)
                                 else let held = held @ [An_Allocator, Second_Allocator, Third_Allocator] in
                                   if \<not> mh_graphs m
                                   then Some (Inl ''[ASR] Failed to allocate the decoder graphs'', pipeline_asr_free held)
                                   else Some (Inr \<lparr>ap_hp = hp, ap_decoder = ds, ap_sp = sp, ap_wctx = wctx,
                                                    ap_constants = pipeline_asr_load_constants cfg c\<rparr>, held)))))"

text \<open>\<open>pk_init\<close>, the entry of the library: the version of the structure it is handed, its path, its device.\<close>

definition PK_ABI_VERSION :: nat where "PK_ABI_VERSION = 2"

record pk_init_params =
  pi_abi_version :: nat
  pi_model_path :: "string option"
  pi_device :: "string option"

definition pk_init_default_params :: pk_init_params where
  "pk_init_default_params = \<lparr>pi_abi_version = PK_ABI_VERSION, pi_model_path = None, pi_device = None\<rparr>"

definition pk_init :: "machine \<Rightarrow> pk_init_params option \<Rightarrow> ((string + asr_pipeline) \<times> resource list) option" where
  "pk_init m params =
     (case params of
        None \<Rightarrow> Some (Inl ''[ASR] Unsupported ABI version'', [])
      | Some p \<Rightarrow>
          if PK_ABI_VERSION < pi_abi_version p then Some (Inl ''[ASR] Unsupported ABI version'', [])
          else (case pi_model_path p of
              None \<Rightarrow> Some (Inl ''[ASR] Model_path is NULL'', [])
            | Some path \<Rightarrow>
                pipeline_asr_load m path
                  (if 2 \<le> pi_abi_version p then (case pi_device p of None \<Rightarrow> [] | Some d \<Rightarrow> d) else [])))"

section \<open>A model is whole or not there\<close>

text \<open>What a load of these weights may come to: the model with every weight of the file on the device and the file
  closed; or an error with nothing held, but for the file itself when something the file should hold is missing: the
  exception that tells it passes over \<open>gf_close\<close>.\<close>

definition load_sound ::
  "ggml \<Rightarrow> GGUFModel \<Rightarrow> (string \<times> bool) list \<Rightarrow> bool \<Rightarrow> ('a \<Rightarrow> WeightCtx) \<Rightarrow> ((string + 'a) \<times> resource list) option \<Rightarrow> bool" where
  "load_sound L gf items absent wctx_of r \<longleftrightarrow>
     (case r of
        None \<Rightarrow> False
      | Some (Inl e, held) \<Rightarrow> held = [] \<or> held = [Mapped_File] \<and> absent
      | Some (Inr a, held) \<Rightarrow> Mapped_File \<notin> set held \<and> wx_pending (wctx_of a) = [] \<and>
          wx_buffer (wctx_of a) \<noteq> None \<and> wx_buffer (wctx_of a) = those (map (weight_of L gf) items))"

lemma load_soundI:
  "held = [] \<or> held = [Mapped_File] \<and> absent \<Longrightarrow> load_sound L gf items absent wctx_of (Some (Inl e, held))"
  "Mapped_File \<notin> set held \<Longrightarrow> wx_pending (wctx_of a) = [] \<Longrightarrow> wx_buffer (wctx_of a) = Some data \<Longrightarrow>
   those (map (weight_of L gf) items) = Some data \<Longrightarrow> load_sound L gf items absent wctx_of (Some (Inr a, held))"
  by (simp_all add: load_sound_def)

lemma no_upload: "wctx_alloc False gf wctx = Some (False, wctx)"
  by (simp add: wctx_alloc_def)

lemmas frees = freed_def gf_close_def sv_free_def st_free_def lv_free_def pipeline_asr_free_def

lemma sv_init_sound:
  assumes "gf_load (mh_lib m) (mh_file m) (mh_parse m) path = Inr gf" "gf_whole (mh_lib m) gf"
  shows "load_sound (mh_lib m) gf sv_weights (missing gf sv_weights) snd (sv_init m (Some path))"
proof (cases rule: upload_cases [OF assms(2), where room = sv_room and items = sv_weights])
  case (1 e)
  then show ?thesis using assms(1) by (auto simp: sv_init_def Let_def frees intro!: load_soundI)
next
  case (2 wctx data)
  then show ?thesis using assms(1)
    by (cases "mh_weights m") (auto simp: sv_init_def Let_def frees no_upload intro!: load_soundI)
qed

lemma st_load_sound:
  assumes "gf_load (mh_lib m) (mh_file m) (mh_parse m) path = Inr gf" "gf_whole (mh_lib m) gf"
    and "mel_win (st_mel_config gf) \<le> mc_n_fft (st_mel_config gf)"
  shows "load_sound (mh_lib m) gf (st_weights (gf_nat gf ''turn.n_layers''))
    (missing gf (st_weights (gf_nat gf ''turn.n_layers''))) (fst \<circ> snd) (st_load m (Some path))"
proof -
  obtain c where c: "audio_mel_compute_constants (mh_libm m) (st_mel_config gf) = Some c"
    using constants_fill_their_tensors [where lm = "mh_libm m" and cfg = "st_mel_config gf"] assms(3) by (auto split: option.splits)
  show ?thesis
  proof (cases rule: upload_cases [OF assms(2), where room = "st_room (gf_nat gf ''turn.n_layers'')"
      and items = "st_weights (gf_nat gf ''turn.n_layers'')"])
    case (1 e)
    then show ?thesis using assms(1) by (auto simp: st_load_def Let_def frees intro!: load_soundI)
  next
    case (2 wctx data)
    then show ?thesis using assms(1) c
      by (cases "mh_weights m") (auto simp: st_load_def Let_def frees no_upload intro!: load_soundI)
  qed
qed

lemma lv_load_sound:
  assumes "gf_load (mh_lib m) (mh_file m) (mh_parse m) path = Inr gf" "gf_whole (mh_lib m) gf"
  shows "load_sound (mh_lib m) gf lv_weights (missing gf lv_weights) (snd \<circ> snd) (lv_load m zero (Some path) device)"
proof (cases rule: upload_cases [OF assms(2), where room = "lv_room gf" and items = lv_weights])
  case (1 e)
  then show ?thesis using assms(1) by (auto simp: lv_load_def Let_def frees intro!: load_soundI)
next
  case (2 wctx data)
  then show ?thesis using assms(1)
    by (cases "mh_weights m") (auto simp: lv_load_def Let_def frees no_upload intro!: load_soundI)
qed

text \<open>The recognizer loads the weights of its two parts as one list, if the file has the two keys.\<close>

definition asr_items :: "GGUFModel \<Rightarrow> (string \<times> bool) list" where
  "asr_items gf = parakeet_load_encoder (gf_nat gf ''asr.n_layers'') @ parakeet_load_decoder (gf_nat gf ''asr.decoder_layers'')"

definition asr_absent :: "GGUFModel \<Rightarrow> bool" where
  "asr_absent gf \<longleftrightarrow> missing gf (asr_items gf) \<or> gh_ints (gf_header gf) ''asr.durations'' = None \<or>
     gh_strings (gf_header gf) ''asr.vocab'' = None"

lemma asr_weights_cases:
  assumes "gf_whole L gf"
  obtains (Absent) e where "asr_weights L gf (parakeet_read_hparams gf) = Some (Inl e)" "asr_absent gf"
  | (Found) ds sp wctx data where "asr_weights L gf (parakeet_read_hparams gf) = Some (Inr (ds, sp, wctx))"
      "wctx_alloc True gf wctx = Some (True, wctx\<lparr>wx_buffer := Some data, wx_pending := []\<rparr>)"
      "those (map (weight_of L gf) (asr_items gf)) = Some data"
proof -
  define enc where "enc = parakeet_load_encoder (gf_nat gf ''asr.n_layers'')"
  define dec where "dec = parakeet_load_decoder (gf_nat gf ''asr.decoder_layers'')"
  define w0 where "w0 = wctx_init (asr_room (gf_nat gf ''asr.n_layers''))"
  have items: "asr_items gf = enc @ dec" by (simp add: asr_items_def enc_def dec_def)
  have unfold: "asr_weights L gf (parakeet_read_hparams gf) =
      (case load_weights L gf w0 enc of
         None \<Rightarrow> None
       | Some (Inl e) \<Rightarrow> Some (Inl e)
       | Some (Inr wctx) \<Rightarrow>
           (case load_decoder L gf wctx of
              None \<Rightarrow> None
            | Some (Inl e) \<Rightarrow> Some (Inl e)
            | Some (Inr (ds, wctx)) \<Rightarrow>
                (case sp_detok_load ''asr.vocab'' (gh_strings (gf_header gf) ''asr.vocab'') of
                   Inl e \<Rightarrow> Some (Inl e)
                 | Inr sp \<Rightarrow> Some (Inr (ds, sp, wctx)))))"
    by (simp add: asr_weights_def parakeet_read_hparams_def gf_nat_def enc_def w0_def)
  have decoder: "load_decoder L gf wctx =
      (case gh_ints (gf_header gf) ''asr.durations'' of
         None \<Rightarrow> load_decoder L gf wctx
       | Some durations \<Rightarrow> map_option (map_sum id (Pair (projr (decoder_shapes gf)))) (load_weights L gf wctx dec))" for wctx
    by (auto simp: load_decoder_def decoder_shapes_def gf_nat_def dec_def split: option.split)
  show thesis
  proof (cases "asr_absent gf")
    case False
    then have d: "\<exists>durations. gh_ints (gf_header gf) ''asr.durations'' = Some durations"
      and v: "\<exists>pieces. gh_strings (gf_header gf) ''asr.vocab'' = Some pieces" by (auto simp: asr_absent_def)
    show ?thesis
    proof (cases rule: upload_cases [OF assms, where room = "asr_room (gf_nat gf ''asr.n_layers'')" and items = "enc @ dec"])
      case (1 e)
      then show ?thesis using False by (simp add: asr_absent_def items)
    next
      case (2 wctx data)
      from 2 obtain wctx1 where w: "load_weights L gf w0 enc = Some (Inr wctx1)" "load_weights L gf wctx1 dec = Some (Inr wctx)"
        by (auto simp: load_weights_append w0_def split: option.splits sum.splits)
      then have "\<exists>ds sp. asr_weights L gf (parakeet_read_hparams gf) = Some (Inr (ds, sp, wctx))"
        using d v by (auto simp: unfold decoder sp_detok_load_def)
      then show ?thesis using 2 that(2) items by metis
    qed
  next
    case True
    note encoder = load_weights_finds [OF assms, where wctx = w0 and items = enc]
    show ?thesis
    proof (cases "\<exists>wctx1. load_weights L gf w0 enc = Some (Inr wctx1)")
      case False
      then obtain e where "load_weights L gf w0 enc = Some (Inl e)" using encoder by (auto split: option.splits sum.splits)
      then show ?thesis using that(1) True by (simp add: unfold)
    next
      case found: True
      then obtain wctx1 where one: "load_weights L gf w0 enc = Some (Inr wctx1)" by blast
      then have "\<not> missing gf enc" using encoder by simp
      then have rest: "gh_ints (gf_header gf) ''asr.durations'' = None \<or> missing gf dec \<or> gh_strings (gf_header gf) ''asr.vocab'' = None"
        using True by (auto simp: asr_absent_def items missing_def)
      have "\<exists>e. asr_weights L gf (parakeet_read_hparams gf) = Some (Inl e)"
      proof (cases "gh_ints (gf_header gf) ''asr.durations''")
        case None
        then show ?thesis using one by (simp add: unfold load_decoder_def decoder_shapes_def)
      next
        case (Some durations)
        note decoded = load_weights_finds [OF assms, where wctx = wctx1 and items = dec]
        show ?thesis
        proof (cases "missing gf dec")
          case True
          then obtain e where "load_weights L gf wctx1 dec = Some (Inl e)" using decoded by (auto split: option.splits sum.splits)
          then show ?thesis using one Some by (simp add: unfold decoder)
        next
          case False
          then obtain w2 where "load_weights L gf wctx1 dec = Some (Inr w2)" using decoded by (auto split: option.splits sum.splits)
          moreover have "gh_strings (gf_header gf) ''asr.vocab'' = None" using rest False Some by simp
          ultimately show ?thesis using one Some by (simp add: unfold decoder sp_detok_load_def)
        qed
      qed
      then show ?thesis using that(1) True by blast
    qed
  qed
qed

lemma pipeline_asr_load_sound:
  assumes "gf_load (mh_lib m) (mh_file m) (mh_parse m) (c_str path) = Inr gf" "gf_whole (mh_lib m) gf"
    and "mel_win (parakeet_mel_config (parakeet_read_hparams gf)) \<le> mc_n_fft (parakeet_mel_config (parakeet_read_hparams gf))"
  shows "load_sound (mh_lib m) gf (asr_items gf) (asr_absent gf) ap_wctx (pipeline_asr_load m path device)"
proof -
  obtain c where c: "audio_mel_compute_constants (mh_libm m) (parakeet_mel_config (parakeet_read_hparams gf)) = Some c"
    using constants_fill_their_tensors [where lm = "mh_libm m" and cfg = "parakeet_mel_config (parakeet_read_hparams gf)"] assms(3)
    by (auto split: option.splits)
  show ?thesis
  proof (cases rule: asr_weights_cases [OF assms(2)])
    case (1 e)
    then show ?thesis using assms(1) by (auto simp: pipeline_asr_load_def Let_def frees intro!: load_soundI)
  next
    case (2 ds sp wctx data)
    then show ?thesis using assms(1) c
      by (cases "mh_weights m") (auto simp: pipeline_asr_load_def Let_def frees no_upload intro!: load_soundI)
  qed
qed

text \<open>C38: A model is whole or not there. From a file that parses, with its places within the reach of a \<open>size_t\<close> and
  windows no longer than their frames, each of the four models loads without an access outside the file, which a
  truncated one does not allow to begin: it ends with every weight on the device, in the model's order, as the bytes of
  the tensor of its name or their conversion, and the file closed; or with an error, nothing held, but for the file when
  it misses a name, which leaks.\<close>

theorem loaded_model_is_whole:
  assumes "gf_load (mh_lib m) (mh_file m) (mh_parse m) (c_str path) = Inr gf" "gf_sane (mh_lib m) gf"
    and "mel_win (st_mel_config gf) \<le> mc_n_fft (st_mel_config gf)"
    and "mel_win (parakeet_mel_config (parakeet_read_hparams gf)) \<le> mc_n_fft (parakeet_mel_config (parakeet_read_hparams gf))"
  shows "load_sound (mh_lib m) gf sv_weights (missing gf sv_weights) snd (sv_init m (Some (c_str path))) \<and>
    load_sound (mh_lib m) gf (st_weights (gf_nat gf ''turn.n_layers''))
      (missing gf (st_weights (gf_nat gf ''turn.n_layers''))) (fst \<circ> snd) (st_load m (Some (c_str path))) \<and>
    load_sound (mh_lib m) gf lv_weights (missing gf lv_weights) (snd \<circ> snd) (lv_load m zero (Some (c_str path)) device) \<and>
    load_sound (mh_lib m) gf (asr_items gf) (asr_absent gf) ap_wctx
      (pk_init m (Some (pk_init_default_params\<lparr>pi_model_path := Some path, pi_device := device\<rparr>)))"
proof -
  note whole = loaded_file_whole [OF assms(1,2)]
  show ?thesis
    using sv_init_sound [OF assms(1) whole] st_load_sound [OF assms(1) whole assms(3)] lv_load_sound [OF assms(1) whole]
      pipeline_asr_load_sound [OF assms(1) whole assms(4)]
    by (simp add: pk_init_def pk_init_default_params_def PK_ABI_VERSION_def)
qed

definition toy_machine :: machine where
  "toy_machine = \<lparr>mh_lib = toy_ggml, mh_file = (\<lambda>_. Some [0, 1, 2, 3, 4, 5]),
     mh_parse = (\<lambda>_. Some (toy_header\<lparr>gh_u32 := (\<lambda>_. Some 400)\<rparr>)),
     mh_registry = \<lparr>rg_concurrency = 8, rg_names = [''CPU''], rg_named = (\<lambda>_. True), rg_init = (\<lambda>_. None),
       rg_best = Some \<lparr>be_name = ''CPU'', be_threads = None\<rparr>, rg_cpu_dev = Some \<lparr>be_name = ''CPU'', be_threads = None\<rparr>,
       rg_cpu_type = None, rg_set_threads = True\<rparr>,
     mh_libm = \<lparr>lm_cos = (\<lambda>_. 0), lm_sin = (\<lambda>_. 0), lm_sqrt = (\<lambda>_. 0), lm_pow = (\<lambda>_ _. 0), lm_cosf = (\<lambda>_. 0), lm_sinf = (\<lambda>_. 0),
       lm_sqrtf = (\<lambda>_. 0), lm_powf = (\<lambda>_ _. 0), lm_logf = (\<lambda>_. 0), lm_expf = (\<lambda>_. 0)\<rparr>,
     mh_weights = True, mh_constants = True, mh_arena = True, mh_second_arena = True, mh_graphs = True\<rparr>"

lemma toy_machine_loads:
  "gf_load (mh_lib toy_machine) (mh_file toy_machine) (mh_parse toy_machine) ''m'' =
   Inr \<lparr>gf_header = toy_header\<lparr>gh_u32 := (\<lambda>_. Some 400)\<rparr>, gf_mapping = [0, 1, 2, 3, 4, 5]\<rparr>"
  by (simp add: gf_load_def toy_machine_def toy_header_def toy_ggml_def size_t_def)

theorem loaded_model_is_whole_witness:
  "let gf = \<lparr>gf_header = toy_header\<lparr>gh_u32 := (\<lambda>_. Some 400)\<rparr>, gf_mapping = [0, 1, 2, 3, 4, 5]\<rparr> in
   load_sound toy_ggml gf sv_weights True snd (sv_init toy_machine (Some ''m''))"
proof -
  define gf where "gf = \<lparr>gf_header = toy_header\<lparr>gh_u32 := (\<lambda>_. Some 400)\<rparr>, gf_mapping = [0, 1, 2, 3, 4, 5 :: 8 word]\<rparr>"
  have path: "c_str ''m'' = ''m''" by (simp add: c_str_def)
  have load: "gf_load (mh_lib toy_machine) (mh_file toy_machine) (mh_parse toy_machine) (c_str ''m'') = Inr gf"
    unfolding path gf_def by (rule toy_machine_loads)
  have sane: "gf_sane (mh_lib toy_machine) gf" by (simp add: gf_sane_def gf_def toy_machine_def toy_header_def toy_ggml_def)
  have four: "gf_nat gf key = 400" "gf_int gf key = 400" for key
    by (simp_all add: gf_nat_def gf_int_def gf_get_u32_def gf_def toy_header_def)
  have wins: "mel_win (st_mel_config gf) \<le> mc_n_fft (st_mel_config gf)"
    "mel_win (parakeet_mel_config (parakeet_read_hparams gf)) \<le> mc_n_fft (parakeet_mel_config (parakeet_read_hparams gf))"
    by (simp_all add: mel_win_def st_mel_config_def mel_config_new_def parakeet_mel_config_def parakeet_read_hparams_def four)
  have "missing gf sv_weights" by (simp add: missing_def sv_weights_def as_f32_def gguf_find_tensor_def gf_def toy_header_def)
  moreover have "mh_lib toy_machine = toy_ggml" by (simp add: toy_machine_def)
  ultimately show ?thesis
    using loaded_model_is_whole [OF load sane wins, where zero = "0 :: nat" and device = None]
    unfolding Let_def gf_def [symmetric] path by simp
qed

text \<open>The leak: a file without the first weight leaves its mapping behind.\<close>

lemma missing_weight_leaks: "\<exists>e. sv_init toy_machine (Some ''m'') = Some (Inl e, [Mapped_File])"
proof -
  define gf where "gf = \<lparr>gf_header = toy_header\<lparr>gh_u32 := (\<lambda>_. Some 400)\<rparr>, gf_mapping = [0, 1, 2, 3, 4, 5 :: 8 word]\<rparr>"
  obtain rest where rest: "sv_weights = (''stft.basis'', True) # rest" by (simp add: sv_weights_def as_f32_def)
  have "gguf_find_tensor gf ''stft.basis'' = None" by (simp add: gguf_find_tensor_def gf_def toy_header_def)
  then obtain e where "load_weights (mh_lib toy_machine) gf (wctx_init sv_room) sv_weights = Some (Inl e)"
    by (simp add: rest gf_load_tensor_f32_def)
  moreover have "gf_load (mh_lib toy_machine) (mh_file toy_machine) (mh_parse toy_machine) ''m'' = Inr gf"
    unfolding gf_def by (rule toy_machine_loads)
  moreover have "backend_init_cpu (mh_registry toy_machine) 1 \<noteq> None"
    by (simp add: toy_machine_def backend_init_cpu_def cpu_backend_new_def)
  ultimately show ?thesis by (simp add: sv_init_def Let_def frees)
qed

text \<open>The classifier's window stays 400 samples long: a file of shorter frames has it written past its frame.\<close>

lemma short_frames_overflow:
  "gf_nat gf ''turn.n_fft'' < 400 \<Longrightarrow> audio_mel_compute_constants lm (st_mel_config gf) = None"
  by (simp add: audio_mel_compute_constants_def mel_hann_def mel_win_def st_mel_config_def mel_config_new_def Let_def)

end
